(* ===== verification/Prelude.thy ===== *)
theory Prelude
  imports "HOL-Library.Word" "HOL-Library.Sublist" "HOL-Library.Multiset"
begin

section \<open>Prelude: types, automation and generic lemmas\<close>

text \<open>
  The types and lemmas that every component shares. A Go \<^verbatim>\<open>string\<close> or \<^verbatim>\<open>[]byte\<close> is a
  list of characters, because a HOL character is exactly one byte. A Go error result is a
  value of the sum type, \<open>Inl\<close> for the error. The two locales at the end state what it means
  for an encoder to be unambiguous: \<open>prefix_code\<close> (no encoding can be confused with the
  beginning of another) and \<open>codec\<close> (a decoder inverts the encoder and returns the rest of
  the input). Every wire format of the program interprets one of them.
\<close>

named_theorems codec_simps
named_theorems go_simps

type_synonym bytes = "char list"
type_synonym u8 = "8 word"
type_synonym u32 = "32 word"
type_synonym u64 = "64 word"

subsection \<open>Results\<close>

definition is_err :: "'e + 'a \<Rightarrow> bool" where
  "is_err r = (case r of Inl _ \<Rightarrow> True | Inr _ \<Rightarrow> False)"

lemma is_err_simps [simp]: "is_err (Inl e)" "\<not> is_err (Inr v)"
  by (simp_all add: is_err_def)

lemma not_is_err_conv: "\<not> is_err r \<longleftrightarrow> (\<exists>v. r = Inr v)"
  by (cases r) simp_all

definition of_option :: "'e \<Rightarrow> 'a option \<Rightarrow> 'e + 'a" where
  "of_option e x = (case x of None \<Rightarrow> Inl e | Some v \<Rightarrow> Inr v)"

lemma of_option_simps [simp]: "of_option e None = Inl e" "of_option e (Some v) = Inr v"
  by (simp_all add: of_option_def)

lemma of_option_eq_Inr [simp]: "of_option e x = Inr v \<longleftrightarrow> x = Some v"
  by (cases x) simp_all

subsection \<open>Lists\<close>

lemma append_eq_same_length:
  "xs @ r = ys @ s \<Longrightarrow> length xs = length ys \<Longrightarrow> xs = ys \<and> r = s"
  by simp

lemma prefix_same_length: "prefix xs ys \<Longrightarrow> length xs = length ys \<Longrightarrow> xs = ys"
  by (auto simp: prefix_def)

lemma takeWhile_append_stop:
  "\<forall>x \<in> set xs. P x \<Longrightarrow> \<not> P y \<Longrightarrow> takeWhile P (xs @ y # ys) = xs"
  by (induction xs) auto

lemma append_stop_unique:
  assumes "xs @ c # r = ys @ c # s" and "c \<notin> set xs" and "c \<notin> set ys"
  shows "xs = ys \<and> r = s"
proof -
  have "takeWhile (\<lambda>x. x \<noteq> c) (xs @ c # r) = xs"
    using assms(2) by (intro takeWhile_append_stop) auto
  moreover have "takeWhile (\<lambda>x. x \<noteq> c) (ys @ c # s) = ys"
    using assms(3) by (intro takeWhile_append_stop) auto
  ultimately have "xs = ys" using assms(1) by metis
  then show ?thesis using assms(1) by simp
qed

lemma distinct_map_filter: "distinct (map f xs) \<Longrightarrow> distinct (map f (filter P xs))"
  by (induction xs) auto

subsection \<open>Association lists\<close>

text \<open>
  A Go map whose iteration matters is an association list with distinct keys;
  \<open>alist_put\<close> is \<^verbatim>\<open>m[k] = v\<close> and \<open>alist_del\<close> is \<^verbatim>\<open>delete(m, k)\<close>.
\<close>

fun alist_put :: "'k \<Rightarrow> 'v \<Rightarrow> ('k \<times> 'v) list \<Rightarrow> ('k \<times> 'v) list" where
  "alist_put k v [] = [(k, v)]"
| "alist_put k v ((k', v') # m) = (if k' = k then (k, v) # m else (k', v') # alist_put k v m)"

definition alist_del :: "'k \<Rightarrow> ('k \<times> 'v) list \<Rightarrow> ('k \<times> 'v) list" where
  "alist_del k m = filter (\<lambda>e. fst e \<noteq> k) m"

lemma map_of_alist_put [simp]: "map_of (alist_put k v m) = (map_of m)(k \<mapsto> v)"
  by (induction k v m rule: alist_put.induct) (auto simp: fun_eq_iff)

lemma keys_alist_put [simp]: "fst ` set (alist_put k v m) = insert k (fst ` set m)"
  by (simp flip: dom_map_of_conv_image_fst)

lemma distinct_alist_put [simp]:
  "distinct (map fst m) \<Longrightarrow> distinct (map fst (alist_put k v m))"
proof (induction k v m rule: alist_put.induct)
  case (2 k v k' v' m)
  have "fst ` set (alist_put k v m) = insert k (fst ` set m)" by simp
  with 2 show ?case by (auto simp: image_iff)
qed simp

lemma map_of_alist_del [simp]: "map_of (alist_del k m) = (map_of m)(k := None)"
  by (induction m) (auto simp: alist_del_def fun_eq_iff)

lemma keys_alist_del [simp]: "fst ` set (alist_del k m) = fst ` set m - {k}"
  by (auto simp: alist_del_def)

lemma distinct_alist_del [simp]:
  "distinct (map fst m) \<Longrightarrow> distinct (map fst (alist_del k m))"
  by (simp add: alist_del_def distinct_map_filter)

subsection \<open>Unambiguous encodings\<close>

locale prefix_code =
  fixes enc :: "'a \<Rightarrow> 'b list"
    and valid :: "'a \<Rightarrow> bool"
  assumes enc_unique: "valid x \<Longrightarrow> valid y \<Longrightarrow> enc x @ r = enc y @ s \<Longrightarrow> x = y \<and> r = s"
begin

lemma enc_inject: "valid x \<Longrightarrow> valid y \<Longrightarrow> enc x = enc y \<longleftrightarrow> x = y"
  using enc_unique [of x y "[]" "[]"] by auto

lemma enc_append_cancel:
  "valid x \<Longrightarrow> valid y \<Longrightarrow> enc x @ r = enc y @ s \<longleftrightarrow> x = y \<and> r = s"
  using enc_unique [of x y r s] by auto

lemma enc_prefix_free: "valid x \<Longrightarrow> valid y \<Longrightarrow> prefix (enc x) (enc y) \<Longrightarrow> x = y"
  by (metis enc_unique append_Nil2 prefix_def)

lemma concat_unique:
  "length xs = length ys \<Longrightarrow> list_all valid xs \<Longrightarrow> list_all valid ys \<Longrightarrow>
   concat (map enc xs) @ r = concat (map enc ys) @ s \<Longrightarrow> xs = ys \<and> r = s"
proof (induction xs ys rule: list_induct2)
  case (Cons x xs y ys)
  then show ?case using enc_unique [of x y] by fastforce
qed simp

end

locale codec =
  fixes enc :: "'a \<Rightarrow> 'b list"
    and dec :: "'b list \<Rightarrow> ('a \<times> 'b list) option"
    and valid :: "'a \<Rightarrow> bool"
  assumes dec_enc: "valid x \<Longrightarrow> dec (enc x @ r) = Some (x, r)"
begin

lemma dec_enc_end: "valid x \<Longrightarrow> dec (enc x) = Some (x, [])"
  using dec_enc [of x "[]"] by simp

end

sublocale codec \<subseteq> prefix_code enc valid
proof
  fix x y r s
  assume "valid x" "valid y" "enc x @ r = enc y @ s"
  then have "Some (x, r) = Some (y, s)" using dec_enc by metis
  then show "x = y \<and> r = s" by simp
qed

subsection \<open>Stores\<close>

text \<open>
  The contract of a keyed store: a lookup returns what was last put under its key and nothing
  else changes. The program's tables, registries and stores interpret it.
\<close>

locale keyed_store =
  fixes put :: "'k \<Rightarrow> 'v \<Rightarrow> 's \<Rightarrow> 's"
    and get :: "'s \<Rightarrow> 'k \<Rightarrow> 'v option"
  assumes get_put: "get (put k v s) k' = (if k' = k then Some v else get s k')"
begin

lemma get_put_same: "get (put k v s) k = Some v"
  by (simp add: get_put)

lemma get_put_other: "k' \<noteq> k \<Longrightarrow> get (put k v s) k' = get s k'"
  by (simp add: get_put)

lemma get_puts:
  "get (fold (\<lambda>(k, v). put k v) kvs s) k =
     (case map_of (rev kvs) k of Some v \<Rightarrow> Some v | None \<Rightarrow> get s k)"
proof (induction kvs rule: rev_induct)
  case (snoc x kvs)
  then show ?case by (cases x) (simp add: get_put)
qed simp

end

end
