(* ===== verification/GoStd.thy ===== *)
theory GoStd
  imports Prelude
begin

section \<open>The parts of the Go standard library the program uses\<close>

text \<open>
  \<^verbatim>\<open>encoding/binary\<close> (uvarints, big-endian words), \<^verbatim>\<open>strconv\<close> and \<^verbatim>\<open>fmt\<close> (decimal and
  padded numbers), \<^verbatim>\<open>strings\<close> and \<^verbatim>\<open>bytes\<close> (prefixes, separators, lines), \<^verbatim>\<open>encoding/hex\<close>
  and \<^verbatim>\<open>encoding/base64\<close>, as executable functions, with the round trips and bounds that the
  components rely on. A byte is a character; \<open>of_char\<close> reads it as a number, \<open>char_of\<close>
  truncates a number to a byte, as Go's conversion \<^verbatim>\<open>byte(x)\<close> does.
\<close>

subsection \<open>Bytes\<close>

abbreviation byte_val :: "char \<Rightarrow> nat" where
  "byte_val c \<equiv> of_char c"

abbreviation to_byte :: "nat \<Rightarrow> char" where
  "to_byte n \<equiv> char_of n"

lemma byte_val_to_byte [simp]: "byte_val (to_byte n) = n mod 256"
  by (simp add: of_char_of)

subsection \<open>Unsigned varints (encoding/binary)\<close>

text \<open>\<^verbatim>\<open>binary.AppendUvarint(nil, x)\<close>: seven bits a byte, low bits first.\<close>

fun append_uvarint :: "nat \<Rightarrow> bytes" where
  "append_uvarint x =
     (if x < 128 then [to_byte x] else to_byte (x mod 128 + 128) # append_uvarint (x div 128))"

declare append_uvarint.simps [simp del]

text \<open>
  \<^verbatim>\<open>binary.Uvarint\<close>: the value and the number of bytes read, \<open>0\<close> bytes for a buffer that
  is too short and a negative count for a value that overflows 64 bits. \<open>i\<close> is the loop
  index and \<open>x\<close> the accumulated value; the shift is \<open>7 * i\<close>.
\<close>

fun uvarint_loop :: "nat \<Rightarrow> nat \<Rightarrow> bytes \<Rightarrow> nat \<times> int" where
  "uvarint_loop i x [] = (0, 0)"
| "uvarint_loop i x (b # bs) =
     (if i = 10 then (0, - int (i + 1))
      else if byte_val b < 128 then
        (if i = 9 \<and> byte_val b > 1 then (0, - int (i + 1))
         else (x + byte_val b * 2 ^ (7 * i), int (i + 1)))
      else uvarint_loop (i + 1) (x + (byte_val b mod 128) * 2 ^ (7 * i)) bs)"

definition uvarint :: "bytes \<Rightarrow> nat \<times> int" where
  "uvarint buf = uvarint_loop 0 0 buf"

definition uvarint_split :: "bytes \<Rightarrow> (nat \<times> bytes) option" where
  "uvarint_split buf =
     (let (n, size) = uvarint buf in if size \<le> 0 then None else Some (n, drop (nat size) buf))"

lemma append_uvarint_small: "x < 128 \<Longrightarrow> append_uvarint x = [to_byte x]"
  by (simp add: append_uvarint.simps)

lemma append_uvarint_big:
  "128 \<le> x \<Longrightarrow> append_uvarint x = to_byte (x mod 128 + 128) # append_uvarint (x div 128)"
  by (subst append_uvarint.simps) simp

lemma append_uvarint_not_Nil [simp]: "append_uvarint x \<noteq> []"
  by (subst append_uvarint.simps) simp

lemma uvarint_loop_append:
  "x * 2 ^ (7 * i) < 2 ^ 64 \<Longrightarrow> i \<le> 9 \<Longrightarrow>
   uvarint_loop i a (append_uvarint x @ r) =
     (a + x * 2 ^ (7 * i), int (i + length (append_uvarint x)))"
proof (induction x arbitrary: i a rule: append_uvarint.induct)
  case (1 x)
  show ?case
  proof (cases "x < 128")
    case True
    have "\<not> (i = 9 \<and> x > 1)"
    proof
      assume "i = 9 \<and> x > 1"
      with "1.prems"(1) have "x * 2 ^ 63 < (2 :: nat) ^ 64" "2 \<le> x" by auto
      then show False by simp
    qed
    with True "1.prems"(2) show ?thesis by (auto simp: append_uvarint_small)
  next
    case False
    define q m where "q = x div 128" and "m = x mod 128"
    have x: "x = 128 * q + m" by (simp add: q_def m_def)
    have m: "m < 128" by (simp add: m_def)
    have q1: "1 \<le> q" using False by (simp add: q_def)
    have pow: "(2 :: nat) ^ (7 * (i + 1)) = 128 * 2 ^ (7 * i)"
      by (simp add: power_add)
    have le: "q * 2 ^ (7 * (i + 1)) \<le> x * 2 ^ (7 * i)"
    proof -
      have "q * 128 \<le> x" using x by simp
      then have "(q * 128) * 2 ^ (7 * i) \<le> x * 2 ^ (7 * i)" by (rule mult_le_mono1)
      then show ?thesis by (simp only: pow mult.assoc)
    qed
    have i9: "i + 1 \<le> 9"
    proof (rule ccontr)
      assume "\<not> i + 1 \<le> 9"
      with "1.prems"(2) have "i = 9" by simp
      with le q1 "1.prems"(1) have "q * 2 ^ 70 < (2 :: nat) ^ 64" by simp
      with q1 show False by simp
    qed
    have IH: "uvarint_loop (i + 1) a' (append_uvarint q @ r) =
        (a' + q * 2 ^ (7 * (i + 1)), int (i + 1 + length (append_uvarint q)))" for a'
      using "1.IH" [of "i + 1" a'] False le "1.prems"(1) i9 by (simp add: q_def)
    have b: "byte_val (to_byte (m + 128)) = m + 128" using m by simp
    have sum: "a + m * 2 ^ (7 * i) + q * 2 ^ (7 * (i + 1)) = a + x * 2 ^ (7 * i)"
      by (simp only: x pow) (simp add: algebra_simps)
    have big: "append_uvarint x = to_byte (m + 128) # append_uvarint q"
      using False by (simp add: append_uvarint_big q_def m_def)
    have "uvarint_loop i a (append_uvarint x @ r) =
        uvarint_loop (i + 1) (a + m * 2 ^ (7 * i)) (append_uvarint q @ r)"
      using i9 m by (simp add: big b del: byte_val_to_byte)
    also have "\<dots> = (a + m * 2 ^ (7 * i) + q * 2 ^ (7 * (i + 1)),
        int (i + 1 + length (append_uvarint q)))" by (rule IH)
    finally show ?thesis by (simp only: sum) (simp add: big)
  qed
qed

lemma uvarint_append:
  "x < 2 ^ 64 \<Longrightarrow> uvarint (append_uvarint x @ r) = (x, int (length (append_uvarint x)))"
  using uvarint_loop_append [of x 0 0 r] by (simp add: uvarint_def)

lemma uvarint_split_append: "x < 2 ^ 64 \<Longrightarrow> uvarint_split (append_uvarint x @ r) = Some (x, r)"
  by (simp add: uvarint_split_def uvarint_append Let_def)

interpretation uvarint: codec append_uvarint uvarint_split "\<lambda>n. n < 2 ^ 64"
  by unfold_locales (rule uvarint_split_append)

text \<open>Without the 64-bit bound the encoder is still unambiguous.\<close>

lemma append_uvarint_unique:
  "append_uvarint x @ r = append_uvarint y @ s \<Longrightarrow> x = y \<and> r = s"
proof (induction x arbitrary: y rule: append_uvarint.induct)
  case (1 x)
  have small: "byte_val (to_byte z) < 128" if "z < 128" for z :: nat using that by simp
  have large: "\<not> byte_val (to_byte (z mod 128 + 128)) < 128" for z :: nat by simp
  show ?case
  proof (cases "x < 128")
    case True
    have "y < 128"
    proof (rule ccontr)
      assume "\<not> y < 128"
      with "1.prems" True have "to_byte x = to_byte (y mod 128 + 128)"
        by (simp add: append_uvarint_small append_uvarint_big)
      then show False using small [OF True] large [of y] by simp
    qed
    with True "1.prems" show ?thesis by (simp add: append_uvarint_small)
  next
    case False
    have "\<not> y < 128"
    proof
      assume y: "y < 128"
      with "1.prems" False have "to_byte y = to_byte (x mod 128 + 128)"
        by (simp add: append_uvarint_small append_uvarint_big)
      then show False using small [OF y] large [of x] by simp
    qed
    with False "1.prems" have eq: "to_byte (x mod 128 + 128) = to_byte (y mod 128 + 128)"
      and rest: "append_uvarint (x div 128) @ r = append_uvarint (y div 128) @ s"
      by (simp_all add: append_uvarint_big)
    from eq have "(x mod 128 + 128) mod 256 = (y mod 128 + 128) mod 256"
      by (simp only: char_of_quasi_inj)
    then have "x mod 128 = y mod 128" by simp
    moreover from "1.IH" [OF False rest] have "x div 128 = y div 128" "r = s" by simp_all
    ultimately show ?thesis by (metis div_mult_mod_eq)
  qed
qed

interpretation uvarint_all: prefix_code append_uvarint "\<lambda>_. True"
  by unfold_locales (rule append_uvarint_unique)

text \<open>A length-prefixed byte string, the field format of three of the program's encodings.\<close>

definition length_prefixed :: "bytes \<Rightarrow> bytes" where
  "length_prefixed f = append_uvarint (length f) @ f"

lemma length_prefixed_unique:
  assumes "length_prefixed f @ r = length_prefixed g @ s"
  shows "f = g \<and> r = s"
proof -
  from assms have "append_uvarint (length f) @ (f @ r) = append_uvarint (length g) @ (g @ s)"
    by (simp add: length_prefixed_def)
  then have "length f = length g \<and> f @ r = g @ s" by (rule append_uvarint_unique)
  then show ?thesis by (metis append_eq_append_conv)
qed

interpretation field: prefix_code length_prefixed "\<lambda>_. True"
  by unfold_locales (rule length_prefixed_unique)

subsection \<open>Big-endian words (encoding/binary)\<close>

fun be_bytes :: "nat \<Rightarrow> nat \<Rightarrow> bytes" where
  "be_bytes 0 n = []"
| "be_bytes (Suc k) n = to_byte (n div 256 ^ k) # be_bytes k n"

fun be_val :: "bytes \<Rightarrow> nat" where
  "be_val [] = 0"
| "be_val (b # bs) = byte_val b * 256 ^ length bs + be_val bs"

lemma length_be_bytes [simp]: "length (be_bytes k n) = k"
  by (induction k) simp_all

lemma be_val_be_bytes: "be_val (be_bytes k n) = n mod 256 ^ k"
proof (induction k)
  case (Suc k)
  have "n mod (256 ^ k * 256) = 256 ^ k * (n div 256 ^ k mod 256) + n mod 256 ^ k"
    by (rule mod_mult2_eq)
  with Suc show ?case by (simp add: mult.commute)
qed simp

lemma be_val_bound: "be_val bs < 256 ^ length bs"
proof (induction bs)
  case (Cons b bs)
  have "byte_val b * 256 ^ length bs + be_val bs < byte_val b * 256 ^ length bs + 256 ^ length bs"
    using Cons by simp
  also have "\<dots> = Suc (byte_val b) * 256 ^ length bs" by simp
  also have "\<dots> \<le> 256 * 256 ^ length bs"
    by (rule mult_le_mono1) (use nat_of_char_less_256 [of b] in linarith)
  finally show ?case by simp
qed simp

lemma be_val_inj: "length xs = length ys \<Longrightarrow> be_val xs = be_val ys \<Longrightarrow> xs = ys"
proof (induction xs ys rule: list_induct2)
  case (Cons x xs y ys)
  let ?p = "256 ^ length ys :: nat"
  have bx: "be_val xs < ?p" and by': "be_val ys < ?p"
    using be_val_bound [of xs] be_val_bound [of ys] Cons.hyps by simp_all
  have eq: "byte_val x * ?p + be_val xs = byte_val y * ?p + be_val ys"
    using Cons.prems Cons.hyps by simp
  then have "(byte_val x * ?p + be_val xs) div ?p = (byte_val y * ?p + be_val ys) div ?p"
    by simp
  then have "byte_val x = byte_val y" using bx by' by simp
  with eq Cons.IH show ?case by simp
qed simp

text \<open>\<^verbatim>\<open>binary.Read\<close> of a big-endian word of \<open>k\<close> bytes: the value and the rest, or an error.\<close>

definition read_be :: "nat \<Rightarrow> bytes \<Rightarrow> (nat \<times> bytes) option" where
  "read_be k bs = (if length bs < k then None else Some (be_val (take k bs), drop k bs))"

lemma read_be_be_bytes: "n < 256 ^ k \<Longrightarrow> read_be k (be_bytes k n @ r) = Some (n, r)"
  by (simp add: read_be_def be_val_be_bytes)

interpretation be32: codec "be_bytes 4" "read_be 4" "\<lambda>n. n < 2 ^ 32"
  by unfold_locales (simp add: read_be_be_bytes)

interpretation be64: codec "be_bytes 8" "read_be 8" "\<lambda>n. n < 2 ^ 64"
  by unfold_locales (simp add: read_be_be_bytes)

end
