(* ===== verification/GoText.thy ===== *)
theory GoText
  imports GoStd "HOL-Library.Char_ord" "HOL-Library.List_Lexorder"
begin

section \<open>Text: separators, decimal numbers, hex and base64\<close>

text \<open>
  The string functions of \<^verbatim>\<open>strings\<close>, \<^verbatim>\<open>strconv\<close>, \<^verbatim>\<open>fmt\<close>, \<^verbatim>\<open>encoding/hex\<close> and
  \<^verbatim>\<open>encoding/base64\<close> that the program calls, each with its round trip.
\<close>

abbreviation nl :: char where
  "nl \<equiv> CHR 0x0A"

subsection \<open>Prefixes, suffixes and separators (strings)\<close>

definition trim_prefix :: "bytes \<Rightarrow> bytes \<Rightarrow> bytes" where
  "trim_prefix s p = (if prefix p s then drop (length p) s else s)"

definition trim_suffix :: "bytes \<Rightarrow> bytes \<Rightarrow> bytes" where
  "trim_suffix s p = (if suffix p s then take (length s - length p) s else s)"

text \<open>\<^verbatim>\<open>strings.Split(s, sep)\<close> for a separator of one byte.\<close>

fun split_on :: "char \<Rightarrow> bytes \<Rightarrow> bytes list" where
  "split_on c [] = [[]]"
| "split_on c (x # xs) =
     (if x = c then [] # split_on c xs
      else (case split_on c xs of [] \<Rightarrow> [[x]] | l # ls \<Rightarrow> (x # l) # ls))"

text \<open>\<^verbatim>\<open>strings.Lines\<close>: the lines with their newline, no empty last line.\<close>

definition lines_of :: "bytes \<Rightarrow> bytes list" where
  "lines_of s =
     (let ps = split_on nl s in
      map (\<lambda>l. l @ [nl]) (butlast ps) @ (if last ps = [] then [] else [last ps]))"

text \<open>\<^verbatim>\<open>bytes.Index\<close>: the first position of a pattern.\<close>

fun find_sub :: "bytes \<Rightarrow> bytes \<Rightarrow> nat option" where
  "find_sub p [] = (if p = [] then Some 0 else None)"
| "find_sub p (x # xs) =
     (if prefix p (x # xs) then Some 0 else map_option Suc (find_sub p xs))"

lemma trim_prefix_append [simp]: "trim_prefix (p @ s) p = s"
  by (simp add: trim_prefix_def)

lemma trim_suffix_append [simp]: "trim_suffix (s @ p) p = s"
  by (simp add: trim_suffix_def suffix_def)

lemma split_on_not_Nil [simp]: "split_on c s \<noteq> []"
  by (induction s) (auto split: list.splits)

lemma split_on_free [simp]: "c \<notin> set s \<Longrightarrow> split_on c s = [s]"
  by (induction s) auto

lemma split_on_append [simp]: "c \<notin> set a \<Longrightarrow> split_on c (a @ c # b) = a # split_on c b"
  by (induction a) auto

lemma split_on_pieces: "p \<in> set (split_on c s) \<Longrightarrow> c \<notin> set p"
  by (induction s arbitrary: p) (auto split: list.splits if_splits)

lemma split_on_concat:
  "split_on c s = ps \<Longrightarrow> concat (map (\<lambda>p. p @ [c]) ps) = s @ [c]"
proof (induction s arbitrary: ps)
  case (Cons x xs)
  obtain l ls where ps': "split_on c xs = l # ls"
    by (metis neq_Nil_conv split_on_not_Nil)
  with Cons.IH [OF ps'] Cons.prems show ?case by auto
qed auto

lemma lines_of_Nil [simp]: "lines_of [] = []"
  by (simp add: lines_of_def)

lemma lines_of_append [simp]: "nl \<notin> set a \<Longrightarrow> lines_of (a @ nl # b) = (a @ [nl]) # lines_of b"
  by (simp add: lines_of_def Let_def)

lemma lines_of_concat [simp]:
  "list_all (\<lambda>l. nl \<notin> set l) ls \<Longrightarrow>
   lines_of (concat (map (\<lambda>l. l @ [nl]) ls) @ r) = map (\<lambda>l. l @ [nl]) ls @ lines_of r"
  by (induction ls) simp_all

lemma find_sub_Some: "find_sub p s = Some i \<Longrightarrow> \<exists>r. s = take i s @ p @ r"
proof (induction p s arbitrary: i rule: find_sub.induct)
  case (2 p x xs)
  then show ?case by (cases i) (auto simp: prefix_def split: if_splits)
qed (auto split: if_splits)

lemma find_sub_first:
  "find_sub p s = Some i \<Longrightarrow> j < i \<Longrightarrow> \<not> prefix p (drop j s)"
proof (induction p s arbitrary: i j rule: find_sub.induct)
  case (2 p x xs)
  then show ?case by (cases j) (auto split: if_splits)
qed (auto split: if_splits)

lemma find_sub_None: "find_sub p s = None \<Longrightarrow> \<not> (\<exists>a b. s = a @ p @ b)"
proof (induction p s rule: find_sub.induct)
  case (2 p x xs)
  have "\<not> (\<exists>a b. xs = a @ p @ b)" using 2 by (auto split: if_splits)
  moreover have "\<not> prefix p (x # xs)" using 2 by (auto split: if_splits)
  ultimately show ?case by (auto simp: prefix_def Cons_eq_append_conv)
qed (auto split: if_splits)

subsection \<open>Decimal numbers (strconv, fmt)\<close>

definition is_digit :: "char \<Rightarrow> bool" where
  "is_digit c \<longleftrightarrow> 48 \<le> byte_val c \<and> byte_val c \<le> 57"

definition digit_val :: "char \<Rightarrow> nat" where
  "digit_val c = byte_val c - 48"

fun dec_digits :: "nat \<Rightarrow> bytes" where
  "dec_digits n =
     (if n < 10 then [to_byte (48 + n)] else dec_digits (n div 10) @ [to_byte (48 + n mod 10)])"

declare dec_digits.simps [simp del]

definition digits_val :: "bytes \<Rightarrow> nat" where
  "digits_val s = foldl (\<lambda>a c. 10 * a + digit_val c) 0 s"

text \<open>\<^verbatim>\<open>strconv.ParseUint(s, 10, 64)\<close> and \<^verbatim>\<open>strconv.ParseInt(s, 10, 64)\<close>; an error is \<open>None\<close>.\<close>

definition parse_uint64 :: "bytes \<Rightarrow> nat option" where
  "parse_uint64 s =
     (if s = [] \<or> \<not> list_all is_digit s then None
      else let n = digits_val s in if n < 2 ^ 64 then Some n else None)"

definition parse_int64 :: "bytes \<Rightarrow> int option" where
  "parse_int64 s =
     (case s of [] \<Rightarrow> None
      | c # r \<Rightarrow>
        (let neg = (c = CHR ''-''); u = (if neg \<or> c = CHR ''+'' then r else s) in
         case parse_uint64 u of None \<Rightarrow> None
         | Some un \<Rightarrow>
           if \<not> neg \<and> un \<ge> 2 ^ 63 then None
           else if neg \<and> un > 2 ^ 63 then None
           else Some (if neg then - int un else int un)))"

text \<open>\<^verbatim>\<open>%d\<close> and \<^verbatim>\<open>%0kd\<close> of a signed integer.\<close>

definition fmt_int :: "int \<Rightarrow> bytes" where
  "fmt_int i = (if i < 0 then CHR ''-'' # dec_digits (nat (- i)) else dec_digits (nat i))"

definition pad0 :: "nat \<Rightarrow> bytes \<Rightarrow> bytes" where
  "pad0 k s = replicate (k - length s) CHR ''0'' @ s"

definition fmt_pad :: "nat \<Rightarrow> int \<Rightarrow> bytes" where
  "fmt_pad k i =
     (if i < 0 then CHR ''-'' # pad0 (k - 1) (dec_digits (nat (- i))) else pad0 k (dec_digits (nat i)))"

lemma is_digit_to_byte [simp]: "n < 10 \<Longrightarrow> is_digit (to_byte (48 + n))"
  by (simp add: is_digit_def)

lemma digit_val_to_byte [simp]: "n < 10 \<Longrightarrow> digit_val (to_byte (48 + n)) = n"
  by (simp add: digit_val_def)

lemma digits_val_snoc [simp]: "digits_val (s @ [c]) = 10 * digits_val s + digit_val c"
  by (simp add: digits_val_def)

lemma digits_val_Nil [simp]: "digits_val [] = 0"
  by (simp add: digits_val_def)

lemma dec_digits_not_Nil [simp]: "dec_digits n \<noteq> []"
  by (subst dec_digits.simps) simp

lemma list_all_is_digit_dec_digits [simp]: "list_all is_digit (dec_digits n)"
proof (induction n rule: dec_digits.induct)
  case (1 n)
  then show ?case by (cases "n < 10") (simp_all add: dec_digits.simps [of n])
qed

lemma digits_val_dec_digits [simp]: "digits_val (dec_digits n) = n"
proof (induction n rule: dec_digits.induct)
  case (1 n)
  show ?case
  proof (cases "n < 10")
    case True
    then have "digits_val ([] @ [to_byte (48 + n)]) = n" by (simp only: digits_val_snoc) simp
    with True show ?thesis by (simp add: dec_digits.simps [of n])
  next
    case False
    with 1 show ?thesis by (simp add: dec_digits.simps [of n])
  qed
qed

lemma dec_digits_inj: "dec_digits m = dec_digits n \<Longrightarrow> m = n"
  by (metis digits_val_dec_digits)

lemma length_dec_digits: "n < 10 ^ k \<Longrightarrow> 0 < k \<Longrightarrow> length (dec_digits n) \<le> k"
proof (induction n arbitrary: k rule: dec_digits.induct)
  case (1 n)
  show ?case
  proof (cases "n < 10")
    case True
    with 1 show ?thesis by (simp add: dec_digits.simps [of n])
  next
    case False
    with "1.prems" obtain j where k: "k = Suc j" and j: "0 < j"
      by (cases k; cases "k - 1") auto
    with "1.prems" have "n div 10 < 10 ^ j" by (simp add: less_mult_imp_div_less mult.commute)
    with "1.IH" False j have "length (dec_digits (n div 10)) \<le> j" by simp
    with False k show ?thesis by (simp add: dec_digits.simps [of n])
  qed
qed

lemma dec_digits_no_leading_zero: "0 < n \<Longrightarrow> hd (dec_digits n) \<noteq> CHR ''0''"
proof (induction n rule: dec_digits.induct)
  case (1 n)
  show ?case
  proof (cases "n < 10")
    case True
    have "to_byte (48 + n) \<noteq> CHR ''0''"
    proof
      assume "to_byte (48 + n) = CHR ''0''"
      then have "byte_val (to_byte (48 + n)) = byte_val CHR ''0''" by simp
      with True 1 show False by simp
    qed
    with True show ?thesis by (simp add: dec_digits.simps [of n])
  next
    case False
    with 1 have "hd (dec_digits (n div 10)) \<noteq> CHR ''0''" by simp
    with False show ?thesis by (simp add: dec_digits.simps [of n] hd_append)
  qed
qed

lemma dec_digits_0 [simp]: "dec_digits 0 = ''0''"
  by (subst dec_digits.simps) (simp add: char_of_eq_iff)

lemma not_digit_special [simp]:
  "\<not> is_digit CHR ''-''" "\<not> is_digit CHR ''+''" "\<not> is_digit CHR ''/''" "\<not> is_digit nl"
  "\<not> is_digit CHR ''.''" "is_digit CHR ''0''"
  by (simp_all add: is_digit_def)

lemma dec_digits_free: "\<not> is_digit c \<Longrightarrow> c \<notin> set (dec_digits n)"
  using list_all_is_digit_dec_digits [of n] by (auto simp: list_all_iff)

lemma parse_uint64_dec_digits [simp]:
  "n < 2 ^ 64 \<Longrightarrow> parse_uint64 (dec_digits n) = Some n"
  by (simp add: parse_uint64_def Let_def)

lemma parse_uint64_bound: "parse_uint64 s = Some n \<Longrightarrow> n < 2 ^ 64"
  by (auto simp: parse_uint64_def Let_def split: if_splits)

lemma parse_int64_dec_digits [simp]:
  assumes "n < 2 ^ 63"
  shows "parse_int64 (dec_digits n) = Some (int n)"
proof -
  obtain c r where s: "dec_digits n = c # r" by (metis dec_digits_not_Nil list.exhaust)
  then have "is_digit c" using list_all_is_digit_dec_digits [of n] by simp
  then have c: "c \<noteq> CHR ''-''" "c \<noteq> CHR ''+''" by (auto simp: is_digit_def)
  have "parse_uint64 (c # r) = Some n"
    using assms parse_uint64_dec_digits [of n] by (simp add: s)
  with c assms show ?thesis by (simp add: parse_int64_def s Let_def)
qed

lemma parse_int64_range: "parse_int64 s = Some i \<Longrightarrow> - (2 ^ 63) \<le> i \<and> i < 2 ^ 63"
  by (auto simp: parse_int64_def Let_def split: list.splits option.splits if_splits)

lemma parse_int64_fmt_int: "0 \<le> i \<Longrightarrow> i < 2 ^ 63 \<Longrightarrow> parse_int64 (fmt_int i) = Some i"
  by (simp add: fmt_int_def nat_less_iff)

lemma digits_val_append: "digits_val (a @ b) = digits_val a * 10 ^ length b + digits_val b"
proof (induction b rule: rev_induct)
  case (snoc c b)
  then show ?case by (simp flip: append_assoc add: algebra_simps)
qed simp

lemma digits_val_Cons: "digits_val (c # s) = digit_val c * 10 ^ length s + digits_val s"
  using digits_val_append [of "[c]" s] by (simp add: digits_val_def)

lemma digits_val_zeros [simp]: "digits_val (replicate k CHR ''0'') = 0"
  by (induction k) (simp_all add: digits_val_Cons digit_val_def)

lemma digits_val_pad0 [simp]: "digits_val (pad0 k s) = digits_val s"
  by (simp add: pad0_def digits_val_append)

lemma length_pad0: "length s \<le> k \<Longrightarrow> length (pad0 k s) = k"
  by (simp add: pad0_def)

lemma list_all_is_digit_pad0 [simp]: "list_all is_digit (pad0 k s) \<longleftrightarrow> list_all is_digit s"
  by (auto simp: pad0_def list_all_iff)

lemma fmt_pad_inj: "0 \<le> i \<Longrightarrow> 0 \<le> j \<Longrightarrow> fmt_pad k i = fmt_pad k j \<Longrightarrow> i = j"
  by (metis digits_val_dec_digits digits_val_pad0 eq_nat_nat_iff fmt_pad_def linorder_not_le)

lemma length_fmt_pad: "0 \<le> i \<Longrightarrow> i < 10 ^ k \<Longrightarrow> 0 < k \<Longrightarrow> length (fmt_pad k i) = k"
  by (simp add: fmt_pad_def length_pad0 length_dec_digits nat_less_iff)

lemma fmt_pad_digits: "0 \<le> i \<Longrightarrow> list_all is_digit (fmt_pad k i)"
  by (simp add: fmt_pad_def)

text \<open>
  Go compares strings byte by byte, which is the lexicographic order the library puts on lists
  of characters. On digit strings of one length it is the order of the numbers.
\<close>

lemma digits_val_less: "list_all is_digit s \<Longrightarrow> digits_val s < 10 ^ length s"
proof (induction s)
  case (Cons c s)
  then have "digit_val c \<le> 9" by (auto simp: is_digit_def digit_val_def)
  then have "digit_val c * 10 ^ length s \<le> 9 * 10 ^ length s" by (rule mult_le_mono1)
  moreover have "digits_val s < 10 ^ length s" using Cons by simp
  ultimately show ?case unfolding digits_val_Cons length_Cons power_Suc by linarith
qed simp

lemma digit_strings_less:
  "length a = length b \<Longrightarrow> list_all is_digit a \<Longrightarrow> list_all is_digit b \<Longrightarrow>
   a < b \<longleftrightarrow> digits_val a < digits_val b"
proof (induction a b rule: list_induct2)
  case (Cons x xs y ys)
  let ?p = "10 ^ length ys :: nat"
  have bx: "digits_val xs < ?p" and by': "digits_val ys < ?p"
    using digits_val_less [of xs] digits_val_less [of ys] Cons.prems Cons.hyps by simp_all
  have dig: "is_digit x" "is_digit y" using Cons.prems by simp_all
  consider "x = y" | "digit_val x < digit_val y" "x < y" | "digit_val y < digit_val x" "y < x"
  proof -
    have "byte_val x = byte_val y \<or> byte_val x < byte_val y \<or> byte_val y < byte_val x" by linarith
    with dig show ?thesis
      by (elim disjE) (auto intro: that simp: is_digit_def digit_val_def less_char_def)
  qed
  then show ?case
  proof cases
    case 1
    with Cons show ?thesis by (simp add: digits_val_Cons)
  next
    case 2
    then have "Suc (digit_val x) * ?p \<le> digit_val y * ?p" by (intro mult_le_mono1) simp
    with 2 bx Cons.hyps show ?thesis by (simp add: digits_val_Cons)
  next
    case 3
    then have "Suc (digit_val y) * ?p \<le> digit_val x * ?p" by (intro mult_le_mono1) simp
    with 3 by' Cons.hyps show ?thesis by (auto simp: digits_val_Cons)
  qed
qed simp

lemma fmt_pad_less:
  assumes "0 \<le> i" "i < 10 ^ k" "0 \<le> j" "j < 10 ^ k" "0 < k"
  shows "fmt_pad k i < fmt_pad k j \<longleftrightarrow> i < j"
proof -
  have "digits_val (fmt_pad k i) = nat i" "digits_val (fmt_pad k j) = nat j"
    using assms by (simp_all add: fmt_pad_def)
  with assms show ?thesis
    by (subst digit_strings_less) (auto simp: length_fmt_pad fmt_pad_digits)
qed

subsection \<open>Hexadecimal (encoding/hex)\<close>

definition hex_char :: "nat \<Rightarrow> char" where
  "hex_char n = (if n < 10 then to_byte (48 + n) else to_byte (87 + n))"

definition unhex :: "char \<Rightarrow> nat option" where
  "unhex c =
     (let v = byte_val c in
      if 48 \<le> v \<and> v \<le> 57 then Some (v - 48)
      else if 97 \<le> v \<and> v \<le> 102 then Some (v - 87)
      else if 65 \<le> v \<and> v \<le> 70 then Some (v - 55)
      else None)"

fun hex_encode :: "bytes \<Rightarrow> bytes" where
  "hex_encode [] = []"
| "hex_encode (b # bs) =
     hex_char (byte_val b div 16) # hex_char (byte_val b mod 16) # hex_encode bs"

fun hex_decode :: "bytes \<Rightarrow> bytes option" where
  "hex_decode [] = Some []"
| "hex_decode [c] = None"
| "hex_decode (c # d # r) =
     (case (unhex c, unhex d) of
        (Some h, Some l) \<Rightarrow> map_option (\<lambda>bs. to_byte (16 * h + l) # bs) (hex_decode r)
      | _ \<Rightarrow> None)"

lemma unhex_hex_char [simp]: "n < 16 \<Longrightarrow> unhex (hex_char n) = Some n"
  by (simp add: unhex_def hex_char_def Let_def)

lemma to_byte_byte_val [simp]: "to_byte (16 * (byte_val b div 16) + byte_val b mod 16) = b"
  by (simp add: mult.commute)

lemma hex_decode_encode [simp]: "hex_decode (hex_encode bs) = Some bs"
  by (induction bs) (simp_all add: div_less_iff_less_mult)

lemma length_hex_encode [simp]: "length (hex_encode bs) = 2 * length bs"
  by (induction bs) simp_all

lemma hex_encode_inj: "hex_encode a = hex_encode b \<Longrightarrow> a = b"
  by (metis hex_decode_encode option.inject)

lemma hex_decode_length: "hex_decode s = Some bs \<Longrightarrow> length s = 2 * length bs"
  by (induction s arbitrary: bs rule: hex_decode.induct)
    (auto split: option.splits prod.splits)

lemma hex_chars: "set (hex_encode h) \<subseteq> set ''0123456789abcdef''"
proof (induction h)
  case (Cons b h)
  have "list_all (\<lambda>n. hex_char n \<in> set ''0123456789abcdef'') [0..<16]" by code_simp
  then have "hex_char n \<in> set ''0123456789abcdef''" if "n < 16" for n
    using that by (simp only: list_all_iff set_upt) auto
  moreover have "byte_val b div 16 < 16" "byte_val b mod 16 < 16"
    using nat_of_char_less_256 [of b] by (simp_all add: div_less_iff_less_mult)
  ultimately show ?case using Cons.IH by simp
qed simp

text \<open>\<^verbatim>\<open>%08x\<close> of a 32-bit word.\<close>

definition fmt_08x :: "u32 \<Rightarrow> bytes" where
  "fmt_08x h = hex_encode (be_bytes 4 (unat h))"

lemma length_fmt_08x [simp]: "length (fmt_08x h) = 8"
  by (simp add: fmt_08x_def)

lemma fmt_08x_inj: "fmt_08x g = fmt_08x h \<Longrightarrow> g = h"
proof -
  assume "fmt_08x g = fmt_08x h"
  then have "be_val (be_bytes 4 (unat g)) = be_val (be_bytes 4 (unat h))"
    by (auto simp: fmt_08x_def dest: hex_encode_inj)
  moreover have "unat g < 2 ^ 32" "unat h < 2 ^ 32" using unsigned_less [of g] unsigned_less [of h] by simp_all
  ultimately have "unat g = unat h" by (simp add: be_val_be_bytes)
  then show "g = h" by (rule unsigned_word_eqI)
qed

subsection \<open>Base64 (encoding/base64, standard alphabet, padded)\<close>

definition b64_char :: "nat \<Rightarrow> char" where
  "b64_char n =
     (if n < 26 then to_byte (65 + n)
      else if n < 52 then to_byte (71 + n)
      else if n < 62 then to_byte (n - 4)
      else if n = 62 then CHR ''+'' else CHR ''/'')"

definition b64_val :: "char \<Rightarrow> nat option" where
  "b64_val c =
     (let v = byte_val c in
      if 65 \<le> v \<and> v \<le> 90 then Some (v - 65)
      else if 97 \<le> v \<and> v \<le> 122 then Some (v - 71)
      else if 48 \<le> v \<and> v \<le> 57 then Some (v + 4)
      else if v = 43 then Some 62
      else if v = 47 then Some 63
      else None)"

abbreviation b64_pad :: char where
  "b64_pad \<equiv> CHR ''=''"

fun b64_encode :: "bytes \<Rightarrow> bytes" where
  "b64_encode [] = []"
| "b64_encode [a] =
     (let x = byte_val a * 65536 in
      [b64_char (x div 262144), b64_char (x div 4096 mod 64), b64_pad, b64_pad])"
| "b64_encode [a, b] =
     (let x = byte_val a * 65536 + byte_val b * 256 in
      [b64_char (x div 262144), b64_char (x div 4096 mod 64), b64_char (x div 64 mod 64), b64_pad])"
| "b64_encode (a # b # c # r) =
     (let x = byte_val a * 65536 + byte_val b * 256 + byte_val c in
      b64_char (x div 262144) # b64_char (x div 4096 mod 64) # b64_char (x div 64 mod 64)
      # b64_char (x mod 64) # b64_encode r)"

text \<open>The decoder skips carriage returns and newlines and requires the padding.\<close>

fun b64_quads :: "bytes \<Rightarrow> bytes option" where
  "b64_quads [] = Some []"
| "b64_quads (p # q # s # t # r) =
     (case (b64_val p, b64_val q) of
        (Some v, Some w) \<Rightarrow>
          (if s = b64_pad then
             (if t = b64_pad \<and> r = [] then Some [to_byte ((v * 64 + w) div 16)] else None)
           else case b64_val s of None \<Rightarrow> None
             | Some y \<Rightarrow>
               if t = b64_pad then
                 (if r = [] then
                    Some [to_byte (((v * 64 + w) * 64 + y) div 1024),
                          to_byte (((v * 64 + w) * 64 + y) div 4)]
                  else None)
               else case b64_val t of None \<Rightarrow> None
                 | Some z \<Rightarrow>
                   (let x = ((v * 64 + w) * 64 + y) * 64 + z in
                    map_option (\<lambda>bs. to_byte (x div 65536) # to_byte (x div 256) # to_byte x # bs)
                      (b64_quads r)))
      | _ \<Rightarrow> None)"
| "b64_quads _ = None"

definition b64_decode :: "bytes \<Rightarrow> bytes option" where
  "b64_decode s = b64_quads (filter (\<lambda>c. c \<noteq> CHR 0x0D \<and> c \<noteq> nl) s)"

lemma b64_val_char [simp]: "n < 64 \<Longrightarrow> b64_val (b64_char n) = Some n"
  by (auto simp: b64_val_def b64_char_def Let_def)

lemma b64_char_plain [simp]:
  "n < 64 \<Longrightarrow> b64_char n \<noteq> b64_pad" "n < 64 \<Longrightarrow> b64_char n \<noteq> CHR 0x0D" "n < 64 \<Longrightarrow> b64_char n \<noteq> nl"
  by (auto dest: b64_val_char simp: b64_val_def)

lemma b64_join2: "x div 262144 * 64 + x div 4096 mod 64 = (x :: nat) div 4096"
proof -
  have "x div 4096 div 64 = x div 262144" by (simp flip: div_mult2_eq)
  then show ?thesis using div_mult_mod_eq [of "x div 4096" 64] by simp
qed

lemma b64_join3: "(x div 262144 * 64 + x div 4096 mod 64) * 64 + x div 64 mod 64 = (x :: nat) div 64"
proof -
  have "x div 64 div 64 = x div 4096" by (simp flip: div_mult2_eq)
  then show ?thesis using div_mult_mod_eq [of "x div 64" 64] by (simp only: b64_join2)
qed

lemma b64_join4:
  "((x div 262144 * 64 + x div 4096 mod 64) * 64 + x div 64 mod 64) * 64 + x mod 64 = (x :: nat)"
  by (simp only: b64_join3 div_mult_mod_eq)

lemma b64_top: "x < 16777216 \<Longrightarrow> x div 262144 < (64 :: nat)"
  by (simp add: div_less_iff_less_mult)

lemma byte_val_le: "byte_val c \<le> 255"
  using nat_of_char_less_256 [of c] by linarith

lemma to_byte_plus_256: "to_byte (256 * k + byte_val c) = c"
proof -
  have "to_byte (256 * k + byte_val c) = to_byte (byte_val c)"
    by (simp only: char_of_quasi_inj) simp
  then show ?thesis by simp
qed

lemma b64_quads_encode: "b64_quads (b64_encode s) = Some s"
proof (induction s rule: b64_encode.induct)
  case (2 a)
  define x where "x = byte_val a * 65536"
  have top: "x div 262144 < 64" using byte_val_le [of a] by (simp add: x_def b64_top)
  have "x div 262144 * 64 + x div 4096 mod 64 = byte_val a * 16"
    by (simp only: b64_join2) (simp add: x_def)
  then show ?case using top by (simp add: x_def [symmetric] Let_def)
next
  case (3 a b)
  define x where "x = byte_val a * 65536 + byte_val b * 256"
  have top: "x div 262144 < 64"
    using byte_val_le [of a] byte_val_le [of b] by (simp add: x_def b64_top)
  have x64: "x div 64 = 1024 * byte_val a + 4 * byte_val b" by (simp add: x_def)
  have "x div 64 div 1024 = byte_val a" and "x div 64 div 4 = 256 * byte_val a + byte_val b"
    using byte_val_le [of b] by (simp_all add: x64)
  moreover have "4096 * (x div 262144) + x div 4096 mod 64 * 64 + x div 64 mod 64 = x div 64"
    using b64_join3 [of x] by simp
  ultimately show ?case using top
    by (simp add: x_def [symmetric] Let_def to_byte_plus_256)
next
  case (4 a b c r)
  define x where "x = byte_val a * 65536 + byte_val b * 256 + byte_val c"
  have top: "x div 262144 < 64"
    using byte_val_le [of a] byte_val_le [of b] byte_val_le [of c] by (simp add: x_def b64_top)
  have "x div 65536 = byte_val a" and "x div 256 = 256 * byte_val a + byte_val b"
    and "x = 256 * (256 * byte_val a + byte_val b) + byte_val c"
    using byte_val_le [of b] byte_val_le [of c] by (simp_all add: x_def)
  then have bytes: "to_byte (x div 65536) = a" "to_byte (x div 256) = b" "to_byte x = c"
    by (simp_all only: to_byte_plus_256 char_of_char)
  have "262144 * (x div 262144) + 4096 * (x div 4096 mod 64) + x div 64 mod 64 * 64 + x mod 64 = x"
    using b64_join4 [of x] by simp
  with top 4 show ?case
    by (simp add: x_def [symmetric] Let_def bytes)
qed simp

lemma b64_encode_plain: "c \<in> set (b64_encode s) \<Longrightarrow> c \<noteq> CHR 0x0D \<and> c \<noteq> nl"
proof (induction s rule: b64_encode.induct)
  case (2 a)
  have "byte_val a * 65536 div 262144 < 64" using byte_val_le [of a] by (intro b64_top) simp
  with 2 show ?case by (auto simp: Let_def)
next
  case (3 a b)
  have "(byte_val a * 65536 + byte_val b * 256) div 262144 < 64"
    using byte_val_le [of a] byte_val_le [of b] by (intro b64_top) simp
  with 3 show ?case by (auto simp: Let_def)
next
  case (4 a b d r)
  have "(byte_val a * 65536 + byte_val b * 256 + byte_val d) div 262144 < 64"
    using byte_val_le [of a] byte_val_le [of b] byte_val_le [of d] by (intro b64_top) simp
  with 4 show ?case by (auto simp: Let_def)
qed simp

lemma b64_decode_encode [simp]: "b64_decode (b64_encode s) = Some s"
proof -
  have "filter (\<lambda>c. c \<noteq> CHR 0x0D \<and> c \<noteq> nl) (b64_encode s) = b64_encode s"
    by (rule filter_True) (use b64_encode_plain in blast)
  then show ?thesis by (simp add: b64_decode_def b64_quads_encode)
qed

lemma b64_encode_inj: "b64_encode a = b64_encode b \<Longrightarrow> a = b"
  by (metis b64_decode_encode option.inject)

subsection \<open>ASCII text\<close>

text \<open>
  A JSON codec keeps text, not bytes: what is not valid UTF-8 is replaced when it is written. The
  laws of the codecs below are stated for ASCII strings, which the encodings of this theory give.
\<close>

definition ascii :: "bytes \<Rightarrow> bool" where
  "ascii s \<longleftrightarrow> (\<forall>c\<in>set s. byte_val c < 128)"

lemma ascii_Nil [simp]: "ascii []"
  by (simp add: ascii_def)

lemma ascii_Cons [simp]: "ascii (c # s) \<longleftrightarrow> byte_val c < 128 \<and> ascii s"
  by (simp add: ascii_def)

lemma ascii_append [simp]: "ascii (s @ t) \<longleftrightarrow> ascii s \<and> ascii t"
  by (auto simp: ascii_def)

lemma ascii_replicate [simp]: "ascii (replicate n c) \<longleftrightarrow> n = 0 \<or> byte_val c < 128"
  by (auto simp: ascii_def)

lemma ascii_digits: "list_all is_digit s \<Longrightarrow> ascii s"
  by (auto simp: list_all_iff is_digit_def ascii_def)

lemma ascii_dec_digits [simp]: "ascii (dec_digits n)"
  by (rule ascii_digits) simp

lemma ascii_fmt_int [simp]: "ascii (fmt_int i)"
  by (simp add: fmt_int_def)

lemma parse_uint64_ascii: "parse_uint64 s = Some n \<Longrightarrow> ascii s"
  by (auto simp: parse_uint64_def intro: ascii_digits split: if_splits)

lemma hex_char_ascii: "n < 16 \<Longrightarrow> byte_val (hex_char n) < 128"
  by (simp add: hex_char_def)

lemma ascii_hex [simp]: "ascii (hex_encode b)"
proof (induction b)
  case (Cons x xs)
  have "byte_val x div 16 < 16" using nat_of_char_less_256 [of x] by linarith
  with Cons show ?case by (simp add: hex_char_ascii)
qed simp

lemma b64_char_ascii: "n < 64 \<Longrightarrow> byte_val (b64_char n) < 128"
  by (auto simp: b64_char_def)

lemma ascii_b64 [simp]: "ascii (b64_encode b)"
proof (induction b rule: b64_encode.induct)
  case (2 a)
  have "byte_val a * 65536 div 262144 < 64" using nat_of_char_less_256 [of a] by linarith
  then show ?case by (simp add: Let_def b64_char_ascii)
next
  case (3 a b)
  have "(byte_val a * 65536 + byte_val b * 256) div 262144 < 64"
    using nat_of_char_less_256 [of a] nat_of_char_less_256 [of b] by linarith
  then show ?case by (simp add: Let_def b64_char_ascii)
next
  case (4 a b c r)
  have "(byte_val a * 65536 + byte_val b * 256 + byte_val c) div 262144 < 64"
    using nat_of_char_less_256 [of a] nat_of_char_less_256 [of b] nat_of_char_less_256 [of c] by linarith
  with 4 show ?case by (simp add: Let_def b64_char_ascii)
qed simp

end
