(* ===== verification/Tlog_Checkpoint.thy ===== *)
theory Tlog_Checkpoint
  imports GoText
begin

section \<open>Transparency log: checkpoints and signed notes (tlogiroh/checkpoint.go)\<close>

text \<open>
  The tree head statement, its C2SP text form, and the splitting and merging of signed note
  messages. The hash codec (\<^verbatim>\<open>tlog.Hash.String\<close>, \<^verbatim>\<open>tlog.ParseHash\<close>) is third-party code and a
  parameter of the model, the record \<open>hash_ops\<close>.
\<close>

subsection \<open>Errors and data\<close>

record equivocation =
  First :: bytes
  Second :: bytes

datatype tlog_error =
    ErrNoCheckpoint
  | ErrOriginMismatch
  | ErrRollback
  | ErrWitnessThreshold
  | ErrSourceStale
  | EquivocationError equivocation
  | ErrInvalidOrigin
  | ErrInvalidTreeSize
  | ErrMalformedCheckpoint
  | ErrMalformedNote
  | ErrDifferentTexts
  | ErrNilVerifier
  | ErrThresholdRange
  | ErrDuplicateVerifier
  | ErrZeroPolicy
  | ErrOpenNote
  | ErrMissingOperatorSignature
  | ErrIncompleteProof
  | ErrMalformedProof
  | ErrNotEquivocation
  | ErrCheckConsistency
  | ErrSign
  | ErrContext
  | ErrNoTimelineEntry
  | ErrGetBlob
  | ErrBlobLength
  | ErrTileLength
  | ErrOutsideTree
  | ErrProveEntry
  | ErrCheckEntry
  | ErrStoredHash
  | ErrBlobStore
  | ErrNilSigner

type_synonym hash = bytes

record tree =
  Tree_N :: int
  Tree_Hash :: hash

record checkpoint =
  Origin :: bytes
  Tree :: tree

record hash_ops =
  hash_str :: "hash \<Rightarrow> bytes"
  parse_hash :: "bytes \<Rightarrow> hash option"

text \<open>
  What the program relies on of the hash codec: the base64 text of a 32-byte hash parses back
  to it and holds no newline.
\<close>

definition hash_ops_ok :: "'x hash_ops_scheme \<Rightarrow> bool" where
  "hash_ops_ok E \<longleftrightarrow>
     (\<forall>h. length h = 32 \<longrightarrow> parse_hash E (hash_str E h) = Some h \<and> nl \<notin> set (hash_str E h))"

subsection \<open>Text form\<close>

definition MarshalText :: "'x hash_ops_scheme \<Rightarrow> checkpoint \<Rightarrow> tlog_error + bytes" where
  "MarshalText E c =
     (if Origin c = [] \<or> nl \<in> set (Origin c) then Inl ErrInvalidOrigin
      else if Tree_N (Tree c) < 0 then Inl ErrInvalidTreeSize
      else Inr (Origin c @ [nl] @ fmt_int (Tree_N (Tree c)) @ [nl]
                @ hash_str E (Tree_Hash (Tree c)) @ [nl]))"

definition ParseCheckpoint :: "'x hash_ops_scheme \<Rightarrow> bytes \<Rightarrow> tlog_error + checkpoint" where
  "ParseCheckpoint E text =
     (if \<not> suffix [nl] text then Inl ErrMalformedCheckpoint
      else case split_on nl (trim_suffix text [nl]) of
        [l0, l1, l2] \<Rightarrow>
          if l0 = [] then Inl ErrMalformedCheckpoint
          else (case parse_int64 l1 of
              None \<Rightarrow> Inl ErrMalformedCheckpoint
            | Some n \<Rightarrow>
                if n < 0 \<or> (l1 \<noteq> ''0'' \<and> prefix ''0'' l1) then Inl ErrMalformedCheckpoint
                else (case parse_hash E l2 of
                    None \<Rightarrow> Inl ErrMalformedCheckpoint
                  | Some h \<Rightarrow> Inr \<lparr>Origin = l0, Tree = \<lparr>Tree_N = n, Tree_Hash = h\<rparr>\<rparr>))
      | _ \<Rightarrow> Inl ErrMalformedCheckpoint)"

subsection \<open>Signed note messages\<close>

definition splitNote :: "bytes \<Rightarrow> tlog_error + bytes \<times> bytes" where
  "splitNote msg =
     (case find_sub [nl, nl] msg of
        None \<Rightarrow> Inl ErrMalformedNote
      | Some i \<Rightarrow> Inr (take (i + 1) msg, drop (i + 2) msg))"

text \<open>The loop of \<^verbatim>\<open>mergeSignedNotes\<close>: \<open>seen\<close> holds the lines already written.\<close>

fun merge_lines :: "bytes list \<Rightarrow> bytes list \<Rightarrow> bytes" where
  "merge_lines seen [] = []"
| "merge_lines seen (l # ls) =
     (let line = trim_suffix l [nl] in
      if line = [] \<or> line \<in> set seen then merge_lines seen ls
      else line @ [nl] @ merge_lines (line # seen) ls)"

definition mergeSignedNotes :: "bytes \<Rightarrow> bytes \<Rightarrow> tlog_error + bytes" where
  "mergeSignedNotes a b =
     (case splitNote a of Inl e \<Rightarrow> Inl e
      | Inr (textA, sigsA) \<Rightarrow>
        (case splitNote b of Inl e \<Rightarrow> Inl e
         | Inr (textB, sigsB) \<Rightarrow>
           if textA \<noteq> textB then Inl ErrDifferentTexts
           else Inr (textA @ [nl] @ merge_lines [] (lines_of (sigsA @ sigsB)))))"

subsection \<open>Lemmas: the text form\<close>

lemma MarshalText_ok:
  "MarshalText E c = Inr t \<longleftrightarrow>
     Origin c \<noteq> [] \<and> nl \<notin> set (Origin c) \<and> 0 \<le> Tree_N (Tree c) \<and>
     t = Origin c @ [nl] @ fmt_int (Tree_N (Tree c)) @ [nl] @ hash_str E (Tree_Hash (Tree c)) @ [nl]"
  by (auto simp: MarshalText_def)

lemma fmt_int_free: "0 \<le> i \<Longrightarrow> nl \<notin> set (fmt_int i)"
  by (simp add: fmt_int_def dec_digits_free)

lemma fmt_int_canonical: "0 \<le> i \<Longrightarrow> fmt_int i = ''0'' \<or> \<not> prefix ''0'' (fmt_int i)"
proof (cases "i = 0")
  case False
  assume "0 \<le> i"
  with False have "hd (dec_digits (nat i)) \<noteq> CHR ''0''"
    by (intro dec_digits_no_leading_zero) simp
  with \<open>0 \<le> i\<close> show ?thesis by (auto simp: fmt_int_def prefix_def)
qed (simp add: fmt_int_def)

lemma ParseCheckpoint_lines:
  assumes "nl \<notin> set a" "nl \<notin> set b" "nl \<notin> set h"
  shows "ParseCheckpoint E (a @ [nl] @ b @ [nl] @ h @ [nl]) =
    (if a = [] then Inl ErrMalformedCheckpoint
     else (case parse_int64 b of
         None \<Rightarrow> Inl ErrMalformedCheckpoint
       | Some n \<Rightarrow>
           if n < 0 \<or> (b \<noteq> ''0'' \<and> prefix ''0'' b) then Inl ErrMalformedCheckpoint
           else (case parse_hash E h of
               None \<Rightarrow> Inl ErrMalformedCheckpoint
             | Some x \<Rightarrow> Inr \<lparr>Origin = a, Tree = \<lparr>Tree_N = n, Tree_Hash = x\<rparr>\<rparr>)))"
proof -
  define t where "t = (a @ [nl] @ b @ [nl] @ h) @ [nl]"
  have suf: "suffix [nl] t" by (simp add: t_def suffix_def)
  have sp: "split_on nl (trim_suffix t [nl]) = [a, b, h]"
    unfolding t_def trim_suffix_append using assms by simp
  have "a @ [nl] @ b @ [nl] @ h @ [nl] = t" by (simp add: t_def)
  then show ?thesis by (simp add: ParseCheckpoint_def suf sp)
qed

lemma ParseCheckpoint_Marshal:
  assumes "MarshalText E c = Inr t" and "hash_ops_ok E"
    and "length (Tree_Hash (Tree c)) = 32" and "Tree_N (Tree c) < 2 ^ 63"
  shows "ParseCheckpoint E t = Inr c"
proof -
  have c: "Origin c \<noteq> []" "nl \<notin> set (Origin c)" "0 \<le> Tree_N (Tree c)"
    and t: "t = Origin c @ [nl] @ fmt_int (Tree_N (Tree c)) @ [nl]
                @ hash_str E (Tree_Hash (Tree c)) @ [nl]"
    using assms(1) by (auto simp: MarshalText_ok)
  have h: "parse_hash E (hash_str E (Tree_Hash (Tree c))) = Some (Tree_Hash (Tree c))"
    "nl \<notin> set (hash_str E (Tree_Hash (Tree c)))"
    using assms(2,3) by (auto simp: hash_ops_ok_def)
  show ?thesis
    unfolding t
    by (subst ParseCheckpoint_lines)
      (use c h assms(4) fmt_int_canonical [OF c(3)] in
        \<open>auto simp: fmt_int_free parse_int64_fmt_int\<close>)
qed

lemma ParseCheckpoint_ok:
  assumes "ParseCheckpoint E t = Inr c"
  shows "Origin c \<noteq> []" and "nl \<notin> set (Origin c)"
    and "0 \<le> Tree_N (Tree c)" and "Tree_N (Tree c) < 2 ^ 63"
    and "\<exists>n h. t = Origin c @ [nl] @ n @ [nl] @ h @ [nl] \<and> nl \<notin> set n \<and> nl \<notin> set h \<and>
           parse_int64 n = Some (Tree_N (Tree c)) \<and> parse_hash E h = Some (Tree_Hash (Tree c))"
proof -
  from assms obtain l0 l1 l2 n h where
    suf: "suffix [nl] t" and ls: "split_on nl (trim_suffix t [nl]) = [l0, l1, l2]"
    and ne: "l0 \<noteq> []" and n: "parse_int64 l1 = Some n" "0 \<le> n" and h: "parse_hash E l2 = Some h"
    and c: "c = \<lparr>Origin = l0, Tree = \<lparr>Tree_N = n, Tree_Hash = h\<rparr>\<rparr>"
    by (auto simp: ParseCheckpoint_def split: if_splits list.splits option.splits)
  have free: "nl \<notin> set l0" "nl \<notin> set l1" "nl \<notin> set l2"
    using split_on_pieces [of _ nl "trim_suffix t [nl]"] by (auto simp: ls)
  from suf obtain u where u: "t = u @ [nl]" by (auto simp: suffix_def)
  with ls have t: "t = l0 @ [nl] @ l1 @ [nl] @ l2 @ [nl]"
    using split_on_concat [of nl u] by simp
  show "Origin c \<noteq> []" "nl \<notin> set (Origin c)" "0 \<le> Tree_N (Tree c)" "Tree_N (Tree c) < 2 ^ 63"
    using ne free n c parse_int64_range by auto
  show "\<exists>n h. t = Origin c @ [nl] @ n @ [nl] @ h @ [nl] \<and> nl \<notin> set n \<and> nl \<notin> set h \<and>
      parse_int64 n = Some (Tree_N (Tree c)) \<and> parse_hash E h = Some (Tree_Hash (Tree c))"
    using t free n h c by auto
qed

subsection \<open>Lemmas: splitting and merging notes\<close>

text \<open>The signature lines of a note, as the merge loop reads them.\<close>

definition sig_lines :: "bytes \<Rightarrow> bytes list" where
  "sig_lines s = filter (\<lambda>l. l \<noteq> []) (map (\<lambda>l. trim_suffix l [nl]) (lines_of s))"

fun fresh :: "'a list \<Rightarrow> 'a list \<Rightarrow> 'a list" where
  "fresh seen [] = []"
| "fresh seen (l # ls) = (if l \<in> set seen then fresh seen ls else l # fresh (l # seen) ls)"

abbreviation unlines :: "bytes list \<Rightarrow> bytes" where
  "unlines ls \<equiv> concat (map (\<lambda>l. l @ [nl]) ls)"

lemma set_fresh: "set (fresh seen ls) = set ls - set seen"
  by (induction seen ls rule: fresh.induct) auto

lemma distinct_fresh: "distinct (fresh seen ls)"
  by (induction seen ls rule: fresh.induct) (auto simp: set_fresh)

lemma fresh_id: "distinct ls \<Longrightarrow> set ls \<inter> set seen = {} \<Longrightarrow> fresh seen ls = ls"
  by (induction seen ls rule: fresh.induct) auto

lemma fresh_seen: "set ls \<subseteq> set seen \<Longrightarrow> fresh seen ls = []"
  by (induction ls) auto

lemma fresh_cong: "set s = set s' \<Longrightarrow> fresh s ys = fresh s' ys"
proof (induction ys arbitrary: s s')
  case (Cons y ys)
  have "set (y # s) = set (y # s')" using Cons.prems by simp
  then have one: "fresh (y # s) ys = fresh (y # s') ys" by (rule Cons.IH)
  have two: "fresh s ys = fresh s' ys" by (rule Cons.IH [OF Cons.prems])
  have "y \<in> set s \<longleftrightarrow> y \<in> set s'" by (simp only: Cons.prems)
  then show ?case by (simp only: fresh.simps one two)
qed simp

lemma fresh_append: "fresh seen (xs @ ys) = fresh seen xs @ fresh (rev xs @ seen) ys"
proof (induction seen xs rule: fresh.induct)
  case (2 seen l ls)
  have "fresh (rev ls @ seen) ys = fresh (rev ls @ l # seen) ys" if "l \<in> set seen"
    using that by (intro fresh_cong) (simp add: insert_absorb)
  with 2 show ?case by auto
qed simp

lemma lines_of_trim:
  "map (\<lambda>l. trim_suffix l [nl]) (lines_of s) =
   (let ps = split_on nl s in butlast ps @ (if last ps = [] then [] else [last ps]))"
proof -
  have "nl \<notin> set (last (split_on nl s))"
    by (rule split_on_pieces [of _ nl s]) simp
  then have "\<not> suffix [nl] (last (split_on nl s))" by (auto simp: suffix_def)
  then show ?thesis by (simp add: lines_of_def Let_def comp_def) (simp add: trim_suffix_def)
qed

lemma sig_lines_split: "sig_lines s = filter (\<lambda>l. l \<noteq> []) (split_on nl s)"
proof -
  obtain ps p where "split_on nl s = ps @ [p]"
    by (metis append_butlast_last_id split_on_not_Nil)
  then show ?thesis by (simp add: sig_lines_def lines_of_trim Let_def)
qed

lemma sig_lines_free: "l \<in> set (sig_lines s) \<Longrightarrow> l \<noteq> [] \<and> nl \<notin> set l"
  by (auto simp: sig_lines_split dest: split_on_pieces)

lemma split_on_append_nl: "split_on nl (a @ nl # b) = split_on nl a @ split_on nl b"
proof (induction a)
  case (Cons x a)
  then show ?case by (cases "split_on nl a") auto
qed simp

lemma sig_lines_append_nl: "sig_lines (a @ nl # b) = sig_lines a @ sig_lines b"
  by (simp add: sig_lines_split split_on_append_nl)

lemma sig_lines_append:
  assumes "sa = [] \<or> last sa = nl"
  shows "sig_lines (sa @ sb) = sig_lines sa @ sig_lines sb"
proof (cases "sa = []")
  case False
  then obtain u where "sa = u @ [nl]" using assms by (metis append_butlast_last_id)
  then show ?thesis using sig_lines_append_nl [of u sb] sig_lines_append_nl [of u "[]"]
    by (simp add: sig_lines_split)
qed (simp add: sig_lines_split)

lemma sig_lines_unlines:
  "\<forall>l \<in> set ls. l \<noteq> [] \<and> nl \<notin> set l \<Longrightarrow> sig_lines (unlines ls) = ls"
  by (induction ls) (simp_all add: sig_lines_append_nl, simp_all add: sig_lines_split)

lemma merge_lines_fresh:
  "merge_lines seen ls = unlines (fresh seen (filter (\<lambda>l. l \<noteq> []) (map (\<lambda>l. trim_suffix l [nl]) ls)))"
  by (induction seen ls rule: merge_lines.induct) (simp_all add: Let_def)

lemma merge_unlines: "merge_lines [] (lines_of s) = unlines (fresh [] (sig_lines s))"
  by (simp add: merge_lines_fresh sig_lines_def)

lemma sig_lines_merge:
  "sig_lines (merge_lines [] (lines_of s)) = fresh [] (sig_lines s)"
proof -
  have "\<forall>l \<in> set (fresh [] (sig_lines s)). l \<noteq> [] \<and> nl \<notin> set l"
    using sig_lines_free [of _ s] by (simp add: set_fresh)
  then show ?thesis by (simp add: merge_unlines sig_lines_unlines)
qed

lemma last_unlines: "unlines ls = [] \<or> last (unlines ls) = nl"
  by (induction ls) auto

lemma find_sub_prefix: "prefix p s \<Longrightarrow> find_sub p s = Some 0"
  by (cases s) auto

lemma find_sub_take:
  "find_sub p s = Some i \<Longrightarrow> find_sub p (take (i + length p) s @ r) = Some i"
proof (induction p s arbitrary: i rule: find_sub.induct)
  case (1 p)
  then show ?case by (cases r) (auto split: if_splits)
next
  case (2 p x xs)
  show ?case
  proof (cases "prefix p (x # xs)")
    case True
    with "2.prems" have "i = 0" by simp
    moreover from True have "take (length p) (x # xs) = p" by (auto simp: prefix_def)
    ultimately show ?thesis by (simp add: find_sub_prefix)
  next
    case False
    with "2.prems" obtain j where j: "find_sub p xs = Some j" "i = Suc j" by auto
    obtain b where "xs = take j xs @ p @ b" using find_sub_Some [OF j(1)] by blast
    have np: "\<not> prefix p (x # take (j + length p) xs @ r)"
    proof
      assume "prefix p (x # take (j + length p) xs @ r)"
      then have "p = take (length p) (x # take (j + length p) xs @ r)"
        by (auto simp: prefix_def)
      also have "\<dots> = take (length p) (x # xs)"
      proof -
        have "length p \<le> length (x # take (j + length p) xs)"
          using arg_cong [OF \<open>xs = take j xs @ p @ b\<close>, of length] by simp
        then have "take (length p) (x # take (j + length p) xs @ r) =
            take (length p) (x # take (j + length p) xs)" by (simp add: take_Cons split: nat.splits)
        then show ?thesis by (cases "length p") simp_all
      qed
      finally have "prefix p (x # xs)" by (metis take_is_prefix)
      with False show False by blast
    qed
    from "2.IH" [OF False j(1)] np j(2) show ?thesis by simp
  qed
qed

lemma splitNote_ok:
  assumes "splitNote msg = Inr (t, s)"
  shows "msg = t @ [nl] @ s" and "splitNote (t @ [nl] @ s') = Inr (t, s')" and "last t = nl"
proof -
  from assms obtain i where i: "find_sub [nl, nl] msg = Some i"
    and ts: "t = take (i + 1) msg" "s = drop (i + 2) msg"
    by (auto simp: splitNote_def split: option.splits)
  from find_sub_Some [OF i] obtain r where msg: "msg = take i msg @ [nl, nl] @ r" by blast
  define u where "u = take i msg"
  have len: "length u = i" using arg_cong [OF msg, of length] by (simp add: u_def)
  have m: "msg = u @ [nl, nl] @ r" using msg by (simp add: u_def)
  have t: "t = u @ [nl]" and s: "s = r" using len by (simp_all add: ts m)
  show "msg = t @ [nl] @ s" and "last t = nl" by (simp_all add: m t s)
  have "find_sub [nl, nl] (take (i + 2) msg @ s') = Some i"
    using find_sub_take [OF i, of s'] by simp
  moreover have "take (i + 2) msg = u @ [nl, nl]" using len by (simp add: m)
  ultimately have "find_sub [nl, nl] (t @ [nl] @ s') = Some i" by (simp add: t)
  then show "splitNote (t @ [nl] @ s') = Inr (t, s')"
    using len by (simp add: splitNote_def t)
qed

lemma find_blank:
  "nl \<notin> set a \<Longrightarrow> find_sub [nl, nl] (a @ nl # r) =
     (if prefix [nl] r then Some (length a)
      else map_option (\<lambda>i. i + length a + 1) (find_sub [nl, nl] r))"
proof (induction a)
  case Nil
  then show ?case by (cases r) (auto simp: comp_def option.map_comp)
next
  case (Cons x a)
  then show ?case by (auto simp: option.map_comp comp_def)
qed

lemma splitNote_lines:
  assumes "nl \<notin> set a" "nl \<notin> set b" "nl \<notin> set h" "b \<noteq> []" "h \<noteq> []"
  defines "t \<equiv> a @ [nl] @ b @ [nl] @ h @ [nl]"
  shows "splitNote (t @ [nl] @ s) = Inr (t, s)" and "splitNote t = Inl ErrMalformedNote"
proof -
  have np: "\<not> prefix [nl] (x @ y)" if "nl \<notin> set x" "x \<noteq> []" for x y :: bytes
    using that by (cases x) auto
  have "find_sub [nl, nl] (t @ [nl] @ s) = Some (length a + length b + length h + 2)"
    using assms(1-5) np [of b] np [of h] by (simp add: t_def find_blank)
  moreover have "length t = length a + length b + length h + 3" by (simp add: t_def)
  ultimately show "splitNote (t @ [nl] @ s) = Inr (t, s)" by (simp add: splitNote_def)
  have "find_sub [nl, nl] t = None"
    using assms(1-5) np [of b] np [of h "[nl]"] by (simp add: t_def find_blank)
  then show "splitNote t = Inl ErrMalformedNote" by (simp add: splitNote_def)
qed

lemma mergeSignedNotes_ok:
  "mergeSignedNotes a b = Inr m \<longleftrightarrow>
     (\<exists>t sa sb. splitNote a = Inr (t, sa) \<and> splitNote b = Inr (t, sb) \<and>
        m = t @ [nl] @ merge_lines [] (lines_of (sa @ sb)))"
  by (auto simp: mergeSignedNotes_def split: sum.splits)

subsection \<open>Properties\<close>

text \<open>A concrete hash codec, base64 as the third-party code documents it, for the witnesses.\<close>

definition std_hash_ops :: hash_ops where
  "std_hash_ops =
     \<lparr>hash_str = b64_encode,
      parse_hash = (\<lambda>s. case b64_decode s of None \<Rightarrow> None
        | Some h \<Rightarrow> if length h = 32 then Some h else None)\<rparr>"

lemma std_hash_ops_ok: "hash_ops_ok std_hash_ops"
  using b64_encode_plain by (fastforce simp: hash_ops_ok_def std_hash_ops_def)

definition zero_hash :: hash where
  "zero_hash = replicate 32 (CHR 0x00)"

text \<open>A checkpoint that \<^verbatim>\<open>MarshalText\<close> accepts is read back unchanged by
  \<^verbatim>\<open>ParseCheckpoint\<close>: origin, tree size and root hash survive the text form.\<close>

theorem checkpoint_roundtrip:
  assumes "hash_ops_ok E" and "MarshalText E c = Inr t"
    and "length (Tree_Hash (Tree c)) = 32" and "Tree_N (Tree c) < 2 ^ 63"
  shows "ParseCheckpoint E t = Inr c"
  using ParseCheckpoint_Marshal [OF assms(2,1,3,4)] .

theorem checkpoint_roundtrip_witness:
  "ParseCheckpoint std_hash_ops
     (''log'' @ [nl] @ fmt_int 5 @ [nl] @ hash_str std_hash_ops zero_hash @ [nl])
   = Inr \<lparr>Origin = ''log'', Tree = \<lparr>Tree_N = 5, Tree_Hash = zero_hash\<rparr>\<rparr>"
  by (rule checkpoint_roundtrip [OF std_hash_ops_ok])
    (simp_all add: MarshalText_def zero_hash_def)

text \<open>\<^verbatim>\<open>ParseCheckpoint\<close> accepts a text that \<^verbatim>\<open>MarshalText\<close> never writes: a plus sign
  before the tree size is parsed (\<^verbatim>\<open>strconv.ParseInt\<close> takes it and only a leading zero is
  rejected), so two different texts name the same checkpoint.\<close>

theorem parse_accepts_signed_size:
  assumes "hash_ops_ok E" and "MarshalText E c = Inr t"
    and "length (Tree_Hash (Tree c)) = 32" and "Tree_N (Tree c) < 2 ^ 63"
  shows "\<exists>t'. t' \<noteq> t \<and> ParseCheckpoint E t' = Inr c"
proof -
  define n h where "n = Tree_N (Tree c)" and "h = hash_str E (Tree_Hash (Tree c))"
  have c: "Origin c \<noteq> []" "nl \<notin> set (Origin c)" "0 \<le> n"
    and t: "t = Origin c @ [nl] @ fmt_int n @ [nl] @ h @ [nl]"
    using assms(2) by (auto simp: MarshalText_ok n_def h_def)
  have h: "parse_hash E h = Some (Tree_Hash (Tree c))" "nl \<notin> set h"
    using assms(1,3) by (auto simp: hash_ops_ok_def h_def)
  have dig: "parse_uint64 (dec_digits (nat n)) = Some (nat n)"
    using assms(4) c(3) by (intro parse_uint64_dec_digits) (simp add: n_def)
  then have p: "parse_int64 (CHR ''+'' # fmt_int n) = Some n"
    using assms(4) c(3) by (simp add: parse_int64_def fmt_int_def n_def)
  let ?t = "Origin c @ [nl] @ (CHR ''+'' # fmt_int n) @ [nl] @ h @ [nl]"
  have "ParseCheckpoint E ?t = Inr c"
    using c h p fmt_int_free [OF c(3)] by (subst ParseCheckpoint_lines) (auto simp: n_def)
  moreover have "?t \<noteq> t" by (simp add: t)
  ultimately show ?thesis by blast
qed

theorem parse_accepts_signed_size_witness:
  "\<exists>t'. t' \<noteq> ''log'' @ [nl] @ fmt_int 5 @ [nl] @ hash_str std_hash_ops zero_hash @ [nl] \<and>
     ParseCheckpoint std_hash_ops t' = Inr \<lparr>Origin = ''log'', Tree = \<lparr>Tree_N = 5, Tree_Hash = zero_hash\<rparr>\<rparr>"
  by (rule parse_accepts_signed_size [OF std_hash_ops_ok])
    (simp_all add: MarshalText_def zero_hash_def)

text \<open>Merging two signed notes keeps the signed text and collects exactly the signature
  lines of both, none twice; merging either input again adds nothing.\<close>

theorem merge_collects_signatures:
  assumes "mergeSignedNotes a b = Inr m"
    and "splitNote a = Inr (ta, sa)" and "splitNote b = Inr (tb, sb)" and "last sa = nl"
  shows "\<exists>sm. splitNote m = Inr (ta, sm) \<and> distinct (sig_lines sm) \<and>
    set (sig_lines sm) = set (sig_lines sa) \<union> set (sig_lines sb) \<and> mergeSignedNotes m b = Inr m"
proof -
  define sm where "sm = merge_lines [] (lines_of (sa @ sb))"
  have m: "m = ta @ [nl] @ sm" and tt: "ta = tb"
    using assms(1-3) by (auto simp: mergeSignedNotes_ok sm_def)
  have split: "splitNote m = Inr (ta, sm)" unfolding m by (rule splitNote_ok(2) [OF assms(2)])
  have lines: "sig_lines sm = fresh [] (sig_lines sa @ sig_lines sb)"
    using assms(4) by (simp add: sm_def sig_lines_merge sig_lines_append)
  have sm: "sm = unlines (sig_lines sm)"
    unfolding lines using assms(4) by (simp add: sm_def merge_unlines sig_lines_append)
  have "distinct (sig_lines sm)" "set (sig_lines sb) \<subseteq> set (sig_lines sm)"
    by (simp_all add: lines distinct_fresh set_fresh)
  then have "fresh [] (sig_lines sm @ sig_lines sb) = sig_lines sm"
    by (simp add: fresh_append fresh_seen fresh_id)
  moreover have "sm = [] \<or> last sm = nl" using last_unlines [of "sig_lines sm"] sm by simp
  ultimately have "merge_lines [] (lines_of (sm @ sb)) = sm"
    using sm by (simp add: merge_unlines sig_lines_append)
  then have "mergeSignedNotes m b = Inr m"
    using split assms(3) tt by (auto simp: mergeSignedNotes_ok m)
  then show ?thesis using split by (auto simp: lines distinct_fresh set_fresh)
qed

theorem merge_collects_signatures_witness:
  "\<exists>sm. splitNote (''t'' @ [nl, nl] @ ''x'' @ [nl] @ ''y'' @ [nl]) = Inr (''t'' @ [nl], sm) \<and>
     distinct (sig_lines sm) \<and>
     set (sig_lines sm) = set (sig_lines (''x'' @ [nl])) \<union> set (sig_lines (''y'' @ [nl] @ ''x'' @ [nl])) \<and>
     mergeSignedNotes (''t'' @ [nl, nl] @ ''x'' @ [nl] @ ''y'' @ [nl])
       (''t'' @ [nl, nl] @ ''y'' @ [nl] @ ''x'' @ [nl])
     = Inr (''t'' @ [nl, nl] @ ''x'' @ [nl] @ ''y'' @ [nl])"
  by (rule merge_collects_signatures [of "''t'' @ [nl, nl] @ ''x'' @ [nl]"]) code_simp+

end
