(* ===== verification/Tlog_Policy.thy ===== *)
theory Tlog_Policy
  imports Tlog_Checkpoint
begin

section \<open>Transparency log: policy, equivocation proofs, gossip envelopes\<close>

text \<open>
  tlogiroh/policy.go, tlogiroh/equivocation.go and tlogiroh/gossip.go: what makes a signed
  checkpoint acceptable, proofs that an operator signed two tree heads of one size, and the
  type byte of a gossip message. Opening and signing notes (\<^verbatim>\<open>golang.org/x/mod/sumdb/note\<close>)
  are parameters of the model, the record \<open>note_ops\<close>.
\<close>

subsection \<open>Note verification, a parameter\<close>

text \<open>
  A verifier is an interface value with a name, a key hash and a check of a raw signature over
  a text.
\<close>

record verifier =
  vName :: bytes
  vKeyHash :: u32
  vVerify :: "bytes \<Rightarrow> bytes \<Rightarrow> bool"

record signature =
  sName :: bytes
  sHash :: u32
  sBase64 :: bytes

record Note =
  Text :: bytes
  Sigs :: "signature list"
  UnverifiedSigs :: "signature list"

record note_ops = hash_ops +
  note_open :: "bytes \<Rightarrow> verifier list \<Rightarrow> Note option"

text \<open>
  What \<^verbatim>\<open>note.Open\<close> documents: each signature of the returned note's \<^verbatim>\<open>Sigs\<close> was accepted
  by a known verifier of that name and key hash, over the returned text.
\<close>

definition sig_verified :: "verifier list \<Rightarrow> bytes \<Rightarrow> signature \<Rightarrow> bool" where
  "sig_verified vs t s \<longleftrightarrow>
     (\<exists>v \<in> set vs. vName v = sName s \<and> vKeyHash v = sHash s \<and> (\<exists>raw. vVerify v t raw))"

definition note_open_sound :: "'x note_ops_scheme \<Rightarrow> bool" where
  "note_open_sound E \<longleftrightarrow>
     (\<forall>msg vs n. note_open E msg vs = Some n \<longrightarrow>
        Sigs n \<noteq> [] \<and> (\<forall>s \<in> set (Sigs n). sig_verified vs (Text n) s))"

subsection \<open>Policy (policy.go)\<close>

record policy =
  p_origin :: bytes
  p_operator :: "verifier option"
  p_witnesses :: "verifier list"
  p_k :: int

definition zero_policy :: policy where
  "zero_policy = \<lparr>p_origin = [], p_operator = None, p_witnesses = [], p_k = 0\<rparr>"

definition keyID :: "verifier \<Rightarrow> bytes" where
  "keyID v = vName v @ ''+'' @ fmt_08x (vKeyHash v)"

definition sigID :: "signature \<Rightarrow> bytes" where
  "sigID s = sName s @ ''+'' @ fmt_08x (sHash s)"

text \<open>The loop over the witnesses, with the set of key ids seen; a nil witness is \<open>None\<close>.\<close>

fun check_witnesses :: "bytes list \<Rightarrow> verifier option list \<Rightarrow> tlog_error + verifier list" where
  "check_witnesses keys [] = Inr []"
| "check_witnesses keys (None # ws) = Inl ErrNilVerifier"
| "check_witnesses keys (Some w # ws) =
     (if keyID w \<in> set keys then Inl ErrDuplicateVerifier
      else case check_witnesses (keyID w # keys) ws of
          Inl e \<Rightarrow> Inl e
        | Inr vs \<Rightarrow> Inr (w # vs))"

definition NewPolicy ::
  "bytes \<Rightarrow> verifier option \<Rightarrow> verifier option list \<Rightarrow> int \<Rightarrow> tlog_error + policy" where
  "NewPolicy origin operator witnesses k =
     (if origin = [] \<or> nl \<in> set origin then Inl ErrInvalidOrigin
      else case operator of
        None \<Rightarrow> Inl ErrNilVerifier
      | Some op \<Rightarrow>
          if k < 0 \<or> k > int (length witnesses) then Inl ErrThresholdRange
          else (case check_witnesses [keyID op] witnesses of
              Inl e \<Rightarrow> Inl e
            | Inr ws \<Rightarrow>
                Inr \<lparr>p_origin = origin, p_operator = Some op, p_witnesses = ws, p_k = k\<rparr>))"

definition Policy_Open :: "'x note_ops_scheme \<Rightarrow> policy \<Rightarrow> bytes \<Rightarrow> tlog_error + checkpoint" where
  "Policy_Open E p msg =
     (case p_operator p of
        None \<Rightarrow> Inl ErrZeroPolicy
      | Some op \<Rightarrow>
        (case note_open E msg (op # p_witnesses p) of
           None \<Rightarrow> Inl ErrOpenNote
         | Some n \<Rightarrow>
           (case ParseCheckpoint E (Text n) of
              Inl e \<Rightarrow> Inl e
            | Inr c \<Rightarrow>
              if Origin c \<noteq> p_origin p then Inl ErrOriginMismatch
              else let signed = map sigID (Sigs n) in
                if keyID op \<notin> set signed then Inl ErrMissingOperatorSignature
                else let cosigned = length (filter (\<lambda>w. keyID w \<in> set signed) (p_witnesses p)) in
                  if int cosigned < p_k p then Inl ErrWitnessThreshold
                  else Inr c)))"

subsection \<open>Equivocation proofs (equivocation.go)\<close>

definition Equivocation_MarshalBinary :: "equivocation \<Rightarrow> tlog_error + bytes" where
  "Equivocation_MarshalBinary e =
     (if First e = [] \<or> Second e = [] then Inl ErrIncompleteProof
      else Inr (append_uvarint (length (First e)) @ First e
                @ append_uvarint (length (Second e)) @ Second e))"

definition readUvarintBytes :: "bytes \<Rightarrow> (bytes \<times> bytes) option" where
  "readUvarintBytes data =
     (let (n, size) = uvarint data in
      if size \<le> 0 \<or> n > length data - nat size then None
      else Some (take n (drop (nat size) data), drop (nat size + n) data))"

definition Equivocation_UnmarshalBinary :: "bytes \<Rightarrow> tlog_error + equivocation" where
  "Equivocation_UnmarshalBinary data =
     (case readUvarintBytes data of
        None \<Rightarrow> Inl ErrMalformedProof
      | Some (first, rest) \<Rightarrow>
        (case readUvarintBytes rest of
           None \<Rightarrow> Inl ErrMalformedProof
         | Some (second, rest') \<Rightarrow>
           if rest' \<noteq> [] then Inl ErrMalformedProof
           else Inr \<lparr>First = first, Second = second\<rparr>))"

definition openOperatorCheckpoint ::
  "'x note_ops_scheme \<Rightarrow> bytes \<Rightarrow> bytes \<Rightarrow> verifier \<Rightarrow> tlog_error + checkpoint" where
  "openOperatorCheckpoint E msg origin operator =
     (case note_open E msg [operator] of
        None \<Rightarrow> Inl ErrOpenNote
      | Some n \<Rightarrow>
        (case ParseCheckpoint E (Text n) of
           Inl e \<Rightarrow> Inl e
         | Inr c \<Rightarrow> if Origin c \<noteq> origin then Inl ErrOriginMismatch else Inr c))"

definition VerifyEquivocation ::
  "'x note_ops_scheme \<Rightarrow> equivocation \<Rightarrow> bytes \<Rightarrow> verifier \<Rightarrow> tlog_error + int" where
  "VerifyEquivocation E e origin operator =
     (case openOperatorCheckpoint E (First e) origin operator of
        Inl err \<Rightarrow> Inl err
      | Inr first \<Rightarrow>
        (case openOperatorCheckpoint E (Second e) origin operator of
           Inl err \<Rightarrow> Inl err
         | Inr second \<Rightarrow>
           if Tree_N (Tree first) \<noteq> Tree_N (Tree second) then Inl ErrNotEquivocation
           else if Tree_Hash (Tree first) = Tree_Hash (Tree second) then Inl ErrNotEquivocation
           else Inr (Tree_N (Tree first))))"

subsection \<open>Gossip envelopes (gossip.go)\<close>

definition envCheckpoint :: char where
  "envCheckpoint = CHR 0x01"

definition envEquivocation :: char where
  "envEquivocation = CHR 0x02"

definition envelope :: "char \<Rightarrow> bytes \<Rightarrow> bytes" where
  "envelope kind payload = kind # payload"

definition openEnvelope :: "bytes \<Rightarrow> (char \<times> bytes) option" where
  "openEnvelope msg =
     (if length msg < 2 then None
      else if hd msg = envCheckpoint \<or> hd msg = envEquivocation then Some (hd msg, tl msg)
      else None)"

subsection \<open>Lemmas\<close>

lemma id_unique:
  "a @ ''+'' @ fmt_08x g = b @ ''+'' @ fmt_08x h \<longleftrightarrow> a = b \<and> g = h"
proof
  assume eq: "a @ ''+'' @ fmt_08x g = b @ ''+'' @ fmt_08x h"
  then have "length a = length b" using arg_cong [OF eq, of length] by simp
  with eq show "a = b \<and> g = h" by (auto dest: fmt_08x_inj)
qed simp

lemma keyID_eq: "keyID v = keyID w \<longleftrightarrow> vName v = vName w \<and> vKeyHash v = vKeyHash w"
  unfolding keyID_def by (rule id_unique)

lemma keyID_sigID: "keyID v = sigID s \<longleftrightarrow> vName v = sName s \<and> vKeyHash v = sHash s"
  unfolding keyID_def sigID_def by (rule id_unique)

lemma check_witnesses_ok:
  "check_witnesses keys ws = Inr vs \<Longrightarrow>
     map Some vs = ws \<and> distinct (map keyID vs) \<and> (\<forall>v \<in> set vs. keyID v \<notin> set keys)"
  by (induction keys ws arbitrary: vs rule: check_witnesses.induct)
    (auto split: if_splits sum.splits, force)

lemma NewPolicy_ok:
  assumes "NewPolicy origin operator ws k = Inr p"
  obtains op where "operator = Some op" "p_operator p = Some op" "p_origin p = origin" "p_k p = k"
    "map Some (p_witnesses p) = ws" "distinct (map keyID (op # p_witnesses p))"
    "0 \<le> k" "k \<le> int (length ws)" "origin \<noteq> []" "nl \<notin> set origin"
proof -
  from assms obtain op vs where op: "operator = Some op"
    and vs: "check_witnesses [keyID op] ws = Inr vs"
    and p: "p = \<lparr>p_origin = origin, p_operator = Some op, p_witnesses = vs, p_k = k\<rparr>"
    and k: "0 \<le> k" "k \<le> int (length ws)" "origin \<noteq> []" "nl \<notin> set origin"
    by (auto simp: NewPolicy_def split: if_splits option.splits sum.splits)
  from check_witnesses_ok [OF vs] have "distinct (map keyID (op # vs))" by force
  with op p k check_witnesses_ok [OF vs] show ?thesis by (intro that) simp_all
qed

lemma Policy_Open_ok:
  assumes "Policy_Open E p msg = Inr c"
  obtains op n where "p_operator p = Some op" "note_open E msg (op # p_witnesses p) = Some n"
    "ParseCheckpoint E (Text n) = Inr c" "Origin c = p_origin p"
    "keyID op \<in> sigID ` set (Sigs n)"
    "p_k p \<le> int (length (filter (\<lambda>w. keyID w \<in> sigID ` set (Sigs n)) (p_witnesses p)))"
  using assms
  by (auto simp: Policy_Open_def Let_def split: option.splits sum.splits if_splits)

lemma signed_verified:
  assumes "note_open_sound E" and "note_open E msg vs = Some n"
    and "keyID v \<in> sigID ` set (Sigs n)" and "v \<in> set vs" and "distinct (map keyID vs)"
  shows "\<exists>raw. vVerify v (Text n) raw"
proof -
  from assms(3) obtain s where s: "s \<in> set (Sigs n)" "keyID v = sigID s" by auto
  with assms(1,2) have "sig_verified vs (Text n) s" by (auto simp: note_open_sound_def)
  then obtain w where w: "w \<in> set vs" "vName w = sName s" "vKeyHash w = sHash s"
    "\<exists>raw. vVerify w (Text n) raw" by (auto simp: sig_verified_def)
  then have "keyID w = keyID v" using s(2) by (simp add: keyID_def sigID_def)
  then have "w = v" using assms(4,5) w(1) by (simp add: distinct_map inj_on_def)
  with w show ?thesis by simp
qed

lemma uvarint_chunk:
  assumes "length f < 2 ^ 64"
  shows "readUvarintBytes (append_uvarint (length f) @ f @ r) = Some (f, r)"
proof -
  let ?h = "append_uvarint (length f)"
  have "uvarint (?h @ f @ r) = (length f, int (length ?h))" using assms by (rule uvarint_append)
  moreover have "0 < length ?h" by simp
  ultimately show ?thesis by (simp add: readUvarintBytes_def)
qed

interpretation chunk: codec length_prefixed readUvarintBytes "\<lambda>f. length f < 2 ^ 64"
  by unfold_locales (simp add: length_prefixed_def uvarint_chunk)

lemma MarshalBinary_chunks:
  "Equivocation_MarshalBinary e = Inr d \<Longrightarrow>
     d = length_prefixed (First e) @ length_prefixed (Second e) \<and> First e \<noteq> [] \<and> Second e \<noteq> []"
  by (auto simp: Equivocation_MarshalBinary_def length_prefixed_def split: if_splits)

lemma Unmarshal_chunks:
  "length (First e) < 2 ^ 64 \<Longrightarrow> length (Second e) < 2 ^ 64 \<Longrightarrow>
   Equivocation_UnmarshalBinary (length_prefixed (First e) @ length_prefixed (Second e)) = Inr e"
  by (simp add: Equivocation_UnmarshalBinary_def chunk.dec_enc chunk.dec_enc_end)

lemma VerifyEquivocation_ok:
  "VerifyEquivocation E e origin v = Inr n \<longleftrightarrow>
     (\<exists>c d. openOperatorCheckpoint E (First e) origin v = Inr c \<and>
        openOperatorCheckpoint E (Second e) origin v = Inr d \<and>
        Tree_N (Tree c) = n \<and> Tree_N (Tree d) = n \<and> Tree_Hash (Tree c) \<noteq> Tree_Hash (Tree d))"
  by (auto simp: VerifyEquivocation_def split: sum.splits if_splits)

lemma openOperatorCheckpoint_ok:
  "openOperatorCheckpoint E msg origin v = Inr c \<longleftrightarrow>
     (\<exists>n. note_open E msg [v] = Some n \<and> ParseCheckpoint E (Text n) = Inr c \<and>
        Origin c = origin)"
  by (auto simp: openOperatorCheckpoint_def split: option.splits sum.splits if_splits)

subsection \<open>Properties\<close>

text \<open>C4: Opening a signed checkpoint under a policy made by \<^verbatim>\<open>NewPolicy\<close> is sound: an accepted
  message has a text that parses to the checkpoint, names the policy's origin, was signed by the
  operator, and was signed by at least \<open>k\<close> different witnesses of the policy.\<close>

theorem policy_open_sound:
  assumes "note_open_sound E" and "NewPolicy origin operator witnesses k = Inr p"
    and "Policy_Open E p msg = Inr c"
  shows "\<exists>t W op raw. ParseCheckpoint E t = Inr c \<and> Origin c = origin \<and>
    operator = Some op \<and> vVerify op t raw \<and>
    W \<subseteq> {w. Some w \<in> set witnesses \<and> (\<exists>sig. vVerify w t sig)} \<and>
    int (card (keyID ` W)) \<ge> k \<and> keyID op \<notin> keyID ` W"
proof -
  obtain op where p: "operator = Some op" "p_operator p = Some op" "p_origin p = origin"
    "p_k p = k" "map Some (p_witnesses p) = witnesses" "distinct (map keyID (op # p_witnesses p))"
    using assms(2) by (rule NewPolicy_ok)
  obtain op' n where "p_operator p = Some op'"
    and n': "note_open E msg (op' # p_witnesses p) = Some n"
    "ParseCheckpoint E (Text n) = Inr c" "Origin c = p_origin p" "keyID op' \<in> sigID ` set (Sigs n)"
    "p_k p \<le> int (length (filter (\<lambda>w. keyID w \<in> sigID ` set (Sigs n)) (p_witnesses p)))"
    by (rule Policy_Open_ok [OF assms(3)])
  then have op': "op' = op" using p(2) by simp
  note n = n' [unfolded op' p(3) p(4)]
  define W where "W = filter (\<lambda>w. keyID w \<in> sigID ` set (Sigs n)) (p_witnesses p)"
  have ver: "\<exists>raw. vVerify v (Text n) raw"
    if "keyID v \<in> sigID ` set (Sigs n)" "v \<in> set (op # p_witnesses p)" for v
    using signed_verified [OF assms(1) n(1) that p(6)] .
  obtain raw where raw: "vVerify op (Text n) raw" using ver n(4) by auto
  have sub: "set W \<subseteq> {w. Some w \<in> set witnesses \<and> (\<exists>sig. vVerify w (Text n) sig)}"
    using ver by (auto simp: W_def p(5) [symmetric])
  have "card (keyID ` set W) = length W"
    using p(6) distinct_card [of "map keyID W"] by (simp add: W_def distinct_map_filter)
  then have card: "int (card (keyID ` set W)) \<ge> k" using n(5) by (simp add: W_def)
  have fresh: "keyID op \<notin> keyID ` set W" using p(6) by (auto simp: W_def)
  show ?thesis using n(2,3) p(1) raw sub card fresh by blast
qed

text \<open>A note opener that accepts one known message, for the witnesses.\<close>

definition demo_verifier :: "bytes \<Rightarrow> verifier" where
  "demo_verifier name = \<lparr>vName = name, vKeyHash = 1, vVerify = (\<lambda>t raw. True)\<rparr>"

definition demo_text :: bytes where
  "demo_text = ''log'' @ [nl] @ fmt_int 5 @ [nl] @ hash_str std_hash_ops zero_hash @ [nl]"

definition demo_sig :: "verifier \<Rightarrow> signature" where
  "demo_sig v = \<lparr>sName = vName v, sHash = vKeyHash v, sBase64 = []\<rparr>"

text \<open>The message is its own text, signed by every known verifier that accepts an empty signature.\<close>

definition demo_note_ops :: note_ops where
  "demo_note_ops =
     \<lparr>hash_str = hash_str std_hash_ops, parse_hash = parse_hash std_hash_ops,
      note_open = (\<lambda>msg vs. let signers = filter (\<lambda>v. vVerify v msg []) vs in
        if signers = [] then None
        else Some \<lparr>Text = msg, Sigs = map demo_sig signers, UnverifiedSigs = []\<rparr>)\<rparr>"

lemma demo_note_open_sound: "note_open_sound demo_note_ops"
  by (fastforce simp: note_open_sound_def demo_note_ops_def sig_verified_def demo_sig_def Let_def
      split: if_splits)

definition demo_operator :: verifier where
  "demo_operator = demo_verifier ''op''"

definition demo_witness :: verifier where
  "demo_witness = demo_verifier ''wit''"

definition demo_checkpoint :: checkpoint where
  "demo_checkpoint = \<lparr>Origin = ''log'', Tree = \<lparr>Tree_N = 5, Tree_Hash = zero_hash\<rparr>\<rparr>"

definition demo_policy :: policy where
  "demo_policy = \<lparr>p_origin = ''log'', p_operator = Some demo_operator,
     p_witnesses = [demo_witness], p_k = 1\<rparr>"

lemma demo_parse: "ParseCheckpoint demo_note_ops demo_text = Inr demo_checkpoint"
  unfolding demo_text_def
  by (subst ParseCheckpoint_lines)
    (auto simp: demo_note_ops_def demo_checkpoint_def fmt_int_free parse_int64_fmt_int
      fmt_int_canonical std_hash_ops_def zero_hash_def dest: b64_encode_plain)

lemma demo_keyIDs: "keyID demo_operator \<noteq> keyID demo_witness"
  by (simp add: keyID_eq demo_operator_def demo_witness_def demo_verifier_def)

lemma demo_NewPolicy:
  "NewPolicy ''log'' (Some demo_operator) [Some demo_witness] 1 = Inr demo_policy"
  using demo_keyIDs by (simp add: NewPolicy_def demo_policy_def)

lemma demo_sigID [simp]: "sigID (demo_sig v) = keyID v"
  by (simp add: sigID_def demo_sig_def keyID_def)

lemma demo_accepts: "vVerify demo_operator t raw" "vVerify demo_witness t raw"
  by (simp_all add: demo_operator_def demo_witness_def demo_verifier_def)

lemma demo_Open: "Policy_Open demo_note_ops demo_policy demo_text = Inr demo_checkpoint"
proof -
  have "note_open demo_note_ops demo_text [demo_operator, demo_witness] =
      Some \<lparr>Text = demo_text, Sigs = map demo_sig [demo_operator, demo_witness], UnverifiedSigs = []\<rparr>"
    by (simp add: demo_note_ops_def demo_accepts)
  then show ?thesis
    by (simp add: Policy_Open_def demo_policy_def demo_parse) (simp add: demo_checkpoint_def)
qed

theorem policy_open_sound_witness:
  "\<exists>t W op raw. ParseCheckpoint demo_note_ops t = Inr demo_checkpoint \<and>
    Origin demo_checkpoint = ''log'' \<and> Some demo_operator = Some op \<and> vVerify op t raw \<and>
    W \<subseteq> {w. Some w \<in> set [Some demo_witness] \<and> (\<exists>sig. vVerify w t sig)} \<and>
    int (card (keyID ` W)) \<ge> 1 \<and> keyID op \<notin> keyID ` W"
  by (rule policy_open_sound [OF demo_note_open_sound demo_NewPolicy demo_Open])

text \<open>An equivocation proof survives its encoding: decoding what \<^verbatim>\<open>MarshalBinary\<close> wrote
  gives the two messages back.\<close>

theorem equivocation_roundtrip:
  assumes "Equivocation_MarshalBinary e = Inr d"
    and "length (First e) < 2 ^ 64" and "length (Second e) < 2 ^ 64"
  shows "Equivocation_UnmarshalBinary d = Inr e"
proof -
  have d: "d = length_prefixed (First e) @ length_prefixed (Second e)"
    using MarshalBinary_chunks [OF assms(1)] by simp
  show ?thesis unfolding d by (rule Unmarshal_chunks [OF assms(2,3)])
qed

theorem equivocation_roundtrip_witness:
  "Equivocation_UnmarshalBinary [CHR 0x01, CHR ''a'', CHR 0x02, CHR ''b'', CHR ''c'']
   = Inr \<lparr>First = ''a'', Second = ''bc''\<rparr>"
  by (rule equivocation_roundtrip) (code_simp, simp_all)

text \<open>A verified equivocation proof convicts the operator: it shows two texts, both signed
  by the operator, that name the same origin and tree size with different root hashes.\<close>

theorem equivocation_convicts:
  assumes "note_open_sound E" and "VerifyEquivocation E e origin v = Inr n"
  shows "\<exists>t u c d. (\<exists>raw. vVerify v t raw) \<and> (\<exists>raw. vVerify v u raw) \<and>
    ParseCheckpoint E t = Inr c \<and> ParseCheckpoint E u = Inr d \<and>
    Origin c = origin \<and> Origin d = origin \<and>
    Tree_N (Tree c) = n \<and> Tree_N (Tree d) = n \<and> Tree_Hash (Tree c) \<noteq> Tree_Hash (Tree d)"
proof -
  have opened: "\<exists>t raw. vVerify v t raw \<and> ParseCheckpoint E t = Inr c \<and> Origin c = origin"
    if "openOperatorCheckpoint E msg origin v = Inr c" for msg c
  proof -
    obtain m where m: "note_open E msg [v] = Some m" "ParseCheckpoint E (Text m) = Inr c"
      "Origin c = origin" using \<open>openOperatorCheckpoint E msg origin v = Inr c\<close>
      by (auto simp: openOperatorCheckpoint_ok)
    then obtain s where "sig_verified [v] (Text m) s" using assms(1)
      by (metis list.set_intros(1) neq_Nil_conv note_open_sound_def)
    with m show ?thesis by (auto simp: sig_verified_def)
  qed
  from assms(2) obtain c d where cd: "openOperatorCheckpoint E (First e) origin v = Inr c"
    "openOperatorCheckpoint E (Second e) origin v = Inr d"
    "Tree_N (Tree c) = n" "Tree_N (Tree d) = n" "Tree_Hash (Tree c) \<noteq> Tree_Hash (Tree d)"
    unfolding VerifyEquivocation_ok by blast
  from opened [OF cd(1)] opened [OF cd(2)] cd(3-5) show ?thesis by blast
qed

definition demo_fork_text :: bytes where
  "demo_fork_text =
     ''log'' @ [nl] @ fmt_int 5 @ [nl] @ hash_str std_hash_ops (replicate 32 (CHR 0x01)) @ [nl]"

lemma demo_fork_parse:
  "ParseCheckpoint demo_note_ops demo_fork_text =
     Inr \<lparr>Origin = ''log'', Tree = \<lparr>Tree_N = 5, Tree_Hash = replicate 32 (CHR 0x01)\<rparr>\<rparr>"
  unfolding demo_fork_text_def
  by (subst ParseCheckpoint_lines)
    (auto simp: demo_note_ops_def fmt_int_free parse_int64_fmt_int fmt_int_canonical
      std_hash_ops_def dest: b64_encode_plain)

lemma demo_note_open:
  "note_open demo_note_ops msg [demo_operator] =
     Some \<lparr>Text = msg, Sigs = [demo_sig demo_operator], UnverifiedSigs = []\<rparr>"
  by (simp add: demo_note_ops_def demo_accepts)

lemma demo_VerifyEquivocation:
  "VerifyEquivocation demo_note_ops \<lparr>First = demo_text, Second = demo_fork_text\<rparr> ''log'' demo_operator
   = Inr 5"
  by (simp add: VerifyEquivocation_ok openOperatorCheckpoint_ok demo_note_open demo_parse
      demo_fork_parse demo_checkpoint_def zero_hash_def)

theorem equivocation_convicts_witness:
  "\<exists>t u c d. (\<exists>raw. vVerify demo_operator t raw) \<and> (\<exists>raw. vVerify demo_operator u raw) \<and>
    ParseCheckpoint demo_note_ops t = Inr c \<and> ParseCheckpoint demo_note_ops u = Inr d \<and>
    Origin c = ''log'' \<and> Origin d = ''log'' \<and>
    Tree_N (Tree c) = 5 \<and> Tree_N (Tree d) = 5 \<and> Tree_Hash (Tree c) \<noteq> Tree_Hash (Tree d)"
  by (rule equivocation_convicts [OF demo_note_open_sound demo_VerifyEquivocation])

lemma openEnvelope_envelope:
  "k = envCheckpoint \<or> k = envEquivocation \<Longrightarrow> p \<noteq> [] \<Longrightarrow> openEnvelope (envelope k p) = Some (k, p)"
  by (auto simp: openEnvelope_def envelope_def Suc_le_eq)

lemma openEnvelope_ok:
  "openEnvelope msg = Some (k, p) \<longleftrightarrow>
     msg = envelope k p \<and> p \<noteq> [] \<and> (k = envCheckpoint \<or> k = envEquivocation)"
  by (cases msg) (auto simp: openEnvelope_def envelope_def split: if_splits)

end
