(* ===== verification/Tlog_Source.thy ===== *)
theory Tlog_Source
  imports Tlog_Policy
begin

section \<open>Transparency log: the timeline and its source (tlogiroh/source.go)\<close>

text \<open>
  Where a client or witness reads a log from: the timeline document that names blobs by key,
  and the blobs themselves. The document store, the blob getter and the tree algorithms of
  \<^verbatim>\<open>golang.org/x/mod/sumdb/tlog\<close> are parameters of the model; the key forms, the checks on
  what a getter returns and the choice of the latest checkpoint are the program's own.
\<close>

subsection \<open>Parameters\<close>

record tile =
  Tile_H :: int
  Tile_L :: int
  Tile_N :: int
  Tile_W :: int

type_synonym hash_reader = "int list \<Rightarrow> tlog_error + hash list"
type_synonym tile_reader = "tile list \<Rightarrow> tlog_error + bytes list"

text \<open>\<^verbatim>\<open>tlog.HashSize\<close> is 32, \<^verbatim>\<open>TileHeight\<close> is 8.\<close>

definition HashSize :: int where
  "HashSize = 32"

definition TileHeight :: int where
  "TileHeight = 8"

text \<open>The functions of package \<^verbatim>\<open>tlog\<close> and \<^verbatim>\<open>note.Sign\<close> that the program calls.\<close>

record tlog_ops = note_ops +
  tile_path :: "tile \<Rightarrow> bytes"
  tile_hash_reader :: "tree \<Rightarrow> tile_reader \<Rightarrow> hash_reader"
  prove_tree :: "int \<Rightarrow> int \<Rightarrow> hash_reader \<Rightarrow> tlog_error + hash list"
  check_tree :: "hash list \<Rightarrow> int \<Rightarrow> hash \<Rightarrow> int \<Rightarrow> hash \<Rightarrow> bool"
  prove_record :: "int \<Rightarrow> int \<Rightarrow> hash_reader \<Rightarrow> tlog_error + hash list"
  check_record :: "hash list \<Rightarrow> int \<Rightarrow> hash \<Rightarrow> int \<Rightarrow> hash \<Rightarrow> bool"
  record_hash :: "bytes \<Rightarrow> hash"
  stored_hashes :: "int \<Rightarrow> bytes \<Rightarrow> hash_reader \<Rightarrow> tlog_error + hash list"
  new_tiles :: "int \<Rightarrow> int \<Rightarrow> int \<Rightarrow> tile list"
  read_tile_data :: "tile \<Rightarrow> hash_reader \<Rightarrow> tlog_error + bytes"
  tree_hash :: "int \<Rightarrow> hash_reader \<Rightarrow> tlog_error + hash"

text \<open>
  A timeline entry names its namespace, author, key, and the hash and length of its blob. The
  replica is read through an exact lookup and a listing.
\<close>

type_synonym blob_hash = bytes

record timeline_entry =
  te_namespace :: bytes
  te_author :: bytes
  te_key :: bytes
  te_hash :: blob_hash
  te_len :: u64

record source =
  Doc_GetExact :: "bytes \<Rightarrow> bytes \<Rightarrow> bytes \<Rightarrow> timeline_entry option"
  Doc_Entries :: "timeline_entry list"
  Namespace :: bytes
  Author :: bytes
  Get :: "blob_hash \<Rightarrow> tlog_error + bytes"

text \<open>
  What an exact lookup of the replica returns: an entry of the listing with that namespace,
  author and key, and it finds one whenever the listing holds one.
\<close>

definition doc_lookup_ok :: "source \<Rightarrow> bool" where
  "doc_lookup_ok s \<longleftrightarrow>
     (\<forall>ns a k. case Doc_GetExact s ns a k of
        None \<Rightarrow> \<forall>e \<in> set (Doc_Entries s). (te_namespace e, te_author e, te_key e) \<noteq> (ns, a, k)
      | Some e \<Rightarrow> e \<in> set (Doc_Entries s) \<and> (te_namespace e, te_author e, te_key e) = (ns, a, k))"

text \<open>
  What \<^verbatim>\<open>tlog.Tile.Path\<close> documents of a complete tile: the path names the tile's height, level
  and index, starts with \<^verbatim>\<open>tile/\<close> and has no dot (only a partial tile's path ends in \<^verbatim>\<open>.p/W\<close>).
\<close>

definition complete_tile :: "tile \<Rightarrow> tile" where
  "complete_tile t = t\<lparr>Tile_W := 2 ^ nat (Tile_H t)\<rparr>"

definition tile_path_ok :: "'x tlog_ops_scheme \<Rightarrow> bool" where
  "tile_path_ok E \<longleftrightarrow>
     (\<forall>t. prefix ''tile/'' (tile_path E (complete_tile t)) \<and>
          CHR ''.'' \<notin> set (tile_path E (complete_tile t))) \<and>
     (\<forall>t u. tile_path E (complete_tile t) = tile_path E (complete_tile u) \<longrightarrow>
          Tile_H t = Tile_H u \<and> Tile_L t = Tile_L u \<and> Tile_N t = Tile_N u)"

subsection \<open>Timeline keys\<close>

definition entryKeyPrefix :: bytes where
  "entryKeyPrefix = ''entry/''"

definition checkpointKeyPrefix :: bytes where
  "checkpointKeyPrefix = ''checkpoint/''"

definition entryKey :: "int \<Rightarrow> bytes" where
  "entryKey index = entryKeyPrefix @ fmt_pad 20 index"

definition checkpointKey :: "int \<Rightarrow> bytes" where
  "checkpointKey n = checkpointKeyPrefix @ fmt_pad 20 n"

definition tileKey :: "'x tlog_ops_scheme \<Rightarrow> tile \<Rightarrow> bytes" where
  "tileKey E t = tile_path E (complete_tile t) @ ''.w/'' @ fmt_pad 3 (Tile_W t)"

subsection \<open>Reading a source\<close>

definition Source_blob :: "source \<Rightarrow> bytes \<Rightarrow> tlog_error + bytes" where
  "Source_blob s key =
     (case Doc_GetExact s (Namespace s) (Author s) key of
        None \<Rightarrow> Inl ErrNoTimelineEntry
      | Some entry \<Rightarrow>
        (case Get s (te_hash entry) of
           Inl e \<Rightarrow> Inl e
         | Inr data \<Rightarrow>
           if (of_nat (length data) :: u64) \<noteq> te_len entry then Inl ErrBlobLength
           else Inr data))"

text \<open>The loop over the replica's entries, with the largest checkpoint key so far.\<close>

fun latest_key :: "source \<Rightarrow> bytes \<Rightarrow> timeline_entry list \<Rightarrow> bytes" where
  "latest_key s latest [] = latest"
| "latest_key s latest (entry # es) =
     (if te_namespace entry \<noteq> Namespace s \<or> te_author entry \<noteq> Author s then latest_key s latest es
      else if \<not> prefix checkpointKeyPrefix (te_key entry) then latest_key s latest es
      else if te_key entry > latest then latest_key s (te_key entry) es
      else latest_key s latest es)"

definition latestCheckpoint :: "source \<Rightarrow> tlog_error + bytes" where
  "latestCheckpoint s =
     (let latest = latest_key s [] (Doc_Entries s) in
      if latest = [] then Inl ErrNoCheckpoint else Source_blob s latest)"

fun ReadTiles :: "'x tlog_ops_scheme \<Rightarrow> source \<Rightarrow> tile_reader" where
  "ReadTiles E s [] = Inr []"
| "ReadTiles E s (t # ts) =
     (case Source_blob s (tileKey E t) of
        Inl e \<Rightarrow> Inl e
      | Inr b \<Rightarrow>
        if int (length b) \<noteq> Tile_W t * HashSize then Inl ErrTileLength
        else (case ReadTiles E s ts of Inl e \<Rightarrow> Inl e | Inr data \<Rightarrow> Inr (b # data)))"

definition hashReaderForTree :: "'x tlog_ops_scheme \<Rightarrow> source \<Rightarrow> tree \<Rightarrow> hash_reader" where
  "hashReaderForTree E s tree = tile_hash_reader E tree (ReadTiles E s)"

subsection \<open>Lemmas: keys\<close>

text \<open>The keys of the timeline, one constructor per key form.\<close>

datatype timeline_key = EntryKey int | CheckpointKey int | TileKey tile

definition key_bytes :: "'x tlog_ops_scheme \<Rightarrow> timeline_key \<Rightarrow> bytes" where
  "key_bytes E k = (case k of EntryKey i \<Rightarrow> entryKey i | CheckpointKey n \<Rightarrow> checkpointKey n
     | TileKey t \<Rightarrow> tileKey E t)"

text \<open>The keys an operator writes: sizes and indexes are \<^verbatim>\<open>int64\<close>, widths at most 256.\<close>

definition key_ok :: "timeline_key \<Rightarrow> bool" where
  "key_ok k = (case k of EntryKey i \<Rightarrow> 0 \<le> i \<and> i < 2 ^ 63 | CheckpointKey n \<Rightarrow> 0 \<le> n \<and> n < 2 ^ 63
     | TileKey t \<Rightarrow> 0 \<le> Tile_W t \<and> Tile_W t \<le> 256)"

lemma padded_unique:
  assumes "fmt_pad k i @ r = fmt_pad k j @ s" "0 \<le> i" "i < 10 ^ k" "0 \<le> j" "j < 10 ^ k" "0 < k"
  shows "i = j \<and> r = s"
proof -
  have "length (fmt_pad k i) = length (fmt_pad k j)" using assms(2-) by (simp add: length_fmt_pad)
  with assms(1) have "fmt_pad k i = fmt_pad k j \<and> r = s" by simp
  with assms(2,4) show ?thesis by (auto dest: fmt_pad_inj)
qed

lemma int64_pad20: "i < 2 ^ 63 \<Longrightarrow> i < (10 :: int) ^ 20"
  by simp

lemma complete_eq:
  "Tile_H t = Tile_H u \<Longrightarrow> Tile_L t = Tile_L u \<Longrightarrow> Tile_N t = Tile_N u \<Longrightarrow> Tile_W t = Tile_W u \<Longrightarrow>
   t = (u :: tile)"
  by simp

lemma tileKey_unique:
  assumes "tile_path_ok E" "tileKey E t @ r = tileKey E u @ s"
    "0 \<le> Tile_W t" "Tile_W t \<le> 256" "0 \<le> Tile_W u" "Tile_W u \<le> 256"
  shows "t = u \<and> r = s"
proof -
  have free: "CHR ''.'' \<notin> set (tile_path E (complete_tile x))" for x
    using assms(1) by (simp add: tile_path_ok_def)
  from assms(2) have "tile_path E (complete_tile t) @ CHR ''.'' # ''w/'' @ fmt_pad 3 (Tile_W t) @ r =
      tile_path E (complete_tile u) @ CHR ''.'' # ''w/'' @ fmt_pad 3 (Tile_W u) @ s"
    by (simp add: tileKey_def)
  from append_stop_unique [OF this free free]
  have path: "tile_path E (complete_tile t) = tile_path E (complete_tile u)"
    and width: "fmt_pad 3 (Tile_W t) @ r = fmt_pad 3 (Tile_W u) @ s" by simp_all
  have "Tile_W t = Tile_W u \<and> r = s" using padded_unique [OF width] assms(3-) by simp
  moreover have "Tile_H t = Tile_H u" "Tile_L t = Tile_L u" "Tile_N t = Tile_N u"
    using path assms(1) unfolding tile_path_ok_def by blast+
  ultimately show ?thesis by (simp add: complete_eq)
qed

lemma tileKey_head:
  assumes "tile_path_ok E"
  shows "prefix ''tile/'' (tileKey E t @ r)"
proof -
  have "prefix ''tile/'' (tile_path E (complete_tile t))"
    using assms unfolding tile_path_ok_def by blast
  then show ?thesis unfolding tileKey_def append_assoc by (rule prefix_prefix)
qed

lemma key_bytes_unique:
  assumes "tile_path_ok E" "key_ok x" "key_ok y" "key_bytes E x @ r = key_bytes E y @ s"
  shows "x = y \<and> r = s"
proof -
  have t: "hd (tileKey E t @ q) = CHR ''t''" for t q
    using tileKey_head [OF assms(1), of t q] by (auto simp: prefix_def)
  have head: "hd (key_bytes E k @ q) = (case k of EntryKey _ \<Rightarrow> CHR ''e'' | CheckpointKey _ \<Rightarrow> CHR ''c''
      | TileKey _ \<Rightarrow> CHR ''t'')" for k q
    by (cases k) (simp_all add: key_bytes_def t entryKey_def checkpointKey_def entryKeyPrefix_def
        checkpointKeyPrefix_def)
  from arg_cong [OF assms(4), of hd] have same:
    "(case x of EntryKey _ \<Rightarrow> CHR ''e'' | CheckpointKey _ \<Rightarrow> CHR ''c'' | TileKey _ \<Rightarrow> CHR ''t'') =
     (case y of EntryKey _ \<Rightarrow> CHR ''e'' | CheckpointKey _ \<Rightarrow> CHR ''c'' | TileKey _ \<Rightarrow> CHR ''t'')"
    unfolding head .
  show ?thesis
  proof (cases x)
    case (EntryKey i)
    with same obtain j where y: "y = EntryKey j" by (cases y) simp_all
    with EntryKey assms(4) have "fmt_pad 20 i @ r = fmt_pad 20 j @ s"
      by (simp add: key_bytes_def entryKey_def)
    from padded_unique [OF this] show ?thesis using EntryKey y assms(2,3)
      by (simp add: key_ok_def)
  next
    case (CheckpointKey i)
    with same obtain j where y: "y = CheckpointKey j" by (cases y) simp_all
    with CheckpointKey assms(4) have "fmt_pad 20 i @ r = fmt_pad 20 j @ s"
      by (simp add: key_bytes_def checkpointKey_def)
    from padded_unique [OF this] show ?thesis using CheckpointKey y assms(2,3)
      by (simp add: key_ok_def)
  next
    case (TileKey t)
    with same obtain u where y: "y = TileKey u" by (cases y) simp_all
    with TileKey assms show ?thesis
      using tileKey_unique [OF assms(1), of t r u s] by (simp add: key_bytes_def key_ok_def)
  qed
qed

lemma key_prefix_code: "tile_path_ok E \<Longrightarrow> prefix_code (key_bytes E) key_ok"
  by (unfold_locales) (rule key_bytes_unique)

lemma latest_key_cases:
  "latest_key s l es = l \<or> (\<exists>e \<in> set es. te_namespace e = Namespace s \<and> te_author e = Author s \<and>
     prefix checkpointKeyPrefix (te_key e) \<and> latest_key s l es = te_key e)"
  by (induction s l es rule: latest_key.induct) auto

lemma latest_key_ge: "l \<le> latest_key s l es"
proof (induction s l es rule: latest_key.induct)
  case (2 s l e es)
  then show ?case by (auto intro: order.trans [OF less_imp_le])
qed simp

lemma latest_key_max:
  "e \<in> set es \<Longrightarrow> te_namespace e = Namespace s \<Longrightarrow> te_author e = Author s \<Longrightarrow>
   prefix checkpointKeyPrefix (te_key e) \<Longrightarrow> te_key e \<le> latest_key s l es"
proof (induction s l es rule: latest_key.induct)
  case (2 s l x es)
  show ?case
  proof (cases "e = x")
    case True
    with "2.prems" show ?thesis
      using latest_key_ge [of "te_key x" s es] latest_key_ge [of l s es] by auto
  next
    case False
    with 2 show ?thesis by simp
  qed
qed simp

lemma Source_blob_ok:
  "Source_blob s key = Inr data \<longleftrightarrow>
     (\<exists>e. Doc_GetExact s (Namespace s) (Author s) key = Some e \<and> Get s (te_hash e) = Inr data \<and>
        te_len e = of_nat (length data))"
  by (auto simp: Source_blob_def split: option.splits sum.splits if_splits)

lemma checkpointKey_less:
  "0 \<le> m \<Longrightarrow> m < 2 ^ 63 \<Longrightarrow> 0 \<le> n \<Longrightarrow> n < 2 ^ 63 \<Longrightarrow> checkpointKey m < checkpointKey n \<longleftrightarrow> m < n"
  by (simp add: checkpointKey_def checkpointKeyPrefix_def fmt_pad_less)

lemma checkpointKey_le:
  assumes "0 \<le> m" "m < 2 ^ 63" "0 \<le> n" "n < 2 ^ 63" "checkpointKey m \<le> checkpointKey n"
  shows "m \<le> n"
  using checkpointKey_less [OF assms(3,4,1,2)] assms(5) by (meson leD leI)

lemma ReadTiles_widths:
  "ReadTiles E s ts = Inr ds \<Longrightarrow> list_all2 (\<lambda>t d. int (length d) = Tile_W t * HashSize) ts ds"
  by (induction E s ts arbitrary: ds rule: ReadTiles.induct) (auto split: sum.splits if_splits)

subsection \<open>A concrete instance\<close>

text \<open>
  A small log in which a tree hash is its only record hash, a consistency proof is empty, and a
  tile path spells out height, level and index; it meets every documented law above.
\<close>

definition demo_tlog_ops :: tlog_ops where
  "demo_tlog_ops = note_ops.extend demo_note_ops
     \<lparr>tile_path = (\<lambda>t. ''tile/'' @ fmt_int (Tile_H t) @ ''/'' @ fmt_int (Tile_L t) @ ''/''
        @ fmt_int (Tile_N t)),
      tile_hash_reader = (\<lambda>tree tr indexes. Inr (map (\<lambda>_. Tree_Hash tree) indexes)),
      prove_tree = (\<lambda>n m r. Inr []),
      check_tree = (\<lambda>p n h m g. m \<le> n \<and> h = g),
      prove_record = (\<lambda>n i r. Inr []),
      check_record = (\<lambda>p n h i rh. rh = h),
      record_hash = (\<lambda>d. take 32 (d @ replicate 32 (CHR 0x00))),
      stored_hashes = (\<lambda>i d r. Inr [take 32 (d @ replicate 32 (CHR 0x00))]),
      new_tiles = (\<lambda>h old new. if old < new
        then [\<lparr>Tile_H = h, Tile_L = 0, Tile_N = (new - 1) div 2 ^ nat h,
          Tile_W = (new - 1) mod 2 ^ nat h + 1\<rparr>] else []),
      read_tile_data = (\<lambda>t r. case r (map int [0..<nat (Tile_W t)]) of Inl e \<Rightarrow> Inl e
        | Inr hs \<Rightarrow> Inr (concat hs)),
      tree_hash = (\<lambda>n r. if n = 0 then Inr zero_hash
        else (case r [0] of Inl e \<Rightarrow> Inl e
          | Inr hs \<Rightarrow> Inr (take 32 (hd hs @ replicate 32 (CHR 0x00)))))\<rparr>"

lemma fmt_int_no: "c = CHR ''/'' \<or> c = CHR ''.'' \<Longrightarrow> c \<notin> set (fmt_int i)"
  by (auto simp: fmt_int_def dec_digits_free)

lemma fmt_int_eq: "fmt_int i = fmt_int j \<Longrightarrow> i = j"
proof -
  have hd: "hd (dec_digits n) \<noteq> CHR ''-''" for n
  proof
    assume "hd (dec_digits n) = CHR ''-''"
    then have "CHR ''-'' \<in> set (dec_digits n)" by (metis hd_in_set dec_digits_not_Nil)
    then show False using dec_digits_free [of "CHR ''-''" n] by simp
  qed
  assume "fmt_int i = fmt_int j"
  then show ?thesis
    using hd [of "nat i"] hd [of "nat j"]
    by (auto simp: fmt_int_def dest: dec_digits_inj split: if_splits) (metis list.sel(1))+
qed

lemma demo_tile_path_ok: "tile_path_ok demo_tlog_ops"
proof -
  have p: "tile_path demo_tlog_ops (complete_tile t) =
      ''tile/'' @ fmt_int (Tile_H t) @ ''/'' @ fmt_int (Tile_L t) @ ''/'' @ fmt_int (Tile_N t)" for t
    by (simp add: demo_tlog_ops_def note_ops.defs complete_tile_def)
  have "Tile_H t = Tile_H u \<and> Tile_L t = Tile_L u \<and> Tile_N t = Tile_N u"
    if "tile_path demo_tlog_ops (complete_tile t) = tile_path demo_tlog_ops (complete_tile u)" for t u
  proof -
    from that have "fmt_int (Tile_H t) @ CHR ''/'' # fmt_int (Tile_L t) @ ''/'' @ fmt_int (Tile_N t) =
        fmt_int (Tile_H u) @ CHR ''/'' # fmt_int (Tile_L u) @ ''/'' @ fmt_int (Tile_N u)" by (simp add: p)
    from append_stop_unique [OF this fmt_int_no fmt_int_no]
    have one: "fmt_int (Tile_H t) = fmt_int (Tile_H u)"
      and "fmt_int (Tile_L t) @ CHR ''/'' # fmt_int (Tile_N t) =
        fmt_int (Tile_L u) @ CHR ''/'' # fmt_int (Tile_N u)" by simp_all
    from append_stop_unique [OF this(2) fmt_int_no fmt_int_no] one show ?thesis
      by (auto dest: fmt_int_eq)
  qed
  then show ?thesis by (auto simp: tile_path_ok_def p fmt_int_no)
qed

subsection \<open>Properties\<close>

text \<open>No timeline key the operator writes is a prefix of another one, so an insert into the
  document, which deletes older entries whose keys extend the new key, only ever replaces the
  entry of the same index, size or tile width.\<close>

theorem timeline_keys_prefix_free:
  assumes "tile_path_ok E" and "key_ok x" and "key_ok y"
    and "prefix (key_bytes E x) (key_bytes E y)"
  shows "x = y"
  using prefix_code.enc_prefix_free [OF key_prefix_code [OF assms(1)] assms(2-4)] .

theorem timeline_keys_prefix_free_witness:
  "CheckpointKey 7 = CheckpointKey (int (Suc 6))"
  by (rule timeline_keys_prefix_free [OF demo_tile_path_ok])
    (simp_all add: key_ok_def)

text \<open>The latest checkpoint is the one with the largest tree size of the timeline: byte order
  of the zero-padded keys is the order of the sizes, and the note returned is the verified blob
  the timeline records under that size.\<close>

theorem latest_checkpoint_is_largest:
  assumes "doc_lookup_ok s"
    and "\<forall>e \<in> set (Doc_Entries s). prefix checkpointKeyPrefix (te_key e) \<longrightarrow>
           (\<exists>n. 0 \<le> n \<and> n < 2 ^ 63 \<and> te_key e = checkpointKey n)"
    and "latestCheckpoint s = Inr msg"
  shows "\<exists>n e. e \<in> set (Doc_Entries s) \<and> te_namespace e = Namespace s \<and> te_author e = Author s \<and>
    te_key e = checkpointKey n \<and> Get s (te_hash e) = Inr msg \<and> te_len e = of_nat (length msg) \<and>
    (\<forall>e' m. e' \<in> set (Doc_Entries s) \<and> te_namespace e' = Namespace s \<and> te_author e' = Author s \<and>
       te_key e' = checkpointKey m \<and> 0 \<le> m \<and> m < 2 ^ 63 \<longrightarrow> m \<le> n)"
proof -
  define k where "k = latest_key s [] (Doc_Entries s)"
  from assms(3) have k: "k \<noteq> []" and blob: "Source_blob s k = Inr msg"
    by (auto simp: latestCheckpoint_def k_def Let_def split: if_splits)
  from blob obtain e where e: "Doc_GetExact s (Namespace s) (Author s) k = Some e"
    "Get s (te_hash e) = Inr msg" "te_len e = of_nat (length msg)" by (auto simp: Source_blob_ok)
  have "case Some e of None \<Rightarrow> True | Some e \<Rightarrow> e \<in> set (Doc_Entries s) \<and>
      (te_namespace e, te_author e, te_key e) = (Namespace s, Author s, k)"
    using assms(1) e(1) by (auto simp: doc_lookup_ok_def split: option.splits)
  then have doc: "e \<in> set (Doc_Entries s)" "te_namespace e = Namespace s" "te_author e = Author s"
    "te_key e = k" by simp_all
  from k have "prefix checkpointKeyPrefix k"
    using latest_key_cases [of s "[]" "Doc_Entries s"] by (auto simp: k_def)
  with assms(2) doc obtain n where n: "0 \<le> n" "n < 2 ^ 63" "k = checkpointKey n" by metis
  have "m \<le> n" if "e' \<in> set (Doc_Entries s)" "te_namespace e' = Namespace s"
    "te_author e' = Author s" "te_key e' = checkpointKey m" "0 \<le> m" "m < 2 ^ 63" for e' m
  proof -
    have "prefix checkpointKeyPrefix (te_key e')" by (simp add: that(4) checkpointKey_def)
    from latest_key_max [OF that(1-3) this, of "[]"]
    have "checkpointKey m \<le> checkpointKey n" by (simp add: that(4) n(3) flip: k_def)
    then show ?thesis by (rule checkpointKey_le [OF that(5,6) n(1,2)])
  qed
  with doc e n show ?thesis by blast
qed

definition demo_entry :: "int \<Rightarrow> timeline_entry" where
  "demo_entry n = \<lparr>te_namespace = ''ns'', te_author = ''au'', te_key = checkpointKey n,
     te_hash = fmt_int n, te_len = 2\<rparr>"

definition demo_source :: source where
  "demo_source =
     \<lparr>Doc_GetExact = (\<lambda>ns a k. find (\<lambda>e. (te_namespace e, te_author e, te_key e) = (ns, a, k))
        [demo_entry 3, demo_entry 12]),
      Doc_Entries = [demo_entry 3, demo_entry 12], Namespace = ''ns'', Author = ''au'',
      Get = (\<lambda>h. Inr ''ok'')\<rparr>"

lemma demo_source_lookup: "doc_lookup_ok demo_source"
  by (auto simp: doc_lookup_ok_def demo_source_def)

lemma demo_latest: "latestCheckpoint demo_source = Inr ''ok''"
proof -
  have "checkpointKey 3 < checkpointKey 12" by (simp add: checkpointKey_less)
  moreover have "[] < checkpointKey n" "checkpointKey n \<noteq> []" "prefix checkpointKeyPrefix (checkpointKey n)" for n
    by (simp_all add: checkpointKey_def checkpointKeyPrefix_def)
  ultimately show ?thesis
    by (auto simp: latestCheckpoint_def demo_source_def demo_entry_def Source_blob_def Let_def)
qed

theorem latest_checkpoint_is_largest_witness:
  "\<exists>n e. e \<in> set (Doc_Entries demo_source) \<and> te_key e = checkpointKey n \<and>
    Get demo_source (te_hash e) = Inr ''ok'' \<and> te_len e = of_nat (length ''ok'') \<and> 12 \<le> n"
proof -
  have "\<exists>m. 0 \<le> m \<and> m < 2 ^ 63 \<and> te_key (demo_entry n) = checkpointKey m" if "0 \<le> n" "n < 2 ^ 63" for n
    using that by (auto simp: demo_entry_def)
  then have keys: "\<forall>e \<in> set (Doc_Entries demo_source). prefix checkpointKeyPrefix (te_key e) \<longrightarrow>
      (\<exists>n. 0 \<le> n \<and> n < 2 ^ 63 \<and> te_key e = checkpointKey n)"
    by (simp add: demo_source_def)
  have twelve: "demo_entry 12 \<in> set (Doc_Entries demo_source)" "te_key (demo_entry 12) = checkpointKey 12"
    "te_namespace (demo_entry 12) = Namespace demo_source" "te_author (demo_entry 12) = Author demo_source"
    "(0 :: int) \<le> 12" "(12 :: int) < 2 ^ 63"
    by (simp_all add: demo_source_def demo_entry_def)
  from latest_checkpoint_is_largest [OF demo_source_lookup keys demo_latest] twelve show ?thesis by blast
qed

end
