(* ===== verification/Tlog_Client.thy ===== *)
theory Tlog_Client
  imports Tlog_Source
begin

section \<open>Transparency log: the client (tlogiroh/client.go)\<close>

text \<open>
  A client keeps the latest accepted signed checkpoint, its head. The contract a head keeper
  promises (no rollback, no fork, every larger head proved consistent) is stated once as a
  locale; the client here and the witness of \<open>Tlog_Witness\<close> are its instances. The second half
  is the watch loop on the gossip topic as a step function on an explicit state; the timer, the
  topic, the map iteration order and the consumer's answers are its inputs.
\<close>

subsection \<open>The contract of a head keeper\<close>

text \<open>
  \<open>step i s\<close> performs the operation \<open>i\<close>; \<open>head s\<close> is the tree of the head, if any;
  \<open>proved t u\<close> says that a consistency proof from \<open>t\<close> to \<open>u\<close> was checked.
\<close>

locale head_keeper =
  fixes step :: "'i \<Rightarrow> 's \<Rightarrow> 's" and head :: "'s \<Rightarrow> tree option"
  assumes head_step: "head s = Some t \<Longrightarrow>
    \<exists>u. head (step i s) = Some u \<and> (u = t \<or> Tree_N t < Tree_N u)"
begin

lemma head_run:
  "head s = Some t \<Longrightarrow> \<exists>u. head (fold step ops s) = Some u \<and> (u = t \<or> Tree_N t < Tree_N u)"
proof (induction ops arbitrary: s t)
  case (Cons i ops)
  from head_step [OF Cons.prems, of i] obtain v where v: "head (step i s) = Some v"
    "v = t \<or> Tree_N t < Tree_N v" by blast
  from Cons.IH [OF v(1)] obtain u where "head (fold step ops (step i s)) = Some u"
    "u = v \<or> Tree_N v < Tree_N u" by blast
  with v(2) show ?case by auto
qed simp

lemma no_rollback: "head s = Some t \<Longrightarrow> head (fold step ops s) = Some u \<Longrightarrow> Tree_N t \<le> Tree_N u"
  using head_run [of s t ops] by auto

lemma no_fork:
  "head s = Some t \<Longrightarrow> head (fold step ops s) = Some u \<Longrightarrow> Tree_N u = Tree_N t \<Longrightarrow> u = t"
  using head_run [of s t ops] by auto

end

locale consistent_keeper = head_keeper +
  fixes proved :: "tree \<Rightarrow> tree \<Rightarrow> bool"
  assumes step_proved: "head s = Some t \<Longrightarrow> head (step i s) = Some u \<Longrightarrow> 0 < Tree_N t \<Longrightarrow>
    u = t \<or> proved t u"
begin

lemma run_proved:
  "head s = Some t \<Longrightarrow> head (fold step ops s) = Some u \<Longrightarrow> 0 < Tree_N t \<Longrightarrow> proved\<^sup>*\<^sup>* t u"
proof (induction ops arbitrary: s t)
  case (Cons i ops)
  from head_step [OF Cons.prems(1), of i] obtain v where v: "head (step i s) = Some v"
    "v = t \<or> Tree_N t < Tree_N v" by blast
  have "proved\<^sup>*\<^sup>* v u" using Cons.IH [OF v(1)] Cons.prems v(2) by auto
  moreover have "v = t \<or> proved t v" by (rule step_proved [OF Cons.prems(1) v(1) Cons.prems(3)])
  ultimately show ?case by (auto intro: converse_rtranclp_into_rtranclp)
qed simp

end

text \<open>
  What checking a consistency proof is worth: \<open>extends t u\<close> is the caller's notion of one tree
  being a prefix of another, for which checked proofs are sound.
\<close>

definition proved :: "'x tlog_ops_scheme \<Rightarrow> tree \<Rightarrow> tree \<Rightarrow> bool" where
  "proved E t u \<longleftrightarrow>
     (\<exists>p. check_tree E p (Tree_N u) (Tree_Hash u) (Tree_N t) (Tree_Hash t))"

definition consistency_sound ::
  "'x tlog_ops_scheme \<Rightarrow> (tree \<Rightarrow> tree \<Rightarrow> bool) \<Rightarrow> bool" where
  "consistency_sound E extends \<longleftrightarrow>
     reflp extends \<and> transp extends \<and> (\<forall>t u. proved E t u \<longrightarrow> extends t u)"

lemma proved_extends:
  assumes "consistency_sound E extends" and "(proved E)\<^sup>*\<^sup>* t u"
  shows "extends t u"
  using assms(2)
proof (induction rule: rtranclp_induct)
  case base
  then show ?case using assms(1) by (auto simp: consistency_sound_def reflp_def)
next
  case (step u v)
  then show ?case using assms(1) unfolding consistency_sound_def transp_def by blast
qed

subsection \<open>Client state and operations\<close>

record client =
  c_policy :: policy
  c_headMsg :: bytes
  c_head :: checkpoint
  c_hasHead :: bool

definition zero_tree :: tree where
  "zero_tree = \<lparr>Tree_N = 0, Tree_Hash = zero_hash\<rparr>"

definition zero_checkpoint :: checkpoint where
  "zero_checkpoint = \<lparr>Origin = [], Tree = zero_tree\<rparr>"

definition NewClient :: "policy \<Rightarrow> client" where
  "NewClient p = \<lparr>c_policy = p, c_headMsg = [], c_head = zero_checkpoint, c_hasHead = False\<rparr>"

definition Client_Head :: "client \<Rightarrow> checkpoint \<times> bool" where
  "Client_Head c = (c_head c, c_hasHead c)"

definition HeadNote :: "client \<Rightarrow> bytes" where
  "HeadNote c = c_headMsg c"

definition SetHead :: "'x note_ops_scheme \<Rightarrow> bytes \<Rightarrow> client \<Rightarrow> client \<times> (tlog_error + unit)" where
  "SetHead E msg c =
     (case Policy_Open E (c_policy c) msg of
        Inl e \<Rightarrow> (c, Inl e)
      | Inr cp \<Rightarrow>
        if c_hasHead c \<and> Tree_N (Tree cp) < Tree_N (Tree (c_head c)) then (c, Inl ErrRollback)
        else if c_hasHead c \<and> Tree_N (Tree cp) = Tree_N (Tree (c_head c)) \<and>
                Tree_Hash (Tree cp) \<noteq> Tree_Hash (Tree (c_head c))
        then (c, Inl (EquivocationError \<lparr>First = c_headMsg c, Second = msg\<rparr>))
        else (c\<lparr>c_headMsg := msg, c_head := cp, c_hasHead := True\<rparr>, Inr ()))"

text \<open>The source is the replica as it is during the call.\<close>

definition Client_update ::
  "'x tlog_ops_scheme \<Rightarrow> source \<Rightarrow> checkpoint \<Rightarrow> bytes \<Rightarrow> client \<Rightarrow> client \<times> (tlog_error + checkpoint)" where
  "Client_update E src cp msg c =
     (let accept = (c\<lparr>c_headMsg := msg, c_head := cp, c_hasHead := True\<rparr>, Inr cp);
          n = Tree_N (Tree cp); m = Tree_N (Tree (c_head c)) in
      if c_hasHead c then
        if n < m then (c, Inl ErrRollback)
        else if n = m then
          if Tree_Hash (Tree cp) \<noteq> Tree_Hash (Tree (c_head c))
          then (c, Inl (EquivocationError \<lparr>First = c_headMsg c, Second = msg\<rparr>))
          else (case mergeSignedNotes (c_headMsg c) msg of
              Inr merged \<Rightarrow> (c\<lparr>c_headMsg := merged\<rparr>, Inr (c_head c))
            | Inl _ \<Rightarrow> (c, Inr (c_head c)))
        else if m > 0 then
          (case prove_tree E n m (hashReaderForTree E src (Tree cp)) of
             Inl _ \<Rightarrow> (c, Inl ErrSourceStale)
           | Inr proof \<Rightarrow>
             if \<not> check_tree E proof n (Tree_Hash (Tree cp)) m (Tree_Hash (Tree (c_head c)))
             then (c, Inl ErrCheckConsistency)
             else accept)
        else accept
      else accept)"

text \<open>\<open>done\<close> is whether the context has ended.\<close>

definition Client_Update ::
  "'x tlog_ops_scheme \<Rightarrow> source \<Rightarrow> bool \<Rightarrow> bytes \<Rightarrow> client \<Rightarrow> client \<times> (tlog_error + checkpoint)" where
  "Client_Update E src ctx_done msg c =
     (if ctx_done then (c, Inl ErrContext)
      else case Policy_Open E (c_policy c) msg of
        Inl e \<Rightarrow> (c, Inl e)
      | Inr cp \<Rightarrow> Client_update E src cp msg c)"

definition Client_Sync ::
  "'x tlog_ops_scheme \<Rightarrow> source \<Rightarrow> bool \<Rightarrow> client \<Rightarrow> client \<times> (tlog_error + checkpoint)" where
  "Client_Sync E src ctx_done c =
     (case latestCheckpoint src of
        Inl e \<Rightarrow> (c, Inl e)
      | Inr msg \<Rightarrow> Client_Update E src ctx_done msg c)"

definition Client_entry ::
  "'x tlog_ops_scheme \<Rightarrow> source \<Rightarrow> checkpoint \<Rightarrow> int \<Rightarrow> tlog_error + bytes" where
  "Client_entry E src head index =
     (let n = Tree_N (Tree head) in
      if index < 0 \<or> index \<ge> n then Inl ErrOutsideTree
      else case Source_blob src (entryKey index) of
        Inl e \<Rightarrow> Inl e
      | Inr data \<Rightarrow>
        (case prove_record E n index (hashReaderForTree E src (Tree head)) of
           Inl _ \<Rightarrow> Inl ErrProveEntry
         | Inr proof \<Rightarrow>
           if \<not> check_record E proof n (Tree_Hash (Tree head)) index (record_hash E data)
           then Inl ErrCheckEntry
           else Inr data))"

definition Client_Entry :: "'x tlog_ops_scheme \<Rightarrow> source \<Rightarrow> client \<Rightarrow> int \<Rightarrow> tlog_error + bytes" where
  "Client_Entry E src c index =
     (if \<not> c_hasHead c then Inl ErrNoCheckpoint else Client_entry E src (c_head c) index)"

subsection \<open>Client lemmas\<close>

definition client_tree :: "client \<Rightarrow> tree option" where
  "client_tree c = (if c_hasHead c then Some (Tree (c_head c)) else None)"

lemma tree_eqI: "Tree_N t = Tree_N u \<Longrightarrow> Tree_Hash t = Tree_Hash u \<Longrightarrow> t = (u :: tree)"
  by simp

lemma update_head:
  "client_tree c = Some t \<Longrightarrow> Client_update E src cp msg c = (c', r) \<Longrightarrow>
   client_tree c' = Some t \<or>
   client_tree c' = Some (Tree cp) \<and> Tree_N t < Tree_N (Tree cp) \<and> (0 < Tree_N t \<longrightarrow> proved E t (Tree cp))"
  by (auto simp: client_tree_def Client_update_def proved_def Let_def split: if_splits sum.splits)

definition advances :: "'x tlog_ops_scheme \<Rightarrow> tree \<Rightarrow> client \<Rightarrow> bool" where
  "advances E t c \<longleftrightarrow> (\<exists>u. client_tree c = Some u \<and>
     (u = t \<or> Tree_N t < Tree_N u \<and> (0 < Tree_N t \<longrightarrow> proved E t u)))"

lemma advances_refl: "client_tree c = Some t \<Longrightarrow> advances E t c"
  by (simp add: advances_def)

lemma update_advances:
  "client_tree c = Some t \<Longrightarrow> advances E t (fst (Client_update E src cp msg c))"
  unfolding advances_def
  by (cases "Client_update E src cp msg c") (use update_head in fastforce)

lemma Update_advances:
  "client_tree c = Some t \<Longrightarrow> advances E t (fst (Client_Update E src d msg c))"
  by (auto simp: Client_Update_def advances_refl update_advances split: sum.splits)

lemma Sync_advances: "client_tree c = Some t \<Longrightarrow> advances E t (fst (Client_Sync E src d c))"
  by (auto simp: Client_Sync_def advances_refl Update_advances split: sum.splits)

lemma SetHead_head:
  "client_tree c = Some t \<Longrightarrow>
   \<exists>u. client_tree (fst (SetHead E msg c)) = Some u \<and> (u = t \<or> Tree_N t < Tree_N u)"
  by (auto simp: SetHead_def client_tree_def split: if_splits sum.splits intro: tree_eqI)

lemma advances_head:
  "advances E t c \<Longrightarrow> \<exists>u. client_tree c = Some u \<and> (u = t \<or> Tree_N t < Tree_N u)"
  by (auto simp: advances_def)

text \<open>The calls that change a client, with their inputs.\<close>

datatype client_op =
    OpUpdate source bool bytes
  | OpSync source bool
  | OpSetHead bytes

fun client_step :: "'x tlog_ops_scheme \<Rightarrow> client_op \<Rightarrow> client \<Rightarrow> client" where
  "client_step E (OpUpdate src d msg) c = fst (Client_Update E src d msg c)"
| "client_step E (OpSync src d) c = fst (Client_Sync E src d c)"
| "client_step E (OpSetHead msg) c = fst (SetHead E msg c)"

text \<open>The calls that never bypass the consistency proof.\<close>

fun client_follow :: "'x tlog_ops_scheme \<Rightarrow> (source \<times> bool \<times> bytes option) \<Rightarrow> client \<Rightarrow> client" where
  "client_follow E (src, d, Some msg) c = client_step E (OpUpdate src d msg) c"
| "client_follow E (src, d, None) c = client_step E (OpSync src d) c"

interpretation client: head_keeper "client_step E" client_tree for E
proof
  fix c t i
  assume t: "client_tree c = Some t"
  show "\<exists>u. client_tree (client_step E i c) = Some u \<and> (u = t \<or> Tree_N t < Tree_N u)"
    using t Update_advances [OF t, THEN advances_head] Sync_advances [OF t, THEN advances_head]
      SetHead_head [OF t] by (cases i) simp_all
qed

lemma follow_advances: "client_tree c = Some t \<Longrightarrow> advances E t (client_follow E i c)"
proof -
  assume t: "client_tree c = Some t"
  obtain src d msg where "i = (src, d, msg)" by (cases i) auto
  with t show ?thesis by (cases msg) (simp_all add: Update_advances Sync_advances)
qed

interpretation follower: consistent_keeper "client_follow E" client_tree "proved E" for E
proof
  fix c t i
  assume t: "client_tree c = Some t"
  from advances_head [OF follow_advances [OF t]]
  show "\<exists>u. client_tree (client_follow E i c) = Some u \<and> (u = t \<or> Tree_N t < Tree_N u)" .
next
  fix c t i u
  assume "client_tree c = Some t" "client_tree (client_follow E i c) = Some u" "0 < Tree_N t"
  then show "u = t \<or> proved E t u" using follow_advances [of c t E i] by (auto simp: advances_def)
qed

text \<open>Every accepted head was opened under the client's policy, and the policy never changes.\<close>

definition head_opened :: "'x tlog_ops_scheme \<Rightarrow> client \<Rightarrow> bool" where
  "head_opened E c \<longleftrightarrow>
     (c_hasHead c \<longrightarrow> (\<exists>msg. Policy_Open E (c_policy c) msg = Inr (c_head c)))"

lemma update_opened:
  "Policy_Open E (c_policy c) msg = Inr cp \<Longrightarrow> head_opened E c \<Longrightarrow>
   head_opened E (fst (Client_update E src cp msg c)) \<and>
   c_policy (fst (Client_update E src cp msg c)) = c_policy c"
  by (auto simp: Client_update_def head_opened_def Let_def split: sum.splits)

lemma Update_opened:
  "head_opened E c \<Longrightarrow> head_opened E (fst (Client_Update E src d msg c)) \<and>
   c_policy (fst (Client_Update E src d msg c)) = c_policy c"
  using update_opened [of E c msg _ src] by (auto simp: Client_Update_def split: sum.splits)

lemma step_opened:
  "head_opened E c \<Longrightarrow>
   head_opened E (client_step E i c) \<and> c_policy (client_step E i c) = c_policy c"
proof (cases i)
  case (OpSync src d)
  assume "head_opened E c"
  with OpSync show ?thesis
    using Update_opened [of E c src d] by (auto simp: Client_Sync_def split: sum.splits)
next
  case (OpSetHead msg)
  assume "head_opened E c"
  with OpSetHead show ?thesis by (auto simp: SetHead_def head_opened_def split: sum.splits)
qed (simp add: Update_opened)

lemma run_opened:
  "head_opened E c \<Longrightarrow>
   head_opened E (fold (client_step E) is c) \<and> c_policy (fold (client_step E) is c) = c_policy c"
proof (induction "is" arbitrary: c)
  case (Cons i "is")
  then show ?case using step_opened [of E c i] by simp
qed simp

lemma NewClient_simps [simp]: "client_tree (NewClient p) = None" "head_opened E (NewClient p)"
  "c_policy (NewClient p) = p"
  by (simp_all add: client_tree_def head_opened_def NewClient_def)

subsection \<open>Properties of the client\<close>

text \<open>C2: Whatever calls a client answers, its head never goes back and never forks: a later
  head has a larger tree, or is the very same tree; and every head is a checkpoint that opened
  under the client's policy.\<close>

theorem client_never_rolls_back:
  assumes "client_tree (fold (client_step E) is (NewClient p)) = Some t"
    and "client_tree (fold (client_step E) (is @ js) (NewClient p)) = Some u"
  shows "(t = u \<or> Tree_N t < Tree_N u) \<and>
    (\<exists>msg c. Policy_Open E p msg = Inr c \<and> Tree c = u)"
proof -
  let ?c = "fold (client_step E) is (NewClient p)"
  have "client_tree (fold (client_step E) js ?c) = Some u" using assms(2) by simp
  with client.head_run [OF assms(1), where E = E and ops = js] have "u = t \<or> Tree_N t < Tree_N u" by simp
  moreover have "\<exists>msg c. Policy_Open E p msg = Inr c \<and> Tree c = u"
  proof -
    let ?d = "fold (client_step E) (is @ js) (NewClient p)"
    have "head_opened E ?d" "c_policy ?d = p"
      using run_opened [of E "NewClient p" "is @ js"] by simp_all
    then show ?thesis using assms(2)
      unfolding head_opened_def client_tree_def by (metis option.distinct(1) option.inject)
  qed
  ultimately show ?thesis by blast
qed

text \<open>C3: A client that follows a log through Update and Sync only ever extends it: each head
  with a non-empty tree is a prefix of every later head, for any notion of prefix that checked
  consistency proofs establish.\<close>

theorem client_heads_consistent:
  assumes "consistency_sound E extends"
    and "client_tree c = Some t" and "0 < Tree_N t"
    and "client_tree (fold (client_follow E) is c) = Some u"
  shows "extends t u"
  using proved_extends [OF assms(1) follower.run_proved [OF assms(2,4,3)]] .

definition demo_client :: client where
  "demo_client = \<lparr>c_policy = demo_policy, c_headMsg = demo_text, c_head = demo_checkpoint, c_hasHead = True\<rparr>"

lemma demo_tlog_simps:
  "note_open demo_tlog_ops = note_open demo_note_ops" "hash_str demo_tlog_ops = hash_str std_hash_ops"
  "parse_hash demo_tlog_ops = parse_hash std_hash_ops"
  "check_tree demo_tlog_ops = (\<lambda>p n h m g. m \<le> n \<and> h = g)"
  "prove_tree demo_tlog_ops = (\<lambda>n m r. Inr [])"
  "prove_record demo_tlog_ops = (\<lambda>n i r. Inr [])"
  "check_record demo_tlog_ops = (\<lambda>p n h i rh. rh = h)"
  "record_hash demo_tlog_ops = (\<lambda>d. take 32 (d @ replicate 32 (CHR 0x00)))"
  by (simp_all add: demo_tlog_ops_def demo_note_ops_def note_ops.defs)

lemma ParseCheckpoint_cong: "parse_hash E = parse_hash F \<Longrightarrow> ParseCheckpoint E t = ParseCheckpoint F t"
  unfolding ParseCheckpoint_def by (simp only:)

lemma Policy_Open_cong:
  assumes "parse_hash E = parse_hash F" "note_open E = note_open F"
  shows "Policy_Open E p m = Policy_Open F p m"
  unfolding Policy_Open_def ParseCheckpoint_cong [OF assms(1)] assms(2) by (rule refl)

lemma demo_tlog_Open: "Policy_Open demo_tlog_ops demo_policy demo_text = Inr demo_checkpoint"
  using demo_Open by (subst Policy_Open_cong [of _ demo_note_ops])
    (simp_all add: demo_tlog_ops_def demo_note_ops_def note_ops.defs)

lemma demo_Update:
  "fst (Client_Update demo_tlog_ops src False demo_text (NewClient demo_policy)) = demo_client"
  by (simp add: Client_Update_def demo_tlog_Open Client_update_def)
    (simp add: NewClient_def demo_client_def)

lemma demo_client_tree: "client_tree demo_client = Some \<lparr>Tree_N = 5, Tree_Hash = zero_hash\<rparr>"
  by (simp add: client_tree_def demo_client_def demo_checkpoint_def)

definition demo_extends :: "tree \<Rightarrow> tree \<Rightarrow> bool" where
  "demo_extends t u \<longleftrightarrow> Tree_N t \<le> Tree_N u \<and> Tree_Hash u = Tree_Hash t"

lemma demo_consistency_sound: "consistency_sound demo_tlog_ops demo_extends"
  by (auto simp: consistency_sound_def demo_extends_def proved_def demo_tlog_simps reflp_def transp_def)

theorem client_never_rolls_back_witness:
  "(\<lparr>Tree_N = 5, Tree_Hash = zero_hash\<rparr> = \<lparr>Tree_N = 5, Tree_Hash = zero_hash\<rparr> \<or> (5 :: int) < 5) \<and>
    (\<exists>msg c. Policy_Open demo_tlog_ops demo_policy msg = Inr c \<and>
       Tree c = \<lparr>Tree_N = 5, Tree_Hash = zero_hash\<rparr>)"
  using client_never_rolls_back [of demo_tlog_ops "[OpUpdate demo_source False demo_text]" demo_policy
      "\<lparr>Tree_N = 5, Tree_Hash = zero_hash\<rparr>" "[OpUpdate demo_source True demo_text]"]
  by (simp add: demo_Update demo_client_tree) (simp add: Client_Update_def demo_client_tree)

theorem client_heads_consistent_witness:
  "demo_extends \<lparr>Tree_N = 5, Tree_Hash = zero_hash\<rparr> \<lparr>Tree_N = 5, Tree_Hash = zero_hash\<rparr>"
proof (rule client_heads_consistent [OF demo_consistency_sound demo_client_tree])
  show "client_tree (fold (client_follow demo_tlog_ops) [(demo_source, True, Some demo_text)] demo_client)
      = Some \<lparr>Tree_N = 5, Tree_Hash = zero_hash\<rparr>"
    using demo_client_tree by (simp add: Client_Update_def)
qed simp

text \<open>
  What checking an inclusion proof is worth: \<open>leaf t i\<close> is the caller's notion of the record
  hash at index \<open>i\<close> of the tree \<open>t\<close>, which a checked proof establishes.
\<close>

definition inclusion_sound :: "'x tlog_ops_scheme \<Rightarrow> (tree \<Rightarrow> int \<Rightarrow> hash option) \<Rightarrow> bool" where
  "inclusion_sound E leaf \<longleftrightarrow>
     (\<forall>p t i rh. check_record E p (Tree_N t) (Tree_Hash t) i rh \<longrightarrow> leaf t i = Some rh)"

text \<open>An entry a client returns is the entry of its head tree at that index: the index lies
  inside the tree, the bytes are the blob the timeline records for it, and their record hash is
  the tree's leaf.\<close>

theorem client_entry_included:
  assumes "inclusion_sound E leaf" and "Client_Entry E src c i = Inr data"
  shows "c_hasHead c \<and> 0 \<le> i \<and> i < Tree_N (Tree (c_head c)) \<and>
    Source_blob src (entryKey i) = Inr data \<and>
    leaf (Tree (c_head c)) i = Some (record_hash E data)"
  using assms
  by (auto simp: Client_Entry_def Client_entry_def inclusion_sound_def Let_def
      split: if_splits sum.splits)

definition demo_entry_source :: source where
  "demo_entry_source = demo_source
     \<lparr>Doc_GetExact := (\<lambda>ns a k. Some \<lparr>te_namespace = ns, te_author = a, te_key = k, te_hash = [],
        te_len = 0\<rparr>), Get := (\<lambda>h. Inr [])\<rparr>"

lemma demo_inclusion_sound: "inclusion_sound demo_tlog_ops (\<lambda>t i. Some (Tree_Hash t))"
  by (simp add: inclusion_sound_def demo_tlog_simps)

lemma demo_Entry: "Client_Entry demo_tlog_ops demo_entry_source demo_client 2 = Inr []"
  by (simp add: Client_Entry_def Client_entry_def demo_client_def demo_checkpoint_def
      Source_blob_def demo_entry_source_def demo_tlog_simps zero_hash_def)

theorem client_entry_included_witness:
  "c_hasHead demo_client \<and> (0 :: int) \<le> 2 \<and> 2 < Tree_N (Tree (c_head demo_client)) \<and>
    Source_blob demo_entry_source (entryKey 2) = Inr [] \<and>
    Some (Tree_Hash (Tree (c_head demo_client))) = Some (record_hash demo_tlog_ops [])"
  using client_entry_included [OF demo_inclusion_sound demo_Entry] .

end
