(* ===== verification/Tlog_Watch.thy ===== *)
theory Tlog_Watch
  imports Tlog_Client
begin

section \<open>Transparency log: watching the gossip topic (tlogiroh/client.go)\<close>

text \<open>
  The loop of \<^verbatim>\<open>Client.watch\<close> as a step function on an explicit state: the client, the parked
  messages by checkpoint text, the proofs already flooded, the last checkpoint yielded, and what
  was yielded and broadcast so far. Opening a note with the nil operator of the zero policy is a
  panic of the goroutine, the output \<open>Panic\<close>. The retry tick, the received messages, the map iteration
  order of a tick, the state of the replica and the answers of the consumer's \<^verbatim>\<open>yield\<close> are inputs.
\<close>

subsection \<open>State\<close>

datatype watch_out =
    Yielded checkpoint
  | YieldedErr equivocation
  | Broadcast bytes
  | Panic

text \<open>What the loops of the client and of the witness share.\<close>

record gossip_state =
  pending :: "(bytes \<times> bytes) list"
  flooded :: "bytes list"
  outs :: "watch_out list"

definition emit :: "watch_out \<Rightarrow> 'a gossip_state_scheme \<Rightarrow> 'a gossip_state_scheme" where
  "emit x w = w\<lparr>outs := outs w @ [x]\<rparr>"

definition park :: "bytes \<Rightarrow> bytes \<Rightarrow> 'a gossip_state_scheme \<Rightarrow> 'a gossip_state_scheme" where
  "park txt msg w = w\<lparr>pending := alist_put txt msg (pending w)\<rparr>"

definition unpark :: "bytes \<Rightarrow> 'a gossip_state_scheme \<Rightarrow> 'a gossip_state_scheme" where
  "unpark txt w = w\<lparr>pending := alist_del txt (pending w)\<rparr>"

text \<open>Rebroadcast a proof once.\<close>

definition flood :: "bytes \<Rightarrow> 'a gossip_state_scheme \<Rightarrow> 'a gossip_state_scheme" where
  "flood data w =
     (if data \<in> set (flooded w) then w
      else emit (Broadcast (envelope envEquivocation data)) (w\<lparr>flooded := data # flooded w\<rparr>))"

record watch = gossip_state +
  w_client :: client
  lastYielded :: checkpoint

definition start_watch :: "client \<Rightarrow> watch" where
  "start_watch c =
     \<lparr>pending = [], flooded = [], outs = [], w_client = c, lastYielded = zero_checkpoint\<rparr>"

subsection \<open>Steps\<close>

text \<open>
  The surroundings of one attempt: the replica, whether the context has ended, and whether the
  consumer asks for more when something is yielded. The Boolean result says whether to go on.
\<close>

type_synonym surroundings = "source \<times> bool \<times> bool"

definition watch_process ::
  "'x tlog_ops_scheme \<Rightarrow> surroundings \<Rightarrow> bytes \<Rightarrow> bytes \<Rightarrow> watch \<Rightarrow> watch \<times> bool" where
  "watch_process E env txt msg w0 =
     (let (src, ctx_done, go) = env;
          (c, r) = Client_Update E src ctx_done msg (w_client w0);
          w = w0\<lparr>w_client := c\<rparr> in
      case r of
        Inr cp \<Rightarrow>
          (let w = unpark txt w in
           if cp \<noteq> lastYielded w then (emit (Yielded cp) (w\<lparr>lastYielded := cp\<rparr>), go)
           else (w, True))
      | Inl ErrWitnessThreshold \<Rightarrow> (park txt msg w, True)
      | Inl ErrSourceStale \<Rightarrow> (park txt msg w, True)
      | Inl (EquivocationError proof) \<Rightarrow>
          (let w = unpark txt w;
               w = (case Equivocation_MarshalBinary proof of Inr data \<Rightarrow> flood data w | Inl _ \<Rightarrow> w) in
           (emit (YieldedErr proof) w, go))
      | Inl _ \<Rightarrow> (unpark txt w, True))"

text \<open>
  One retry tick: the parked messages in the order the map iteration visits them. An entry
  that is gone when its turn comes is skipped.
\<close>

fun watch_tick ::
  "'x tlog_ops_scheme \<Rightarrow> (bytes \<times> surroundings) list \<Rightarrow> watch \<Rightarrow> watch \<times> bool" where
  "watch_tick E [] w = (w, True)"
| "watch_tick E ((txt, env) # order) w =
     (case map_of (pending w) txt of
        None \<Rightarrow> watch_tick E order w
      | Some msg \<Rightarrow>
          (let (w', go) = watch_process E env txt msg w in
           if go then watch_tick E order w' else (w', False)))"

definition watch_message ::
  "'x tlog_ops_scheme \<Rightarrow> surroundings \<Rightarrow> bytes \<Rightarrow> watch \<Rightarrow> watch \<times> bool" where
  "watch_message E env content w =
     (case openEnvelope content of
        None \<Rightarrow> (w, True)
      | Some (kind, payload) \<Rightarrow>
        if kind = envEquivocation then
          (case Equivocation_UnmarshalBinary payload of
             Inl _ \<Rightarrow> (w, True)
           | Inr proof \<Rightarrow>
             (case p_operator (c_policy (w_client w)) of
                None \<Rightarrow> (emit Panic w, False)
              | Some operator \<Rightarrow>
                (case VerifyEquivocation E proof (p_origin (c_policy (w_client w))) operator of
                   Inl _ \<Rightarrow> (w, True)
                 | Inr _ \<Rightarrow> (emit (YieldedErr proof) (flood payload w), snd (snd env)))))
        else
          (case splitNote payload of
             Inl _ \<Rightarrow> (w, True)
           | Inr (txt, _) \<Rightarrow>
             (let msg = (case map_of (pending w) txt of
                  Some prev \<Rightarrow> (case mergeSignedNotes prev payload of Inr merged \<Rightarrow> merged | Inl _ \<Rightarrow> payload)
                | None \<Rightarrow> payload) in
              watch_process E env txt msg w)))"

datatype watch_event =
    Tick "(bytes \<times> surroundings) list"
  | Message surroundings bytes

fun watch_event_step :: "'x tlog_ops_scheme \<Rightarrow> watch_event \<Rightarrow> watch \<Rightarrow> watch \<times> bool" where
  "watch_event_step E (Tick order) w = watch_tick E order w"
| "watch_event_step E (Message env content) w = watch_message E env content w"

text \<open>
  The loop as a step relation: it takes the next event while it is asked for more. A tick visits
  every parked message once.
\<close>

inductive watch_step :: "'x tlog_ops_scheme \<Rightarrow> watch \<times> bool \<Rightarrow> watch \<times> bool \<Rightarrow> bool" for E where
  tick: "distinct (map fst order) \<Longrightarrow> set (map fst order) = fst ` set (pending w) \<Longrightarrow>
    watch_step E (w, True) (watch_event_step E (Tick order) w)"
| message: "watch_step E (w, True) (watch_event_step E (Message env content) w)"

inductive watch_reach :: "'x tlog_ops_scheme \<Rightarrow> client \<Rightarrow> watch \<times> bool \<Rightarrow> bool" for E c where
  start: "watch_reach E c (start_watch c, True)"
| step: "watch_reach E c s \<Longrightarrow> watch_step E s s' \<Longrightarrow> watch_reach E c s'"

inductive_cases watch_stepE: "watch_step E s s'"

subsection \<open>The attempt, case by case\<close>

lemma Update_ok:
  assumes "Client_Update E src d msg c = (c', Inr cp)"
  shows "c_hasHead c'" and "cp = c_head c'"
    and "c_hasHead c \<Longrightarrow> c_head c' = c_head c \<or> Tree_N (Tree (c_head c)) < Tree_N (Tree (c_head c'))"
  using assms
  by (auto simp: Client_Update_def Client_update_def Let_def split: if_splits sum.splits)

lemma Update_err:
  assumes "Client_Update E src d msg c = (c', Inl e)"
  shows "c' = c"
  using assms
  by (auto simp: Client_Update_def Client_update_def Let_def split: if_splits sum.splits)

lemma ParseCheckpoint_err: "ParseCheckpoint E t = Inl e \<Longrightarrow> e = ErrMalformedCheckpoint"
  by (auto simp: ParseCheckpoint_def split: if_splits list.splits option.splits)

text \<open>A message the operator signed, among the verifiers of the policy.\<close>

definition operator_signed :: "'x tlog_ops_scheme \<Rightarrow> policy \<Rightarrow> bytes \<Rightarrow> bool" where
  "operator_signed E p msg \<longleftrightarrow>
     (\<exists>op n. p_operator p = Some op \<and> note_open E msg (op # p_witnesses p) = Some n \<and>
        keyID op \<in> sigID ` set (Sigs n))"

text \<open>Two opened checkpoints of one size with different roots, the second carried by the proof.\<close>

definition detected :: "'x tlog_ops_scheme \<Rightarrow> policy \<Rightarrow> equivocation \<Rightarrow> bool" where
  "detected E p proof \<longleftrightarrow>
     (\<exists>m c d. Policy_Open E p m = Inr c \<and> Policy_Open E p (Second proof) = Inr d \<and>
        Tree_N (Tree c) = Tree_N (Tree d) \<and> Tree_Hash (Tree c) \<noteq> Tree_Hash (Tree d))"

definition convicted :: "'x tlog_ops_scheme \<Rightarrow> policy \<Rightarrow> equivocation \<Rightarrow> bool" where
  "convicted E p proof \<longleftrightarrow> detected E p proof \<or>
     (\<exists>op n. p_operator p = Some op \<and> VerifyEquivocation E proof (p_origin p) op = Inr n)"

lemma Policy_Open_signed: "Policy_Open E p msg = Inr c \<Longrightarrow> operator_signed E p msg"
  by (elim Policy_Open_ok) (auto simp: operator_signed_def)

lemma Policy_threshold_signed: "Policy_Open E p msg = Inl ErrWitnessThreshold \<Longrightarrow> operator_signed E p msg"
  by (auto simp: Policy_Open_def operator_signed_def Let_def dest: ParseCheckpoint_err
      split: option.splits sum.splits if_splits)

lemma Policy_no_stale: "Policy_Open E p msg \<noteq> Inl ErrSourceStale"
  "Policy_Open E p msg \<noteq> Inl (EquivocationError q)"
  by (auto simp: Policy_Open_def Let_def dest: ParseCheckpoint_err
      split: option.splits sum.splits if_splits)

lemma Update_parks:
  assumes "Client_Update E src d msg c = (c', Inl e)" and "e = ErrWitnessThreshold \<or> e = ErrSourceStale"
  shows "operator_signed E (c_policy c) msg"
proof (cases "Policy_Open E (c_policy c) msg")
  case (Inl e')
  with assms Policy_no_stale(1) have "e' = ErrWitnessThreshold"
    by (auto simp: Client_Update_def split: if_splits)
  with Inl show ?thesis by (auto intro: Policy_threshold_signed)
qed (rule Policy_Open_signed)

lemma Update_detects:
  assumes "Client_Update E src d msg c = (c', Inl (EquivocationError q))" and "head_opened E c"
  shows "detected E (c_policy c) q"
proof -
  from assms(1) obtain cp where cp: "Policy_Open E (c_policy c) msg = Inr cp"
    and u: "Client_update E src cp msg c = (c', Inl (EquivocationError q))"
    using Policy_no_stale(2) [of E "c_policy c" msg]
    by (auto simp: Client_Update_def split: if_splits sum.splits)
  from u have "c_hasHead c" "Tree_N (Tree cp) = Tree_N (Tree (c_head c))"
    "Tree_Hash (Tree cp) \<noteq> Tree_Hash (Tree (c_head c))" "Second q = msg"
    by (auto simp: Client_update_def Let_def split: if_splits sum.splits)
  with cp assms(2) show ?thesis unfolding detected_def head_opened_def by metis
qed

lemma watch_process_cases:
  fixes E :: "'x tlog_ops_scheme" and w :: watch and src :: source and d go :: bool and tx msg :: bytes
  defines "c \<equiv> fst (Client_Update E src d msg (w_client w))"
    and "r \<equiv> snd (Client_Update E src d msg (w_client w))"
  obtains (yields) cp where "r = Inr cp" "cp \<noteq> lastYielded w"
    "watch_process E (src, d, go) tx msg w =
       (emit (Yielded cp) ((unpark tx (w\<lparr>w_client := c\<rparr>))\<lparr>lastYielded := cp\<rparr>), go)"
  | (same) cp where "r = Inr cp" "cp = lastYielded w"
    "watch_process E (src, d, go) tx msg w = (unpark tx (w\<lparr>w_client := c\<rparr>), True)"
  | (parks) e where "r = Inl e" "e = ErrWitnessThreshold \<or> e = ErrSourceStale"
    "watch_process E (src, d, go) tx msg w = (park tx msg (w\<lparr>w_client := c\<rparr>), True)"
  | (detects) q where "r = Inl (EquivocationError q)"
    "watch_process E (src, d, go) tx msg w = (emit (YieldedErr q)
       (case Equivocation_MarshalBinary q of Inr data \<Rightarrow> flood data (unpark tx (w\<lparr>w_client := c\<rparr>))
        | Inl _ \<Rightarrow> unpark tx (w\<lparr>w_client := c\<rparr>)), go)"
  | (drops) e where "r = Inl e"
    "watch_process E (src, d, go) tx msg w = (unpark tx (w\<lparr>w_client := c\<rparr>), True)"
proof (cases r)
  case (Inr cp)
  show thesis
  proof (cases "cp = lastYielded w")
    case True
    with Inr show ?thesis
      by (intro same) (simp_all add: watch_process_def c_def r_def split_def Let_def unpark_def)
  next
    case False
    with Inr show ?thesis
      by (intro yields) (simp_all add: watch_process_def c_def r_def split_def Let_def unpark_def)
  qed
next
  case (Inl e)
  have eq: "watch_process E (src, d, go) tx msg w = (let w = w\<lparr>w_client := c\<rparr> in case e of
       ErrWitnessThreshold \<Rightarrow> (park tx msg w, True)
     | ErrSourceStale \<Rightarrow> (park tx msg w, True)
     | EquivocationError proof \<Rightarrow>
         (let w = unpark tx w;
              w = (case Equivocation_MarshalBinary proof of Inr data \<Rightarrow> flood data w | Inl _ \<Rightarrow> w) in
          (emit (YieldedErr proof) w, go))
     | _ \<Rightarrow> (unpark tx w, True))"
    using Inl unfolding watch_process_def split_def fst_conv snd_conv c_def r_def Let_def
    by (simp only: sum.case)
  show thesis
  proof (cases "e = ErrWitnessThreshold \<or> e = ErrSourceStale")
    case True
    with eq have "watch_process E (src, d, go) tx msg w = (park tx msg (w\<lparr>w_client := c\<rparr>), True)"
      by (elim disjE) simp_all
    with Inl True show ?thesis by (intro parks)
  next
    case False
    show ?thesis
    proof (cases "\<exists>q. e = EquivocationError q")
      case True
      then obtain q where q: "e = EquivocationError q" ..
      show ?thesis using Inl eq unfolding q by (intro detects [of q]) (simp_all add: Let_def)
    next
      case other: False
      from eq False other
      have "watch_process E (src, d, go) tx msg w = (unpark tx (w\<lparr>w_client := c\<rparr>), True)"
        by (cases e) simp_all
      with Inl show ?thesis by (intro drops)
    qed
  qed
qed

subsection \<open>Invariants of the loop\<close>

fun yields :: "watch_out list \<Rightarrow> checkpoint list" where
  "yields [] = []"
| "yields (Yielded c # os) = c # yields os"
| "yields (_ # os) = yields os"

fun sent :: "watch_out list \<Rightarrow> bytes list" where
  "sent [] = []"
| "sent (Broadcast m # os) = m # sent os"
| "sent (_ # os) = sent os"

lemma yields_append [simp]: "yields (xs @ ys) = yields xs @ yields ys"
  by (induction xs rule: yields.induct) simp_all

lemma sent_append [simp]: "sent (xs @ ys) = sent xs @ sent ys"
  by (induction xs rule: sent.induct) simp_all

definition tree_less :: "checkpoint \<Rightarrow> checkpoint \<Rightarrow> bool" where
  "tree_less a b \<longleftrightarrow> Tree_N (Tree a) < Tree_N (Tree b)"

text \<open>The yields so far grow, are opened under the policy, and end in what \<open>lastYielded\<close> holds.\<close>

definition yields_inv :: "'x tlog_ops_scheme \<Rightarrow> policy \<Rightarrow> watch \<Rightarrow> bool" where
  "yields_inv E p w \<longleftrightarrow>
     c_policy (w_client w) = p \<and> head_opened E (w_client w) \<and>
     sorted_wrt tree_less (yields (outs w)) \<and>
     (\<forall>c \<in> set (yields (outs w)). \<exists>m. Policy_Open E p m = Inr c) \<and>
     (yields (outs w) \<noteq> [] \<longrightarrow>
        last (yields (outs w)) = lastYielded w \<and> c_hasHead (w_client w) \<and>
        (c_head (w_client w) = lastYielded w \<or> tree_less (lastYielded w) (c_head (w_client w))))"

text \<open>Broadcasts are the flooded proofs, each sent once; everything reported is justified.\<close>

definition flood_inv :: "'x tlog_ops_scheme \<Rightarrow> policy \<Rightarrow> watch \<Rightarrow> bool" where
  "flood_inv E p w \<longleftrightarrow>
     sent (outs w) = map (envelope envEquivocation) (rev (flooded w)) \<and> distinct (flooded w) \<and>
     (\<forall>q. YieldedErr q \<in> set (outs w) \<longrightarrow> convicted E p q)"

definition pending_inv :: "'x tlog_ops_scheme \<Rightarrow> policy \<Rightarrow> watch \<Rightarrow> bool" where
  "pending_inv E p w \<longleftrightarrow>
     distinct (map fst (pending w)) \<and> (\<forall>(tx, msg) \<in> set (pending w). operator_signed E p msg)"

definition watch_inv :: "'x tlog_ops_scheme \<Rightarrow> policy \<Rightarrow> watch \<Rightarrow> bool" where
  "watch_inv E p w \<longleftrightarrow> yields_inv E p w \<and> flood_inv E p w \<and> pending_inv E p w"

lemma set_alist_put_sub: "x \<in> set (alist_put k v m) \<Longrightarrow> x = (k, v) \<or> x \<in> set m"
  by (induction k v m rule: alist_put.induct) (auto split: if_splits)

lemma gossip_prims [simp]:
  "pending (emit x w) = pending w" "flooded (emit x w) = flooded w" "outs (emit x w) = outs w @ [x]"
  "pending (unpark k w) = alist_del k (pending w)" "flooded (unpark k w) = flooded w"
  "outs (unpark k w) = outs w"
  "pending (park k m w) = alist_put k m (pending w)" "flooded (park k m w) = flooded w"
  "outs (park k m w) = outs w"
  "pending (flood d w) = pending w" "yields (outs (flood d w)) = yields (outs w)"
  by (simp_all add: emit_def unpark_def park_def flood_def)

lemma watch_prims [simp]:
  "lastYielded (emit x w) = lastYielded w" "w_client (emit x w) = w_client w"
  "lastYielded (unpark k w) = lastYielded w" "w_client (unpark k w) = w_client w"
  "lastYielded (park k m w) = lastYielded w" "w_client (park k m w) = w_client w"
  "lastYielded (flood d w) = lastYielded w" "w_client (flood d w) = w_client w"
  by (simp_all add: emit_def unpark_def park_def flood_def)

lemma flood_flood_inv: "flood_inv E p w \<Longrightarrow> flood_inv E p (flood d w)"
  by (auto simp: flood_inv_def flood_def)

lemma flood_inv_cong:
  "outs w = outs w' \<Longrightarrow> flooded w = flooded w' \<Longrightarrow> flood_inv E p w = flood_inv E p w'"
  by (simp add: flood_inv_def)

lemma pending_inv_del: "pending_inv E p w \<Longrightarrow> pending w' = alist_del k (pending w) \<Longrightarrow> pending_inv E p w'"
  by (auto simp: pending_inv_def alist_del_def distinct_map_filter)

lemma pending_inv_put:
  "pending_inv E p w \<Longrightarrow> operator_signed E p m \<Longrightarrow> pending w' = alist_put k m (pending w) \<Longrightarrow>
   pending_inv E p w'"
  by (auto simp: pending_inv_def dest!: set_alist_put_sub)

lemma yields_inv_cong:
  "yields (outs w) = yields (outs w') \<Longrightarrow> lastYielded w = lastYielded w' \<Longrightarrow> w_client w = w_client w' \<Longrightarrow>
   yields_inv E p w = yields_inv E p w'"
  by (simp add: yields_inv_def)

text \<open>An attempt leaves the client one step further; the yields so far stay below its head.\<close>

lemma yields_inv_client:
  assumes "yields_inv E p w"
  shows "yields_inv E p (w\<lparr>w_client := fst (Client_Update E src d msg (w_client w))\<rparr>)"
proof (cases "Client_Update E src d msg (w_client w)")
  case (Pair c r)
  show ?thesis
  proof (cases r)
    case (Inl e)
    with Pair have "c = w_client w" using Update_err by blast
    with assms Pair show ?thesis by simp
  next
    case (Inr cp)
    with Pair have u: "Client_Update E src d msg (w_client w) = (c, Inr cp)" by simp
    have "head_opened E c" "c_policy c = p"
      using assms Update_opened [of E "w_client w" src d msg] by (simp_all add: yields_inv_def u)
    with assms Update_ok [OF u] show ?thesis
      by (auto simp: yields_inv_def u tree_less_def)
  qed
qed

lemma yields_inv_emit:
  assumes "yields_inv E p w" and "c_hasHead (w_client w)" and "c_head (w_client w) \<noteq> lastYielded w"
    and "w' = emit (Yielded (c_head (w_client w))) (w\<lparr>lastYielded := c_head (w_client w)\<rparr>)"
  shows "yields_inv E p w'"
proof -
  let ?h = "c_head (w_client w)" and ?ys = "yields (outs w)"
  have below: "tree_less y ?h" if "y \<in> set ?ys" for y
  proof -
    from that have ne: "?ys \<noteq> []" by auto
    with assms have l: "tree_less (last ?ys) ?h" by (auto simp: yields_inv_def)
    have "sorted_wrt tree_less (butlast ?ys @ [last ?ys])"
      unfolding append_butlast_last_id [OF ne] using assms(1) by (simp add: yields_inv_def)
    then have "\<forall>z \<in> set (butlast ?ys). tree_less z (last ?ys)"
      unfolding sorted_wrt_append by simp
    moreover have "y \<in> set (butlast ?ys @ [last ?ys])"
      unfolding append_butlast_last_id [OF ne] by (rule that)
    ultimately have "y = last ?ys \<or> tree_less y (last ?ys)" by auto
    with l show ?thesis by (auto simp: tree_less_def)
  qed
  with assms show ?thesis
    by (auto simp: yields_inv_def sorted_wrt_append head_opened_def)
qed

lemma process_inv:
  assumes "watch_inv E p w"
  shows "watch_inv E p (fst (watch_process E (src, d, go) tx msg w))"
proof -
  let ?u = "Client_Update E src d msg (w_client w)"
  let ?w = "w\<lparr>w_client := fst ?u\<rparr>"
  have y: "yields_inv E p ?w" and f: "flood_inv E p ?w" and q: "pending_inv E p ?w"
    and pol: "c_policy (w_client w) = p" "head_opened E (w_client w)"
    using assms yields_inv_client [of E p w src d msg]
    by (simp_all add: watch_inv_def flood_inv_def pending_inv_def yields_inv_def)
  have up: "watch_inv E p (unpark tx ?w)"
    unfolding watch_inv_def using y f pending_inv_del [OF q, of "unpark tx ?w" tx]
    by (simp add: yields_inv_def flood_inv_def)
  show ?thesis
  proof (cases rule: watch_process_cases [of E src d msg w go tx])
    case (yields cp)
    have u: "?u = (fst ?u, Inr cp)" using yields(1) by (simp add: prod_eq_iff)
    let ?v = "unpark tx ?w"
    have cp: "c_head (w_client ?v) = cp" and has: "c_hasHead (w_client ?v)"
      and new: "cp \<noteq> lastYielded ?v"
      using Update_ok(1,2) [OF u] yields(2) by simp_all
    have "yields_inv E p ?v" using up by (simp only: watch_inv_def)
    from yields_inv_emit [OF this has, unfolded cp, OF new refl]
    have "yields_inv E p (emit (Yielded cp) (?v\<lparr>lastYielded := cp\<rparr>))" .
    moreover have "flood_inv E p (emit (Yielded cp) (?v\<lparr>lastYielded := cp\<rparr>))"
      using f by (simp add: flood_inv_def)
    moreover have "pending_inv E p (emit (Yielded cp) (?v\<lparr>lastYielded := cp\<rparr>))"
      using up by (simp add: watch_inv_def pending_inv_def)
    ultimately show ?thesis using yields(3) by (simp add: watch_inv_def)
  next
    case (same cp)
    with up show ?thesis by simp
  next
    case (parks e)
    have "?u = (fst ?u, Inl e)" using parks(1) by (simp add: prod_eq_iff)
    from Update_parks [OF this parks(2)] have "operator_signed E p msg" by (simp add: pol)
    from pending_inv_put [OF q this, of "park tx msg ?w" tx]
    have "pending_inv E p (park tx msg ?w)" by simp
    with y f parks(3) show ?thesis by (simp add: watch_inv_def yields_inv_def flood_inv_def)
  next
    case (detects e)
    have "?u = (fst ?u, Inl (EquivocationError e))" using detects(1) by (simp add: prod_eq_iff)
    from Update_detects [OF this pol(2)] have conv: "convicted E p e" by (simp add: pol convicted_def)
    define v where "v = (case Equivocation_MarshalBinary e of Inr data \<Rightarrow> flood data (unpark tx ?w)
        | Inl _ \<Rightarrow> unpark tx ?w)"
    have "watch_inv E p v"
      using up by (auto simp: v_def watch_inv_def flood_flood_inv yields_inv_def pending_inv_def split: sum.splits)
    with conv have "watch_inv E p (emit (YieldedErr e) v)"
      by (auto simp: watch_inv_def yields_inv_def flood_inv_def pending_inv_def)
    with detects(2) show ?thesis by (simp add: v_def)
  next
    case (drops e)
    with up show ?thesis by simp
  qed
qed

lemma tick_inv: "watch_inv E p w \<Longrightarrow> watch_inv E p (fst (watch_tick E order w))"
proof (induction E order w rule: watch_tick.induct)
  case (2 E tx env order w)
  show ?case
  proof (cases "map_of (pending w) tx")
    case None
    with 2 show ?thesis by simp
  next
    case (Some msg)
    obtain src d go where env: "env = (src, d, go)" by (cases env) auto
    obtain w' m where p: "watch_process E env tx msg w = (w', m)" by (cases "watch_process E env tx msg w")
    with process_inv [OF "2.prems", of src d go tx msg] have "watch_inv E p w'" by (simp add: env)
    with "2.IH"(2) Some p show ?thesis by simp
  qed
qed simp

lemma message_inv:
  assumes "watch_inv E p w"
  shows "watch_inv E p (fst (watch_message E env content w))"
proof -
  obtain src d go where env: "env = (src, d, go)" by (cases env) auto
  have "watch_inv E p (emit (YieldedErr q) (flood payload w))"
    if "p_operator (c_policy (w_client w)) = Some op"
      "VerifyEquivocation E q (p_origin (c_policy (w_client w))) op = Inr n" for payload q op n
  proof -
    have pol: "c_policy (w_client w) = p" using assms by (simp add: watch_inv_def yields_inv_def)
    have "convicted E p q" using that unfolding pol convicted_def by blast
    moreover have "watch_inv E p (flood payload w)"
      using assms by (simp add: watch_inv_def flood_flood_inv yields_inv_def pending_inv_def)
    ultimately show ?thesis
      by (auto simp: watch_inv_def yields_inv_def flood_inv_def pending_inv_def)
  qed
  moreover have "watch_inv E p (emit Panic w)"
    using assms by (auto simp: watch_inv_def yields_inv_def flood_inv_def pending_inv_def)
  ultimately show ?thesis using assms process_inv [OF assms, of src d go]
    by (auto simp: watch_message_def env Let_def split: option.splits sum.splits)
qed

lemma start_inv: "head_opened E c \<Longrightarrow> watch_inv E (c_policy c) (start_watch c)"
  by (simp add: watch_inv_def yields_inv_def flood_inv_def pending_inv_def start_watch_def)

lemma reach_inv:
  assumes "head_opened E c" and "watch_reach E c s"
  shows "watch_inv E (c_policy c) (fst s)"
  using assms(2)
proof (induction rule: watch_reach.induct)
  case start
  show ?case using assms(1) by (simp add: start_inv)
next
  case (step s s')
  from step.hyps(2) step.IH show ?case by (elim watch_stepE) (simp_all add: tick_inv message_inv)
qed

subsection \<open>Properties of the watch loop\<close>

text \<open>C8: Watching yields every checkpoint at most once and in order: in any run of the loop the
  sizes of the yielded checkpoints strictly increase, and each was opened under the client's
  policy.\<close>

theorem watch_yields_grow:
  assumes "head_opened E c" and "watch_reach E c (w, go)"
  shows "sorted_wrt (\<lambda>a b. Tree_N (Tree a) < Tree_N (Tree b)) (yields (outs w)) \<and>
    (\<forall>cp \<in> set (yields (outs w)). \<exists>m. Policy_Open E (c_policy c) m = Inr cp)"
  using reach_inv [OF assms]
  unfolding watch_inv_def yields_inv_def tree_less_def [abs_def] by simp

text \<open>No proof is broadcast twice, nothing but equivocation proofs is broadcast, and every
  equivocation reported to the consumer is either a proof that verified against the policy's
  operator or two checkpoints the client itself opened at one size with different roots.\<close>

theorem watch_reports_are_justified:
  assumes "head_opened E c" and "watch_reach E c (w, go)"
  shows "distinct (sent (outs w)) \<and>
    (\<forall>m \<in> set (sent (outs w)). \<exists>d. m = envelope envEquivocation d) \<and>
    (\<forall>q. YieldedErr q \<in> set (outs w) \<longrightarrow> convicted E (c_policy c) q)"
  using reach_inv [OF assms]
  by (auto simp: watch_inv_def flood_inv_def distinct_map inj_on_def envelope_def)

text \<open>Only messages the operator signed are ever parked for a retry, one per checkpoint
  text.\<close>

theorem watch_parks_operator_signed:
  assumes "head_opened E c" and "watch_reach E c (w, go)" and "(txt, msg) \<in> set (pending w)"
  shows "operator_signed E (c_policy c) msg \<and> map_of (pending w) txt = Some msg"
  using reach_inv [OF assms(1,2)] assms(3) by (auto simp: watch_inv_def pending_inv_def)

text \<open>
  Concrete runs: a message with a checkpoint text and one signature line, a note opener that
  reads its text, and a proof of two signed roots.
\<close>

definition demo_message :: bytes where
  "demo_message = demo_text @ [nl] @ ''s'' @ [nl]"

definition demo_watch_ops :: tlog_ops where
  "demo_watch_ops = demo_tlog_ops
     \<lparr>note_open := (\<lambda>msg vs. note_open demo_note_ops
        (case splitNote msg of Inr (t, _) \<Rightarrow> t | Inl _ \<Rightarrow> msg) vs)\<rparr>"

definition demo_unsigned_policy :: policy where
  "demo_unsigned_policy = demo_policy
     \<lparr>p_witnesses := [\<lparr>vName = ''wit'', vKeyHash = 1, vVerify = (\<lambda>t raw. False)\<rparr>]\<rparr>"

lemma std_hash_text: "nl \<notin> set (hash_str std_hash_ops h)" "h \<noteq> [] \<Longrightarrow> hash_str std_hash_ops h \<noteq> []"
  by (auto simp: std_hash_ops_def Let_def dest: b64_encode_plain elim!: b64_encode.elims)

lemma fmt_int_not_Nil [simp]: "fmt_int i \<noteq> []"
  by (simp add: fmt_int_def)

lemma demo_split: "splitNote demo_message = Inr (demo_text, ''s'' @ [nl])"
  unfolding demo_message_def demo_text_def
  by (rule splitNote_lines(1)) (simp_all add: std_hash_text fmt_int_free zero_hash_def)

lemma demo_no_split: "splitNote demo_text = Inl ErrMalformedNote"
  "splitNote demo_fork_text = Inl ErrMalformedNote"
  unfolding demo_text_def demo_fork_text_def
  by (rule splitNote_lines(2); simp add: std_hash_text fmt_int_free zero_hash_def)+

lemma demo_watch_note_open:
  "note_open demo_watch_ops demo_message vs = note_open demo_note_ops demo_text vs"
  "note_open demo_watch_ops demo_text vs = note_open demo_note_ops demo_text vs"
  "note_open demo_watch_ops demo_fork_text vs = note_open demo_note_ops demo_fork_text vs"
  "parse_hash demo_watch_ops = parse_hash demo_note_ops"
  by (simp_all add: demo_watch_ops_def demo_split demo_no_split demo_tlog_ops_def note_ops.defs)

lemma demo_watch_parse: "ParseCheckpoint demo_watch_ops t = ParseCheckpoint demo_note_ops t"
  by (rule ParseCheckpoint_cong) (rule demo_watch_note_open)

lemma demo_watch_Open:
  "Policy_Open demo_watch_ops p demo_message = Policy_Open demo_note_ops p demo_text"
  unfolding Policy_Open_def demo_watch_note_open demo_watch_parse by (rule refl)

lemma demo_envelope: "openEnvelope (envelope envCheckpoint demo_message) = Some (envCheckpoint, demo_message)"
  by (rule openEnvelope_envelope) (simp_all add: demo_message_def)

lemma demo_env_neq [simp]: "envCheckpoint \<noteq> envEquivocation"
  by (simp add: envCheckpoint_def envEquivocation_def)

text \<open>A run that yields the checkpoint, and its state.\<close>

definition demo_watching :: watch where
  "demo_watching = fst (watch_message demo_watch_ops (demo_source, False, True)
     (envelope envCheckpoint demo_message) (start_watch (NewClient demo_policy)))"

lemma demo_message_reach:
  "watch_reach E c (watch_event_step E (Message env content) (start_watch c))"
  by (rule watch_reach.step [OF watch_reach.start watch_step.message])

lemma demo_watching_outs: "outs demo_watching = [Yielded demo_checkpoint]"
proof -
  have "demo_checkpoint \<noteq> zero_checkpoint" by (simp add: demo_checkpoint_def zero_checkpoint_def)
  then show ?thesis
    by (simp add: demo_watching_def watch_message_def demo_envelope demo_split start_watch_def
        watch_process_def Client_Update_def demo_watch_Open demo_Open Client_update_def)
      (simp add: NewClient_def)
qed

lemma demo_watching_reach:
  "\<exists>go. watch_reach demo_watch_ops (NewClient demo_policy) (demo_watching, go)"
  using demo_message_reach [of demo_watch_ops "NewClient demo_policy" "(demo_source, False, True)"
      "envelope envCheckpoint demo_message"]
  by (metis demo_watching_def prod.collapse watch_event_step.simps(2))

theorem watch_yields_grow_witness:
  "sorted_wrt (\<lambda>a b. Tree_N (Tree a) < Tree_N (Tree b)) (yields (outs demo_watching)) \<and>
    (\<exists>m. Policy_Open demo_watch_ops (c_policy (NewClient demo_policy)) m = Inr demo_checkpoint)"
proof -
  from demo_watching_reach obtain go
    where "watch_reach demo_watch_ops (NewClient demo_policy) (demo_watching, go)" ..
  from watch_yields_grow [OF NewClient_simps(2) this] show ?thesis by (simp add: demo_watching_outs)
qed

text \<open>A run that receives a proof, and its state.\<close>

definition demo_proof :: equivocation where
  "demo_proof = \<lparr>First = demo_text, Second = demo_fork_text\<rparr>"

definition demo_proof_message :: bytes where
  "demo_proof_message =
     envelope envEquivocation (length_prefixed demo_text @ length_prefixed demo_fork_text)"

definition demo_alarmed :: watch where
  "demo_alarmed = fst (watch_message demo_watch_ops (demo_source, False, True)
     demo_proof_message (start_watch (NewClient demo_policy)))"

lemma demo_watch_Verify:
  "VerifyEquivocation demo_watch_ops demo_proof ''log'' demo_operator = Inr 5"
  using demo_VerifyEquivocation unfolding demo_proof_def VerifyEquivocation_def openOperatorCheckpoint_def
    demo_watch_note_open demo_watch_parse equivocation.simps .

lemma length_b64: "length (b64_encode s) \<le> 4 * length s"
  by (induction s rule: b64_encode.induct) (simp_all add: Let_def)

lemma demo_text_short: "length demo_text < 2 ^ 64" "length demo_fork_text < 2 ^ 64"
proof -
  have len: "length (fmt_int 5) \<le> 1"
    using length_dec_digits [of 5 1] by (simp add: fmt_int_def)
  show "length demo_text < 2 ^ 64" "length demo_fork_text < 2 ^ 64"
    using len length_b64 [of zero_hash] length_b64 [of "replicate 32 (CHR 0x01)"]
    by (simp_all add: demo_text_def demo_fork_text_def std_hash_ops_def zero_hash_def)
qed

lemma demo_alarmed_outs:
  "outs demo_alarmed = [Broadcast demo_proof_message, YieldedErr demo_proof]"
proof -
  have "openEnvelope demo_proof_message =
      Some (envEquivocation, length_prefixed demo_text @ length_prefixed demo_fork_text)"
    unfolding demo_proof_message_def
    by (rule openEnvelope_envelope) (simp_all add: length_prefixed_def)
  moreover have "Equivocation_UnmarshalBinary
      (length_prefixed demo_text @ length_prefixed demo_fork_text) = Inr demo_proof"
    using Unmarshal_chunks [of demo_proof] demo_text_short by (simp add: demo_proof_def)
  ultimately show ?thesis using demo_watch_Verify
    by (simp add: demo_alarmed_def watch_message_def start_watch_def demo_policy_def
        flood_def emit_def demo_proof_message_def)
qed

lemma demo_alarmed_reach:
  "\<exists>go. watch_reach demo_watch_ops (NewClient demo_policy) (demo_alarmed, go)"
  using demo_message_reach [of demo_watch_ops "NewClient demo_policy" "(demo_source, False, True)"
      demo_proof_message]
  by (metis demo_alarmed_def prod.collapse watch_event_step.simps(2))

theorem watch_reports_are_justified_witness:
  "distinct (sent (outs demo_alarmed)) \<and>
    (\<exists>d. demo_proof_message = envelope envEquivocation d) \<and>
    convicted demo_watch_ops (c_policy (NewClient demo_policy)) demo_proof"
proof -
  from demo_alarmed_reach obtain go
    where "watch_reach demo_watch_ops (NewClient demo_policy) (demo_alarmed, go)" ..
  from watch_reports_are_justified [OF NewClient_simps(2) this] show ?thesis
    by (simp add: demo_alarmed_outs)
qed

text \<open>A run that parks a message without the cosignature, and its state.\<close>

definition demo_parked :: watch where
  "demo_parked = fst (watch_message demo_watch_ops (demo_source, False, True)
     (envelope envCheckpoint demo_message) (start_watch (NewClient demo_unsigned_policy)))"

lemma demo_unsigned_Open:
  "Policy_Open demo_note_ops demo_unsigned_policy demo_text = Inl ErrWitnessThreshold"
proof -
  let ?w = "\<lparr>vName = ''wit'', vKeyHash = 1, vVerify = (\<lambda>t raw. False)\<rparr>"
  have "note_open demo_note_ops demo_text [demo_operator, ?w] =
      Some \<lparr>Text = demo_text, Sigs = [demo_sig demo_operator], UnverifiedSigs = []\<rparr>"
    by (simp add: demo_note_ops_def demo_accepts)
  moreover have "keyID ?w \<noteq> keyID demo_operator"
    by (simp add: keyID_eq demo_operator_def demo_verifier_def)
  ultimately show ?thesis
    by (simp add: Policy_Open_def demo_unsigned_policy_def demo_policy_def demo_parse)
      (simp add: demo_checkpoint_def)
qed

lemma demo_parked_pending: "pending demo_parked = [(demo_text, demo_message)]"
  by (simp add: demo_parked_def watch_message_def demo_envelope demo_split start_watch_def
      watch_process_def Client_Update_def demo_watch_Open demo_unsigned_Open)

lemma demo_parked_reach:
  "\<exists>go. watch_reach demo_watch_ops (NewClient demo_unsigned_policy) (demo_parked, go)"
  using demo_message_reach [of demo_watch_ops "NewClient demo_unsigned_policy"
      "(demo_source, False, True)" "envelope envCheckpoint demo_message"]
  by (metis demo_parked_def prod.collapse watch_event_step.simps(2))

theorem watch_parks_operator_signed_witness:
  "operator_signed demo_watch_ops (c_policy (NewClient demo_unsigned_policy)) demo_message \<and>
   map_of (pending demo_parked) demo_text = Some demo_message"
proof -
  from demo_parked_reach obtain go
    where "watch_reach demo_watch_ops (NewClient demo_unsigned_policy) (demo_parked, go)" ..
  from watch_parks_operator_signed [OF NewClient_simps(2) this] show ?thesis
    by (simp add: demo_parked_pending)
qed

end
