(* ===== verification/Tlog_Witness.thy ===== *)
theory Tlog_Witness
  imports Tlog_Watch
begin

section \<open>Transparency log: witnesses (tlogiroh/witness.go)\<close>

text \<open>
  A witness countersigns checkpoints that extend what it signed before. It is a second head
  keeper; its loop on the gossip topic shares the parking and flooding state of the client's.
\<close>

subsection \<open>Signing notes, a parameter\<close>

record signer =
  sgName :: bytes
  sgHash :: u32
  sgSign :: "bytes \<Rightarrow> bytes option"

record sign_ops = tlog_ops +
  note_sign :: "signer \<Rightarrow> Note \<Rightarrow> bytes option"

text \<open>
  What \<^verbatim>\<open>note.Sign\<close> and \<^verbatim>\<open>note.Open\<close> document together. A message made by a signer of a text without
  signatures opens to that text with just the signer's signature, verified, for any list of verifiers
  with different keys that holds the verifier of the signer's key.
\<close>

definition verifier_of :: "signer \<Rightarrow> verifier \<Rightarrow> bool" where
  "verifier_of sg v \<longleftrightarrow> vName v = sgName sg \<and> vKeyHash v = sgHash sg \<and>
     (\<forall>t raw. sgSign sg t = Some raw \<longrightarrow> vVerify v t raw)"

definition note_sign_ok :: "'x sign_ops_scheme \<Rightarrow> bool" where
  "note_sign_ok E \<longleftrightarrow>
     (\<forall>sg t m vs v. note_sign E sg \<lparr>Text = t, Sigs = [], UnverifiedSigs = []\<rparr> = Some m \<and>
        v \<in> set vs \<and> verifier_of sg v \<and> distinct (map keyID vs) \<longrightarrow>
        (\<exists>n. note_open E m vs = Some n \<and> Text n = t \<and> map sigID (Sigs n) = [keyID v] \<and> UnverifiedSigs n = []))"

lemma note_signed:
  assumes "note_sign_ok E" and "note_sign E sg \<lparr>Text = t, Sigs = [], UnverifiedSigs = []\<rparr> = Some m"
    and "verifier_of sg v" and "distinct (map keyID vs)" and "v \<in> set vs"
  shows "\<exists>n. note_open E m vs = Some n \<and> Text n = t \<and> map sigID (Sigs n) = [keyID v] \<and> UnverifiedSigs n = [] \<and>
    keyID v \<in> sigID ` set (Sigs n)"
proof -
  from assms(2-5) have "note_sign E sg \<lparr>Text = t, Sigs = [], UnverifiedSigs = []\<rparr> = Some m \<and>
      v \<in> set vs \<and> verifier_of sg v \<and> distinct (map keyID vs)" by simp
  from assms(1) [unfolded note_sign_ok_def, rule_format, OF this]
  obtain n where n: "note_open E m vs = Some n" "Text n = t" "map sigID (Sigs n) = [keyID v]"
    "UnverifiedSigs n = []" by (elim exE conjE)
  have "keyID v \<in> sigID ` set (Sigs n)" by (metis n(3) list.set_intros(1) list.set_map)
  with n show ?thesis by (intro exI [of _ n]) simp
qed

text \<open>
  A note opened with the verifiers \<open>vs0\<close> and signed again keeps its signatures and gains the signer's:
  it opens to the same text, with the signatures verified before and the new one, for verifiers that
  make no other claim on the names of its signatures. A message holds at most 100 signatures.
\<close>

definition note_cosign_ok :: "'x sign_ops_scheme \<Rightarrow> bool" where
  "note_cosign_ok E \<longleftrightarrow>
     (\<forall>msg vs0 n sg m vs. note_open E msg vs0 = Some n \<and>
        note_sign E sg (n\<lparr>Sigs := Sigs n @ UnverifiedSigs n, UnverifiedSigs := []\<rparr>) = Some m \<and>
        length (Sigs n) + length (UnverifiedSigs n) < 100 \<and> distinct (map keyID vs) \<and>
        (\<forall>v \<in> set vs. vName v = sgName sg \<and> vKeyHash v = sgHash sg \<longrightarrow> verifier_of sg v) \<and>
        (\<forall>v \<in> set vs. keyID v \<in> sigID ` set (Sigs n @ UnverifiedSigs n) \<longrightarrow> v \<in> set vs0 \<or> verifier_of sg v) \<and>
        (\<exists>v \<in> set vs. keyID v \<in> sigID ` set (Sigs n) \<or> verifier_of sg v) \<longrightarrow>
        (\<exists>n'. note_open E m vs = Some n' \<and> Text n' = Text n \<and>
          (\<forall>v \<in> set vs. keyID v \<in> sigID ` set (Sigs n) \<or> verifier_of sg v \<longrightarrow> keyID v \<in> sigID ` set (Sigs n'))))"

subsection \<open>State and operations\<close>

record witness =
  wt_signer :: signer
  wt_origin :: bytes
  wt_operator :: verifier
  wt_headMsg :: bytes
  wt_head :: checkpoint
  wt_hasHead :: bool

definition NewWitness :: "signer \<Rightarrow> bytes \<Rightarrow> verifier \<Rightarrow> witness" where
  "NewWitness signer origin operator =
     \<lparr>wt_signer = signer, wt_origin = origin, wt_operator = operator,
      wt_headMsg = [], wt_head = zero_checkpoint, wt_hasHead = False\<rparr>"

definition Witness_Head :: "witness \<Rightarrow> checkpoint \<times> bool" where
  "Witness_Head w = (wt_head w, wt_hasHead w)"

definition Witness_cosign ::
  "'x sign_ops_scheme \<Rightarrow> source \<Rightarrow> bytes \<Rightarrow> witness \<Rightarrow> witness \<times> (tlog_error + bytes)" where
  "Witness_cosign E src msg w =
     (case note_open E msg [wt_operator w] of
        None \<Rightarrow> (w, Inl ErrOpenNote)
      | Some note0 \<Rightarrow>
        (case ParseCheckpoint E (Text note0) of
           Inl e \<Rightarrow> (w, Inl e)
         | Inr cp \<Rightarrow>
           if Origin cp \<noteq> wt_origin w then (w, Inl ErrOriginMismatch)
           else let n = Tree_N (Tree cp); m = Tree_N (Tree (wt_head w));
                    sign = (case note_sign E (wt_signer w)
                        (note0\<lparr>Sigs := Sigs note0 @ UnverifiedSigs note0, UnverifiedSigs := []\<rparr>) of
                        None \<Rightarrow> (w, Inl ErrSign)
                      | Some cosigned \<Rightarrow>
                        (w\<lparr>wt_headMsg := cosigned, wt_head := cp, wt_hasHead := True\<rparr>, Inr cosigned)) in
             if wt_hasHead w then
               if n < m then (w, Inl ErrRollback)
               else if n = m then
                 if Tree_Hash (Tree cp) \<noteq> Tree_Hash (Tree (wt_head w))
                 then (w, Inl (EquivocationError \<lparr>First = wt_headMsg w, Second = msg\<rparr>))
                 else sign
               else if m > 0 then
                 (case prove_tree E n m (hashReaderForTree E src (Tree cp)) of
                    Inl _ \<Rightarrow> (w, Inl ErrSourceStale)
                  | Inr proof \<Rightarrow>
                    if \<not> check_tree E proof n (Tree_Hash (Tree cp)) m (Tree_Hash (Tree (wt_head w)))
                    then (w, Inl ErrCheckConsistency)
                    else sign)
               else sign
             else sign))"

definition Cosign ::
  "'x sign_ops_scheme \<Rightarrow> source \<Rightarrow> bool \<Rightarrow> bytes \<Rightarrow> witness \<Rightarrow> witness \<times> (tlog_error + bytes)" where
  "Cosign E src ctx_done msg w =
     (if ctx_done then (w, Inl ErrContext) else Witness_cosign E src msg w)"

subsection \<open>The witness loop\<close>

record witness_run = gossip_state +
  r_witness :: witness

definition start_run :: "witness \<Rightarrow> witness_run" where
  "start_run w = \<lparr>pending = [], flooded = [], outs = [], r_witness = w\<rparr>"

definition run_process ::
  "'x sign_ops_scheme \<Rightarrow> source \<times> bool \<Rightarrow> bytes \<Rightarrow> bytes \<Rightarrow> witness_run \<Rightarrow> witness_run" where
  "run_process E env txt payload r0 =
     (let (src, ctx_done) = env;
          (wt, res) = Cosign E src ctx_done payload (r_witness r0);
          r = r0\<lparr>r_witness := wt\<rparr> in
      case res of
        Inr cosigned \<Rightarrow> emit (Broadcast (envelope envCheckpoint cosigned)) (unpark txt r)
      | Inl ErrSourceStale \<Rightarrow> park txt payload r
      | Inl (EquivocationError proof) \<Rightarrow>
          (let r = unpark txt r in
           case Equivocation_MarshalBinary proof of Inr data \<Rightarrow> flood data r | Inl _ \<Rightarrow> r)
      | Inl _ \<Rightarrow> unpark txt r)"

fun run_tick ::
  "'x sign_ops_scheme \<Rightarrow> (bytes \<times> source \<times> bool) list \<Rightarrow> witness_run \<Rightarrow> witness_run" where
  "run_tick E [] r = r"
| "run_tick E ((txt, env) # order) r =
     (case map_of (pending r) txt of
        None \<Rightarrow> run_tick E order r
      | Some payload \<Rightarrow> run_tick E order (run_process E env txt payload r))"

definition run_message :: "'x sign_ops_scheme \<Rightarrow> source \<times> bool \<Rightarrow> bytes \<Rightarrow> witness_run \<Rightarrow> witness_run" where
  "run_message E env content r =
     (case openEnvelope content of
        None \<Rightarrow> r
      | Some (kind, payload) \<Rightarrow>
        if kind = envEquivocation then
          (case Equivocation_UnmarshalBinary payload of
             Inl _ \<Rightarrow> r
           | Inr proof \<Rightarrow>
             (case VerifyEquivocation E proof (wt_origin (r_witness r)) (wt_operator (r_witness r)) of
                Inl _ \<Rightarrow> r
              | Inr _ \<Rightarrow> flood payload r))
        else
          (case splitNote payload of
             Inl _ \<Rightarrow> r
           | Inr (txt, _) \<Rightarrow> run_process E env txt payload r))"

datatype run_event = RunTick "(bytes \<times> source \<times> bool) list" | RunMessage "source \<times> bool" bytes

fun run_step :: "'x sign_ops_scheme \<Rightarrow> run_event \<Rightarrow> witness_run \<Rightarrow> witness_run" where
  "run_step E (RunTick order) r = run_tick E order r"
| "run_step E (RunMessage env content) r = run_message E env content r"

subsection \<open>Lemmas\<close>

definition witness_tree :: "witness \<Rightarrow> tree option" where
  "witness_tree w = (if wt_hasHead w then Some (Tree (wt_head w)) else None)"

definition witness_step :: "'x sign_ops_scheme \<Rightarrow> source \<times> bool \<times> bytes \<Rightarrow> witness \<Rightarrow> witness" where
  "witness_step E i w = (case i of (src, d, msg) \<Rightarrow> fst (Cosign E src d msg w))"

lemma Cosign_refused: "Cosign E src d msg w = (w', Inl e) \<Longrightarrow> w' = w"
  by (auto simp: Cosign_def Witness_cosign_def Let_def split: if_splits option.splits sum.splits)

lemma Cosign_signed:
  assumes "Cosign E src d msg w = (w', Inr m)"
  obtains n cp where "note_open E msg [wt_operator w] = Some n"
    "ParseCheckpoint E (Text n) = Inr cp" "Origin cp = wt_origin w"
    "note_sign E (wt_signer w) (n\<lparr>Sigs := Sigs n @ UnverifiedSigs n, UnverifiedSigs := []\<rparr>) = Some m"
    "w' = w\<lparr>wt_headMsg := m, wt_head := cp, wt_hasHead := True\<rparr>"
  using assms
  by (auto simp: Cosign_def Witness_cosign_def Let_def split: if_splits option.splits sum.splits)

lemma Cosign_advances:
  assumes "Cosign E src d msg w = (w', Inr m)" and "witness_tree w = Some t"
  shows "Tree (wt_head w') = t \<or>
    Tree_N t < Tree_N (Tree (wt_head w')) \<and> (0 < Tree_N t \<longrightarrow> proved E t (Tree (wt_head w')))"
proof -
  from assms(2) have t: "wt_hasHead w" "t = Tree (wt_head w)"
    by (simp_all add: witness_tree_def split: if_splits)
  obtain n cp where n: "note_open E msg [wt_operator w] = Some n" "ParseCheckpoint E (Text n) = Inr cp"
    and cp: "wt_head w' = cp" by (rule Cosign_signed [OF assms(1)]) simp
  consider "Tree_N (Tree cp) < Tree_N t" | "Tree_N (Tree cp) = Tree_N t"
    | "Tree_N t < Tree_N (Tree cp)" by linarith
  then show ?thesis
  proof cases
    case 1
    with assms(1) n t show ?thesis by (auto simp: Cosign_def Witness_cosign_def split: if_splits)
  next
    case 2
    with assms(1) n t have "Tree_Hash (Tree cp) = Tree_Hash t"
      by (auto simp: Cosign_def Witness_cosign_def split: if_splits)
    with 2 cp show ?thesis by (auto intro: tree_eqI)
  next
    case 3
    with assms(1) n t have "0 < Tree_N t \<longrightarrow> proved E t (Tree cp)"
      by (auto simp: Cosign_def Witness_cosign_def proved_def Let_def split: if_splits sum.splits)
    with 3 cp show ?thesis by simp
  qed
qed

interpretation witness: consistent_keeper "witness_step E" witness_tree "proved E" for E
proof
  fix w t and i :: "source \<times> bool \<times> bytes"
  assume t: "witness_tree w = Some t"
  obtain src d msg where i: "i = (src, d, msg)" by (cases i)
  obtain w' r where c: "Cosign E src d msg w = (w', r)" by (cases "Cosign E src d msg w")
  have adv: "\<exists>u. witness_tree (witness_step E i w) = Some u \<and>
      (u = t \<or> Tree_N t < Tree_N u \<and> (0 < Tree_N t \<longrightarrow> proved E t u))"
  proof (cases r)
    case (Inl e)
    with c t Cosign_refused show ?thesis by (fastforce simp: witness_step_def i)
  next
    case (Inr m)
    with c have s: "Cosign E src d msg w = (w', Inr m)" by simp
    then have "witness_tree w' = Some (Tree (wt_head w'))"
      by (elim Cosign_signed) (simp add: witness_tree_def)
    with Cosign_advances [OF s t] show ?thesis by (auto simp: witness_step_def i s)
  qed
  then show "\<exists>u. witness_tree (witness_step E i w) = Some u \<and> (u = t \<or> Tree_N t < Tree_N u)"
    by blast
  fix u
  assume "witness_tree (witness_step E i w) = Some u" "0 < Tree_N t"
  with adv show "u = t \<or> proved E t u" by auto
qed

lemma Cosign_fixed:
  "Cosign E src d msg w = (w', r) \<Longrightarrow>
   wt_origin w' = wt_origin w \<and> wt_operator w' = wt_operator w \<and> wt_signer w' = wt_signer w"
  by (cases r) (auto dest: Cosign_refused elim: Cosign_signed)

lemma run_fixed:
  "wt_origin (fold (witness_step E) is w) = wt_origin w \<and>
   wt_operator (fold (witness_step E) is w) = wt_operator w \<and>
   wt_signer (fold (witness_step E) is w) = wt_signer w"
proof (induction "is" arbitrary: w)
  case (Cons i "is")
  obtain src d msg where "i = (src, d, msg)" by (cases i)
  with Cons show ?case
    using Cosign_fixed [of E src d msg w "fst (Cosign E src d msg w)" "snd (Cosign E src d msg w)"]
    by (simp add: witness_step_def)
qed simp

subsection \<open>Properties\<close>

text \<open>What a witness has signed: a checkpoint text of the witness's log, with its tree.\<close>

definition cosigned_tree :: "'x sign_ops_scheme \<Rightarrow> witness \<Rightarrow> bytes \<Rightarrow> tree \<Rightarrow> bool" where
  "cosigned_tree E w m t \<longleftrightarrow>
     (\<exists>n cp. note_sign E (wt_signer w) n = Some m \<and> ParseCheckpoint E (Text n) = Inr cp \<and>
        Origin cp = wt_origin w \<and> Tree cp = t)"

lemma Cosign_cosigned:
  assumes "Cosign E src d msg w = (w', Inr m)"
  shows "witness_tree w' = Some (Tree (wt_head w'))" "cosigned_tree E w m (Tree (wt_head w'))"
proof -
  from assms obtain n cp where n: "note_open E msg [wt_operator w] = Some n"
    "ParseCheckpoint E (Text n) = Inr cp" "Origin cp = wt_origin w"
    "note_sign E (wt_signer w) (n\<lparr>Sigs := Sigs n @ UnverifiedSigs n, UnverifiedSigs := []\<rparr>) = Some m"
    "w' = w\<lparr>wt_headMsg := m, wt_head := cp, wt_hasHead := True\<rparr>" by (rule Cosign_signed)
  then show "witness_tree w' = Some (Tree (wt_head w'))" by (simp add: witness_tree_def)
  from n show "cosigned_tree E w m (Tree (wt_head w'))"
    unfolding cosigned_tree_def
    by (intro exI [of _ "n\<lparr>Sigs := Sigs n @ UnverifiedSigs n, UnverifiedSigs := []\<rparr>"] exI [of _ cp]) simp
qed

text \<open>The checkpoints and the proofs among the messages a run broadcast.\<close>

definition cosigns :: "watch_out list \<Rightarrow> bytes list" where
  "cosigns os = map tl (filter (\<lambda>m. hd m = envCheckpoint) (sent os))"

definition proofs :: "watch_out list \<Rightarrow> bytes list" where
  "proofs os = filter (\<lambda>m. hd m = envEquivocation) (sent os)"

definition tree_le :: "tree \<Rightarrow> tree \<Rightarrow> bool" where
  "tree_le t u \<longleftrightarrow> t = u \<or> Tree_N t < Tree_N u"

definition signed_inv :: "'x sign_ops_scheme \<Rightarrow> witness \<Rightarrow> witness_run \<Rightarrow> bool" where
  "signed_inv E w r \<longleftrightarrow>
     wt_origin (r_witness r) = wt_origin w \<and> wt_signer (r_witness r) = wt_signer w \<and>
     (\<exists>ts. list_all2 (cosigned_tree E w) (cosigns (outs r)) ts \<and> sorted_wrt tree_le ts \<and>
        (\<forall>t \<in> set ts. \<exists>u. witness_tree (r_witness r) = Some u \<and> tree_le t u))"

definition proofs_inv :: "witness_run \<Rightarrow> bool" where
  "proofs_inv r \<longleftrightarrow> proofs (outs r) = map (envelope envEquivocation) (rev (flooded r)) \<and>
     distinct (flooded r)"

lemma run_prims [simp]:
  "r_witness (emit x r) = r_witness r" "r_witness (unpark k r) = r_witness r"
  "r_witness (park k m r) = r_witness r" "r_witness (flood d r) = r_witness r"
  by (simp_all add: emit_def unpark_def park_def flood_def)

lemma cosigns_flood [simp]: "cosigns (outs (flood d r)) = cosigns (outs r)"
  by (simp add: flood_def cosigns_def envelope_def envCheckpoint_def envEquivocation_def)

lemma proofs_flood: "proofs_inv r \<Longrightarrow> proofs_inv (flood d r)"
  by (auto simp: proofs_inv_def flood_def proofs_def envelope_def)

lemma run_process_cases:
  fixes E :: "'x sign_ops_scheme" and r :: witness_run
  assumes "Cosign E src d payload (r_witness r) = (wt, res)"
  obtains (signs) m where "res = Inr m" "run_process E (src, d) tx payload r =
      emit (Broadcast (envelope envCheckpoint m)) (unpark tx (r\<lparr>r_witness := wt\<rparr>))"
  | (stale) "res = Inl ErrSourceStale"
    "run_process E (src, d) tx payload r = park tx payload (r\<lparr>r_witness := wt\<rparr>)"
  | (detects) q data where "res = Inl (EquivocationError q)"
    "run_process E (src, d) tx payload r = flood data (unpark tx (r\<lparr>r_witness := wt\<rparr>))"
  | (drops) e where "res = Inl e" "run_process E (src, d) tx payload r = unpark tx (r\<lparr>r_witness := wt\<rparr>)"
proof (cases res)
  case (Inr m)
  with assms show ?thesis by (intro signs) (simp_all add: run_process_def)
next
  case (Inl e)
  show ?thesis
  proof (cases "\<exists>q. e = EquivocationError q")
    case True
    then obtain q where q: "e = EquivocationError q" ..
    show ?thesis
      using assms Inl q
      by (cases "Equivocation_MarshalBinary q")
        (auto intro: drops [of e] detects [of q] simp: run_process_def Let_def)
  next
    case other: False
    show ?thesis
    proof (cases "e = ErrSourceStale")
      case True
      with assms Inl show ?thesis by (intro stale) (simp_all add: run_process_def)
    next
      case False
      with assms Inl other have "run_process E (src, d) tx payload r = unpark tx (r\<lparr>r_witness := wt\<rparr>)"
        by (cases e) (simp_all add: run_process_def)
      with Inl show ?thesis by (intro drops)
    qed
  qed
qed

lemma signed_inv_client:
  assumes "signed_inv E w r" and "Cosign E src d m (r_witness r) = (wt, res)"
  shows "signed_inv E w (r\<lparr>r_witness := wt\<rparr>)"
proof -
  have "\<exists>v. witness_tree wt = Some v \<and> tree_le u v" if "witness_tree (r_witness r) = Some u" for u
    using witness.head_step [OF that, of E "(src, d, m)"] assms(2)
    by (auto simp: witness_step_def tree_le_def)
  moreover have "tree_le t v" if "tree_le t u" "tree_le u v" for t u v
    using that by (auto simp: tree_le_def)
  ultimately have up: "\<exists>v. witness_tree wt = Some v \<and> tree_le t v"
    if "witness_tree (r_witness r) = Some u \<and> tree_le t u" for t u using that by blast
  from assms(1) obtain ts where "list_all2 (cosigned_tree E w) (cosigns (outs r)) ts"
    "sorted_wrt tree_le ts" "\<forall>t \<in> set ts. \<exists>u. witness_tree (r_witness r) = Some u \<and> tree_le t u"
    by (auto simp: signed_inv_def)
  with up have "\<exists>ts. list_all2 (cosigned_tree E w) (cosigns (outs r)) ts \<and> sorted_wrt tree_le ts \<and>
      (\<forall>t \<in> set ts. \<exists>v. witness_tree wt = Some v \<and> tree_le t v)" by blast
  with assms(1) Cosign_fixed [OF assms(2)] show ?thesis by (simp add: signed_inv_def)
qed

lemma signed_inv_emit:
  assumes "signed_inv E w r" and "witness_tree (r_witness r) = Some t" and "cosigned_tree E w m t"
  shows "signed_inv E w (emit (Broadcast (envelope envCheckpoint m)) r)"
proof -
  from assms(1) obtain ts where ts: "list_all2 (cosigned_tree E w) (cosigns (outs r)) ts"
    "sorted_wrt tree_le ts" "\<forall>t \<in> set ts. \<exists>u. witness_tree (r_witness r) = Some u \<and> tree_le t u"
    by (auto simp: signed_inv_def)
  have "cosigns (outs r @ [Broadcast (envelope envCheckpoint m)]) = cosigns (outs r) @ [m]"
    by (simp add: cosigns_def envelope_def)
  moreover have "list_all2 (cosigned_tree E w) (cosigns (outs r) @ [m]) (ts @ [t])"
    using ts(1) assms(3) by (simp add: list_all2_appendI)
  moreover have "sorted_wrt tree_le (ts @ [t])"
    using ts(2,3) assms(2) by (auto simp: sorted_wrt_append)
  moreover have "\<forall>x \<in> set (ts @ [t]). \<exists>u. witness_tree (r_witness r) = Some u \<and> tree_le x u"
    using ts(3) assms(2) by (auto simp: tree_le_def)
  ultimately show ?thesis using assms(1) unfolding signed_inv_def gossip_prims run_prims by metis
qed

lemma signed_inv_cong:
  "r_witness r = r_witness r' \<Longrightarrow> cosigns (outs r) = cosigns (outs r') \<Longrightarrow>
   signed_inv E w r = signed_inv E w r'"
  by (simp add: signed_inv_def)

lemma proofs_inv_cong:
  "proofs (outs r) = proofs (outs r') \<Longrightarrow> flooded r = flooded r' \<Longrightarrow> proofs_inv r = proofs_inv r'"
  by (simp add: proofs_inv_def)

definition run_inv :: "'x sign_ops_scheme \<Rightarrow> witness \<Rightarrow> witness_run \<Rightarrow> bool" where
  "run_inv E w r \<longleftrightarrow> signed_inv E w r \<and> proofs_inv r"

lemma run_inv_unpark: "run_inv E w (unpark k r) = run_inv E w r"
  by (simp add: run_inv_def signed_inv_def proofs_inv_def)

lemma run_inv_park: "run_inv E w (park k m r) = run_inv E w r"
  by (simp add: run_inv_def signed_inv_def proofs_inv_def)

lemma run_inv_flood: "run_inv E w r \<Longrightarrow> run_inv E w (flood d r)"
  using signed_inv_cong [where E = E and w = w and r = "flood d r" and r' = r] by (simp add: run_inv_def proofs_flood)

lemma run_process_inv:
  assumes "run_inv E w r"
  shows "run_inv E w (run_process E (src, d) tx m r)"
proof -
  obtain wt res where c: "Cosign E src d m (r_witness r) = (wt, res)"
    by (cases "Cosign E src d m (r_witness r)")
  let ?r = "r\<lparr>r_witness := wt\<rparr>"
  have inv: "run_inv E w ?r"
    using assms signed_inv_client [OF _ c, of w] by (simp add: run_inv_def proofs_inv_def)
  from c show ?thesis
  proof (cases rule: run_process_cases [where tx = tx])
    case (signs s)
    with c have c': "Cosign E src d m (r_witness r) = (wt, Inr s)" by simp
    have cs: "cosigned_tree E w s (Tree (wt_head wt))"
      using Cosign_cosigned(2) [OF c'] assms by (simp add: cosigned_tree_def run_inv_def signed_inv_def)
    have "signed_inv E w (emit (Broadcast (envelope envCheckpoint s)) (unpark tx ?r))"
      using inv Cosign_cosigned(1) [OF c']
        signed_inv_cong [where E = E and w = w and r = "unpark tx ?r" and r' = ?r]
      by (intro signed_inv_emit [OF _ _ cs]) (simp_all add: run_inv_def)
    moreover have "proofs_inv (emit (Broadcast (envelope envCheckpoint s)) (unpark tx ?r))"
      using inv by (simp add: run_inv_def proofs_inv_def proofs_def envelope_def)
    ultimately show ?thesis by (simp add: signs run_inv_def)
  qed (use inv in \<open>simp_all add: run_inv_unpark run_inv_park run_inv_flood\<close>)
qed

lemma run_tick_inv: "run_inv E w r \<Longrightarrow> run_inv E w (run_tick E order r)"
proof (induction E order r rule: run_tick.induct)
  case (2 E tx env order r)
  obtain src d where "env = (src, d)" by (cases env)
  with 2 show ?case by (simp add: run_process_inv split: option.splits)
qed simp

lemma run_step_inv: "run_inv E w r \<Longrightarrow> run_inv E w (run_step E ev r)"
proof (cases ev)
  case (RunMessage env content)
  obtain src d where "env = (src, d)" by (cases env)
  moreover assume "run_inv E w r"
  ultimately show ?thesis
    using RunMessage by (simp add: run_message_def run_process_inv run_inv_flood split: option.splits sum.splits)
qed (simp add: run_tick_inv)

lemma run_inv_run: "run_inv E w r \<Longrightarrow> run_inv E w (fold (run_step E) evs r)"
  by (induction evs arbitrary: r) (simp_all add: run_step_inv)

lemma start_run_inv: "run_inv E w (start_run w)"
  by (simp add: run_inv_def signed_inv_def proofs_inv_def start_run_def cosigns_def proofs_def)

text \<open>C1: A witness never signs two histories: of any two checkpoints it cosigned, in this order,
  the second has the same tree or a larger one that extends the first, for any notion of
  extension that checked consistency proofs establish.\<close>

theorem witness_never_equivocates:
  assumes "consistency_sound E extends"
    and "Cosign E src d msg (fold (witness_step E) ops (NewWitness sg origin op)) = (w1, Inr m1)"
    and "Cosign E src' d' msg' (fold (witness_step E) js w1) = (w2, Inr m2)"
  shows "\<exists>t1 t2. cosigned_tree E (NewWitness sg origin op) m1 t1 \<and>
    cosigned_tree E (NewWitness sg origin op) m2 t2 \<and>
    (t1 = t2 \<or> Tree_N t1 < Tree_N t2) \<and> (0 < Tree_N t1 \<longrightarrow> extends t1 t2)"
proof -
  let ?w0 = "NewWitness sg origin op"
  let ?t1 = "Tree (wt_head w1)" and ?t2 = "Tree (wt_head w2)"
  note one = Cosign_cosigned [OF assms(2)] and two = Cosign_cosigned [OF assms(3)]
  have w2: "w2 = fold (witness_step E) (js @ [(src', d', msg')]) w1"
    using assms(3) by (simp add: witness_step_def)
  have fixed: "cosigned_tree E (fold (witness_step E) xs w) m t = cosigned_tree E w m t" for xs w m t
    by (simp add: cosigned_tree_def run_fixed)
  have w1: "w1 = fold (witness_step E) (ops @ [(src, d, msg)]) ?w0"
    using assms(2) by (simp add: witness_step_def)
  have "cosigned_tree E ?w0 m1 ?t1" using one(2) by (simp only: fixed)
  moreover have "cosigned_tree E ?w0 m2 ?t2" using two(2) by (simp only: fixed w1)
  moreover have "?t1 = ?t2 \<or> Tree_N ?t1 < Tree_N ?t2"
    using witness.head_run [OF one(1), where E = E and ops = "js @ [(src', d', msg')]"] two(1) w2
    by (metis option.inject)
  moreover have "extends ?t1 ?t2" if "0 < Tree_N ?t1"
    using proved_extends [OF assms(1) witness.run_proved [OF one(1) _ that]] two(1) w2 by metis
  ultimately show ?thesis by blast
qed


definition demo_signer :: signer where
  "demo_signer = \<lparr>sgName = ''wit'', sgHash = 1, sgSign = (\<lambda>t. Some [])\<rparr>"

definition demo_sign_ops :: sign_ops where
  "demo_sign_ops = tlog_ops.extend demo_tlog_ops
     \<lparr>note_sign = (\<lambda>sg n. if sgSign sg (Text n) = Some [] then Some (Text n) else None)\<rparr>"

lemma demo_sign_simps:
  "note_open demo_sign_ops = note_open demo_note_ops" "check_tree demo_sign_ops = check_tree demo_tlog_ops"
  "note_sign demo_sign_ops = (\<lambda>sg n. if sgSign sg (Text n) = Some [] then Some (Text n) else None)"
  "parse_hash demo_sign_ops = parse_hash demo_note_ops"
  "hash_str demo_sign_ops = hash_str std_hash_ops"
  by (simp_all add: demo_sign_ops_def demo_tlog_ops_def demo_note_ops_def tlog_ops.defs note_ops.defs)

lemma demo_Cosign:
  "wt_operator w = demo_operator \<Longrightarrow> wt_signer w = demo_signer \<Longrightarrow> wt_origin w = ''log'' \<Longrightarrow>
   wt_hasHead w \<longrightarrow> wt_head w = demo_checkpoint \<Longrightarrow>
   Cosign demo_sign_ops src False demo_text w =
     (w\<lparr>wt_headMsg := demo_text, wt_head := demo_checkpoint, wt_hasHead := True\<rparr>, Inr demo_text)"
  using demo_parse ParseCheckpoint_cong [OF demo_sign_simps(4), of demo_text]
  by (simp add: Cosign_def Witness_cosign_def demo_note_open demo_sign_simps demo_signer_def Let_def)
    (auto simp: demo_checkpoint_def)

definition demo_cosigner :: witness where
  "demo_cosigner = (NewWitness demo_signer ''log'' demo_operator)
     \<lparr>wt_headMsg := demo_text, wt_head := demo_checkpoint, wt_hasHead := True\<rparr>"

lemma demo_Cosign_runs:
  "Cosign demo_sign_ops demo_source False demo_text
     (fold (witness_step demo_sign_ops) [] (NewWitness demo_signer ''log'' demo_operator)) =
     (demo_cosigner, Inr demo_text)"
  "Cosign demo_sign_ops demo_source False demo_text
     (fold (witness_step demo_sign_ops) [] demo_cosigner) = (demo_cosigner, Inr demo_text)"
  by (simp_all add: demo_Cosign demo_cosigner_def NewWitness_def)

theorem witness_never_equivocates_witness:
  "\<exists>t1 t2. cosigned_tree demo_sign_ops (NewWitness demo_signer ''log'' demo_operator) demo_text t1 \<and>
    cosigned_tree demo_sign_ops (NewWitness demo_signer ''log'' demo_operator) demo_text t2 \<and>
    (t1 = t2 \<or> Tree_N t1 < Tree_N t2)"
proof -
  have sound: "consistency_sound demo_sign_ops demo_extends"
    using demo_consistency_sound by (simp add: consistency_sound_def proved_def demo_sign_simps)
  from witness_never_equivocates [OF sound demo_Cosign_runs] show ?thesis by blast
qed

end
