(* ===== verification/Tlog_Notes.thy ===== *)
theory Tlog_Notes
  imports Tlog_Witness
begin

section \<open>A concrete note format\<close>

text \<open>
  A small implementation of opening and signing notes that meets the documented laws, for the
  witnesses of the theories above: a signature line is the name of the signer, every key hash is 1,
  and a verifier judges the empty signature.
\<close>

definition line_sig :: "bytes \<Rightarrow> signature" where
  "line_sig l = \<lparr>sName = l, sHash = 1, sBase64 = []\<rparr>"

definition line_of :: "verifier \<Rightarrow> bytes \<Rightarrow> bool" where
  "line_of v l \<longleftrightarrow> vName v = l \<and> vKeyHash v = 1"

definition line_open :: "bytes \<Rightarrow> verifier list \<Rightarrow> Note option" where
  "line_open msg vs =
     (case splitNote msg of
        Inl _ \<Rightarrow> None
      | Inr (t, s) \<Rightarrow>
        (let ls = fresh [] (sig_lines s); known = filter (\<lambda>l. \<exists>v \<in> set vs. line_of v l) ls in
         if 100 < length (sig_lines s) \<or> known = [] \<or> last s \<noteq> nl then None
         else if \<exists>l \<in> set ls. \<exists>v \<in> set vs. line_of v l \<and> \<not> vVerify v t [] then None
         else Some \<lparr>Text = t, Sigs = map line_sig known,
           UnverifiedSigs = map line_sig (filter (\<lambda>l. \<not> (\<exists>v \<in> set vs. line_of v l)) ls)\<rparr>))"

definition line_names :: "signer \<Rightarrow> Note \<Rightarrow> bytes list" where
  "line_names sg n = filter (\<lambda>l. l \<noteq> sgName sg) (map sName (Sigs n)) @ [sgName sg]"

definition line_sign :: "signer \<Rightarrow> Note \<Rightarrow> bytes option" where
  "line_sign sg n =
     (let ls = line_names sg n; m = Text n @ [nl] @ unlines ls in
      if sgHash sg \<noteq> 1 \<or> sgSign sg (Text n) \<noteq> Some [] \<or> (\<exists>l \<in> set ls. l = [] \<or> nl \<in> set l) then None
      else if splitNote m = Inr (Text n, unlines ls) then Some m else None)"

lemma line_sign_ok:
  assumes "line_sign sg n = Some m"
  shows "splitNote m = Inr (Text n, unlines (line_names sg n))" and "sig_lines (unlines (line_names sg n)) = line_names sg n"
    and "last (unlines (line_names sg n)) = nl"
    and "sgHash sg = 1" and "sgSign sg (Text n) = Some []" and "m = Text n @ [nl] @ unlines (line_names sg n)"
proof -
  have "unlines (line_names sg n) \<noteq> []" by (simp add: line_names_def)
  then show "last (unlines (line_names sg n)) = nl" using last_unlines by blast
qed (use assms in \<open>auto simp: line_sign_def Let_def sig_lines_unlines split: if_splits\<close>)

lemma line_open_ok:
  assumes "line_open msg vs = Some n"
  obtains s where "splitNote msg = Inr (Text n, s)" "length (sig_lines s) \<le> 100" "last s = nl"
    "map sName (Sigs n) = filter (\<lambda>l. \<exists>v \<in> set vs. line_of v l) (fresh [] (sig_lines s))"
    "map sName (UnverifiedSigs n) = filter (\<lambda>l. \<not> (\<exists>v \<in> set vs. line_of v l)) (fresh [] (sig_lines s))"
    "\<forall>s \<in> set (Sigs n @ UnverifiedSigs n). sHash s = 1" "Sigs n \<noteq> []"
    "\<And>v. v \<in> set vs \<Longrightarrow> keyID v \<in> sigID ` set (Sigs n) \<Longrightarrow> vVerify v (Text n) []"
proof -
  from assms obtain s where s: "splitNote msg = Inr (Text n, s)" "length (sig_lines s) \<le> 100" "last s = nl"
    "Sigs n = map line_sig (filter (\<lambda>l. \<exists>v \<in> set vs. line_of v l) (fresh [] (sig_lines s)))"
    "UnverifiedSigs n = map line_sig (filter (\<lambda>l. \<not> (\<exists>v \<in> set vs. line_of v l)) (fresh [] (sig_lines s)))"
    "Sigs n \<noteq> []" and bad: "\<not> (\<exists>l \<in> set (fresh [] (sig_lines s)). \<exists>v \<in> set vs. line_of v l \<and> \<not> vVerify v (Text n) [])"
    by (auto simp: line_open_def Let_def split: sum.splits if_splits)
  have "vVerify v (Text n) []" if "v \<in> set vs" "keyID v \<in> sigID ` set (Sigs n)" for v
    using that bad by (auto simp: s(4) keyID_sigID line_sig_def line_of_def)
  then show ?thesis using s by (intro that [of s]) (auto simp: comp_def line_sig_def)
qed

lemma line_open_eq:
  assumes "splitNote msg = Inr (t, s)" and "length (sig_lines s) \<le> 100" and "distinct (sig_lines s)" and "last s = nl"
    and "\<exists>l \<in> set (sig_lines s). \<exists>v \<in> set vs. line_of v l"
    and "\<forall>l \<in> set (sig_lines s). \<forall>v \<in> set vs. line_of v l \<longrightarrow> vVerify v t []"
  shows "line_open msg vs = Some \<lparr>Text = t, Sigs = map line_sig (filter (\<lambda>l. \<exists>v \<in> set vs. line_of v l) (sig_lines s)),
    UnverifiedSigs = map line_sig (filter (\<lambda>l. \<not> (\<exists>v \<in> set vs. line_of v l)) (sig_lines s))\<rparr>"
proof -
  have "filter (\<lambda>l. \<exists>v \<in> set vs. line_of v l) (sig_lines s) \<noteq> []"
    using assms(5) by (auto simp: filter_empty_conv)
  then show ?thesis using assms by (simp add: line_open_def Let_def fresh_id)
qed

lemma line_key: "keyID v \<in> sigID ` set (map line_sig ls) \<longleftrightarrow> (\<exists>l \<in> set ls. line_of v l)"
  by (auto simp: keyID_sigID line_sig_def line_of_def image_iff)

lemma keyID_distinct: "distinct (map keyID vs) \<Longrightarrow> v \<in> set vs \<Longrightarrow> w \<in> set vs \<Longrightarrow> line_of v l \<Longrightarrow> line_of w l \<Longrightarrow> v = w"
  by (auto simp: distinct_map inj_on_def keyID_eq line_of_def)

definition signs_lines :: "'x sign_ops_scheme \<Rightarrow> bool" where
  "signs_lines E \<longleftrightarrow> note_open E = line_open \<and> note_sign E = line_sign"

lemma lines_sound: "signs_lines E \<Longrightarrow> note_open_sound E"
proof -
  assume E: "signs_lines E"
  have "sig_verified vs (Text n) s" if "line_open msg vs = Some n" "s \<in> set (Sigs n)" for msg vs n s
  proof (rule line_open_ok [OF that(1)])
    fix u
    assume n: "map sName (Sigs n) = filter (\<lambda>l. \<exists>v \<in> set vs. line_of v l) (fresh [] (sig_lines u))"
      "\<forall>s \<in> set (Sigs n @ UnverifiedSigs n). sHash s = 1"
      and ver: "\<And>v. v \<in> set vs \<Longrightarrow> keyID v \<in> sigID ` set (Sigs n) \<Longrightarrow> vVerify v (Text n) []"
    from that(2) have "sName s \<in> set (map sName (Sigs n))" by simp
    with n(1) obtain v where v: "v \<in> set vs" "line_of v (sName s)" by auto
    moreover have "sHash s = 1" using n(2) that(2) by simp
    ultimately have "vName v = sName s" "vKeyHash v = sHash s" by (simp_all add: line_of_def)
    moreover from this have "keyID v \<in> sigID ` set (Sigs n)"
      using that(2) by (auto simp: keyID_sigID image_iff)
    ultimately show ?thesis using ver v(1) by (auto simp: sig_verified_def)
  qed
  moreover have "Sigs n \<noteq> []" if "line_open msg vs = Some n" for msg vs n
    using that by (rule line_open_ok)
  ultimately show ?thesis using E by (auto simp: note_open_sound_def signs_lines_def)
qed

lemma lines_sign: "signs_lines E \<Longrightarrow> note_sign_ok E"
  unfolding note_sign_ok_def signs_lines_def
proof (intro allI impI, elim conjE)
  fix sg t m vs v
  assume E: "note_open E = line_open" "note_sign E = line_sign"
    and m: "note_sign E sg \<lparr>Text = t, Sigs = [], UnverifiedSigs = []\<rparr> = Some m"
    and v: "v \<in> set vs" "verifier_of sg v" "distinct (map keyID vs)"
  from m E have "line_sign sg \<lparr>Text = t, Sigs = [], UnverifiedSigs = []\<rparr> = Some m" by simp
  from line_sign_ok [OF this] have l: "splitNote m = Inr (t, unlines [sgName sg])"
    "sig_lines (unlines [sgName sg]) = [sgName sg]" "last (unlines [sgName sg]) = nl" "sgHash sg = 1" "sgSign sg t = Some []"
    by (simp_all add: line_names_def)
  have lv: "line_of v (sgName sg)" using v(2) l(4) by (simp add: verifier_of_def line_of_def)
  moreover have "vVerify w t []" if "w \<in> set vs" "line_of w (sgName sg)" for w
    using keyID_distinct [OF v(3) v(1) that(1) lv that(2)] v(2) l(5) by (simp add: verifier_of_def)
  moreover have ex: "\<exists>w \<in> set vs. line_of w (sgName sg)" using lv v(1) by blast
  ultimately have "line_open m vs = Some \<lparr>Text = t, Sigs = [line_sig (sgName sg)], UnverifiedSigs = []\<rparr>"
    using line_open_eq [OF l(1), of vs] l(3) unfolding l(2) by simp
  moreover have "sigID (line_sig (sgName sg)) = keyID v"
    using lv by (simp add: sigID_def keyID_def line_sig_def line_of_def)
  ultimately show "\<exists>n. note_open E m vs = Some n \<and> Text n = t \<and> map sigID (Sigs n) = [keyID v] \<and> UnverifiedSigs n = []"
    using E by simp
qed

lemma lines_cosign: "signs_lines E \<Longrightarrow> note_cosign_ok E"
  unfolding note_cosign_ok_def signs_lines_def
proof (intro allI impI, elim conjE)
  fix msg vs0 n sg m vs
  assume E: "note_open E = line_open" "note_sign E = line_sign"
    and o: "note_open E msg vs0 = Some n"
    and m: "note_sign E sg (n\<lparr>Sigs := Sigs n @ UnverifiedSigs n, UnverifiedSigs := []\<rparr>) = Some m"
    and len: "length (Sigs n) + length (UnverifiedSigs n) < 100" and dist: "distinct (map keyID vs)"
    and sg: "\<forall>v \<in> set vs. vName v = sgName sg \<and> vKeyHash v = sgHash sg \<longrightarrow> verifier_of sg v"
    and old: "\<forall>v \<in> set vs. keyID v \<in> sigID ` set (Sigs n @ UnverifiedSigs n) \<longrightarrow> v \<in> set vs0 \<or> verifier_of sg v"
    and some: "\<exists>v \<in> set vs. keyID v \<in> sigID ` set (Sigs n) \<or> verifier_of sg v"
  let ?n = "n\<lparr>Sigs := Sigs n @ UnverifiedSigs n, UnverifiedSigs := []\<rparr>"
  define ls where "ls = line_names sg ?n"
  from m E have m': "line_sign sg ?n = Some m" by simp
  note l = line_sign_ok [OF m', folded ls_def]
  obtain s where s: "map sName (Sigs n) = filter (\<lambda>l. \<exists>v \<in> set vs0. line_of v l) (fresh [] (sig_lines s))"
    "map sName (UnverifiedSigs n) = filter (\<lambda>l. \<not> (\<exists>v \<in> set vs0. line_of v l)) (fresh [] (sig_lines s))"
    "\<forall>s \<in> set (Sigs n @ UnverifiedSigs n). sHash s = 1"
    "\<And>v. v \<in> set vs0 \<Longrightarrow> keyID v \<in> sigID ` set (Sigs n) \<Longrightarrow> vVerify v (Text n) []"
    using line_open_ok o E by (metis (no_types, lifting))
  have names: "map sName (Sigs n @ UnverifiedSigs n) = filter (\<lambda>l. \<exists>v \<in> set vs0. line_of v l) (fresh [] (sig_lines s))
      @ filter (\<lambda>l. \<not> (\<exists>v \<in> set vs0. line_of v l)) (fresh [] (sig_lines s))"
    by (simp add: s(1,2))
  have ls: "set ls = insert (sgName sg) (sName ` set (Sigs n @ UnverifiedSigs n))"
    by (auto simp: ls_def line_names_def)
  have sig: "keyID v \<in> sigID ` set xs \<longleftrightarrow> (\<exists>l \<in> sName ` set xs. line_of v l)"
    if "set xs \<subseteq> set (Sigs n @ UnverifiedSigs n)" for v xs
    using s(3) that by (force simp: keyID_sigID line_of_def image_iff)
  have ver_sg: "line_of v (sgName sg)" "vVerify v (Text n) []" if "verifier_of sg v" for v
    using that l(4,5) by (simp_all add: verifier_of_def line_of_def)
  have dl: "distinct ls"
    using distinct_fresh [of "[]" "sig_lines s"] unfolding ls_def line_names_def
    by (auto simp: names [simplified] distinct_fresh)
  have "length (filter (\<lambda>l. l \<noteq> sgName sg) (map sName (Sigs n @ UnverifiedSigs n))) \<le>
      length (map sName (Sigs n @ UnverifiedSigs n))" by (rule length_filter_le)
  then have short: "length ls \<le> 100"
    using len by (simp add: ls_def line_names_def del: map_append filter_append)
  have known: "line_of v (sgName sg) \<longrightarrow> verifier_of sg v" if "v \<in> set vs" for v
    using sg that l(4) by (simp add: line_of_def)
  have good: "vVerify v (Text n) []" if "v \<in> set vs" "x \<in> set ls" "line_of v x" for v x
  proof (cases "verifier_of sg v")
    case False
    with that known have "x \<in> sName ` set (Sigs n @ UnverifiedSigs n)" by (auto simp: ls)
    with that sig have "keyID v \<in> sigID ` set (Sigs n @ UnverifiedSigs n)" by blast
    with old that False have v0: "v \<in> set vs0" by blast
    have "x \<in> sName ` set (Sigs n)"
    proof (rule ccontr)
      assume "x \<notin> sName ` set (Sigs n)"
      with \<open>x \<in> sName ` set (Sigs n @ UnverifiedSigs n)\<close> have "x \<in> set (map sName (UnverifiedSigs n))" by auto
      with that(3) v0 show False unfolding s(2) by auto
    qed
    with that sig [of "Sigs n" v] have "keyID v \<in> sigID ` set (Sigs n)" by auto
    with s(4) v0 show ?thesis by blast
  qed (rule ver_sg)
  have mem: "\<exists>x \<in> set ls. line_of v x" if "keyID v \<in> sigID ` set (Sigs n) \<or> verifier_of sg v" for v
    using that ver_sg(1) [of v] sig [of "Sigs n" v] by (auto simp: ls)
  have "line_open m vs = Some \<lparr>Text = Text n, Sigs = map line_sig (filter (\<lambda>l. \<exists>v \<in> set vs. line_of v l) ls),
    UnverifiedSigs = map line_sig (filter (\<lambda>l. \<not> (\<exists>v \<in> set vs. line_of v l)) ls)\<rparr>"
    using line_open_eq [OF l(1), unfolded l(2), of vs] short dl l(3) good some mem by simp blast
  moreover have "keyID v \<in> sigID ` set (map line_sig (filter (\<lambda>l. \<exists>v \<in> set vs. line_of v l) ls))"
    if "v \<in> set vs" "keyID v \<in> sigID ` set (Sigs n) \<or> verifier_of sg v" for v
    using mem [OF that(2)] that(1) unfolding line_key by auto
  ultimately show "\<exists>n'. note_open E m vs = Some n' \<and> Text n' = Text n \<and>
      (\<forall>v \<in> set vs. keyID v \<in> sigID ` set (Sigs n) \<or> verifier_of sg v \<longrightarrow> keyID v \<in> sigID ` set (Sigs n'))"
    using E by simp
qed

text \<open>Merging the signature lines of two messages of one text.\<close>

lemma lines_open_iff:
  assumes "line_open a vs = Some na" and "splitNote a = Inr (t, sa)"
  shows "length (sig_lines sa) \<le> 100" "last sa = nl" "Text na = t"
    "l \<in> set (sig_lines sa) \<Longrightarrow> v \<in> set vs \<Longrightarrow> line_of v l \<Longrightarrow> vVerify v t []"
    "\<exists>l \<in> set (sig_lines sa). \<exists>w \<in> set vs. line_of w l"
  using assms
  by (auto simp: line_open_def Let_def set_fresh filter_empty_conv split: if_splits)

lemma lines_merge:
  assumes "splitNote a = Inr (t, sa)" and "splitNote b = Inr (t, sb)"
    and "line_open a vs = Some na" and "line_open b vs = Some nb"
    and "card (set (sig_lines sa) \<union> set (sig_lines sb)) \<le> 100"
  shows "\<exists>n. line_open (t @ [nl] @ merge_lines [] (lines_of (sa @ sb))) vs = Some n \<and> Text n = t \<and>
    sigID ` set (Sigs na) \<union> sigID ` set (Sigs nb) \<subseteq> sigID ` set (Sigs n)"
proof -
  let ?sm = "merge_lines [] (lines_of (sa @ sb))"
  note A = lines_open_iff [OF assms(3,1)] and B = lines_open_iff [OF assms(4,2)]
  have lines: "sig_lines ?sm = fresh [] (sig_lines sa @ sig_lines sb)"
    using A(2) by (simp add: sig_lines_merge sig_lines_append)
  then have set: "set (sig_lines ?sm) = set (sig_lines sa) \<union> set (sig_lines sb)" by (simp add: set_fresh)
  have dist: "distinct (sig_lines ?sm)" by (simp add: lines distinct_fresh)
  have short: "length (sig_lines ?sm) \<le> 100" using assms(5) distinct_card [OF dist] by (simp add: set)
  have "set (sig_lines sa) \<noteq> {}" using A(5) by (elim bexE) (rule ex_in_conv [THEN iffD1], rule exI)
  then have "sig_lines ?sm \<noteq> []" unfolding set_empty [symmetric] set by (simp only: Un_empty simp_thms)
  moreover have "sig_lines [] = []" by (simp add: sig_lines_split)
  ultimately have some: "?sm \<noteq> []" by metis
  have m: "?sm = unlines (fresh [] (sig_lines (sa @ sb)))" by (rule merge_unlines)
  have "last ?sm = nl" using some last_unlines [of "fresh [] (sig_lines (sa @ sb))"] unfolding m by blast
  from line_open_eq [OF splitNote_ok(2) [OF assms(1)] short dist this, of vs]
  have n: "line_open (t @ [nl] @ ?sm) vs = Some \<lparr>Text = t,
      Sigs = map line_sig (filter (\<lambda>l. \<exists>v \<in> set vs. line_of v l) (sig_lines ?sm)),
      UnverifiedSigs = map line_sig (filter (\<lambda>l. \<not> (\<exists>v \<in> set vs. line_of v l)) (sig_lines ?sm))\<rparr>"
    using A(4,5) B(4) unfolding set by blast
  have ids: "Sigs na = map line_sig (filter (\<lambda>l. \<exists>v \<in> set vs. line_of v l) (fresh [] (sig_lines sa)))"
    "Sigs nb = map line_sig (filter (\<lambda>l. \<exists>v \<in> set vs. line_of v l) (fresh [] (sig_lines sb)))"
    using assms(1-4) by (auto simp: line_open_def Let_def split: if_splits)
  show ?thesis unfolding n by (intro exI conjI) (auto simp: ids set set_fresh intro!: imageI)
qed

lemma line_sign_count:
  assumes "line_sign sg n = Some m" and "splitNote m = Inr (Text n, s)"
  shows "card (set (sig_lines s)) \<le> length (Sigs n) + 1"
proof -
  have "sig_lines s = line_names sg n" using line_sign_ok [OF assms(1)] assms(2) by simp
  moreover have "length (line_names sg n) \<le> length (Sigs n) + 1"
    unfolding line_names_def using length_filter_le [of _ "map sName (Sigs n)"] by simp
  ultimately show ?thesis using card_length [of "line_names sg n"] by simp
qed

end
