(* ===== verification/Tlog_Operator.thy ===== *)
theory Tlog_Operator
  imports Tlog_Notes
begin

section \<open>Transparency log: the operator (tlogiroh/operator.go)\<close>

text \<open>
  The single writer of a log: it appends entries, seals them into trees, signs checkpoints and
  keeps the timeline that clients read. The blob store and the document store of go-iroh are
  parameters, the record \<open>store_ops\<close>, with what they document as \<open>store_ok\<close>: a blob stays
  readable under its hash, and a document insert deletes exactly the older entries whose keys
  extend the new key.
\<close>

subsection \<open>Stores, parameters\<close>

record ('b, 'd) store_ops = sign_ops +
  blob_add :: "'b \<Rightarrow> bytes \<Rightarrow> ('b \<times> blob_hash) option"
  blob_get :: "'b \<Rightarrow> blob_hash \<Rightarrow> bytes option"
  doc_put :: "'d \<Rightarrow> timeline_entry \<Rightarrow> u64 \<Rightarrow> 'd"
  doc_exact :: "'d \<Rightarrow> bytes \<Rightarrow> bytes \<Rightarrow> bytes \<Rightarrow> timeline_entry option"
  doc_entries :: "'d \<Rightarrow> timeline_entry list"
  stored_hash_count :: "int \<Rightarrow> int"

text \<open>
  \<open>doc_put d e time\<close> inserts an entry with its timestamp. Which of two entries of one key wins
  depends on the timestamps, and one of them stays; an entry none of whose key's prefixes is taken is always
  inserted.
\<close>

definition store_ok :: "('b, 'd, 'x) store_ops_scheme \<Rightarrow> bool" where
  "store_ok E \<longleftrightarrow>
     (\<forall>b data b' h. blob_add E b data = Some (b', h) \<longrightarrow> blob_get E b' h = Some data \<and>
        (\<forall>h' x. blob_get E b h' = Some x \<longrightarrow> blob_get E b' h' = Some x)) \<and>
     (\<forall>d e time ns a k. doc_exact E (doc_put E d e time) ns a k \<noteq> doc_exact E d ns a k \<longrightarrow>
        (ns, a) = (te_namespace e, te_author e) \<and> prefix (te_key e) k) \<and>
     (\<forall>d e time. (\<forall>k. prefix k (te_key e) \<longrightarrow> doc_exact E d (te_namespace e) (te_author e) k = None) \<longrightarrow>
        doc_exact E (doc_put E d e time) (te_namespace e) (te_author e) (te_key e) = Some e) \<and>
     (\<forall>d e time ns a k x. doc_exact E (doc_put E d e time) ns a k = Some x \<longrightarrow>
        x = e \<and> (ns, a, k) = (te_namespace e, te_author e, te_key e) \<or> doc_exact E d ns a k = Some x) \<and>
     (\<forall>d e time. doc_exact E d (te_namespace e) (te_author e) (te_key e) \<noteq> None \<longrightarrow>
        doc_exact E (doc_put E d e time) (te_namespace e) (te_author e) (te_key e) \<noteq> None)"

text \<open>
  What package \<^verbatim>\<open>tlog\<close> documents of the functions an operator calls: the number of hashes to
  store for a record, and the widths of new tiles.
\<close>

definition tlog_write_ok :: "('b, 'd, 'x) store_ops_scheme \<Rightarrow> bool" where
  "tlog_write_ok E \<longleftrightarrow> stored_hash_count E 0 = 0 \<and>
     (\<forall>n data r hs. stored_hashes E n data r = Inr hs \<longrightarrow>
        int (length hs) = stored_hash_count E (n + 1) - stored_hash_count E n) \<and>
     (\<forall>old new t. t \<in> set (new_tiles E TileHeight old new) \<longrightarrow> 0 < Tile_W t \<and> Tile_W t \<le> 256)"

subsection \<open>State and operations\<close>

record ('b, 'd) operator =
  op_origin :: bytes
  op_signer :: signer
  op_blobs :: 'b
  op_doc :: 'd
  op_namespace :: bytes
  op_author :: bytes
  op_hashes :: "hash list"
  op_size :: int
  op_published :: int
  op_checkpoint :: "bytes option"

text \<open>The fresh stores and the generated identities are inputs; a nil signer is \<open>None\<close>.\<close>

definition NewOperator ::
  "bytes \<Rightarrow> signer option \<Rightarrow> 'b option \<Rightarrow> 'd \<Rightarrow> bytes \<Rightarrow> bytes \<Rightarrow> tlog_error + ('b, 'd) operator" where
  "NewOperator origin signer blobs doc namespace author =
     (if origin = [] \<or> nl \<in> set origin then Inl ErrInvalidOrigin
      else case signer of
        None \<Rightarrow> Inl ErrNilSigner
      | Some sg \<Rightarrow>
        (case blobs of
           None \<Rightarrow> Inl ErrBlobStore
         | Some b \<Rightarrow> Inr \<lparr>op_origin = origin, op_signer = sg, op_blobs = b, op_doc = doc,
             op_namespace = namespace, op_author = author, op_hashes = [], op_size = 0,
             op_published = 0, op_checkpoint = None\<rparr>))"

fun op_hashReader :: "hash list \<Rightarrow> hash_reader" where
  "op_hashReader hs [] = Inr []"
| "op_hashReader hs (i # is) =
     (if i < 0 \<or> i \<ge> int (length hs) then Inl ErrStoredHash
      else case op_hashReader hs is of Inl e \<Rightarrow> Inl e | Inr xs \<Rightarrow> Inr (hs ! nat i # xs))"

definition putTimeline ::
  "('b, 'd, 'x) store_ops_scheme \<Rightarrow> u64 \<Rightarrow> bytes \<Rightarrow> blob_hash \<Rightarrow> nat \<Rightarrow> ('b, 'd) operator \<Rightarrow> ('b, 'd) operator" where
  "putTimeline E time key blobHash len o' =
     o'\<lparr>op_doc := doc_put E (op_doc o')
        \<lparr>te_namespace = op_namespace o', te_author = op_author o', te_key = key,
         te_hash = blobHash, te_len = of_nat len\<rparr> time\<rparr>"

definition Operator_append ::
  "('b, 'd, 'x) store_ops_scheme \<Rightarrow> u64 \<Rightarrow> bytes \<Rightarrow> ('b, 'd) operator \<Rightarrow> ('b, 'd) operator \<times> (tlog_error + int)" where
  "Operator_append E time entry o' =
     (let index = op_size o' in
      case stored_hashes E index entry (op_hashReader (op_hashes o')) of
        Inl e \<Rightarrow> (o', Inl e)
      | Inr hashes \<Rightarrow>
        (case blob_add E (op_blobs o') entry of
           None \<Rightarrow> (o', Inl ErrBlobStore)
         | Some (blobs, blobHash) \<Rightarrow>
           (let o' = o'\<lparr>op_blobs := blobs, op_hashes := op_hashes o' @ hashes\<rparr>;
                o' = putTimeline E time (entryKey index) blobHash (length entry) o' in
            (o'\<lparr>op_size := op_size o' + 1\<rparr>, Inr index))))"

definition Operator_Append where
  "Operator_Append E ctx_done time entry o' =
     (if ctx_done then (o', Inl ErrContext) else Operator_append E time entry o')"

text \<open>The loop of \<^verbatim>\<open>publish\<close> over the new tiles; a failure keeps the tiles written so far.\<close>

fun publish_tiles ::
  "('b, 'd, 'x) store_ops_scheme \<Rightarrow> (nat \<Rightarrow> u64) \<Rightarrow> nat \<Rightarrow> tile list \<Rightarrow> ('b, 'd) operator \<Rightarrow>
   ('b, 'd) operator \<times> (tlog_error + unit)" where
  "publish_tiles E clock i [] o' = (o', Inr ())"
| "publish_tiles E clock i (t # ts) o' =
     (case read_tile_data E t (op_hashReader (op_hashes o')) of
        Inl e \<Rightarrow> (o', Inl e)
      | Inr data \<Rightarrow>
        (case blob_add E (op_blobs o') data of
           None \<Rightarrow> (o', Inl ErrBlobStore)
         | Some (blobs, blobHash) \<Rightarrow>
           publish_tiles E clock (Suc i) ts
             (putTimeline E (clock i) (tileKey E t) blobHash (length data) (o'\<lparr>op_blobs := blobs\<rparr>))))"

definition Operator_publish ::
  "('b, 'd, 'x) store_ops_scheme \<Rightarrow> (nat \<Rightarrow> u64) \<Rightarrow> ('b, 'd) operator \<Rightarrow>
   ('b, 'd) operator \<times> (tlog_error + bytes)" where
  "Operator_publish E clock o0 =
     (let n = op_size o0; tiles = new_tiles E TileHeight (op_published o0) n;
          (o', r) = publish_tiles E clock 0 tiles o0 in
      case r of
        Inl e \<Rightarrow> (o', Inl e)
      | Inr _ \<Rightarrow>
        (case tree_hash E n (op_hashReader (op_hashes o')) of
           Inl e \<Rightarrow> (o', Inl e)
         | Inr root \<Rightarrow>
           (case MarshalText E \<lparr>Origin = op_origin o', Tree = \<lparr>Tree_N = n, Tree_Hash = root\<rparr>\<rparr> of
              Inl e \<Rightarrow> (o', Inl e)
            | Inr txt \<Rightarrow>
              (case note_sign E (op_signer o') \<lparr>Text = txt, Sigs = [], UnverifiedSigs = []\<rparr> of
                 None \<Rightarrow> (o', Inl ErrSign)
               | Some msg \<Rightarrow>
                 (case blob_add E (op_blobs o') msg of
                    None \<Rightarrow> (o', Inl ErrBlobStore)
                  | Some (blobs, blobHash) \<Rightarrow>
                    (let o' = putTimeline E (clock (length tiles)) (checkpointKey n) blobHash
                         (length msg) (o'\<lparr>op_blobs := blobs\<rparr>) in
                     (o'\<lparr>op_published := n, op_checkpoint := Some msg\<rparr>, Inr msg)))))))"

definition Operator_Publish where
  "Operator_Publish E ctx_done clock o' =
     (if ctx_done then (o', Inl ErrContext) else Operator_publish E clock o')"

definition SignedCheckpoint :: "('b, 'd) operator \<Rightarrow> bytes option" where
  "SignedCheckpoint o' = op_checkpoint o'"

text \<open>What is sent on the topic.\<close>

definition Announce :: "('b, 'd) operator \<Rightarrow> tlog_error + bytes" where
  "Announce o' =
     (case SignedCheckpoint o' of
        None \<Rightarrow> Inl ErrNoCheckpoint
      | Some msg \<Rightarrow> Inr (envelope envCheckpoint msg))"

definition StoreBlobGetter :: "('b, 'd, 'x) store_ops_scheme \<Rightarrow> 'b \<Rightarrow> blob_hash \<Rightarrow> tlog_error + bytes" where
  "StoreBlobGetter E store h =
     (case blob_get E store h of None \<Rightarrow> Inl ErrGetBlob | Some data \<Rightarrow> Inr data)"

definition Operator_Source :: "('b, 'd, 'x) store_ops_scheme \<Rightarrow> ('b, 'd) operator \<Rightarrow> source" where
  "Operator_Source E o' =
     \<lparr>Doc_GetExact = doc_exact E (op_doc o'), Doc_Entries = doc_entries E (op_doc o'),
      Namespace = op_namespace o', Author = op_author o', Get = StoreBlobGetter E (op_blobs o')\<rparr>"

datatype operator_op = OpAppend bool u64 bytes | OpPublish bool "nat \<Rightarrow> u64"

fun operator_step ::
  "('b, 'd, 'x) store_ops_scheme \<Rightarrow> operator_op \<Rightarrow> ('b, 'd) operator \<Rightarrow> ('b, 'd) operator" where
  "operator_step E (OpAppend d time entry) o' = fst (Operator_Append E d time entry o')"
| "operator_step E (OpPublish d clock) o' = fst (Operator_Publish E d clock o')"

subsection \<open>Lemmas: what a write leaves alone\<close>

abbreviation op_reads :: "('b, 'd, 'x) store_ops_scheme \<Rightarrow> ('b, 'd) operator \<Rightarrow> bytes \<Rightarrow> bytes \<Rightarrow> bool" where
  "op_reads E o' key data \<equiv> Source_blob (Operator_Source E o') key = Inr data"

lemma op_reads_iff:
  "op_reads E o' key data \<longleftrightarrow>
     (\<exists>e. doc_exact E (op_doc o') (op_namespace o') (op_author o') key = Some e \<and>
        blob_get E (op_blobs o') (te_hash e) = Some data \<and> te_len e = of_nat (length data))"
  by (auto simp: Source_blob_ok Operator_Source_def StoreBlobGetter_def split: option.splits)

text \<open>The keys of a timeline whose entries, checkpoints and tiles lie within a size.\<close>

definition key_within :: "int \<Rightarrow> timeline_key \<Rightarrow> bool" where
  "key_within n k = (case k of EntryKey i \<Rightarrow> 0 \<le> i \<and> i < n | CheckpointKey m \<Rightarrow> 0 \<le> m \<and> m \<le> n
     | TileKey t \<Rightarrow> 0 \<le> Tile_W t \<and> Tile_W t \<le> 256)"

definition keys_inv :: "('b, 'd, 'x) store_ops_scheme \<Rightarrow> int \<Rightarrow> ('b, 'd) operator \<Rightarrow> bool" where
  "keys_inv E n o' \<longleftrightarrow>
     (\<forall>k e. doc_exact E (op_doc o') (op_namespace o') (op_author o') k = Some e \<longrightarrow>
        (\<exists>x. k = key_bytes E x \<and> key_within n x))"

lemma key_within_ok: "key_within n x \<Longrightarrow> n < 2 ^ 63 \<Longrightarrow> key_ok x"
  by (cases x) (simp_all add: key_within_def key_ok_def)

lemma key_within_mono: "key_within n x \<Longrightarrow> n \<le> m \<Longrightarrow> key_within m x"
  by (cases x) (simp_all add: key_within_def)

lemma keys_inv_mono: "keys_inv E n o' \<Longrightarrow> n \<le> m \<Longrightarrow> keys_inv E m o'"
  unfolding keys_inv_def by (meson key_within_mono)

definition op_frame :: "('b, 'd) operator \<Rightarrow> ('b, 'd) operator \<Rightarrow> bool" where
  "op_frame a b \<longleftrightarrow> op_origin b = op_origin a \<and> op_signer b = op_signer a \<and>
     op_namespace b = op_namespace a \<and> op_author b = op_author a \<and> op_hashes b = op_hashes a \<and>
     op_size b = op_size a \<and> op_published b = op_published a \<and> op_checkpoint b = op_checkpoint a"

lemma putTimeline_frame: "op_frame o' (putTimeline E t k h n o')"
  by (simp add: op_frame_def putTimeline_def)

lemma putTimeline_keys:
  assumes "store_ok E" and "keys_inv E n o'" and "key_within n x"
  shows "keys_inv E n (putTimeline E t (key_bytes E x) h len o')"
proof -
  have put: "\<forall>d e time ns a k y. doc_exact E (doc_put E d e time) ns a k = Some y \<longrightarrow>
      y = e \<and> (ns, a, k) = (te_namespace e, te_author e, te_key e) \<or> doc_exact E d ns a k = Some y"
    using assms(1) unfolding store_ok_def by blast
  show ?thesis unfolding keys_inv_def putTimeline_def
  proof (intro allI impI)
    fix k e
    let ?o = "o'\<lparr>op_doc := doc_put E (op_doc o') \<lparr>te_namespace = op_namespace o',
      te_author = op_author o', te_key = key_bytes E x, te_hash = h, te_len = of_nat len\<rparr> t\<rparr>"
    assume "doc_exact E (op_doc ?o) (op_namespace ?o) (op_author ?o) k = Some e"
    then have "k = key_bytes E x \<or> doc_exact E (op_doc o') (op_namespace o') (op_author o') k = Some e"
      using put by fastforce
    with assms(2,3) show "\<exists>x. k = key_bytes E x \<and> key_within n x" by (auto simp: keys_inv_def)
  qed
qed

lemma putTimeline_reads:
  assumes "store_ok E" and "op_reads E o' key data" and "\<not> prefix k key"
  shows "op_reads E (putTimeline E t k h len o') key data"
proof -
  have "\<forall>d e time ns a k. doc_exact E (doc_put E d e time) ns a k \<noteq> doc_exact E d ns a k \<longrightarrow>
      (ns, a) = (te_namespace e, te_author e) \<and> prefix (te_key e) k"
    using assms(1) unfolding store_ok_def by blast
  then have "doc_exact E (doc_put E (op_doc o') \<lparr>te_namespace = op_namespace o',
      te_author = op_author o', te_key = k, te_hash = h, te_len = of_nat len\<rparr> t)
      (op_namespace o') (op_author o') key = doc_exact E (op_doc o') (op_namespace o') (op_author o') key"
    using assms(3) by (metis timeline_entry.select_convs(3))
  with assms(2) show ?thesis by (simp add: op_reads_iff putTimeline_def)
qed

lemma putTimeline_fresh:
  assumes "store_ok E"
    and "\<forall>k'. prefix k' k \<longrightarrow> doc_exact E (op_doc o') (op_namespace o') (op_author o') k' = None"
    and "blob_get E (op_blobs o') h = Some data"
  shows "op_reads E (putTimeline E t k h (length data) o') k data"
proof -
  have "\<forall>d e time. (\<forall>k. prefix k (te_key e) \<longrightarrow> doc_exact E d (te_namespace e) (te_author e) k = None) \<longrightarrow>
      doc_exact E (doc_put E d e time) (te_namespace e) (te_author e) (te_key e) = Some e"
    using assms(1) unfolding store_ok_def by blast
  from this [rule_format, of "\<lparr>te_namespace = op_namespace o', te_author = op_author o',
      te_key = k, te_hash = h, te_len = of_nat (length data)\<rparr>" "op_doc o'" t] assms(2,3)
  show ?thesis by (simp add: op_reads_iff putTimeline_def)
qed

lemma blob_add_get: "store_ok E \<Longrightarrow> blob_add E b data = Some (b', h) \<Longrightarrow> blob_get E b' h = Some data"
  unfolding store_ok_def by simp

lemma blob_add_keeps:
  "store_ok E \<Longrightarrow> blob_add E b data = Some (b', h) \<Longrightarrow> blob_get E b h' = Some x \<Longrightarrow>
   blob_get E b' h' = Some x"
proof -
  assume "store_ok E" and add: "blob_add E b data = Some (b', h)" "blob_get E b h' = Some x"
  then have "\<forall>b data b' h. blob_add E b data = Some (b', h) \<longrightarrow>
      (\<forall>h' x. blob_get E b h' = Some x \<longrightarrow> blob_get E b' h' = Some x)"
    by (simp add: store_ok_def)
  with add show ?thesis by blast
qed

lemma blob_add_reads:
  "store_ok E \<Longrightarrow> blob_add E (op_blobs o') d = Some (b', h) \<Longrightarrow> op_reads E o' key data \<Longrightarrow>
   op_reads E (o'\<lparr>op_blobs := b'\<rparr>) key data"
  by (auto simp: op_reads_iff intro: blob_add_keeps)

lemma reads_cong:
  "op_doc a = op_doc b \<Longrightarrow> op_blobs a = op_blobs b \<Longrightarrow> op_namespace a = op_namespace b \<Longrightarrow>
   op_author a = op_author b \<Longrightarrow> op_reads E a k d = op_reads E b k d"
  by (simp add: op_reads_iff)

lemma keys_cong:
  "op_doc a = op_doc b \<Longrightarrow> op_namespace a = op_namespace b \<Longrightarrow> op_author a = op_author b \<Longrightarrow>
   keys_inv E n a = keys_inv E n b"
  by (simp add: keys_inv_def)

lemma other_key:
  "tile_path_ok E \<Longrightarrow> key_ok x \<Longrightarrow> key_ok y \<Longrightarrow> x \<noteq> y \<Longrightarrow> \<not> prefix (key_bytes E x) (key_bytes E y)"
  using prefix_code.enc_prefix_free [OF key_prefix_code] by blast

lemma key_bytes_simps:
  "entryKey i = key_bytes E (EntryKey i)" "checkpointKey n = key_bytes E (CheckpointKey n)"
  "tileKey E t = key_bytes E (TileKey t)"
  by (simp_all add: key_bytes_def)

text \<open>What one write of the timeline keeps: the frame, the keys, and every entry already there.\<close>

definition op_keeps :: "('b, 'd, 'x) store_ops_scheme \<Rightarrow> ('b, 'd) operator \<Rightarrow> ('b, 'd) operator \<Rightarrow> bool" where
  "op_keeps E a b \<longleftrightarrow>
     op_namespace b = op_namespace a \<and> op_author b = op_author a \<and>
     (\<forall>i data. 0 \<le> i \<and> i < op_size a \<and> op_size a < 2 ^ 63 \<and> op_reads E a (entryKey i) data \<longrightarrow>
        op_reads E b (entryKey i) data)"

lemma write_keeps:
  assumes E: "store_ok E" "tile_path_ok E" and "blob_add E (op_blobs a) d = Some (b', h)"
    and x: "key_within (op_size a + 1) x" "\<And>i. x = EntryKey i \<Longrightarrow> i = op_size a" "op_size a + 1 < 2 ^ 63"
  shows "op_keeps E a (putTimeline E t (key_bytes E x) h len (a\<lparr>op_blobs := b'\<rparr>))"
proof -
  have "op_reads E (putTimeline E t (key_bytes E x) h len (a\<lparr>op_blobs := b'\<rparr>)) (entryKey i) data"
    if i: "0 \<le> i" "i < op_size a" "op_reads E a (entryKey i) data" for i data
  proof (rule putTimeline_reads [OF E(1)])
    show "op_reads E (a\<lparr>op_blobs := b'\<rparr>) (entryKey i) data"
      by (rule blob_add_reads [OF E(1) assms(3) i(3)])
    have "key_ok x" by (rule key_within_ok [OF x(1,3)])
    moreover have "key_ok (EntryKey i)" using i x(3) by (simp add: key_ok_def)
    moreover have "x \<noteq> EntryKey i" using x(2) i(2) by auto
    ultimately show "\<not> prefix (key_bytes E x) (entryKey i)"
      unfolding key_bytes_simps(1) [where E = E] by (rule other_key [OF E(2)])
  qed
  then show ?thesis by (auto simp: op_keeps_def putTimeline_def)
qed

lemma op_keeps_refl: "op_keeps E a a"
  by (simp add: op_keeps_def)

lemma op_keeps_trans:
  "op_keeps E a b \<Longrightarrow> op_keeps E b c \<Longrightarrow> op_size a \<le> op_size b \<Longrightarrow> op_size b < 2 ^ 63 \<Longrightarrow> op_keeps E a c"
  unfolding op_keeps_def by (auto intro: order.strict_trans2)

lemma write_keys:
  assumes "store_ok E" and "keys_inv E n a" and "key_within n x"
  shows "keys_inv E n (putTimeline E t (key_bytes E x) h len (a\<lparr>op_blobs := b'\<rparr>))"
  using keys_cong [of "a\<lparr>op_blobs := b'\<rparr>" a E n] assms(2)
  by (intro putTimeline_keys [OF assms(1) _ assms(3)]) simp

text \<open>A write with the blob added first, as one step.\<close>

definition op_write ::
  "('b, 'd, 'x) store_ops_scheme \<Rightarrow> u64 \<Rightarrow> timeline_key \<Rightarrow> bytes \<Rightarrow> blob_hash \<Rightarrow> 'b \<Rightarrow> ('b, 'd) operator \<Rightarrow> ('b, 'd) operator" where
  "op_write E t x data h b' a = putTimeline E t (key_bytes E x) h (length data) (a\<lparr>op_blobs := b'\<rparr>)"

lemma write_frame: "op_frame a (op_write E t x data h b' a)"
  by (simp add: op_frame_def op_write_def putTimeline_def)

lemma op_frame_trans: "op_frame a b \<Longrightarrow> op_frame b c \<Longrightarrow> op_frame a c"
  by (simp add: op_frame_def)

lemma publish_tiles_keeps:
  assumes E: "store_ok E" "tile_path_ok E" and "\<forall>t \<in> set ts. 0 < Tile_W t \<and> Tile_W t \<le> 256"
    and "keys_inv E (op_size a) a" and "op_size a + 1 < 2 ^ 63" and "0 \<le> op_size a"
    and "publish_tiles E clock i ts a = (b, r)"
  shows "op_frame a b \<and> op_keeps E a b \<and> keys_inv E (op_size a) b"
  using assms(3-)
proof (induction ts arbitrary: i a)
  case Nil
  then show ?case by (simp add: op_frame_def op_keeps_refl)
next
  case (Cons t ts)
  show ?case
  proof (cases "read_tile_data E t (op_hashReader (op_hashes a))")
    case (Inl e)
    with Cons.prems show ?thesis by (simp add: op_frame_def op_keeps_refl)
  next
    case data: (Inr data)
    show ?thesis
    proof (cases "blob_add E (op_blobs a) data")
      case None
      with data Cons.prems show ?thesis by (simp add: op_frame_def op_keeps_refl)
    next
      case (Some p)
      then obtain b' h where add: "blob_add E (op_blobs a) data = Some (b', h)" by (cases p) auto
      let ?c = "op_write E (clock i) (TileKey t) data h b' a"
      have w: "key_within n (TileKey t)" for n using Cons.prems(1) by (simp add: key_within_def)
      have keeps: "op_keeps E a ?c"
        unfolding op_write_def by (rule write_keeps [OF E add w]) (use Cons.prems in simp_all)
      have keys: "keys_inv E (op_size a) ?c"
        unfolding op_write_def by (rule write_keys [OF E(1) Cons.prems(2) w])
      have frame: "op_frame a ?c" by (rule write_frame)
      then have same: "op_size ?c = op_size a" by (simp add: op_frame_def)
      have rest: "publish_tiles E clock (Suc i) ts ?c = (b, r)"
        using Cons.prems(5) data add by (simp add: op_write_def key_bytes_def)
      have IH: "op_frame ?c b \<and> op_keeps E ?c b \<and> keys_inv E (op_size ?c) b"
        by (rule Cons.IH [OF _ _ _ _ rest]) (use Cons.prems keys same in simp_all)
      with frame keeps same Cons.prems(3) show ?thesis
        by (auto intro: op_frame_trans op_keeps_trans)
    qed
  qed
qed

lemma publish_keeps:
  assumes E: "store_ok E" "tile_path_ok E" "tlog_write_ok E"
    and inv: "keys_inv E (op_size a) a" "0 \<le> op_size a" "op_size a + 1 < 2 ^ 63"
    and "Operator_publish E clock a = (b, r)"
  shows "op_keeps E a b \<and> keys_inv E (op_size a) b \<and> op_size b = op_size a \<and>
    op_hashes b = op_hashes a \<and> op_origin b = op_origin a \<and> op_signer b = op_signer a \<and>
    (op_published b = op_published a \<or> op_published b = op_size a)"
proof -
  let ?ts = "new_tiles E TileHeight (op_published a) (op_size a)"
  obtain c q where c: "publish_tiles E clock 0 ?ts a = (c, q)" by (cases "publish_tiles E clock 0 ?ts a")
  have "\<forall>t \<in> set ?ts. 0 < Tile_W t \<and> Tile_W t \<le> 256" using E(3) by (simp add: tlog_write_ok_def)
  from publish_tiles_keeps [OF E(1,2) this inv(1,3,2) c]
  have c_ok: "op_frame a c" "op_keeps E a c" "keys_inv E (op_size a) c" by simp_all
  show ?thesis
  proof (cases "b = c")
    case True
    with c_ok show ?thesis by (simp add: op_frame_def)
  next
    case False
    with assms(7) c obtain msg b' h where add: "blob_add E (op_blobs c) msg = Some (b', h)"
      and b: "b = (op_write E (clock (length ?ts)) (CheckpointKey (op_size a)) msg h b' c)
        \<lparr>op_published := op_size a, op_checkpoint := Some msg\<rparr>"
      by (auto simp: Operator_publish_def Let_def op_write_def key_bytes_def
          split: sum.splits option.splits)
    define d where "d = op_write E (clock (length ?ts)) (CheckpointKey (op_size a)) msg h b' c"
    have b: "b = d\<lparr>op_published := op_size a, op_checkpoint := Some msg\<rparr>"
      by (simp only: b d_def)
    have same: "op_size c = op_size a" using c_ok(1) by (simp only: op_frame_def)
    have w: "key_within (op_size c + 1) (CheckpointKey (op_size a))"
      "key_within (op_size a) (CheckpointKey (op_size a))"
      using inv c_ok(1) by (simp_all add: key_within_def op_frame_def)
    have "op_keeps E c d"
      unfolding op_write_def d_def by (rule write_keeps [OF E(1,2) add w(1)])
        (use inv c_ok(1) in \<open>simp_all add: op_frame_def\<close>)
    then have keeps: "op_keeps E a d"
      by (rule op_keeps_trans [OF c_ok(2)]) (use inv(3) in \<open>simp_all add: same\<close>)
    have keys: "keys_inv E (op_size a) d"
      unfolding op_write_def d_def by (rule write_keys [OF E(1) c_ok(3) w(2)])
    have frame: "op_frame a d" unfolding d_def by (rule op_frame_trans [OF c_ok(1) write_frame])
    have reads: "op_reads E b k x = op_reads E d k x" for k x by (rule reads_cong) (simp_all add: b)
    have ids: "op_namespace b = op_namespace d" "op_author b = op_author d" by (simp_all add: b)
    have "op_keeps E a b" using keeps unfolding op_keeps_def reads ids .
    moreover have "keys_inv E (op_size a) b"
      using keys keys_cong [of b d E "op_size a"] ids by (simp add: b)
    ultimately show ?thesis using frame by (simp add: b op_frame_def)
  qed
qed

subsection \<open>The operator's invariant\<close>

definition op_inv :: "('b, 'd, 'x) store_ops_scheme \<Rightarrow> ('b, 'd) operator \<Rightarrow> bool" where
  "op_inv E a \<longleftrightarrow> 0 \<le> op_published a \<and> op_published a \<le> op_size a \<and>
     int (length (op_hashes a)) = stored_hash_count E (op_size a) \<and> keys_inv E (op_size a) a"

definition op_laws :: "('b, 'd, 'x) store_ops_scheme \<Rightarrow> bool" where
  "op_laws E \<longleftrightarrow> store_ok E \<and> tile_path_ok E \<and> tlog_write_ok E"

lemma append_failed: "Operator_append E t entry a = (b, Inl e) \<Longrightarrow> b = a"
  by (auto simp: Operator_append_def Let_def split: sum.splits option.splits)

lemma append_ok:
  assumes "Operator_append E t entry a = (b, Inr i)"
  obtains hs b' h c where "stored_hashes E (op_size a) entry (op_hashReader (op_hashes a)) = Inr hs"
    "blob_add E (op_blobs a) entry = Some (b', h)" "i = op_size a"
    "c = op_write E t (EntryKey (op_size a)) entry h b' a"
    "b = c\<lparr>op_hashes := op_hashes a @ hs, op_size := op_size a + 1\<rparr>"
proof -
  from assms obtain hs b' h where
    w: "stored_hashes E (op_size a) entry (op_hashReader (op_hashes a)) = Inr hs"
    "blob_add E (op_blobs a) entry = Some (b', h)" "i = op_size a"
    and b: "b = (let o' = putTimeline E t (entryKey (op_size a)) h (length entry)
        (a\<lparr>op_blobs := b', op_hashes := op_hashes a @ hs\<rparr>) in o'\<lparr>op_size := op_size o' + 1\<rparr>)"
    by (auto simp: Operator_append_def Let_def split: sum.splits option.splits)
  have "b = (op_write E t (EntryKey (op_size a)) entry h b' a)
      \<lparr>op_hashes := op_hashes a @ hs, op_size := op_size a + 1\<rparr>"
    by (simp add: b op_write_def putTimeline_def Let_def key_bytes_def)
  with w show ?thesis by (intro that) simp_all
qed

lemma append_inv:
  assumes "op_laws E" and "op_inv E a" and "op_size a + 1 < 2 ^ 63"
    and "Operator_append E t entry a = (b, Inr i)"
  shows "op_inv E b \<and> op_keeps E a b \<and> i = op_size a \<and> op_size b = op_size a + 1 \<and>
    op_reads E b (entryKey i) entry"
proof -
  have E: "store_ok E" "tile_path_ok E" "tlog_write_ok E" using assms(1) by (simp_all add: op_laws_def)
  have a: "0 \<le> op_size a" "keys_inv E (op_size a) a" "0 \<le> op_published a" "op_published a \<le> op_size a"
    "int (length (op_hashes a)) = stored_hash_count E (op_size a)"
    using assms(2) by (auto simp: op_inv_def)
  obtain hs b' h c where w: "stored_hashes E (op_size a) entry (op_hashReader (op_hashes a)) = Inr hs"
    "blob_add E (op_blobs a) entry = Some (b', h)" "i = op_size a"
    and c: "c = op_write E t (EntryKey (op_size a)) entry h b' a"
    and b: "b = c\<lparr>op_hashes := op_hashes a @ hs, op_size := op_size a + 1\<rparr>"
    by (rule append_ok [OF assms(4)])
  have k: "key_within (op_size a + 1) (EntryKey (op_size a))" using a(1) by (simp add: key_within_def)
  have frame: "op_frame a c" unfolding c by (rule write_frame)
  have reads: "op_reads E b x d = op_reads E c x d" for x d by (rule reads_cong) (simp_all add: b)
  have ids: "op_namespace b = op_namespace c" "op_author b = op_author c" by (simp_all add: b)
  have "op_keeps E a c"
    unfolding op_write_def c by (rule write_keeps [OF E(1,2) w(2) k]) (use assms(3) in simp_all)
  then have keeps: "op_keeps E a b" unfolding op_keeps_def reads ids .
  have "keys_inv E (op_size a + 1) c"
    unfolding op_write_def c by (rule write_keys [OF E(1) keys_inv_mono [OF a(2)] k]) simp
  then have keys: "keys_inv E (op_size a + 1) b" using keys_cong [of b c E] ids by (simp add: b)
  have fresh: "doc_exact E (op_doc a) (op_namespace a) (op_author a) k' = None"
    if "prefix k' (entryKey (op_size a))" for k'
  proof (rule ccontr)
    assume "doc_exact E (op_doc a) (op_namespace a) (op_author a) k' \<noteq> None"
    with a(2) obtain x where x: "k' = key_bytes E x" "key_within (op_size a) x"
      by (auto simp: keys_inv_def)
    have "key_ok x" by (rule key_within_ok [OF x(2)]) (use assms(3) in simp)
    moreover have "key_ok (EntryKey (op_size a))" by (rule key_within_ok [OF k assms(3)])
    ultimately have "x = EntryKey (op_size a)"
      using other_key [OF E(2)] that unfolding x(1) key_bytes_simps(1) [where E = E] by blast
    with x(2) show False by (simp add: key_within_def)
  qed
  have "op_reads E c (entryKey i) entry"
    unfolding c op_write_def w(3) key_bytes_simps(1) [where E = E, symmetric]
    by (rule putTimeline_fresh [OF E(1)]) (use fresh blob_add_get [OF E(1) w(2)] in simp_all)
  then have "op_reads E b (entryKey i) entry" by (simp only: reads)
  moreover have "int (length hs) = stored_hash_count E (op_size a + 1) - stored_hash_count E (op_size a)"
    using E(3) w(1) unfolding tlog_write_ok_def by blast
  ultimately show ?thesis
    using a frame keeps keys w(3) by (simp add: op_inv_def b op_frame_def)
qed

lemma publish_inv:
  assumes "op_laws E" and "op_inv E a" and "op_size a + 1 < 2 ^ 63"
    and "Operator_publish E clock a = (b, r)"
  shows "op_inv E b \<and> op_keeps E a b \<and> op_size b = op_size a"
proof -
  have E: "store_ok E" "tile_path_ok E" "tlog_write_ok E" using assms(1) by (simp_all add: op_laws_def)
  have a: "0 \<le> op_size a" "keys_inv E (op_size a) a" "0 \<le> op_published a" "op_published a \<le> op_size a"
    "int (length (op_hashes a)) = stored_hash_count E (op_size a)"
    using assms(2) by (auto simp: op_inv_def)
  from publish_keeps [OF E a(2,1) assms(3,4)] a show ?thesis by (auto simp: op_inv_def)
qed

lemma publish_tiles_size: "publish_tiles E clock i ts a = (c, q) \<Longrightarrow> op_size c = op_size a"
  by (induction E clock i ts a rule: publish_tiles.induct)
    (auto simp: putTimeline_def split: sum.splits option.splits)

lemma publish_tiles_ids:
  "publish_tiles E clock i ts a = (c, q) \<Longrightarrow> op_origin c = op_origin a \<and> op_signer c = op_signer a"
  by (induction E clock i ts a rule: publish_tiles.induct)
    (auto simp: putTimeline_def split: sum.splits option.splits)

lemma step_size: "op_size a \<le> op_size (operator_step E p a)"
proof (cases p)
  case (OpAppend d t entry)
  obtain b r where b: "Operator_append E t entry a = (b, r)" by (cases "Operator_append E t entry a")
  have "op_size a \<le> op_size b"
  proof (cases r)
    case (Inl e)
    with b append_failed show ?thesis by blast
  next
    case (Inr i)
    with b have "Operator_append E t entry a = (b, Inr i)" by simp
    then show ?thesis by (rule append_ok) simp
  qed
  with OpAppend b show ?thesis by (simp add: Operator_Append_def)
next
  case (OpPublish d clock)
  have tiles: "op_size (fst (publish_tiles E clock i ts a)) = op_size a" for i ts
    by (induction E clock i ts a rule: publish_tiles.induct)
      (auto simp: putTimeline_def split: sum.splits option.splits)
  have "op_size (fst (Operator_publish E clock a)) = op_size a"
    using tiles [of 0 "new_tiles E TileHeight (op_published a) (op_size a)"]
    by (auto simp: Operator_publish_def Let_def putTimeline_def split_def split: sum.splits option.splits)
  with OpPublish show ?thesis by (simp add: Operator_Publish_def)
qed

lemma run_size: "op_size a \<le> op_size (fold (operator_step E) ops a)"
  by (induction ops arbitrary: a) (auto intro: order.trans [OF step_size])

lemma step_op_inv:
  assumes "op_laws E" and "op_inv E a" and "op_size (operator_step E p a) + 1 < 2 ^ 63"
  shows "op_inv E (operator_step E p a) \<and> op_keeps E a (operator_step E p a)"
proof -
  have small: "op_size a + 1 < 2 ^ 63" using assms(3) step_size [of a E p] by simp
  show ?thesis
  proof (cases p)
    case (OpAppend d t entry)
    obtain b r where b: "Operator_append E t entry a = (b, r)" by (cases "Operator_append E t entry a")
    show ?thesis
    proof (cases r)
      case (Inl e)
      with b append_failed have "b = a" by blast
      with OpAppend b assms(2) show ?thesis by (simp add: Operator_Append_def op_keeps_refl)
    next
      case (Inr i)
      with b have "Operator_append E t entry a = (b, Inr i)" by simp
      from append_inv [OF assms(1,2) small this] OpAppend b assms(2) show ?thesis
        by (simp add: Operator_Append_def op_keeps_refl)
    qed
  next
    case (OpPublish d clock)
    obtain b r where b: "Operator_publish E clock a = (b, r)" by (cases "Operator_publish E clock a")
    from publish_inv [OF assms(1,2) small this] OpPublish b assms(2) show ?thesis
      by (simp add: Operator_Publish_def op_keeps_refl)
  qed
qed

lemma run_op_inv:
  assumes "op_laws E"
  shows "op_inv E a \<Longrightarrow> op_size (fold (operator_step E) ops a) + 1 < 2 ^ 63 \<Longrightarrow>
    op_inv E (fold (operator_step E) ops a) \<and> op_keeps E a (fold (operator_step E) ops a)"
proof (induction ops arbitrary: a)
  case (Cons p ops)
  let ?b = "operator_step E p a"
  have small: "op_size ?b + 1 < 2 ^ 63" using Cons.prems(2) run_size [of ?b E ops] by simp
  note b = step_op_inv [OF assms Cons.prems(1) small]
  from Cons.IH [of ?b] b Cons.prems(2)
  have "op_inv E (fold (operator_step E) ops ?b)" "op_keeps E ?b (fold (operator_step E) ops ?b)"
    by simp_all
  moreover have "op_keeps E a (fold (operator_step E) ops ?b)"
    by (rule op_keeps_trans [of E a ?b]) (use b calculation step_size [of a E p] small in simp_all)
  ultimately show ?case by simp
qed (simp add: op_keeps_refl)

text \<open>A fresh operator: an empty log on an empty document.\<close>

lemma NewOperator_inv:
  assumes "op_laws E" and "NewOperator origin sg blobs doc ns au = Inr a"
    and "\<forall>k. doc_exact E doc ns au k = None"
  shows "op_inv E a"
  using assms
  by (auto simp: NewOperator_def op_inv_def keys_inv_def op_laws_def tlog_write_ok_def
      split: if_splits option.splits)

subsection \<open>Properties\<close>

text \<open>Every appended entry stays readable: once \<^verbatim>\<open>Append\<close> has returned an index, the operator's
  source gives back exactly the appended bytes under that index's timeline key, whatever is
  appended or published afterwards, and the index is the number of entries appended before.\<close>

theorem appended_entry_readable:
  assumes "op_laws E" and "NewOperator origin sg blobs doc ns au = Inr a"
    and "\<forall>k. doc_exact E doc ns au k = None"
    and "Operator_Append E d t entry (fold (operator_step E) before a) = (b, Inr i)"
    and "op_size (fold (operator_step E) after b) + 1 < 2 ^ 63"
  shows "i = op_size (fold (operator_step E) before a) \<and> op_size b = i + 1 \<and>
    Source_blob (Operator_Source E (fold (operator_step E) after b)) (entryKey i) = Inr entry"
proof -
  let ?a = "fold (operator_step E) before a"
  from assms(4) have app: "Operator_append E t entry ?a = (b, Inr i)"
    by (simp add: Operator_Append_def split: if_splits)
  then have "op_size b = op_size ?a + 1" by (rule append_ok) simp
  with assms(5) run_size [of b E after] have small: "op_size ?a + 1 < 2 ^ 63" "op_size b < 2 ^ 63"
    by simp_all
  have inv: "op_inv E ?a"
    using run_op_inv [OF assms(1) NewOperator_inv [OF assms(1-3)], of before] small(1) by simp
  note b = append_inv [OF assms(1) inv small(1) app]
  have "op_keeps E b (fold (operator_step E) after b)"
    using run_op_inv [OF assms(1) _ assms(5)] b by simp
  with b small inv show ?thesis by (auto simp: op_keeps_def op_inv_def)
qed

text \<open>
  A concrete pair of stores: blobs under their own content, a document as a list of entries that
  drops what a new key is a prefix of.
\<close>

definition same_author :: "timeline_entry \<Rightarrow> timeline_entry \<Rightarrow> bool" where
  "same_author e x \<longleftrightarrow> te_namespace e = te_namespace x \<and> te_author e = te_author x"

definition demo_store_ops :: "((bytes list), (timeline_entry list)) store_ops" where
  "demo_store_ops = sign_ops.extend demo_sign_ops
     \<lparr>blob_add = (\<lambda>b data. Some (data # b, data)),
      blob_get = (\<lambda>b h. if h \<in> set b then Some h else None),
      doc_put = (\<lambda>d e time. e # filter (\<lambda>x. \<not> (same_author e x \<and> prefix (te_key e) (te_key x))) d),
      doc_exact = (\<lambda>d ns a k. find (\<lambda>e. (te_namespace e, te_author e, te_key e) = (ns, a, k)) d),
      doc_entries = (\<lambda>d. d), stored_hash_count = (\<lambda>n. n)\<rparr>"

lemma demo_store_simps:
  "blob_add demo_store_ops = (\<lambda>b data. Some (data # b, data))"
  "blob_get demo_store_ops = (\<lambda>b h. if h \<in> set b then Some h else None)"
  "doc_put demo_store_ops =
     (\<lambda>d e time. e # filter (\<lambda>x. \<not> (same_author e x \<and> prefix (te_key e) (te_key x))) d)"
  "doc_exact demo_store_ops =
     (\<lambda>d ns a k. find (\<lambda>e. (te_namespace e, te_author e, te_key e) = (ns, a, k)) d)"
  "stored_hash_count demo_store_ops = (\<lambda>n. n)"
  "tile_path demo_store_ops = tile_path demo_tlog_ops"
  "stored_hashes demo_store_ops = stored_hashes demo_tlog_ops"
  "new_tiles demo_store_ops = new_tiles demo_tlog_ops"
  "tree_hash demo_store_ops = tree_hash demo_tlog_ops"
  "note_open demo_store_ops = note_open demo_note_ops"
  "note_sign demo_store_ops = note_sign demo_sign_ops"
  "parse_hash demo_store_ops = parse_hash std_hash_ops"
  "hash_str demo_store_ops = hash_str std_hash_ops"
  by (simp_all add: demo_store_ops_def demo_sign_ops_def demo_tlog_ops_def demo_note_ops_def
      sign_ops.defs tlog_ops.defs note_ops.defs)

lemma find_filter_keep: "(\<And>x. x \<in> set d \<Longrightarrow> P x \<Longrightarrow> Q x) \<Longrightarrow> find P (filter Q d) = find P d"
  by (induction d) auto

lemma demo_put_other:
  assumes "\<not> ((ns, a) = (te_namespace e, te_author e) \<and> prefix (te_key e) k)"
  shows "doc_exact demo_store_ops (doc_put demo_store_ops d e time) ns a k =
    doc_exact demo_store_ops d ns a k"
proof -
  have "find (\<lambda>e. (te_namespace e, te_author e, te_key e) = (ns, a, k))
      (filter (\<lambda>x. \<not> (same_author e x \<and> prefix (te_key e) (te_key x))) d) =
      find (\<lambda>e. (te_namespace e, te_author e, te_key e) = (ns, a, k)) d"
    by (rule find_filter_keep) (use assms in \<open>auto simp: same_author_def\<close>)
  with assms show ?thesis by (auto simp: demo_store_simps)
qed

lemma demo_put_old:
  assumes "doc_exact demo_store_ops (doc_put demo_store_ops d e time) ns a k = Some x"
  shows "x = e \<and> (ns, a, k) = (te_namespace e, te_author e, te_key e) \<or>
    doc_exact demo_store_ops d ns a k = Some x"
proof (cases "(ns, a) = (te_namespace e, te_author e) \<and> prefix (te_key e) k")
  case True
  have "find (\<lambda>e. (te_namespace e, te_author e, te_key e) = (ns, a, k))
      (filter (\<lambda>x. \<not> (same_author e x \<and> prefix (te_key e) (te_key x))) d) = None"
    using True by (auto simp: find_None_iff same_author_def)
  with assms show ?thesis by (auto simp: demo_store_simps split: if_splits)
next
  case False
  from demo_put_other [OF this] assms show ?thesis by simp
qed

lemma demo_store_ok: "store_ok demo_store_ops"
  unfolding store_ok_def
proof (intro conjI)
  show "\<forall>b data b' h. blob_add demo_store_ops b data = Some (b', h) \<longrightarrow>
      blob_get demo_store_ops b' h = Some data \<and>
      (\<forall>h' x. blob_get demo_store_ops b h' = Some x \<longrightarrow> blob_get demo_store_ops b' h' = Some x)"
    by (auto simp: demo_store_simps split: if_splits)
  show "\<forall>d e time. (\<forall>k. prefix k (te_key e) \<longrightarrow>
      doc_exact demo_store_ops d (te_namespace e) (te_author e) k = None) \<longrightarrow>
      doc_exact demo_store_ops (doc_put demo_store_ops d e time) (te_namespace e) (te_author e)
        (te_key e) = Some e"
    by (simp add: demo_store_simps)
  show "\<forall>d e time. doc_exact demo_store_ops d (te_namespace e) (te_author e) (te_key e) \<noteq> None \<longrightarrow>
      doc_exact demo_store_ops (doc_put demo_store_ops d e time) (te_namespace e) (te_author e) (te_key e) \<noteq> None"
    by (simp add: demo_store_simps)
qed (use demo_put_other demo_put_old in blast)+

lemma demo_store_path: "tile_path_ok demo_store_ops"
  using demo_tile_path_ok unfolding tile_path_ok_def demo_store_simps .

lemma demo_store_write: "tlog_write_ok demo_store_ops"
  using pos_mod_bound [of 256] pos_mod_sign [of 256]
  by (auto simp: tlog_write_ok_def demo_store_simps demo_tlog_ops_def note_ops.defs TileHeight_def
      add1_zle_eq add_nonneg_pos split: if_splits)

lemma demo_op_laws: "op_laws demo_store_ops"
  by (simp add: op_laws_def demo_store_ok demo_store_path demo_store_write)

definition demo_op0 :: "(bytes list, timeline_entry list) operator" where
  "demo_op0 = \<lparr>op_origin = ''log'', op_signer = demo_signer\<lparr>sgName := ''op''\<rparr>, op_blobs = [], op_doc = [],
     op_namespace = ''ns'', op_author = ''au'', op_hashes = [], op_size = 0, op_published = 0,
     op_checkpoint = None\<rparr>"

lemma demo_NewOperator:
  "NewOperator ''log'' (Some (demo_signer\<lparr>sgName := ''op''\<rparr>)) (Some []) [] ''ns'' ''au'' = Inr demo_op0"
  by (simp add: NewOperator_def demo_op0_def)

definition demo_op1 :: "(bytes list, timeline_entry list) operator" where
  "demo_op1 = fst (Operator_Append demo_store_ops False 7 ''hello'' demo_op0)"

lemma demo_Append: "Operator_Append demo_store_ops False 7 ''hello'' demo_op0 = (demo_op1, Inr 0)"
  by (simp add: demo_op1_def Operator_Append_def Operator_append_def demo_store_simps
      demo_tlog_ops_def note_ops.defs demo_op0_def Let_def)

lemma demo_op1_size: "op_size demo_op1 = 1"
  by (simp add: demo_op1_def Operator_Append_def Operator_append_def demo_store_simps putTimeline_def
      demo_tlog_ops_def note_ops.defs demo_op0_def Let_def)

theorem appended_entry_readable_witness:
  "(0 :: int) = op_size (fold (operator_step demo_store_ops) [] demo_op0) \<and> op_size demo_op1 = 0 + 1 \<and>
    Source_blob (Operator_Source demo_store_ops
      (fold (operator_step demo_store_ops) [OpAppend True 8 ''more''] demo_op1)) (entryKey 0) = Inr ''hello''"
proof (rule appended_entry_readable [OF demo_op_laws demo_NewOperator])
  show "\<forall>k. doc_exact demo_store_ops [] ''ns'' ''au'' k = None" by (simp add: demo_store_simps)
  show "Operator_Append demo_store_ops False 7 ''hello'' (fold (operator_step demo_store_ops) [] demo_op0) =
      (demo_op1, Inr 0)" by (simp add: demo_Append)
  show "op_size (fold (operator_step demo_store_ops) [OpAppend True 8 ''more''] demo_op1) + 1 < 2 ^ 63"
    by (simp add: Operator_Append_def demo_op1_size)
qed

text \<open>What a publish that succeeds has signed: the root of the log at its size.\<close>

lemma publish_signs:
  assumes "hash_ops_ok E" and "\<forall>n r h. tree_hash E n r = Inr h \<longrightarrow> length h = 32"
    and "Operator_publish E clock a = (b, Inr msg)" and "op_size b < 2 ^ 63"
  obtains root tx where "SignedCheckpoint b = Some msg" "op_published b = op_size b" "op_size b = op_size a"
    "op_origin b = op_origin a" "op_signer b = op_signer a"
    "tree_hash E (op_size b) (op_hashReader (op_hashes b)) = Inr root"
    "note_sign E (op_signer b) \<lparr>Text = tx, Sigs = [], UnverifiedSigs = []\<rparr> = Some msg"
    "ParseCheckpoint E tx = Inr \<lparr>Origin = op_origin b, Tree = \<lparr>Tree_N = op_size b, Tree_Hash = root\<rparr>\<rparr>"
proof -
  let ?ts = "new_tiles E TileHeight (op_published a) (op_size a)"
  obtain c q where c: "publish_tiles E clock 0 ?ts a = (c, q)" by (cases "publish_tiles E clock 0 ?ts a")
  have same: "op_size c = op_size a" "op_origin c = op_origin a" "op_signer c = op_signer a"
    using publish_tiles_size [OF c] publish_tiles_ids [OF c] by simp_all
  from assms(3) c obtain root tx b' h where w:
    "tree_hash E (op_size a) (op_hashReader (op_hashes c)) = Inr root"
    "MarshalText E \<lparr>Origin = op_origin c, Tree = \<lparr>Tree_N = op_size a, Tree_Hash = root\<rparr>\<rparr> = Inr tx"
    "note_sign E (op_signer c) \<lparr>Text = tx, Sigs = [], UnverifiedSigs = []\<rparr> = Some msg"
    and b: "op_origin b = op_origin c" "op_signer b = op_signer c" "op_hashes b = op_hashes c"
    "op_size b = op_size c" "op_published b = op_size a" "op_checkpoint b = Some msg"
    by (auto simp: Operator_publish_def Let_def putTimeline_def split: sum.splits option.splits)
  have len: "length root = 32" using assms(2) w(1) by blast
  have "ParseCheckpoint E tx = Inr \<lparr>Origin = op_origin b, Tree = \<lparr>Tree_N = op_size b, Tree_Hash = root\<rparr>\<rparr>"
    by (rule ParseCheckpoint_Marshal [OF _ assms(1)]) (use w(2) b same len assms(4) in simp_all)
  with w b same show ?thesis by (intro that [of root tx]) (simp_all add: SignedCheckpoint_def)
qed

lemma published_opens:
  assumes "note_sign_ok E" and "hash_ops_ok E"
    and "\<forall>n r h. tree_hash E n r = Inr h \<longrightarrow> length h = 32"
    and "verifier_of (op_signer b) v"
    and "NewPolicy (op_origin b) (Some v) ws 0 = Inr p"
    and "Operator_publish E clock a = (b, Inr msg)" and "op_size b < 2 ^ 63"
  shows "\<exists>root. SignedCheckpoint b = Some msg \<and> op_published b = op_size b \<and>
    tree_hash E (op_size b) (op_hashReader (op_hashes b)) = Inr root \<and>
    Policy_Open E p msg = Inr \<lparr>Origin = op_origin b, Tree = \<lparr>Tree_N = op_size b, Tree_Hash = root\<rparr>\<rparr>"
proof -
  obtain root tx where b: "SignedCheckpoint b = Some msg" "op_published b = op_size b"
    "tree_hash E (op_size b) (op_hashReader (op_hashes b)) = Inr root"
    "note_sign E (op_signer b) \<lparr>Text = tx, Sigs = [], UnverifiedSigs = []\<rparr> = Some msg"
    "ParseCheckpoint E tx = Inr \<lparr>Origin = op_origin b, Tree = \<lparr>Tree_N = op_size b, Tree_Hash = root\<rparr>\<rparr>"
    by (rule publish_signs [OF assms(2,3,6,7)])
  obtain op where p: "op = v" "p_operator p = Some op" "p_origin p = op_origin b" "p_k p = 0"
    "distinct (map keyID (op # p_witnesses p))"
    by (rule NewPolicy_ok [OF assms(5)]) auto
  obtain n where "note_open E msg (v # p_witnesses p) = Some n" "Text n = tx" "keyID v \<in> sigID ` set (Sigs n)"
    using note_signed [OF assms(1) b(4) assms(4) p(5)] p(1) by auto
  with p b show ?thesis by (simp add: Policy_Open_def)
qed

text \<open>What the operator publishes, its clients accept: a published message opens under any
  policy of the same origin that trusts the operator's key and asks for no witness; it names the
  number of appended entries and the log's root hash; and a fresh client takes it as its head.\<close>

theorem published_checkpoint_accepted:
  assumes "note_sign_ok E" and "hash_ops_ok E"
    and "\<forall>n r h. tree_hash E n r = Inr h \<longrightarrow> length h = 32"
    and "verifier_of (op_signer b) v"
    and "NewPolicy (op_origin b) (Some v) ws 0 = Inr p"
    and "Operator_publish E clock a = (b, Inr msg)" and "op_size b < 2 ^ 63"
  shows "\<exists>root. SignedCheckpoint b = Some msg \<and> op_published b = op_size b \<and>
    tree_hash E (op_size b) (op_hashReader (op_hashes b)) = Inr root \<and>
    Policy_Open E p msg = Inr \<lparr>Origin = op_origin b, Tree = \<lparr>Tree_N = op_size b, Tree_Hash = root\<rparr>\<rparr> \<and>
    c_head (fst (Client_Update E src False msg (NewClient p))) =
      \<lparr>Origin = op_origin b, Tree = \<lparr>Tree_N = op_size b, Tree_Hash = root\<rparr>\<rparr>"
proof -
  obtain root where root: "SignedCheckpoint b = Some msg" "op_published b = op_size b"
    "tree_hash E (op_size b) (op_hashReader (op_hashes b)) = Inr root"
    and o: "Policy_Open E p msg = Inr \<lparr>Origin = op_origin b, Tree = \<lparr>Tree_N = op_size b, Tree_Hash = root\<rparr>\<rparr>"
    using published_opens [OF assms] by blast
  from o have "c_head (fst (Client_Update E src False msg (NewClient p))) =
      \<lparr>Origin = op_origin b, Tree = \<lparr>Tree_N = op_size b, Tree_Hash = root\<rparr>\<rparr>"
    by (simp add: Client_Update_def Client_update_def Let_def) (simp add: NewClient_def)
  with root o show ?thesis by blast
qed

text \<open>The demo stores with the concrete note format.\<close>

definition line_store_ops :: "((bytes list), (timeline_entry list)) store_ops" where
  "line_store_ops = demo_store_ops\<lparr>note_open := line_open, note_sign := line_sign\<rparr>"

lemma line_store_simps:
  "note_open line_store_ops = line_open" "note_sign line_store_ops = line_sign"
  "tree_hash line_store_ops = tree_hash demo_tlog_ops" "new_tiles line_store_ops = new_tiles demo_tlog_ops"
  "hash_str line_store_ops = hash_str std_hash_ops" "parse_hash line_store_ops = parse_hash std_hash_ops"
  "blob_add line_store_ops = blob_add demo_store_ops" "signs_lines line_store_ops"
  by (simp_all add: line_store_ops_def demo_store_simps signs_lines_def)

definition demo_empty_text :: bytes where
  "demo_empty_text = ''log'' @ [nl] @ fmt_int 0 @ [nl] @ hash_str std_hash_ops zero_hash @ [nl]"

lemma demo_empty_signed:
  "line_sign (demo_signer\<lparr>sgName := ''op''\<rparr>) \<lparr>Text = demo_empty_text, Sigs = [], UnverifiedSigs = []\<rparr> =
     Some (demo_empty_text @ [nl] @ ''op'' @ [nl])"
proof -
  have "splitNote (demo_empty_text @ [nl] @ ''op'' @ [nl]) = Inr (demo_empty_text, ''op'' @ [nl])"
    unfolding demo_empty_text_def
    by (rule splitNote_lines(1)) (simp_all add: fmt_int_free std_hash_text zero_hash_def)
  then show ?thesis by (simp add: line_sign_def line_names_def demo_signer_def Let_def)
qed

lemma demo_Publish_ok:
  "\<exists>b. Operator_publish line_store_ops clock demo_op0 = (b, Inr (demo_empty_text @ [nl] @ ''op'' @ [nl])) \<and>
     op_origin b = ''log'' \<and> op_signer b = demo_signer\<lparr>sgName := ''op''\<rparr> \<and> op_size b = 0"
  by (simp add: Operator_publish_def line_store_simps demo_op0_def demo_tlog_ops_def note_ops.defs
      MarshalText_def putTimeline_def Let_def demo_store_simps
      demo_empty_signed [unfolded demo_empty_text_def, simplified] demo_empty_text_def)

theorem published_checkpoint_accepted_witness:
  "\<exists>b root msg. Operator_publish line_store_ops (\<lambda>i. 9) demo_op0 = (b, Inr msg) \<and>
    SignedCheckpoint b = Some msg \<and>
    c_head (fst (Client_Update line_store_ops demo_source False msg
      (NewClient (demo_policy\<lparr>p_witnesses := [], p_k := 0\<rparr>)))) =
      \<lparr>Origin = ''log'', Tree = \<lparr>Tree_N = 0, Tree_Hash = root\<rparr>\<rparr>"
proof -
  obtain b msg where b: "Operator_publish line_store_ops (\<lambda>i. 9) demo_op0 = (b, Inr msg)"
    "op_origin b = ''log''" "op_signer b = demo_signer\<lparr>sgName := ''op''\<rparr>" "op_size b = 0"
    using demo_Publish_ok by blast
  have sign: "note_sign_ok line_store_ops" by (rule lines_sign [OF line_store_simps(8)])
  have hash: "hash_ops_ok line_store_ops"
    using std_hash_ops_ok by (simp add: hash_ops_ok_def line_store_simps)
  have len: "\<forall>n r h. tree_hash line_store_ops n r = Inr h \<longrightarrow> length h = 32"
    by (auto simp: line_store_simps demo_tlog_ops_def note_ops.defs zero_hash_def split: sum.splits if_splits)
  have v: "verifier_of (op_signer b) demo_operator"
    by (simp add: b verifier_of_def demo_operator_def demo_verifier_def demo_signer_def)
  have p: "NewPolicy (op_origin b) (Some demo_operator) [] 0 = Inr (demo_policy\<lparr>p_witnesses := [], p_k := 0\<rparr>)"
    by (simp add: b NewPolicy_def demo_policy_def)
  from published_checkpoint_accepted [OF sign hash len v p b(1), of demo_source] b show ?thesis by auto
qed

end
