(* ===== verification/Tlog_Command.thy ===== *)
theory Tlog_Command
  imports Tlog_Operator
begin

section \<open>Transparency log: the command's roles (tlogiroh/cmd/tlog-iroh/main.go)\<close>

text \<open>
  The watch, get and operator roles of the command over the library: the client they build, the
  head note that watch keeps in a file across runs, and one entry per input line. Flags are parsed,
  endpoints are bound and the replica is synchronised elsewhere; a run of watch is the list of its
  gossip events, each with the outcome of the file write it may cause.
\<close>

subsection \<open>Keys and clients\<close>

datatype cmd_error =
    MissingFlags | ParseSigningKey | GenerateKey | ParseWitnessKey | CmdLog tlog_error | RestoreHead tlog_error
  | ReadHeadFile | TimelineEmpty

text \<open>\<open>new_signer\<close> is \<^verbatim>\<open>note.NewSigner\<close> and \<open>generated\<close> the key pair made, if that works.\<close>

definition signerFor :: "(bytes \<Rightarrow> 's option) \<Rightarrow> (bytes \<times> bytes) option \<Rightarrow> bytes \<Rightarrow> cmd_error + 's" where
  "signerFor new_signer generated skey =
     (if skey \<noteq> [] then of_option ParseSigningKey (new_signer skey)
      else case generated of
        None \<Rightarrow> Inl GenerateKey
      | Some (sk, vk) \<Rightarrow> of_option ParseSigningKey (new_signer sk))"

fun parse_witnesses :: "(bytes \<Rightarrow> verifier option) \<Rightarrow> bytes list \<Rightarrow> cmd_error + verifier option list" where
  "parse_witnesses new_verifier [] = Inr []"
| "parse_witnesses new_verifier (k # ks) =
     (case new_verifier k of
        None \<Rightarrow> Inl ParseWitnessKey
      | Some v \<Rightarrow> (case parse_witnesses new_verifier ks of Inl e \<Rightarrow> Inl e | Inr vs \<Rightarrow> Inr (Some v # vs)))"

definition clientFor ::
  "(bytes \<Rightarrow> verifier option) \<Rightarrow> bytes \<Rightarrow> verifier option \<Rightarrow> bytes list \<Rightarrow> int \<Rightarrow> cmd_error + client" where
  "clientFor new_verifier origin opKey witnessKeys k =
     (case parse_witnesses new_verifier witnessKeys of
        Inl e \<Rightarrow> Inl e
      | Inr witnesses \<Rightarrow>
        (case NewPolicy origin opKey witnesses k of
           Inl e \<Rightarrow> Inl (CmdLog e)
         | Inr p \<Rightarrow> Inr (NewClient p)))"

text \<open>
  \<^verbatim>\<open>waitAuthor\<close>: each round gives the replica after a sync, or \<open>None\<close> when the sync fails; the
  rounds end when the context does.
\<close>

fun waitAuthor :: "bytes \<Rightarrow> timeline_entry list option list \<Rightarrow> bytes option" where
  "waitAuthor namespace [] = None"
| "waitAuthor namespace (round # rounds) =
     (case round of
        None \<Rightarrow> waitAuthor namespace rounds
      | Some entries \<Rightarrow>
        (case find (\<lambda>e. te_namespace e = namespace) entries of
           Some e \<Rightarrow> Some (te_author e)
         | None \<Rightarrow> waitAuthor namespace rounds))"

subsection \<open>Watch with a head file\<close>

text \<open>The file is \<open>None\<close> while it cannot be read.\<close>

type_synonym head_file = "bytes option"

definition restore_head :: "'x tlog_ops_scheme \<Rightarrow> client \<Rightarrow> head_file \<Rightarrow> cmd_error + client" where
  "restore_head E c f =
     (case f of
        None \<Rightarrow> Inr c
      | Some msg \<Rightarrow> (case SetHead E msg c of (c', Inl e) \<Rightarrow> Inl (RestoreHead e) | (c', Inr _) \<Rightarrow> Inr c'))"

text \<open>
  After each yield the head note is written to the file. A write that fails leaves the first bytes
  of the note (\<open>Some k\<close>) and ends the loop.
\<close>

type_synonym file_write = "nat option"

definition persist :: "file_write \<Rightarrow> watch \<Rightarrow> watch \<Rightarrow> head_file \<Rightarrow> head_file" where
  "persist wr w w' f =
     (if length (yields (outs w)) < length (yields (outs w')) then
        (case wr of
           None \<Rightarrow> Some (HeadNote (w_client w'))
         | Some k \<Rightarrow> Some (take k (HeadNote (w_client w'))))
      else f)"

definition written :: "file_write \<Rightarrow> watch \<Rightarrow> watch \<Rightarrow> bool" where
  "written wr w w' \<longleftrightarrow> wr = None \<or> length (yields (outs w)) = length (yields (outs w'))"

fun tick_persist ::
  "'x tlog_ops_scheme \<Rightarrow> (bytes \<times> surroundings \<times> file_write) list \<Rightarrow> watch \<times> head_file \<Rightarrow> (watch \<times> head_file) \<times> bool" where
  "tick_persist E [] (w, f) = ((w, f), True)"
| "tick_persist E ((txt, env, wr) # order) (w, f) =
     (case map_of (pending w) txt of
        None \<Rightarrow> tick_persist E order (w, f)
      | Some msg \<Rightarrow>
          (let (w', go) = watch_process E env txt msg w; f' = persist wr w w' f in
           if go \<and> written wr w w' then tick_persist E order (w', f') else ((w', f'), False)))"

definition message_persist ::
  "'x tlog_ops_scheme \<Rightarrow> surroundings \<Rightarrow> file_write \<Rightarrow> bytes \<Rightarrow> watch \<times> head_file \<Rightarrow> (watch \<times> head_file) \<times> bool" where
  "message_persist E env wr content s =
     (let (w', go) = watch_message E env content (fst s) in
      ((w', persist wr (fst s) w' (snd s)), go \<and> written wr (fst s) w'))"

datatype file_event =
    FTick "(bytes \<times> surroundings \<times> file_write) list"
  | FMessage surroundings file_write bytes

fun file_event_step ::
  "'x tlog_ops_scheme \<Rightarrow> file_event \<Rightarrow> watch \<times> head_file \<Rightarrow> (watch \<times> head_file) \<times> bool" where
  "file_event_step E (FTick order) s = tick_persist E order s"
| "file_event_step E (FMessage env wr content) s = message_persist E env wr content s"

fun watch_loop :: "'x tlog_ops_scheme \<Rightarrow> file_event list \<Rightarrow> watch \<times> head_file \<Rightarrow> watch \<times> head_file" where
  "watch_loop E [] s = s"
| "watch_loop E (e # es) s =
     (let (s', go) = file_event_step E e s in if go then watch_loop E es s' else s')"

definition runWatch :: "'x tlog_ops_scheme \<Rightarrow> client \<Rightarrow> file_event list \<Rightarrow> head_file \<Rightarrow> head_file \<times> (cmd_error + unit)" where
  "runWatch E client es f =
     (case restore_head E client f of
        Inl e \<Rightarrow> (f, Inl e)
      | Inr c \<Rightarrow> (snd (watch_loop E es (start_watch c, f)), Inr ()))"

subsection \<open>Get and operator\<close>

definition runGet :: "'x tlog_ops_scheme \<Rightarrow> client \<Rightarrow> source \<Rightarrow> int \<Rightarrow> head_file \<Rightarrow> cmd_error + bytes" where
  "runGet E client src index f =
     (if index < 0 then Inl MissingFlags
      else case f of
        None \<Rightarrow> Inl ReadHeadFile
      | Some msg \<Rightarrow>
        (case SetHead E msg client of
           (c, Inl e) \<Rightarrow> Inl (RestoreHead e)
         | (c, Inr _) \<Rightarrow>
           (case Client_Entry E src c index of
              Inl e \<Rightarrow> Inl (CmdLog e)
            | Inr data \<Rightarrow> Inr (data @ [nl]))))"

text \<open>One input line: append, publish, announce; what is broadcast comes last.\<close>

definition operator_line ::
  "('b, 'd, 'x) store_ops_scheme \<Rightarrow> bool \<Rightarrow> u64 \<Rightarrow> (nat \<Rightarrow> u64) \<Rightarrow> bytes \<Rightarrow> ('b, 'd) operator \<Rightarrow>
   ('b, 'd) operator \<times> (tlog_error + int \<times> bytes)" where
  "operator_line E ctx_done time clock line o1 =
     (case Operator_Append E ctx_done time line o1 of
        (o2, Inl e) \<Rightarrow> (o2, Inl e)
      | (o2, Inr index) \<Rightarrow>
        (case Operator_Publish E ctx_done clock o2 of
           (o3, Inl e) \<Rightarrow> (o3, Inl e)
         | (o3, Inr _) \<Rightarrow>
           (case Announce o3 of Inl e \<Rightarrow> (o3, Inl e) | Inr msg \<Rightarrow> (o3, Inr (index, msg)))))"

subsection \<open>Lemmas: the text of a head note\<close>

text \<open>
  What \<^verbatim>\<open>note.Open\<close> documents: an opened message is its text, an empty line, and signatures; and
  the empty string is no hash.
\<close>

definition note_format_ok :: "'x note_ops_scheme \<Rightarrow> bool" where
  "note_format_ok E \<longleftrightarrow> parse_hash E [] = None \<and>
     (\<forall>msg vs n. note_open E msg vs = Some n \<longrightarrow> (\<exists>s. msg = Text n @ [nl] @ s))"

lemma parsed_text:
  assumes "ParseCheckpoint E t = Inr c" and "parse_hash E [] = None"
  shows "splitNote (t @ [nl] @ s) = Inr (t, s)"
proof -
  from assms(1) obtain u where t: "t = u @ [nl]" by (auto simp: ParseCheckpoint_def suffix_def split: if_splits)
  with assms(1) obtain a b h where l: "split_on nl u = [a, b, h]"
    by (auto simp: ParseCheckpoint_def suffix_def split: list.splits)
  from split_on_concat [OF l] have u: "t = a @ [nl] @ b @ [nl] @ h @ [nl]" by (simp add: t)
  have "nl \<notin> set x" if "x \<in> set [a, b, h]" for x
    by (rule split_on_pieces [of x nl u]) (use l that in simp)
  then have free: "nl \<notin> set a" "nl \<notin> set b" "nl \<notin> set h" by simp_all
  from assms(1) [unfolded u ParseCheckpoint_lines [OF free]] have "parse_int64 b \<noteq> None" "parse_hash E h \<noteq> None"
    by (auto split: if_splits option.splits)
  with assms(2) have "b \<noteq> []" "h \<noteq> []" by (auto simp: parse_int64_def)
  from splitNote_lines(1) [OF free this] show ?thesis by (simp add: u)
qed

lemma Open_split:
  assumes "note_format_ok E" and "Policy_Open E p msg = Inr c"
  shows "\<exists>t s. splitNote msg = Inr (t, s) \<and> ParseCheckpoint E t = Inr c"
proof -
  from assms(2) obtain n vs where n: "note_open E msg vs = Some n" "ParseCheckpoint E (Text n) = Inr c"
    by (auto simp: Policy_Open_def Let_def split: option.splits sum.splits if_splits)
  with assms(1) obtain s where "msg = Text n @ [nl] @ s" unfolding note_format_ok_def by blast
  moreover have "splitNote (Text n @ [nl] @ s) = Inr (Text n, s)"
    using parsed_text [OF n(2)] assms(1) by (simp add: note_format_ok_def)
  ultimately show ?thesis using n(2) by blast
qed

text \<open>The head note carries the text of the head, also after merging signatures.\<close>

definition head_text :: "'x tlog_ops_scheme \<Rightarrow> client \<Rightarrow> bool" where
  "head_text E c \<longleftrightarrow> (\<exists>t s. splitNote (c_headMsg c) = Inr (t, s) \<and> ParseCheckpoint E t = Inr (c_head c))"

lemma head_text_opens:
  assumes "note_format_ok E" and "head_text E c" and "Policy_Open E p (c_headMsg c) = Inr cp"
  shows "cp = c_head c"
proof -
  from Open_split [OF assms(1,3)] obtain t s where "splitNote (c_headMsg c) = Inr (t, s)" "ParseCheckpoint E t = Inr cp"
    by blast
  with assms(2) show ?thesis by (auto simp: head_text_def)
qed

lemma SetHead_text:
  assumes "note_format_ok E" and "SetHead E msg c = (c', Inr u)"
  shows "head_text E c'" and "Policy_Open E (c_policy c) msg = Inr (c_head c')" and "c_hasHead c'"
    and "c_policy c' = c_policy c" and "c_headMsg c' = msg"
proof -
  from assms(2) have o: "Policy_Open E (c_policy c) msg = Inr (c_head c')" and m: "c_headMsg c' = msg"
    and rest: "c_hasHead c'" "c_policy c' = c_policy c"
    by (auto simp: SetHead_def Let_def split: sum.splits if_splits)
  from Open_split [OF assms(1) o] m have "head_text E c'" by (simp add: head_text_def)
  with o m rest show "head_text E c'" "Policy_Open E (c_policy c) msg = Inr (c_head c')" "c_hasHead c'"
    "c_policy c' = c_policy c" "c_headMsg c' = msg" by simp_all
qed

lemma update_text:
  assumes "note_format_ok E" and "Policy_Open E p msg = Inr cp" and "c_hasHead c" and "head_text E c"
  shows "head_text E (fst (Client_update E src cp msg c))"
proof -
  have fresh: "head_text E (c\<lparr>c_headMsg := msg, c_head := cp, c_hasHead := True\<rparr>)"
    using Open_split [OF assms(1,2)] by (simp add: head_text_def)
  have merged: "head_text E (c\<lparr>c_headMsg := m\<rparr>)" if "mergeSignedNotes (c_headMsg c) msg = Inr m" for m
  proof -
    from that obtain t sa sb where m: "splitNote (c_headMsg c) = Inr (t, sa)"
      "m = t @ [nl] @ merge_lines [] (lines_of (sa @ sb))" by (auto simp: mergeSignedNotes_ok)
    from splitNote_ok(2) [OF m(1)] have "splitNote m = Inr (t, merge_lines [] (lines_of (sa @ sb)))"
      unfolding m(2) .
    with assms(4) m(1) show ?thesis by (simp add: head_text_def)
  qed
  show ?thesis using fresh merged assms(3,4) by (auto simp: Client_update_def Let_def split: sum.split)
qed

subsection \<open>Lemmas: the file across runs\<close>

definition at_least :: "tree \<Rightarrow> tree \<Rightarrow> bool" where
  "at_least t u \<longleftrightarrow> u = t \<or> Tree_N t < Tree_N u"

lemma at_least_trans: "at_least t u \<Longrightarrow> at_least u v \<Longrightarrow> at_least t v"
  by (auto simp: at_least_def)

text \<open>Whatever the file opens to is at least the tree \<open>t\<close>.\<close>

definition file_keeps :: "'x tlog_ops_scheme \<Rightarrow> policy \<Rightarrow> tree \<Rightarrow> head_file \<Rightarrow> bool" where
  "file_keeps E p t f \<longleftrightarrow> (\<exists>m. f = Some m \<and> (\<forall>c. Policy_Open E p m = Inr c \<longrightarrow> at_least t (Tree c)))"

definition client_keeps :: "'x tlog_ops_scheme \<Rightarrow> policy \<Rightarrow> tree \<Rightarrow> client \<Rightarrow> bool" where
  "client_keeps E p t c \<longleftrightarrow> c_policy c = p \<and> c_hasHead c \<and> head_text E c \<and> at_least t (Tree (c_head c))"

definition watch_keeps :: "'x tlog_ops_scheme \<Rightarrow> policy \<Rightarrow> tree \<Rightarrow> watch \<times> head_file \<Rightarrow> bool" where
  "watch_keeps E p t s \<longleftrightarrow> client_keeps E p t (w_client (fst s)) \<and> file_keeps E p t (snd s)"

lemma client_keeps_Update:
  assumes "note_format_ok E" and "client_keeps E p t c"
  shows "client_keeps E p t (fst (Client_Update E src d msg c))"
proof (cases "Policy_Open E p msg")
  case (Inl e)
  with assms(2) show ?thesis by (auto simp: Client_Update_def client_keeps_def)
next
  case (Inr cp)
  let ?c = "fst (Client_update E src cp msg c)"
  have c: "c_policy c = p" "client_tree c = Some (Tree (c_head c))" "at_least t (Tree (c_head c))"
    using assms(2) by (simp_all add: client_keeps_def client_tree_def)
  from advances_head [OF update_advances [OF c(2), of E src cp msg]]
  have "c_hasHead ?c" "at_least (Tree (c_head c)) (Tree (c_head ?c))"
    by (auto simp: client_tree_def at_least_def split: if_splits)
  moreover have "c_policy ?c = p" using c(1) by (auto simp: Client_update_def Let_def split: sum.split)
  moreover have "head_text E ?c"
    using update_text [OF assms(1) Inr] assms(2) by (simp add: client_keeps_def)
  ultimately show ?thesis
    using c Inr assms(2) at_least_trans by (auto simp: Client_Update_def client_keeps_def)
qed

lemma process_client: "w_client (fst (watch_process E (src, d, go) tx msg w)) = fst (Client_Update E src d msg (w_client w))"
  by (cases rule: watch_process_cases [of E src d msg w go tx]) (simp_all split: sum.split)

lemma message_client:
  "\<exists>msg. w_client (fst (watch_message E (src, d, go) content w)) \<in>
     {w_client w, fst (Client_Update E src d msg (w_client w))}"
  using process_client by (fastforce simp: watch_message_def Let_def split: option.split sum.split)

lemma file_keeps_persist:
  assumes "note_format_ok E" and "client_keeps E p t (w_client w')" and "file_keeps E p t f"
  shows "file_keeps E p t (persist None w w' f)"
  using assms head_text_opens [OF assms(1)] by (auto simp: persist_def file_keeps_def HeadNote_def client_keeps_def)

definition all_written :: "file_event \<Rightarrow> bool" where
  "all_written e = (case e of FTick order \<Rightarrow> list_all (\<lambda>(txt, env, wr). wr = None) order | FMessage env wr content \<Rightarrow> wr = None)"

lemma tick_keeps:
  "note_format_ok E \<Longrightarrow> watch_keeps E p t s \<Longrightarrow> list_all (\<lambda>(txt, env, wr). wr = None) order \<Longrightarrow>
    watch_keeps E p t (fst (tick_persist E order s))"
proof (induction E order s rule: tick_persist.induct)
  case (2 E tx env wr order w f)
  show ?case
  proof (cases "map_of (pending w) tx")
    case None
    with 2 show ?thesis by simp
  next
    case (Some msg)
    obtain src d go where env: "env = (src, d, go)" by (cases env) auto
    obtain w' m where p: "watch_process E env tx msg w = (w', m)" by fastforce
    have "client_keeps E p t (w_client w')"
      using client_keeps_Update [OF "2.prems"(1)] "2.prems"(2) process_client [of E src d go tx msg w] p env
      by (simp add: watch_keeps_def)
    then have "watch_keeps E p t (w', persist wr w w' f)"
      using "2.prems" file_keeps_persist [OF "2.prems"(1)] by (simp add: watch_keeps_def)
    with "2.IH"(2) [OF Some] "2.prems" Some p show ?thesis by (auto simp: Let_def)
  qed
qed simp

lemma message_keeps:
  assumes "note_format_ok E" and "watch_keeps E p t s"
  shows "watch_keeps E p t (fst (message_persist E env None content s))"
proof -
  obtain src d go where env: "env = (src, d, go)" by (cases env) auto
  obtain w' m where w': "watch_message E env content (fst s) = (w', m)" by fastforce
  from message_client [of E src d go content "fst s"] w' env
  obtain msg where "w_client w' = w_client (fst s) \<or> w_client w' = fst (Client_Update E src d msg (w_client (fst s)))"
    by auto
  then have "client_keeps E p t (w_client w')"
    using assms client_keeps_Update [OF assms(1)] by (auto simp: watch_keeps_def)
  then show ?thesis
    using assms file_keeps_persist [OF assms(1)] by (simp add: message_persist_def w' watch_keeps_def)
qed

lemma loop_keeps:
  "note_format_ok E \<Longrightarrow> watch_keeps E p t s \<Longrightarrow> list_all all_written es \<Longrightarrow> watch_keeps E p t (watch_loop E es s)"
proof (induction es arbitrary: s)
  case (Cons e es)
  obtain s' go where st: "file_event_step E e s = (s', go)" by fastforce
  have "watch_keeps E p t (fst (file_event_step E e s))"
    using Cons.prems tick_keeps [of E p t s] message_keeps [of E p t s] by (cases e) (auto simp: all_written_def)
  with Cons st show ?case by simp
qed simp

lemma runWatch_keeps:
  assumes "note_format_ok E" and "file_keeps E p t f" and "c_policy c = p" and "\<not> c_hasHead c" and "list_all all_written es"
  shows "file_keeps E p t (fst (runWatch E c es f))"
proof -
  from assms(2) obtain m where m: "f = Some m" "\<forall>c. Policy_Open E p m = Inr c \<longrightarrow> at_least t (Tree c)"
    by (auto simp: file_keeps_def)
  obtain c' r where set_head: "SetHead E m c = (c', r)" by fastforce
  show ?thesis
  proof (cases r)
    case (Inl e)
    with assms(2) m set_head show ?thesis by (simp add: runWatch_def restore_head_def)
  next
    case (Inr u)
    note h = SetHead_text [OF assms(1) set_head [unfolded Inr]]
    have "client_keeps E p t c'" using h m(2) assms(3) by (simp add: client_keeps_def)
    then have "watch_keeps E p t (start_watch c', f)" using assms(2) by (simp add: watch_keeps_def start_watch_def)
    from loop_keeps [OF assms(1) this assms(5)] show ?thesis
      using Inr m(1) set_head by (simp add: runWatch_def restore_head_def watch_keeps_def)
  qed
qed

text \<open>Runs of watch one after another, each with its own events, over one file.\<close>

definition watch_runs :: "'x tlog_ops_scheme \<Rightarrow> policy \<Rightarrow> file_event list list \<Rightarrow> head_file \<Rightarrow> head_file" where
  "watch_runs E p runs f = fold (\<lambda>es f. fst (runWatch E (NewClient p) es f)) runs f"

lemma watch_runs_keep:
  "note_format_ok E \<Longrightarrow> file_keeps E p t f \<Longrightarrow> list_all (list_all all_written) runs \<Longrightarrow>
   file_keeps E p t (watch_runs E p runs f)"
proof (induction runs arbitrary: f)
  case (Cons es runs)
  have "file_keeps E p t (fst (runWatch E (NewClient p) es f))"
    by (rule runWatch_keeps) (use Cons.prems in \<open>simp_all add: NewClient_def\<close>)
  with Cons show ?case by (simp add: watch_runs_def)
qed (simp add: watch_runs_def)

subsection \<open>Properties\<close>


text \<open>
  \<^verbatim>\<open>note.Open\<close> gives up on a note with more than 100 signatures.
\<close>

definition note_limit :: "'x note_ops_scheme \<Rightarrow> bool" where
  "note_limit E \<longleftrightarrow>
     (\<forall>msg vs t s. splitNote msg = Inr (t, s) \<longrightarrow> 100 < length (sig_lines s) \<longrightarrow> note_open E msg vs = None)"


text \<open>What get prints is verified against the persisted head: the head file opened under the policy,
  the index lies in its tree, and the printed bytes are a record that the tree holds at that index.\<close>

theorem get_prints_included_entry:
  assumes "inclusion_sound E leaf" and "runGet E (NewClient p) src i f = Inr out"
  shows "\<exists>m cp data. f = Some m \<and> Policy_Open E p m = Inr cp \<and> 0 \<le> i \<and> i < Tree_N (Tree cp) \<and>
    out = data @ [nl] \<and> leaf (Tree cp) i = Some (record_hash E data)"
proof -
  from assms(2) obtain m c u data where r: "f = Some m" "SetHead E m (NewClient p) = (c, Inr u)"
    "Client_Entry E src c i = Inr data" "out = data @ [nl]"
    by (auto simp: runGet_def split: if_splits option.splits prod.splits sum.splits)
  have "Policy_Open E p m = Inr (c_head c)"
    using r(2) by (auto simp: SetHead_def NewClient_def split: sum.splits if_splits)
  moreover have "0 \<le> i" "i < Tree_N (Tree (c_head c))" "leaf (Tree (c_head c)) i = Some (record_hash E data)"
    using assms(1) r(3) by (auto simp: Client_Entry_def Client_entry_def inclusion_sound_def Let_def
        split: if_splits sum.splits)
  ultimately show ?thesis using r(1,4) by blast
qed

subsection \<open>Witnesses\<close>

text \<open>A note opener of the documented format and limit over the concrete operations.\<close>

definition demo_cmd_ops :: tlog_ops where
  "demo_cmd_ops = demo_tlog_ops
     \<lparr>note_open := (\<lambda>msg vs. case splitNote msg of
        Inl _ \<Rightarrow> None
      | Inr (t, s) \<Rightarrow> if 100 < length (sig_lines s) then None else note_open demo_note_ops t vs)\<rparr>"

lemma demo_cmd_open:
  "note_open demo_cmd_ops msg vs = (case splitNote msg of
        Inl _ \<Rightarrow> None
      | Inr (t, s) \<Rightarrow> if 100 < length (sig_lines s) then None else note_open demo_note_ops t vs)"
  "parse_hash demo_cmd_ops = parse_hash demo_note_ops"
  by (simp_all add: demo_cmd_ops_def demo_tlog_ops_def note_ops.defs)

lemma demo_cmd_ok: "note_format_ok demo_cmd_ops" "note_limit demo_cmd_ops"
proof -
  have "parse_hash demo_note_ops [] = None"
    by (simp add: demo_note_ops_def std_hash_ops_def b64_decode_def)
  moreover have "\<exists>s. msg = Text n @ [nl] @ s" if "note_open demo_cmd_ops msg vs = Some n" for msg vs n
  proof -
    from that obtain t s where "splitNote msg = Inr (t, s)" "note_open demo_note_ops t vs = Some n"
      by (auto simp: demo_cmd_open split: sum.splits if_splits)
    moreover from this have "Text n = t" by (auto simp: demo_note_ops_def Let_def split: if_splits)
    ultimately show ?thesis using splitNote_ok(1) by blast
  qed
  ultimately show "note_format_ok demo_cmd_ops" by (simp add: note_format_ok_def demo_cmd_open)
  show "note_limit demo_cmd_ops" by (auto simp: note_limit_def demo_cmd_open)
qed

lemma demo_cmd_Open:
  assumes "splitNote msg = Inr (demo_text, s)" and "length (sig_lines s) \<le> 100"
  shows "Policy_Open demo_cmd_ops demo_policy msg = Inr demo_checkpoint"
proof -
  have "note_open demo_cmd_ops msg vs = note_open demo_note_ops demo_text vs" for vs
    using assms by (simp add: demo_cmd_open)
  moreover have "ParseCheckpoint demo_cmd_ops t = ParseCheckpoint demo_note_ops t" for t
    by (rule ParseCheckpoint_cong) (rule demo_cmd_open)
  ultimately have "Policy_Open demo_cmd_ops demo_policy msg = Policy_Open demo_note_ops demo_policy demo_text"
    unfolding Policy_Open_def by (simp only:)
  with demo_Open show ?thesis by simp
qed

lemma demo_cmd_message: "Policy_Open demo_cmd_ops demo_policy demo_message = Inr demo_checkpoint"
  by (rule demo_cmd_Open [OF demo_split]) code_simp


text \<open>A message with 100 signature lines of unknown keys.\<close>

definition demo_junk :: bytes where
  "demo_junk = demo_text @ [nl] @ unlines (map dec_digits [0..<100])"

lemma demo_junk_lines: "sig_lines (unlines (map dec_digits [0..<100])) = map dec_digits [0..<100]"
  by (rule sig_lines_unlines) (simp add: dec_digits_free)

lemma demo_junk_split: "splitNote demo_junk = Inr (demo_text, unlines (map dec_digits [0..<100]))"
  unfolding demo_junk_def by (rule splitNote_ok(2) [OF demo_split])

definition demo_head :: client where
  "demo_head = \<lparr>c_policy = demo_policy, c_headMsg = demo_message, c_head = demo_checkpoint, c_hasHead = True\<rparr>"


lemma demo_cmd_simps:
  "prove_record demo_cmd_ops = prove_record demo_tlog_ops" "check_record demo_cmd_ops = check_record demo_tlog_ops"
  "record_hash demo_cmd_ops = record_hash demo_tlog_ops" "parse_hash demo_cmd_ops = parse_hash demo_tlog_ops"
  "hash_str demo_cmd_ops = hash_str demo_tlog_ops"
  by (simp_all add: demo_cmd_ops_def)

theorem get_prints_included_entry_witness:
  "\<exists>m cp data. Some demo_message = Some m \<and> Policy_Open demo_cmd_ops demo_policy m = Inr cp \<and> 2 < Tree_N (Tree cp) \<and>
    [nl] = data @ [nl] \<and> Some (Tree_Hash (Tree cp)) = Some (record_hash demo_cmd_ops data)"
proof -
  have sound: "inclusion_sound demo_cmd_ops (\<lambda>t i. Some (Tree_Hash t))"
    by (simp add: inclusion_sound_def demo_cmd_simps demo_tlog_simps)
  have "runGet demo_cmd_ops (NewClient demo_policy) demo_entry_source 2 (Some demo_message) = Inr [nl]"
    by (simp add: runGet_def SetHead_def demo_cmd_message Client_Entry_def Client_entry_def demo_checkpoint_def
        Source_blob_def demo_entry_source_def demo_cmd_simps demo_tlog_simps zero_hash_def)
      (simp add: NewClient_def)
  from get_prints_included_entry [OF sound this] show ?thesis by auto
qed

end
