(* ===== verification/Tlog_Complete.thy ===== *)
theory Tlog_Complete
  imports Tlog_Operator
begin

section \<open>Transparency log: what the operator publishes can be proved\<close>

text \<open>
  The other half of soundness: an honest log serves its readers. The operator stores the hash tiles of
  every tree it publishes, so a client reading the operator's stores through \<^verbatim>\<open>hashReaderForTree\<close>
  (tlogiroh/source.go) finds each consistency and inclusion proof it asks for, then and ever after. The
  laws of package \<^verbatim>\<open>tlog\<close> that this rests on are \<open>log_complete\<close>; they speak of hash lists that
  \<^verbatim>\<open>StoredHashes\<close> builds from records.
\<close>

subsection \<open>What package tlog documents\<close>

definition reads_hashes :: "hash_reader \<Rightarrow> hash list \<Rightarrow> int \<Rightarrow> bool" where
  "reads_hashes r hs k \<longleftrightarrow> (\<forall>is. (\<forall>i \<in> set is. 0 \<le> i \<and> i < k) \<longrightarrow> r is = op_hashReader hs is)"

text \<open>The stored hashes of a log with the given records.\<close>

fun log_hashes :: "('b, 'd, 'x) store_ops_scheme \<Rightarrow> int \<Rightarrow> hash list \<Rightarrow> bytes list \<Rightarrow> hash list option" where
  "log_hashes E n hs [] = Some hs"
| "log_hashes E n hs (d # ds) =
     (case stored_hashes E n d (op_hashReader hs) of
        Inl _ \<Rightarrow> None
      | Inr x \<Rightarrow> log_hashes E (n + 1) (hs @ x) ds)"

abbreviation tile_data :: "('b, 'd, 'x) store_ops_scheme \<Rightarrow> hash list \<Rightarrow> tile \<Rightarrow> bytes \<Rightarrow> bool" where
  "tile_data E hs t d \<equiv> read_tile_data E t (op_hashReader hs) = Inr d"

abbreviation hashes_to :: "('b, 'd, 'x) store_ops_scheme \<Rightarrow> hash list \<Rightarrow> tree \<Rightarrow> bool" where
  "hashes_to E hs t \<equiv> tree_hash E (Tree_N t) (op_hashReader hs) = Inr (Tree_Hash t)"

text \<open>
  \<open>tiles n\<close> are the tiles that hold a tree of size \<open>n\<close>; publishing adds those that are missing. Tile
  data and tree hashes do not change when a log grows, and a tile is its width of hashes.
\<close>

definition tiles_ok :: "('b, 'd, 'x) store_ops_scheme \<Rightarrow> (int \<Rightarrow> tile set) \<Rightarrow> bool" where
  "tiles_ok E tiles \<longleftrightarrow> tiles 0 = {} \<and>
     (\<forall>old n. 0 \<le> old \<and> old \<le> n \<longrightarrow> tiles n \<subseteq> tiles old \<union> set (new_tiles E TileHeight old n)) \<and>
     (\<forall>t hs xs d. tile_data E hs t d \<longrightarrow> tile_data E (hs @ xs) t d) \<and>
     (\<forall>t hs d. 0 \<le> Tile_W t \<and> (\<forall>h \<in> set hs. length h = 32) \<and> tile_data E hs t d \<longrightarrow> int (length d) = Tile_W t * HashSize) \<and>
     (\<forall>n d r hs. stored_hashes E n d r = Inr hs \<longrightarrow> (\<forall>h \<in> set hs. length h = 32)) \<and>
     (\<forall>n hs xs h. tree_hash E n (op_hashReader hs) = Inr h \<longrightarrow> tree_hash E n (op_hashReader (hs @ xs)) = Inr h)"

text \<open>
  A tile reader that is given the tiles of a tree reads its hashes; and over such a reader every proof
  for trees and records of the log is made and passes its check.
\<close>

definition proofs_ok :: "('b, 'd, 'x) store_ops_scheme \<Rightarrow> (int \<Rightarrow> tile set) \<Rightarrow> bool" where
  "proofs_ok E tiles \<longleftrightarrow>
     (\<forall>ds hs tree tr. log_hashes E 0 [] ds = Some hs \<and> 0 \<le> Tree_N tree \<and> Tree_N tree \<le> int (length ds) \<and>
        hashes_to E hs tree \<and> (\<forall>t \<in> tiles (Tree_N tree). \<exists>d. tile_data E hs t d) \<and>
        (\<forall>ts vs. set ts \<subseteq> tiles (Tree_N tree) \<and> list_all2 (tile_data E hs) ts vs \<longrightarrow> tr ts = Inr vs) \<longrightarrow>
        reads_hashes (tile_hash_reader E tree tr) hs (stored_hash_count E (Tree_N tree))) \<and>
     (\<forall>ds hs t u r. log_hashes E 0 [] ds = Some hs \<and> Tree_N u \<le> int (length ds) \<and> 0 < Tree_N t \<and> Tree_N t \<le> Tree_N u \<and>
        hashes_to E hs t \<and> hashes_to E hs u \<and> reads_hashes r hs (stored_hash_count E (Tree_N u)) \<longrightarrow>
        (\<exists>p. prove_tree E (Tree_N u) (Tree_N t) r = Inr p \<and>
          check_tree E p (Tree_N u) (Tree_Hash u) (Tree_N t) (Tree_Hash t))) \<and>
     (\<forall>ds hs u i r. log_hashes E 0 [] ds = Some hs \<and> Tree_N u \<le> int (length ds) \<and> 0 \<le> i \<and> i < Tree_N u \<and>
        hashes_to E hs u \<and> reads_hashes r hs (stored_hash_count E (Tree_N u)) \<longrightarrow>
        (\<exists>p. prove_record E (Tree_N u) i r = Inr p \<and>
          check_record E p (Tree_N u) (Tree_Hash u) i (record_hash E (ds ! nat i))))"

lemma log_hashes_snoc:
  "log_hashes E n hs ds = Some ys \<Longrightarrow> stored_hashes E (n + int (length ds)) d (op_hashReader ys) = Inr x \<Longrightarrow>
   log_hashes E n hs (ds @ [d]) = Some (ys @ x)"
  by (induction E n hs ds rule: log_hashes.induct) (auto simp: algebra_simps split: sum.splits)

lemma log_hashes_32:
  "tiles_ok E tiles \<Longrightarrow> log_hashes E n hs ds = Some ys \<Longrightarrow> \<forall>h \<in> set hs. length h = 32 \<Longrightarrow> \<forall>h \<in> set ys. length h = 32"
proof (induction E n hs ds rule: log_hashes.induct)
  case (2 E n hs d ds)
  from "2.prems"(2) obtain x where x: "stored_hashes E n d (op_hashReader hs) = Inr x" "log_hashes E (n + 1) (hs @ x) ds = Some ys"
    by (auto split: sum.splits)
  have "\<forall>h \<in> set x. length h = 32" using "2.prems"(1) x(1) unfolding tiles_ok_def by blast
  with "2.prems"(3) have "\<forall>h \<in> set (hs @ x). length h = 32" by auto
  with "2.IH" [OF x(1) "2.prems"(1) x(2)] show ?case by blast
qed simp

subsection \<open>The tiles in the operator's stores\<close>

abbreviation op_entry :: "('b, 'd, 'x) store_ops_scheme \<Rightarrow> ('b, 'd) operator \<Rightarrow> bytes \<Rightarrow> timeline_entry option" where
  "op_entry E a k \<equiv> doc_exact E (op_doc a) (op_namespace a) (op_author a) k"

abbreviation tile_key_ok :: "tile \<Rightarrow> bool" where
  "tile_key_ok t \<equiv> key_ok (TileKey t)"

text \<open>Every tile that is stored holds its data; \<open>tile_there\<close> says that one is stored.\<close>

definition tile_inv :: "('b, 'd, 'x) store_ops_scheme \<Rightarrow> ('b, 'd) operator \<Rightarrow> bool" where
  "tile_inv E a \<longleftrightarrow> (\<forall>t. tile_key_ok t \<and> op_entry E a (tileKey E t) \<noteq> None \<longrightarrow>
     (\<exists>d. tile_data E (op_hashes a) t d \<and> op_reads E a (tileKey E t) d))"

definition tile_there :: "('b, 'd, 'x) store_ops_scheme \<Rightarrow> ('b, 'd) operator \<Rightarrow> tile \<Rightarrow> bool" where
  "tile_there E a t \<longleftrightarrow> tile_key_ok t \<and> op_entry E a (tileKey E t) \<noteq> None"

lemma write_ids [simp]:
  "op_namespace (op_write E t x d h b' a) = op_namespace a" "op_author (op_write E t x d h b' a) = op_author a"
  "op_hashes (op_write E t x d h b' a) = op_hashes a" "op_blobs (op_write E t x d h b' a) = b'"
  by (simp_all add: op_write_def putTimeline_def)

lemma write_other:
  assumes "store_ok E" and "tile_path_ok E" and "key_ok x" and "key_ok y" and "x \<noteq> y"
  shows "op_entry E (op_write E t x d h b' a) (key_bytes E y) = op_entry E a (key_bytes E y)"
proof -
  have law: "\<forall>d e time ns a k. doc_exact E (doc_put E d e time) ns a k \<noteq> doc_exact E d ns a k \<longrightarrow>
      (ns, a) = (te_namespace e, te_author e) \<and> prefix (te_key e) k"
    using assms(1) unfolding store_ok_def by blast
  have "\<not> prefix (key_bytes E x) (key_bytes E y)" by (rule other_key [OF assms(2-5)])
  with law [rule_format, of "op_doc a" "\<lparr>te_namespace = op_namespace a, te_author = op_author a,
      te_key = key_bytes E x, te_hash = h, te_len = of_nat (length d)\<rparr>" t "op_namespace a" "op_author a" "key_bytes E y"]
  show ?thesis by (auto simp: op_write_def putTimeline_def)
qed

lemma write_same:
  assumes "store_ok E" and "op_entry E (op_write E t x d h b' a) (key_bytes E x) = Some e"
  shows "e = \<lparr>te_namespace = op_namespace a, te_author = op_author a, te_key = key_bytes E x, te_hash = h,
      te_len = of_nat (length d)\<rparr> \<or> op_entry E a (key_bytes E x) = Some e"
proof -
  have "\<forall>d e time ns a k x. doc_exact E (doc_put E d e time) ns a k = Some x \<longrightarrow>
        x = e \<and> (ns, a, k) = (te_namespace e, te_author e, te_key e) \<or> doc_exact E d ns a k = Some x"
    using assms(1) unfolding store_ok_def by blast
  with assms(2) show ?thesis by (fastforce simp: op_write_def putTimeline_def)
qed

lemma write_stored:
  assumes "store_ok E" and "tile_path_ok E" and "keys_inv E n a" and "n < 2 ^ 63" and "key_ok x"
  shows "op_entry E (op_write E t x d h b' a) (key_bytes E x) \<noteq> None"
proof (cases "op_entry E a (key_bytes E x) = None")
  case False
  have "\<forall>d e time. doc_exact E d (te_namespace e) (te_author e) (te_key e) \<noteq> None \<longrightarrow>
      doc_exact E (doc_put E d e time) (te_namespace e) (te_author e) (te_key e) \<noteq> None"
    using assms(1) unfolding store_ok_def by blast
  from this [rule_format, of "op_doc a" "\<lparr>te_namespace = op_namespace a, te_author = op_author a,
      te_key = key_bytes E x, te_hash = h, te_len = of_nat (length d)\<rparr>" t] False
  show ?thesis by (simp add: op_write_def putTimeline_def)
next
  case True
  have "op_entry E a k' = None" if "prefix k' (key_bytes E x)" for k'
  proof (rule ccontr)
    assume "op_entry E a k' \<noteq> None"
    with assms(3) obtain y where y: "k' = key_bytes E y" "key_within n y" by (auto simp: keys_inv_def)
    have "key_ok y" by (rule key_within_ok [OF y(2) assms(4)])
    with other_key [OF assms(2) _ assms(5)] that y(1) have "y = x" by blast
    with True \<open>op_entry E a k' \<noteq> None\<close> y(1) show False by simp
  qed
  moreover have "\<forall>d e time. (\<forall>k. prefix k (te_key e) \<longrightarrow> doc_exact E d (te_namespace e) (te_author e) k = None) \<longrightarrow>
      doc_exact E (doc_put E d e time) (te_namespace e) (te_author e) (te_key e) = Some e"
    using assms(1) unfolding store_ok_def by blast
  from this [rule_format, of "\<lparr>te_namespace = op_namespace a, te_author = op_author a,
      te_key = key_bytes E x, te_hash = h, te_len = of_nat (length d)\<rparr>" "op_doc a" t] calculation
  show ?thesis by (simp add: op_write_def putTimeline_def)
qed

text \<open>A write of an entry, a checkpoint, or the data of a tile keeps every stored tile.\<close>

lemma write_tiles:
  fixes tm :: u64
  assumes E: "store_ok E" "tile_path_ok E" and add: "blob_add E (op_blobs a) d = Some (b', h)"
    and x: "key_ok x" "\<And>t. x = TileKey t \<Longrightarrow> tile_data E (op_hashes a) t d" and inv: "tile_inv E a"
    and keys: "keys_inv E n a" "n < 2 ^ 63"
  defines "b \<equiv> op_write E tm x d h b' a"
  shows "tile_inv E b" and "tile_there E a t \<Longrightarrow> tile_there E b t"
proof -
  have blob: "blob_get E b' h' = Some v" if "blob_get E (op_blobs a) h' = Some v" for h' v
    by (rule blob_add_keeps [OF E(1) add that])
  have other: "op_entry E b (tileKey E t) = op_entry E a (tileKey E t)" if "tile_key_ok t" "x \<noteq> TileKey t" for t
    unfolding b_def key_bytes_simps(3) by (rule write_other [OF E x(1) that])
  have reads_other: "op_reads E b (tileKey E t) v" if "tile_key_ok t" "x \<noteq> TileKey t" "op_reads E a (tileKey E t) v" for t v
    using other [OF that(1,2)] that(3) blob by (auto simp: op_reads_iff b_def)
  have "\<exists>v. tile_data E (op_hashes b) t v \<and> op_reads E b (tileKey E t) v"
    if t: "tile_key_ok t" "op_entry E b (tileKey E t) \<noteq> None" for t
  proof (cases "x = TileKey t")
    case False
    with other t have "op_entry E a (tileKey E t) \<noteq> None" by simp
    with inv t(1) obtain v where "tile_data E (op_hashes a) t v" "op_reads E a (tileKey E t) v"
      unfolding tile_inv_def by blast
    with reads_other [OF t(1) False] show ?thesis by (auto simp: b_def)
  next
    case True
    from t(2) obtain e where e: "op_entry E b (tileKey E t) = Some e" by blast
    have k: "tileKey E t = key_bytes E x" by (simp add: True key_bytes_def)
    have "blob_get E b' (te_hash e) = Some d \<and> te_len e = of_nat (length d)"
    proof (cases "op_entry E a (tileKey E t) = Some e")
      case True
      with inv t(1) obtain v where "tile_data E (op_hashes a) t v" "op_reads E a (tileKey E t) v"
        unfolding tile_inv_def by blast
      with x(2) \<open>x = TileKey t\<close> True blob show ?thesis by (auto simp: op_reads_iff)
    next
      case False
      have "e = \<lparr>te_namespace = op_namespace a, te_author = op_author a, te_key = key_bytes E x, te_hash = h,
          te_len = of_nat (length d)\<rparr>"
        using write_same [OF E(1), of tm x d h b' a e] e False unfolding b_def k by blast
      then show ?thesis using blob_add_get [OF E(1) add] by simp
    qed
    with e have "op_reads E b (tileKey E t) d" by (simp add: op_reads_iff b_def)
    with x(2) [OF True] show ?thesis by (auto simp: b_def)
  qed
  then show "tile_inv E b" unfolding tile_inv_def by blast
  assume t: "tile_there E a t"
  show "tile_there E b t"
  proof (cases "x = TileKey t")
    case False
    with other t show ?thesis by (simp add: tile_there_def)
  next
    case True
    with write_stored [OF E keys x(1), of tm d h b'] t show ?thesis
      by (simp add: tile_there_def b_def key_bytes_def)
  qed
qed

lemma tiles_cong:
  assumes "op_doc a = op_doc b" "op_blobs a = op_blobs b" "op_namespace a = op_namespace b" "op_author a = op_author b"
    and "op_hashes a = op_hashes b"
  shows "tile_inv E a = tile_inv E b" and "tile_there E a t = tile_there E b t"
  using assms by (simp_all add: tile_inv_def tile_there_def op_reads_iff)

lemma new_tile_key: "tlog_write_ok E \<Longrightarrow> t \<in> set (new_tiles E TileHeight old n) \<Longrightarrow> tile_key_ok t"
  unfolding tlog_write_ok_def key_ok_def by fastforce

lemma publish_tiles_there:
  assumes E: "store_ok E" "tile_path_ok E" and "\<forall>t \<in> set ts. tile_key_ok t"
    and "keys_inv E (op_size a) a" and "op_size a < 2 ^ 63" and "tile_inv E a"
    and "publish_tiles E clock i ts a = (b, r)"
  shows "tile_inv E b \<and> (\<forall>t. tile_there E a t \<longrightarrow> tile_there E b t) \<and>
    (r = Inr () \<longrightarrow> (\<forall>t \<in> set ts. tile_there E b t))"
  using assms(3-)
proof (induction ts arbitrary: i a)
  case (Cons t ts)
  show ?case
  proof (cases "read_tile_data E t (op_hashReader (op_hashes a))")
    case data: (Inr data)
    show ?thesis
    proof (cases "blob_add E (op_blobs a) data")
      case (Some p)
      then obtain b' h where add: "blob_add E (op_blobs a) data = Some (b', h)" by (cases p) auto
      let ?c = "op_write E (clock i) (TileKey t) data h b' a"
      have ok: "key_ok (TileKey t)" using Cons.prems(1) by simp
      then have within: "key_within n (TileKey t)" for n by (simp add: key_within_def key_ok_def)
      have tiles: "tile_inv E ?c" "\<And>u. tile_there E a u \<Longrightarrow> tile_there E ?c u"
        using write_tiles [OF E add ok _ Cons.prems(4,2,3)] data by simp_all
      have there: "tile_there E ?c t"
        using write_stored [OF E Cons.prems(2,3) ok] ok by (simp add: tile_there_def key_bytes_simps(3))
      have keys: "keys_inv E (op_size a) ?c"
        unfolding op_write_def by (rule write_keys [OF E(1) Cons.prems(2) within])
      have same: "op_size ?c = op_size a" using write_frame [of a E "clock i"] by (simp add: op_frame_def)
      have rest: "publish_tiles E clock (Suc i) ts ?c = (b, r)"
        using Cons.prems(5) data add by (simp add: op_write_def key_bytes_def)
      have "tile_inv E b \<and> (\<forall>t. tile_there E ?c t \<longrightarrow> tile_there E b t) \<and>
          (r = Inr () \<longrightarrow> (\<forall>t \<in> set ts. tile_there E b t))"
        by (rule Cons.IH [OF _ _ _ _ rest]) (use Cons.prems keys tiles(1) same in simp_all)
      with tiles(2) there show ?thesis by auto
    qed (use data Cons.prems in auto)
  qed (use Cons.prems in auto)
qed simp

subsection \<open>The operator's stores hold the log\<close>

text \<open>
  The records \<open>ds\<close> appended so far, the stored hashes built from them, and the tiles of every tree
  whose size is in \<open>P\<close>, the published sizes.
\<close>

definition log_inv ::
  "('b, 'd, 'x) store_ops_scheme \<Rightarrow> (int \<Rightarrow> tile set) \<Rightarrow> int set \<Rightarrow> bytes list \<Rightarrow> ('b, 'd) operator \<Rightarrow> bool" where
  "log_inv E tiles P ds a \<longleftrightarrow> op_inv E a \<and> log_hashes E 0 [] ds = Some (op_hashes a) \<and> op_size a = int (length ds) \<and>
     (\<forall>i < length ds. op_reads E a (entryKey (int i)) (ds ! i)) \<and> tile_inv E a \<and> op_published a \<in> P \<and>
     (\<forall>n \<in> P. n \<le> op_size a \<and> (\<forall>t \<in> tiles n. tile_there E a t))"

lemma append_log:
  assumes "op_laws E" and "tiles_ok E tiles" and "log_inv E tiles P ds a" and "op_size a + 1 < 2 ^ 63"
    and "Operator_append E t entry a = (b, Inr i)"
  shows "log_inv E tiles P (ds @ [entry]) b"
proof -
  have E: "store_ok E" "tile_path_ok E" using assms(1) by (simp_all add: op_laws_def)
  have a: "op_inv E a" "log_hashes E 0 [] ds = Some (op_hashes a)" "op_size a = int (length ds)"
    "\<forall>i < length ds. op_reads E a (entryKey (int i)) (ds ! i)" "tile_inv E a" "op_published a \<in> P"
    "\<forall>n \<in> P. n \<le> op_size a \<and> (\<forall>t \<in> tiles n. tile_there E a t)"
    using assms(3) unfolding log_inv_def by blast+
  note inv = append_inv [OF assms(1) a(1) assms(4,5)]
  obtain hs b' h c where w: "stored_hashes E (op_size a) entry (op_hashReader (op_hashes a)) = Inr hs"
    "blob_add E (op_blobs a) entry = Some (b', h)" "i = op_size a"
    and c: "c = op_write E t (EntryKey (op_size a)) entry h b' a"
    and b: "b = c\<lparr>op_hashes := op_hashes a @ hs, op_size := op_size a + 1\<rparr>"
    by (rule append_ok [OF assms(5)])
  have keys: "keys_inv E (op_size a) a" using a(1) by (simp add: op_inv_def)
  have small: "op_size a < 2 ^ 63" using assms(4) by simp
  have ok: "key_ok (EntryKey (op_size a))" using a(3) small by (simp add: key_ok_def)
  have ct: "tile_inv E c" "\<And>u. tile_there E a u \<Longrightarrow> tile_there E c u"
    unfolding c using write_tiles [OF E w(2) ok _ a(5) keys small] by simp_all
  have reads: "op_reads E b k x = op_reads E c k x" for k x by (rule reads_cong) (simp_all add: b)
  have grown: "tile_data E (op_hashes b) u d" if "tile_data E (op_hashes c) u d" for u d
    using assms(2) that unfolding tiles_ok_def by (simp add: b c)
  have "tile_inv E b"
    using ct(1) grown unfolding tile_inv_def reads by (simp add: b) blast
  moreover have "tile_there E b u" if "tile_there E a u" for u
    using ct(2) [OF that] by (simp add: tile_there_def b)
  moreover have "op_reads E b (entryKey (int j)) ((ds @ [entry]) ! j)" if "j < length (ds @ [entry])" for j
  proof (cases "j < length ds")
    case True
    with inv a(3,4) small show ?thesis by (simp add: op_keeps_def nth_append)
  next
    case False
    with that have "j = length ds" by simp
    with inv a(3) show ?thesis by auto
  qed
  moreover have "log_hashes E 0 [] (ds @ [entry]) = Some (op_hashes b)"
    using log_hashes_snoc [OF a(2), of entry hs] w(1) a(3) by (simp add: b)
  moreover have "op_published b = op_published a" using write_frame [of a E t] by (simp add: b c op_frame_def)
  ultimately show ?thesis using inv a by (auto simp: log_inv_def)
qed

lemma publish_log:
  assumes "op_laws E" and "tiles_ok E tiles" and "log_inv E tiles P ds a" and "op_size a + 1 < 2 ^ 63"
    and "Operator_publish E clock a = (b, r)"
  shows "log_inv E tiles (insert (op_published b) P) ds b"
proof -
  have E: "store_ok E" "tile_path_ok E" "tlog_write_ok E" using assms(1) by (simp_all add: op_laws_def)
  have a: "op_inv E a" "log_hashes E 0 [] ds = Some (op_hashes a)" "op_size a = int (length ds)"
    "\<forall>i < length ds. op_reads E a (entryKey (int i)) (ds ! i)" "tile_inv E a" "op_published a \<in> P"
    "\<forall>n \<in> P. n \<le> op_size a \<and> (\<forall>t \<in> tiles n. tile_there E a t)"
    using assms(3) unfolding log_inv_def by blast+
  have pub: "0 \<le> op_published a" "op_published a \<le> op_size a" "keys_inv E (op_size a) a"
    using a(1) by (simp_all add: op_inv_def)
  have small: "op_size a < 2 ^ 63" using assms(4) by simp
  note inv = publish_inv [OF assms(1) a(1) assms(4,5)]
  let ?ts = "new_tiles E TileHeight (op_published a) (op_size a)"
  obtain c q where c: "publish_tiles E clock 0 ?ts a = (c, q)" by (cases "publish_tiles E clock 0 ?ts a")
  have keyok: "\<forall>t \<in> set ?ts. tile_key_ok t" using new_tile_key [OF E(3)] by blast
  from publish_tiles_there [OF E(1,2) keyok pub(3) small a(5) c]
  have ct: "tile_inv E c" "\<And>t. tile_there E a t \<Longrightarrow> tile_there E c t"
    "\<And>t. q = Inr () \<Longrightarrow> t \<in> set ?ts \<Longrightarrow> tile_there E c t" by simp_all
  have width: "\<forall>t \<in> set ?ts. 0 < Tile_W t \<and> Tile_W t \<le> 256" using E(3) by (simp add: tlog_write_ok_def)
  have frame: "op_frame a c" "keys_inv E (op_size a) c"
    using publish_tiles_keeps [OF E(1,2) width pub(3) assms(4) _ c] a(3) by simp_all
  have hashes: "op_hashes b = op_hashes a"
    using publish_keeps [OF E pub(3) _ assms(4,5)] a(3) by simp
  have there: "tile_inv E b \<and> (\<forall>t. tile_there E a t \<longrightarrow> tile_there E b t) \<and>
      (op_published b \<noteq> op_published a \<longrightarrow> op_published b = op_size a \<and> (\<forall>t \<in> set ?ts. tile_there E b t))"
  proof (cases "b = c")
    case True
    with ct frame show ?thesis by (simp add: op_frame_def)
  next
    case False
    with assms(5) c obtain msg b' h where add: "blob_add E (op_blobs c) msg = Some (b', h)" and q: "q = Inr ()"
      and b: "b = (op_write E (clock (length ?ts)) (CheckpointKey (op_size a)) msg h b' c)
        \<lparr>op_published := op_size a, op_checkpoint := Some msg\<rparr>"
      by (auto simp: Operator_publish_def Let_def op_write_def key_bytes_def
          split: sum.splits option.splits)
    define d where "d = op_write E (clock (length ?ts)) (CheckpointKey (op_size a)) msg h b' c"
    have ok: "key_ok (CheckpointKey (op_size a))" using small a(3) by (simp add: key_ok_def)
    have dt: "tile_inv E d" "\<And>t. tile_there E c t \<Longrightarrow> tile_there E d t"
      unfolding d_def using write_tiles [OF E(1,2) add ok _ ct(1) frame(2) small] by simp_all
    have bd: "tile_inv E b = tile_inv E d" "\<And>t. tile_there E b t = tile_there E d t"
      unfolding b d_def [symmetric] by (rule tiles_cong; simp)+
    have "op_published b = op_size a" by (simp add: b)
    then show ?thesis using dt ct(2,3) q by (auto simp: bd)
  qed
  have new: "tile_there E b t" if "t \<in> tiles (op_published b)" for t
  proof (cases "op_published b = op_published a")
    case True
    with that there a(6,7) show ?thesis by auto
  next
    case False
    have "tiles (op_size a) \<subseteq> tiles (op_published a) \<union> set ?ts"
      using assms(2) pub(1,2) unfolding tiles_ok_def by blast
    with False that there a(6,7) show ?thesis by auto
  qed
  have "op_published b \<le> op_size b" using inv by (simp add: op_inv_def)
  moreover have "op_reads E b (entryKey (int i)) (ds ! i)" if "i < length ds" for i
    using inv a(3,4) that small by (simp add: op_keeps_def)
  ultimately show ?thesis
    using inv a there new hashes by (auto simp: log_inv_def)
qed

text \<open>The records of a run: the entries whose append succeeds.\<close>

fun appended :: "('b, 'd, 'x) store_ops_scheme \<Rightarrow> operator_op list \<Rightarrow> ('b, 'd) operator \<Rightarrow> bytes list" where
  "appended E [] a = []"
| "appended E (OpPublish d clock # ops) a = appended E ops (operator_step E (OpPublish d clock) a)"
| "appended E (OpAppend d t entry # ops) a =
     (case snd (Operator_Append E d t entry a) of Inl _ \<Rightarrow> [] | Inr _ \<Rightarrow> [entry])
       @ appended E ops (operator_step E (OpAppend d t entry) a)"

lemma step_log:
  assumes "op_laws E" and "tiles_ok E tiles" and "log_inv E tiles P ds a" and "op_size (operator_step E p a) + 1 < 2 ^ 63"
  shows "\<exists>Q. P \<subseteq> Q \<and> log_inv E tiles Q (ds @ appended E [p] a) (operator_step E p a)"
proof -
  have small: "op_size a + 1 < 2 ^ 63" using assms(4) step_size [of a E p] by simp
  show ?thesis
  proof (cases p)
    case (OpAppend d t entry)
    obtain b r where b: "Operator_append E t entry a = (b, r)" by (cases "Operator_append E t entry a")
    show ?thesis
    proof (cases "d \<or> (\<exists>e. r = Inl e)")
      case True
      with OpAppend b assms(3) append_failed [of E t entry a b] show ?thesis
        by (intro exI [of _ P]) (auto simp: Operator_Append_def)
    next
      case False
      then obtain i where "r = Inr i" by (cases r) auto
      with append_log [OF assms(1-3) small] OpAppend b False show ?thesis
        by (intro exI [of _ P]) (simp add: Operator_Append_def)
    qed
  next
    case (OpPublish d clock)
    obtain b r where b: "Operator_publish E clock a = (b, r)" by (cases "Operator_publish E clock a")
    with publish_log [OF assms(1-3) small b] OpPublish assms(3) show ?thesis
      by (cases d) (auto simp: Operator_Publish_def)
  qed
qed

lemma appended_Cons: "appended E (p # ops) a = appended E [p] a @ appended E ops (operator_step E p a)"
  by (cases p) simp_all

lemma run_log:
  assumes "op_laws E" and "tiles_ok E tiles"
  shows "log_inv E tiles P ds a \<Longrightarrow> op_size (fold (operator_step E) ops a) + 1 < 2 ^ 63 \<Longrightarrow>
    \<exists>Q. P \<subseteq> Q \<and> log_inv E tiles Q (ds @ appended E ops a) (fold (operator_step E) ops a)"
proof (induction ops arbitrary: P ds a)
  case (Cons p ops)
  let ?b = "operator_step E p a"
  have small: "op_size ?b + 1 < 2 ^ 63" using Cons.prems(2) run_size [of ?b E ops] by simp
  from step_log [OF assms Cons.prems(1) small] obtain Q where
    Q: "P \<subseteq> Q" "log_inv E tiles Q (ds @ appended E [p] a) ?b" by blast
  from Cons.IH [OF Q(2)] Cons.prems(2) obtain R where
    "Q \<subseteq> R" "log_inv E tiles R ((ds @ appended E [p] a) @ appended E ops ?b) (fold (operator_step E) ops ?b)"
    by auto
  with Q(1) show ?case using appended_Cons [of E p ops a] by (intro exI [of _ R]) auto
qed auto

lemma NewOperator_log:
  assumes "op_laws E" and "tiles_ok E tiles" and "NewOperator origin sg blobs doc ns au = Inr a"
    and "\<forall>k. doc_exact E doc ns au k = None"
  shows "log_inv E tiles {0} [] a"
  using NewOperator_inv [OF assms(1,3,4)] assms(2-4)
  by (auto simp: NewOperator_def log_inv_def tile_inv_def tiles_ok_def split: if_splits option.splits)

subsection \<open>Reading it back\<close>

lemma ReadTiles_data:
  assumes "tiles_ok E tiles" and "log_inv E tiles P ds a" and "n \<in> P"
    and "set ts \<subseteq> tiles n" and "list_all2 (tile_data E (op_hashes a)) ts vs"
  shows "ReadTiles E (Operator_Source E a) ts = Inr vs"
  using assms(5,4)
proof (induction ts vs rule: list_all2_induct)
  case (Cons t ts v vs)
  have a: "log_hashes E 0 [] ds = Some (op_hashes a)" "tile_inv E a" "tile_there E a t"
    using assms(2,3) Cons.prems unfolding log_inv_def by auto
  then obtain d where d: "tile_data E (op_hashes a) t d" "op_reads E a (tileKey E t) d"
    unfolding tile_inv_def tile_there_def by blast
  have "\<forall>h \<in> set (op_hashes a). length h = 32" by (rule log_hashes_32 [OF assms(1) a(1)]) simp
  moreover have "0 \<le> Tile_W t" using a(3) by (simp add: tile_there_def key_ok_def)
  ultimately have "int (length d) = Tile_W t * HashSize" using assms(1) d(1) unfolding tiles_ok_def by blast
  with Cons d show ?case by simp
qed simp

text \<open>The reader of a published tree, at any later state, reads the hashes of the log.\<close>

lemma published_reader:
  assumes "tiles_ok E tiles" and "proofs_ok E tiles" and "log_inv E tiles P ds a" and "Tree_N t \<in> P" and "0 \<le> Tree_N t"
    and "hashes_to E (op_hashes a) t"
  shows "reads_hashes (hashReaderForTree E (Operator_Source E a) t) (op_hashes a) (stored_hash_count E (Tree_N t))"
proof -
  have a: "log_hashes E 0 [] ds = Some (op_hashes a)" "op_size a = int (length ds)" "tile_inv E a"
    "Tree_N t \<le> op_size a" "\<forall>u \<in> tiles (Tree_N t). tile_there E a u"
    using assms(3,4) unfolding log_inv_def by blast+
  have "\<forall>u \<in> tiles (Tree_N t). \<exists>d. tile_data E (op_hashes a) u d"
    using a(3,5) unfolding tile_inv_def tile_there_def by blast
  moreover have "\<forall>ts vs. set ts \<subseteq> tiles (Tree_N t) \<and> list_all2 (tile_data E (op_hashes a)) ts vs \<longrightarrow>
      ReadTiles E (Operator_Source E a) ts = Inr vs"
    using ReadTiles_data [OF assms(1,3,4)] by blast
  moreover have "\<forall>ds hs tree tr. log_hashes E 0 [] ds = Some hs \<and> 0 \<le> Tree_N tree \<and> Tree_N tree \<le> int (length ds) \<and>
        hashes_to E hs tree \<and> (\<forall>t \<in> tiles (Tree_N tree). \<exists>d. tile_data E hs t d) \<and>
        (\<forall>ts vs. set ts \<subseteq> tiles (Tree_N tree) \<and> list_all2 (tile_data E hs) ts vs \<longrightarrow> tr ts = Inr vs) \<longrightarrow>
        reads_hashes (tile_hash_reader E tree tr) hs (stored_hash_count E (Tree_N tree))"
    using assms(2) unfolding proofs_ok_def by blast
  ultimately show ?thesis
    using assms(5,6) a(1,2,4) unfolding hashReaderForTree_def by simp
qed

lemma provable_consistency:
  assumes "tiles_ok E tiles" and "proofs_ok E tiles" and "log_inv E tiles P ds a" and "Tree_N u \<in> P"
    and "hashes_to E (op_hashes a) u" and "hashes_to E (op_hashes a) t" and "0 < Tree_N t" and "Tree_N t \<le> Tree_N u"
  shows "\<exists>p. prove_tree E (Tree_N u) (Tree_N t) (hashReaderForTree E (Operator_Source E a) u) = Inr p \<and>
    check_tree E p (Tree_N u) (Tree_Hash u) (Tree_N t) (Tree_Hash t)"
proof -
  have r: "reads_hashes (hashReaderForTree E (Operator_Source E a) u) (op_hashes a) (stored_hash_count E (Tree_N u))"
    by (rule published_reader [OF assms(1-4) _ assms(5)]) (use assms(7,8) in simp)
  have a: "log_hashes E 0 [] ds = Some (op_hashes a)" "Tree_N u \<le> int (length ds)"
    using assms(3,4) unfolding log_inv_def by auto
  have "\<forall>ds hs t u r. log_hashes E 0 [] ds = Some hs \<and> Tree_N u \<le> int (length ds) \<and> 0 < Tree_N t \<and> Tree_N t \<le> Tree_N u \<and>
        hashes_to E hs t \<and> hashes_to E hs u \<and> reads_hashes r hs (stored_hash_count E (Tree_N u)) \<longrightarrow>
        (\<exists>p. prove_tree E (Tree_N u) (Tree_N t) r = Inr p \<and>
          check_tree E p (Tree_N u) (Tree_Hash u) (Tree_N t) (Tree_Hash t))"
    using assms(2) unfolding proofs_ok_def by blast
  with a r assms(5-8) show ?thesis by blast
qed

lemma provable_entry:
  assumes "tiles_ok E tiles" and "proofs_ok E tiles" and "log_inv E tiles P ds a" and "Tree_N u \<in> P"
    and "hashes_to E (op_hashes a) u" and "i < length ds" and "int i < Tree_N u"
  shows "Client_entry E (Operator_Source E a) \<lparr>Origin = org, Tree = u\<rparr> (int i) = Inr (ds ! i)"
proof -
  have r: "reads_hashes (hashReaderForTree E (Operator_Source E a) u) (op_hashes a) (stored_hash_count E (Tree_N u))"
    by (rule published_reader [OF assms(1-4) _ assms(5)]) (use assms(7) in simp)
  have a: "log_hashes E 0 [] ds = Some (op_hashes a)" "Tree_N u \<le> int (length ds)"
    "op_reads E a (entryKey (int i)) (ds ! i)"
    using assms(3,4,6) unfolding log_inv_def by auto
  have "\<forall>ds hs u i r. log_hashes E 0 [] ds = Some hs \<and> Tree_N u \<le> int (length ds) \<and> 0 \<le> i \<and> i < Tree_N u \<and>
        hashes_to E hs u \<and> reads_hashes r hs (stored_hash_count E (Tree_N u)) \<longrightarrow>
        (\<exists>p. prove_record E (Tree_N u) i r = Inr p \<and>
          check_record E p (Tree_N u) (Tree_Hash u) i (record_hash E (ds ! nat i)))"
    using assms(2) unfolding proofs_ok_def by blast
  from this [rule_format, of ds "op_hashes a" u "int i"] a r assms(5,7)
  obtain p where "prove_record E (Tree_N u) (int i) (hashReaderForTree E (Operator_Source E a) u) = Inr p"
    "check_record E p (Tree_N u) (Tree_Hash u) (int i) (record_hash E (ds ! i))" by auto
  with a(3) assms(7) show ?thesis by (simp add: Client_entry_def)
qed

lemma publish_tiles_hashes: "publish_tiles E clock i ts a = (c, q) \<Longrightarrow> op_hashes c = op_hashes a"
  by (induction E clock i ts a rule: publish_tiles.induct)
    (auto simp: putTimeline_def split: sum.splits option.splits)

lemma step_hashes: "\<exists>hs. op_hashes (operator_step E p a) = op_hashes a @ hs"
proof (cases p)
  case (OpAppend d t entry)
  then show ?thesis
    by (auto simp: Operator_Append_def Operator_append_def Let_def putTimeline_def split: sum.splits option.splits)
next
  case (OpPublish d clock)
  then show ?thesis
    by (auto simp: Operator_Publish_def Operator_publish_def Let_def putTimeline_def
        dest!: publish_tiles_hashes split: prod.splits sum.splits option.splits)
qed

lemma run_hashes: "\<exists>hs. op_hashes (fold (operator_step E) ops a) = op_hashes a @ hs"
proof (induction ops arbitrary: a)
  case (Cons p ops)
  from Cons.IH [of "operator_step E p a"] step_hashes [of E p a] show ?case by auto
qed simp

text \<open>A client whose head is a tree of the log accepts a later published tree of it.\<close>

lemma update_served:
  assumes laws: "tiles_ok E tiles" "proofs_ok E tiles" and z: "log_inv E tiles P ds z"
    and shown: "Policy_Open E (c_policy c) m = Inr cp" "Tree_N (Tree cp) \<in> P" "hashes_to E (op_hashes z) (Tree cp)"
    and head: "c_hasHead c \<Longrightarrow> Tree_N (Tree (c_head c)) \<le> Tree_N (Tree cp) \<and> hashes_to E (op_hashes z) (Tree (c_head c))"
  shows "\<exists>c'. Client_Update E (Operator_Source E z) False m c = (c', Inr (c_head c')) \<and> Tree (c_head c') = Tree cp \<and> c_hasHead c'"
proof (cases "c_hasHead c \<and> 0 < Tree_N (Tree (c_head c)) \<and> Tree_N (Tree (c_head c)) < Tree_N (Tree cp)")
  case True
  then have "\<exists>p. prove_tree E (Tree_N (Tree cp)) (Tree_N (Tree (c_head c))) (hashReaderForTree E (Operator_Source E z) (Tree cp)) = Inr p \<and>
      check_tree E p (Tree_N (Tree cp)) (Tree_Hash (Tree cp)) (Tree_N (Tree (c_head c))) (Tree_Hash (Tree (c_head c)))"
    using shown head by (intro provable_consistency [OF laws z]) auto
  with True shown(1) show ?thesis by (auto simp: Client_Update_def Client_update_def Let_def)
next
  case False
  with head shown show ?thesis
    by (auto simp: Client_Update_def Client_update_def Let_def split: sum.splits intro: tree_eqI)
qed

subsection \<open>Properties\<close>


subsection \<open>Witnesses\<close>

text \<open>
  A flat log: a record is hashed by its first 32 bytes, a tree by its last record, a proof is the list
  of the hashes it speaks of, and a tile holds 256 record hashes.
\<close>

definition flat_hash :: "bytes \<Rightarrow> hash" where
  "flat_hash d = take 32 (d @ replicate 32 (CHR 0x00))"

lemma flat_hash_length: "length (flat_hash d) = 32"
  by (simp add: flat_hash_def)

lemma flat_hash_id [simp]: "length h = 32 \<Longrightarrow> flat_hash h = h"
  by (simp add: flat_hash_def)

definition flat_tile :: "int \<Rightarrow> int \<Rightarrow> tile" where
  "flat_tile n k = \<lparr>Tile_H = 8, Tile_L = 0, Tile_N = k, Tile_W = min 256 (n - 256 * k)\<rparr>"

definition flat_tiles :: "int \<Rightarrow> tile set" where
  "flat_tiles n = {flat_tile n k | k. 0 \<le> k \<and> 256 * k < n}"

definition flat_read :: "tile \<Rightarrow> hash_reader \<Rightarrow> tlog_error + bytes" where
  "flat_read t r = (case r (map (\<lambda>j. 256 * Tile_N t + int j) [0..<nat (Tile_W t)]) of
     Inl e \<Rightarrow> Inl e | Inr hs \<Rightarrow> Inr (concat hs))"

fun flat_reader :: "tree \<Rightarrow> tile_reader \<Rightarrow> hash_reader" where
  "flat_reader tree tr [] = Inr []"
| "flat_reader tree tr (i # is) =
     (case tr [flat_tile (Tree_N tree) (i div 256)] of
        Inl e \<Rightarrow> Inl e
      | Inr ds \<Rightarrow>
        (case flat_reader tree tr is of
           Inl e \<Rightarrow> Inl e
         | Inr hs \<Rightarrow> Inr (take 32 (drop (32 * nat (i mod 256)) (concat ds)) # hs)))"

definition flat_ops :: "((bytes list), (timeline_entry list)) store_ops" where
  "flat_ops = line_store_ops
     \<lparr>tile_hash_reader := flat_reader,
      prove_tree := (\<lambda>n m r. r [m - 1, n - 1]), check_tree := (\<lambda>p n h m g. p = [g, h]),
      prove_record := (\<lambda>n i r. r [i]), check_record := (\<lambda>p n h i rh. p = [rh]), record_hash := flat_hash,
      stored_hashes := (\<lambda>i d r. Inr [flat_hash d]),
      new_tiles := (\<lambda>h old new. map (\<lambda>k. flat_tile new (int k)) [nat (old div 256)..<nat ((new + 255) div 256)]),
      read_tile_data := flat_read,
      tree_hash := (\<lambda>n r. if n = 0 then Inr zero_hash else case r [n - 1] of Inl e \<Rightarrow> Inl e | Inr hs \<Rightarrow> Inr (flat_hash (hd hs)))\<rparr>"

lemma flat_simps:
  "tile_hash_reader flat_ops = flat_reader" "prove_tree flat_ops = (\<lambda>n m r. r [m - 1, n - 1])"
  "check_tree flat_ops = (\<lambda>p n h m g. p = [g, h])" "prove_record flat_ops = (\<lambda>n i r. r [i])"
  "check_record flat_ops = (\<lambda>p n h i rh. p = [rh])" "record_hash flat_ops = flat_hash"
  "stored_hashes flat_ops = (\<lambda>i d r. Inr [flat_hash d])"
  "new_tiles flat_ops = (\<lambda>h old new. map (\<lambda>k. flat_tile new (int k)) [nat (old div 256)..<nat ((new + 255) div 256)])"
  "read_tile_data flat_ops = flat_read"
  "tree_hash flat_ops = (\<lambda>n r. if n = 0 then Inr zero_hash else case r [n - 1] of Inl e \<Rightarrow> Inl e | Inr hs \<Rightarrow> Inr (flat_hash (hd hs)))"
  "stored_hash_count flat_ops = (\<lambda>n. n)" "blob_add flat_ops = blob_add demo_store_ops"
  "blob_get flat_ops = blob_get demo_store_ops" "doc_put flat_ops = doc_put demo_store_ops"
  "doc_exact flat_ops = doc_exact demo_store_ops" "tile_path flat_ops = tile_path demo_tlog_ops"
  "note_open flat_ops = line_open" "note_sign flat_ops = line_sign" "hash_str flat_ops = hash_str std_hash_ops"
  "parse_hash flat_ops = parse_hash std_hash_ops" "signs_lines flat_ops"
  by (simp_all add: flat_ops_def line_store_simps demo_store_simps signs_lines_def)
    (simp_all add: line_store_ops_def demo_store_simps)

lemma hashReader_valid:
  "\<forall>i \<in> set is. 0 \<le> i \<and> i < int (length hs) \<Longrightarrow> op_hashReader hs is = Inr (map (\<lambda>i. hs ! nat i) is)"
  by (induction "is") auto

lemma hashReader_Inr:
  "op_hashReader hs is = Inr xs \<longleftrightarrow> (\<forall>i \<in> set is. 0 \<le> i \<and> i < int (length hs)) \<and> xs = map (\<lambda>i. hs ! nat i) is"
proof -
  have "\<forall>i \<in> set is. 0 \<le> i \<and> i < int (length hs)" if "op_hashReader hs is = Inr xs"
    using that by (induction "is" arbitrary: xs) (auto split: if_splits sum.splits)
  then show ?thesis using hashReader_valid [of "is" hs] by auto
qed

lemma hashReader_append: "op_hashReader hs is = Inr xs \<Longrightarrow> op_hashReader (hs @ ys) is = Inr xs"
  by (auto simp: hashReader_Inr nth_append)

lemma take_drop_concat:
  "\<forall>x \<in> set xs. length x = 32 \<Longrightarrow> j < length xs \<Longrightarrow> take 32 (drop (32 * j) (concat xs)) = xs ! j"
proof (induction xs arbitrary: j)
  case (Cons x xs)
  then show ?case by (cases j) (simp_all add: algebra_simps flip: drop_drop)
qed simp

lemma flat_read_Inr:
  "flat_read t (op_hashReader hs) = Inr d \<longleftrightarrow>
     (\<forall>j < nat (Tile_W t). 0 \<le> 256 * Tile_N t + int j \<and> 256 * Tile_N t + int j < int (length hs)) \<and>
     d = concat (map (\<lambda>j. hs ! nat (256 * Tile_N t + int j)) [0..<nat (Tile_W t)])"
proof -
  let ?is = "map (\<lambda>j. 256 * Tile_N t + int j) [0..<nat (Tile_W t)]"
  have "flat_read t (op_hashReader hs) = Inr d \<longleftrightarrow> (\<exists>xs. op_hashReader hs ?is = Inr xs \<and> d = concat xs)"
    by (auto simp: flat_read_def split: sum.split)
  then show ?thesis unfolding hashReader_Inr by (auto simp: comp_def)
qed

lemma log_hashes_flat: "log_hashes flat_ops n hs ds = Some (hs @ map flat_hash ds)"
  by (induction ds arbitrary: n hs) (simp_all add: flat_simps)

lemma flat_tiles_ok: "tiles_ok flat_ops flat_tiles"
  unfolding tiles_ok_def
proof (intro conjI allI impI)
  show "flat_tiles 0 = {}" by (auto simp: flat_tiles_def)
next
  fix old n :: int assume o: "0 \<le> old \<and> old \<le> n"
  show "flat_tiles n \<subseteq> flat_tiles old \<union> set (new_tiles flat_ops TileHeight old n)"
  proof
    fix t assume "t \<in> flat_tiles n"
    then obtain k where k: "t = flat_tile n k" "0 \<le> k" "256 * k < n" by (auto simp: flat_tiles_def)
    show "t \<in> flat_tiles old \<union> set (new_tiles flat_ops TileHeight old n)"
    proof (cases "k < old div 256")
      case True
      then have "256 * k + 256 \<le> old" by linarith
      with o k have "t = flat_tile old k" "256 * k < old" by (simp_all add: flat_tile_def)
      with k(2) show ?thesis by (auto simp: flat_tiles_def)
    next
      case False
      have "k < (n + 255) div 256" using k(3) by linarith
      with False k(1,2) show ?thesis by (auto simp: flat_simps image_iff intro!: bexI [of _ "nat k"])
    qed
  qed
next
  fix t :: tile and hs xs d assume "read_tile_data flat_ops t (op_hashReader hs) = Inr d"
  then have j: "\<forall>j < nat (Tile_W t). 0 \<le> 256 * Tile_N t + int j \<and> 256 * Tile_N t + int j < int (length hs)"
    and d: "d = concat (map (\<lambda>j. hs ! nat (256 * Tile_N t + int j)) [0..<nat (Tile_W t)])"
    by (simp_all add: flat_simps flat_read_Inr)
  have "(hs @ xs) ! nat (256 * Tile_N t + int j) = hs ! nat (256 * Tile_N t + int j)" if "j < nat (Tile_W t)" for j
    using j that by (simp add: nth_append nat_less_iff)
  then have eq: "map (\<lambda>j. (hs @ xs) ! nat (256 * Tile_N t + int j)) [0..<nat (Tile_W t)] =
      map (\<lambda>j. hs ! nat (256 * Tile_N t + int j)) [0..<nat (Tile_W t)]" by simp
  have "\<forall>j < nat (Tile_W t). 256 * Tile_N t + int j < int (length (hs @ xs))" using j by force
  then show "read_tile_data flat_ops t (op_hashReader (hs @ xs)) = Inr d"
    using j unfolding flat_simps flat_read_Inr d eq by simp
next
  fix t :: tile and hs d assume a: "0 \<le> Tile_W t \<and> (\<forall>h \<in> set hs. length h = 32) \<and> read_tile_data flat_ops t (op_hashReader hs) = Inr d"
  then have j: "\<forall>j < nat (Tile_W t). 0 \<le> 256 * Tile_N t + int j \<and> 256 * Tile_N t + int j < int (length hs)"
    and d: "d = concat (map (\<lambda>j. hs ! nat (256 * Tile_N t + int j)) [0..<nat (Tile_W t)])"
    by (simp_all add: flat_simps flat_read_Inr)
  have "length (hs ! nat (256 * Tile_N t + int j)) = 32" if "j < nat (Tile_W t)" for j
    using a j that by (meson nat_less_iff nth_mem)
  then have "map length (map (\<lambda>j. hs ! nat (256 * Tile_N t + int j)) [0..<nat (Tile_W t)]) = replicate (nat (Tile_W t)) 32"
    by (intro nth_equalityI) auto
  then have "length d = nat (Tile_W t) * 32" unfolding d length_concat by (simp add: sum_list_replicate)
  then show "int (length d) = Tile_W t * HashSize" using a by (simp add: HashSize_def)
next
  fix n d r hs assume "stored_hashes flat_ops n d r = Inr hs"
  then show "\<forall>h \<in> set hs. length h = 32" by (auto simp: flat_simps flat_hash_def)
next
  fix n hs xs h assume "tree_hash flat_ops n (op_hashReader hs) = Inr h"
  then show "tree_hash flat_ops n (op_hashReader (hs @ xs)) = Inr h"
    by (auto simp: flat_simps nth_append nat_less_iff dest: hashReader_append split: if_splits sum.splits)
qed

lemma flat_reader_reads:
  fixes tree :: tree
  assumes "\<forall>h \<in> set hs. length h = 32" and "Tree_N tree \<le> int (length hs)"
    and "\<forall>ts vs. set ts \<subseteq> flat_tiles (Tree_N tree) \<and> list_all2 (tile_data flat_ops hs) ts vs \<longrightarrow> tr ts = Inr vs"
  shows "\<forall>i \<in> set is. 0 \<le> i \<and> i < Tree_N tree \<Longrightarrow> flat_reader tree tr is = op_hashReader hs is"
proof (induction "is")
  case (Cons i "is")
  let ?k = "i div 256"
  let ?t = "flat_tile (Tree_N tree) ?k"
  have k: "0 \<le> ?k" "256 * ?k \<le> i" "i < 256 * ?k + 256" "0 \<le> i" "i < Tree_N tree"
    using Cons.prems by auto
  have t: "?t \<in> flat_tiles (Tree_N tree)" using k by (force simp: flat_tiles_def)
  let ?w = "nat (min 256 (Tree_N tree - 256 * ?k))"
  let ?v = "map (\<lambda>j. hs ! nat (256 * ?k + int j)) [0..<?w]"
  have w: "nat (256 * ?k + int j) < length hs" if "j < ?w" for j using that k assms(2) by linarith
  have "flat_read ?t (op_hashReader hs) = Inr (concat ?v)"
    unfolding flat_read_Inr using k(1) w by (auto simp: flat_tile_def nat_less_iff)
  with t assms(3) [rule_format, of "[?t]" "[concat ?v]"] have "tr [?t] = Inr [concat ?v]" by (simp add: flat_simps)
  moreover have "take 32 (drop (32 * nat (i mod 256)) (concat ?v)) = hs ! nat i"
  proof -
    have j: "nat (i mod 256) < ?w" "256 * ?k + int (nat (i mod 256)) = i" using k by (simp_all add: flip: minus_mult_div_eq_mod)
    have "take 32 (drop (32 * nat (i mod 256)) (concat ?v)) = ?v ! nat (i mod 256)"
      by (rule take_drop_concat) (use assms(1) w j(1) in auto)
    also have "\<dots> = hs ! nat i" using j by simp
    finally show ?thesis .
  qed
  ultimately show ?case using Cons assms(2) by (simp split: sum.split)
qed simp

lemma flat_proofs_ok: "proofs_ok flat_ops flat_tiles"
  unfolding proofs_ok_def log_hashes_flat
proof (intro conjI allI impI; elim conjE)
  fix ds hs and tree :: tree and tr :: tile_reader
  assume "Some ([] @ map flat_hash ds) = Some hs" "Tree_N tree \<le> int (length ds)"
    and "\<forall>ts vs. set ts \<subseteq> flat_tiles (Tree_N tree) \<and> list_all2 (tile_data flat_ops hs) ts vs \<longrightarrow> tr ts = Inr vs"
  then show "reads_hashes (tile_hash_reader flat_ops tree tr) hs (stored_hash_count flat_ops (Tree_N tree))"
    by (auto simp: reads_hashes_def flat_simps flat_hash_def intro!: flat_reader_reads)
next
  fix ds hs and t u :: tree and r :: hash_reader
  assume "Some ([] @ map flat_hash ds) = Some hs" "Tree_N u \<le> int (length ds)" "0 < Tree_N t" "Tree_N t \<le> Tree_N u"
    "hashes_to flat_ops hs t" "hashes_to flat_ops hs u" "reads_hashes r hs (stored_hash_count flat_ops (Tree_N u))"
  then show "\<exists>p. prove_tree flat_ops (Tree_N u) (Tree_N t) r = Inr p \<and>
      check_tree flat_ops p (Tree_N u) (Tree_Hash u) (Tree_N t) (Tree_Hash t)"
    by (auto simp: reads_hashes_def flat_simps flat_hash_length split: sum.splits if_splits)
next
  fix ds hs and u :: tree and i and r :: hash_reader
  assume "Some ([] @ map flat_hash ds) = Some hs" "Tree_N u \<le> int (length ds)" "0 \<le> i" "i < Tree_N u"
    "hashes_to flat_ops hs u" "reads_hashes r hs (stored_hash_count flat_ops (Tree_N u))"
  then show "\<exists>p. prove_record flat_ops (Tree_N u) i r = Inr p \<and>
      check_record flat_ops p (Tree_N u) (Tree_Hash u) i (record_hash flat_ops (ds ! nat i))"
    by (auto simp: reads_hashes_def flat_simps)
qed

lemma flat_laws: "op_laws flat_ops"
proof -
  have "store_ok flat_ops" using demo_store_ok by (simp add: store_ok_def flat_simps)
  moreover have "tile_path_ok flat_ops" using demo_tile_path_ok unfolding tile_path_ok_def flat_simps .
  moreover have "tlog_write_ok flat_ops"
  proof -
    have "0 < Tile_W t \<and> Tile_W t \<le> 256" if "t \<in> set (new_tiles flat_ops TileHeight old n)" for old n t
    proof -
      from that obtain k where k: "k \<in> {nat (old div 256)..<nat ((n + 255) div 256)}" "t = flat_tile n (int k)"
        by (auto simp: flat_simps)
      then have "int k < (n + 255) div 256" by auto
      then have "256 * int k < n" by linarith
      with k(2) show ?thesis by (simp add: flat_tile_def)
    qed
    then show ?thesis by (simp add: tlog_write_ok_def flat_simps)
  qed
  ultimately show ?thesis by (simp add: op_laws_def)
qed

definition flat_op1 :: "bytes \<Rightarrow> (bytes list, timeline_entry list) operator" where
  "flat_op1 d = fold (operator_step flat_ops) [OpAppend False 7 d] demo_op0"

lemma flat_op1_eq:
  "flat_op1 d = demo_op0\<lparr>op_blobs := [d], op_hashes := [flat_hash d], op_size := 1,
     op_doc := [\<lparr>te_namespace = ''ns'', te_author = ''au'', te_key = entryKey 0, te_hash = d, te_len = of_nat (length d)\<rparr>]\<rparr>"
  by (simp add: flat_op1_def Operator_Append_def Operator_append_def flat_simps demo_op0_def
      demo_store_simps putTimeline_def Let_def)

definition flat_text :: "bytes \<Rightarrow> bytes" where
  "flat_text d = ''log'' @ [nl] @ fmt_int 1 @ [nl] @ hash_str std_hash_ops (flat_hash d) @ [nl]"

lemma flat_split: "splitNote (flat_text d @ [nl] @ s) = Inr (flat_text d, s)"
proof -
  have "flat_hash d \<noteq> []" using flat_hash_length [of "d"] by (metis list.size(3) zero_neq_numeral)
  then show ?thesis
    unfolding flat_text_def by (intro splitNote_lines(1)) (simp_all add: fmt_int_free std_hash_text)
qed

lemma flat_signed:
  "line_sign (demo_signer\<lparr>sgName := ''op''\<rparr>) \<lparr>Text = flat_text d, Sigs = [], UnverifiedSigs = []\<rparr> =
     Some (flat_text d @ [nl] @ ''op'' @ [nl])"
proof -
  have "splitNote (flat_text d @ [nl] @ ''op'' @ [nl]) = Inr (flat_text d, ''op'' @ [nl])" by (rule flat_split)
  then show ?thesis by (simp add: line_sign_def line_names_def demo_signer_def Let_def)
qed

lemma flat_Publish:
  "\<exists>b. Operator_Publish flat_ops False clock (flat_op1 d) = (b, Inr (flat_text d @ [nl] @ ''op'' @ [nl])) \<and>
     op_origin b = ''log'' \<and> op_signer b = demo_signer\<lparr>sgName := ''op''\<rparr> \<and> op_size b = 1 \<and> op_hashes b = [flat_hash d]"
proof -
  have tiles: "new_tiles flat_ops TileHeight (op_published (flat_op1 d)) (op_size (flat_op1 d)) = [flat_tile 1 0]"
    by (simp add: flat_simps flat_op1_eq demo_op0_def)
  have data: "read_tile_data flat_ops (flat_tile 1 0) (op_hashReader (op_hashes (flat_op1 d))) = Inr (flat_hash d)"
    by (simp add: flat_simps flat_read_def flat_tile_def flat_op1_eq demo_op0_def)
  obtain c where c: "publish_tiles flat_ops clock 0 [flat_tile 1 0] (flat_op1 d) = (c, Inr ())" "op_frame (flat_op1 d) c"
    using data by (simp add: flat_simps demo_store_simps op_frame_def putTimeline_def)
  then have frame: "op_origin c = ''log''" "op_signer c = demo_signer\<lparr>sgName := ''op''\<rparr>" "op_size c = 1"
    "op_hashes c = [flat_hash d]" by (simp_all add: op_frame_def flat_op1_eq demo_op0_def)
  have root: "tree_hash flat_ops 1 (op_hashReader (op_hashes c)) = Inr (flat_hash d)"
    by (simp add: flat_simps frame flat_hash_length)
  have tx: "MarshalText flat_ops \<lparr>Origin = ''log'', Tree = \<lparr>Tree_N = 1, Tree_Hash = flat_hash d\<rparr>\<rparr> = Inr (flat_text d)"
    by (simp add: MarshalText_def flat_text_def flat_simps)
  show ?thesis
    unfolding Operator_Publish_def Operator_publish_def Let_def tiles c(1) split_def
    using root tx flat_signed by (simp add: frame flat_simps demo_store_simps putTimeline_def flat_op1_eq)
qed

lemma flat_hash_laws: "hash_ops_ok flat_ops" "\<forall>n r h. tree_hash flat_ops n r = Inr h \<longrightarrow> length h = 32"
proof -
  show "hash_ops_ok flat_ops" using std_hash_ops_ok by (simp add: hash_ops_ok_def flat_simps)
  show "\<forall>n r h. tree_hash flat_ops n r = Inr h \<longrightarrow> length h = 32"
    by (auto simp: flat_simps flat_hash_length zero_hash_def split: sum.splits if_splits)
qed


end
