(* ===== verification/Tlog_Demo.thy ===== *)
theory Tlog_Demo
  imports Tlog_Command Tlog_Complete
begin

section \<open>Transparency log: opening a log, and the parties together\<close>

text \<open>
  The read side of \<^verbatim>\<open>tlogiroh/cmd/tlog-iroh/main.go\<close> (\<^verbatim>\<open>openLog\<close>), the getter of
  \<^verbatim>\<open>tlogiroh/source.go\<close> that dials a provider, and \<^verbatim>\<open>runDemo\<close>: an operator that grows its log, a
  witness and a client on one gossip topic. After \<^verbatim>\<open>resync\<close> the replicas of witness and client hold
  the timeline of the operator, so their sources are the operator's stores.
\<close>

subsection \<open>The dialing getter (source.go)\<close>

text \<open>
  The surroundings of one call: what dialing gives, whether a connection opens a stream, and what
  the stream answers for a hash. The connection is kept from call to call.
\<close>

record 'c dial_world =
  dw_connect :: "'c option"
  dw_open :: "'c \<Rightarrow> bool"
  dw_blob :: "'c \<Rightarrow> blob_hash \<Rightarrow> bytes option"

datatype dial_error = DialProvider | OpenBlobStream | GetBlobFrom blob_hash

definition dial_get :: "'c dial_world \<Rightarrow> 'c \<Rightarrow> blob_hash \<Rightarrow> dial_error + bytes" where
  "dial_get W c h =
     (if \<not> dw_open W c then Inl OpenBlobStream
      else case dw_blob W c h of None \<Rightarrow> Inl (GetBlobFrom h) | Some data \<Rightarrow> Inr data)"

definition DialBlobGetter :: "'c dial_world \<Rightarrow> blob_hash \<Rightarrow> 'c option \<Rightarrow> 'c option \<times> (dial_error + bytes)" where
  "DialBlobGetter W h conn =
     (case conn of
        Some c \<Rightarrow> (Some c, dial_get W c h)
      | None \<Rightarrow>
        (case dw_connect W of
           None \<Rightarrow> (None, Inl DialProvider)
         | Some c \<Rightarrow> (Some c, dial_get W c h)))"

fun dial_calls :: "('c dial_world \<times> blob_hash) list \<Rightarrow> 'c option \<Rightarrow> 'c option \<times> (dial_error + bytes) list" where
  "dial_calls [] conn = (conn, [])"
| "dial_calls ((W, h) # calls) conn =
     (let (conn', r) = DialBlobGetter W h conn; (conn'', rs) = dial_calls calls conn' in (conn'', r # rs))"

subsection \<open>Opening a log (main.go)\<close>

record ticket =
  tk_nodes :: "bytes list"
  tk_namespace :: bytes

datatype open_error = OpenMissingFlags | ParseTicket | NoNodes | ParseOperatorKey | BindNode | OpenCanceled

record opened_log =
  ol_origin :: bytes
  ol_opKey :: verifier
  ol_opAddr :: bytes
  ol_ticket :: ticket
  ol_author :: bytes

text \<open>\<open>rounds\<close> are the syncs of \<^verbatim>\<open>waitAuthor\<close> until the context ends.\<close>

definition openLog ::
  "(bytes \<Rightarrow> ticket option) \<Rightarrow> (bytes \<Rightarrow> verifier option) \<Rightarrow> bytes \<Rightarrow> bytes \<Rightarrow> bytes \<Rightarrow> bool \<Rightarrow>
   timeline_entry list option list \<Rightarrow> open_error + opened_log" where
  "openLog parse_ticket new_verifier ticketStr operatorKey origin bind_ok rounds =
     (if ticketStr = [] \<or> operatorKey = [] then Inl OpenMissingFlags
      else case parse_ticket ticketStr of
        None \<Rightarrow> Inl ParseTicket
      | Some tk \<Rightarrow>
        (case tk_nodes tk of
           [] \<Rightarrow> Inl NoNodes
         | node # _ \<Rightarrow>
           (case new_verifier operatorKey of
              None \<Rightarrow> Inl ParseOperatorKey
            | Some opKey \<Rightarrow>
              (let origin = (if origin = [] then vName opKey else origin) in
               if \<not> bind_ok then Inl BindNode
               else case waitAuthor (tk_namespace tk) rounds of
                 None \<Rightarrow> Inl OpenCanceled
               | Some author \<Rightarrow>
                 Inr \<lparr>ol_origin = origin, ol_opKey = opKey, ol_opAddr = node, ol_ticket = tk, ol_author = author\<rparr>))))"

text \<open>The source of an opened log, over the replica and the getter.\<close>

definition opened_source ::
  "opened_log \<Rightarrow> (bytes \<Rightarrow> bytes \<Rightarrow> bytes \<Rightarrow> timeline_entry option) \<Rightarrow> timeline_entry list \<Rightarrow>
   (blob_hash \<Rightarrow> tlog_error + bytes) \<Rightarrow> source" where
  "opened_source l exact entries getter =
     \<lparr>Doc_GetExact = exact, Doc_Entries = entries, Namespace = tk_namespace (ol_ticket l),
      Author = ol_author l, Get = getter\<rparr>"

text \<open>What the operator puts into a ticket, and the namespace that its handler serves.\<close>

definition Operator_Ticket :: "('b, 'd) operator \<Rightarrow> bytes list \<Rightarrow> ticket" where
  "Operator_Ticket a addrs = \<lparr>tk_nodes = addrs, tk_namespace = op_namespace a\<rparr>"

definition allow_namespace :: "('b, 'd) operator \<Rightarrow> bytes \<Rightarrow> bool" where
  "allow_namespace a namespace \<longleftrightarrow> namespace = op_namespace a"

text \<open>The operator's loop over its input lines: each a context flag, the time, the clock and the line.\<close>

fun operator_lines ::
  "('b, 'd, 'x) store_ops_scheme \<Rightarrow> (bool \<times> u64 \<times> (nat \<Rightarrow> u64) \<times> bytes) list \<Rightarrow> ('b, 'd) operator \<Rightarrow>
   ('b, 'd) operator \<times> bytes list \<times> (tlog_error + unit)" where
  "operator_lines E [] a = (a, [], Inr ())"
| "operator_lines E ((d, t, clock, line) # ls) a =
     (case operator_line E d t clock line a of
        (b, Inl e) \<Rightarrow> (b, [], Inl e)
      | (b, Inr (index, msg)) \<Rightarrow>
        (let (c, msgs, r) = operator_lines E ls b in (c, msg # msgs, r)))"

subsection \<open>Growing the log (runDemo)\<close>

lemma Append_size: "Operator_Append E d t entry a = (b, Inr i) \<Longrightarrow> op_size b = op_size a + 1 \<and> i = op_size a"
  by (cases d) (auto simp: Operator_Append_def elim!: append_ok)

text \<open>
  The loop appends until the size is reached; the text of an entry depends on its index and the time.
\<close>

function grow_loop ::
  "('b, 'd, 'x) store_ops_scheme \<Rightarrow> (int \<Rightarrow> bool \<times> u64 \<times> bytes) \<Rightarrow> int \<Rightarrow> ('b, 'd) operator \<Rightarrow>
   ('b, 'd) operator \<times> (tlog_error + unit)" where
  "grow_loop E line to a =
     (if op_size a < to then
        (let (d, t, entry) = line (op_size a) in
         case Operator_Append E d t entry a of
           (b, Inl e) \<Rightarrow> (b, Inl e)
         | (b, Inr _) \<Rightarrow> grow_loop E line to b)
      else (a, Inr ()))"
  by pat_completeness auto

termination
proof (relation "measure (\<lambda>(E, line, to, a). nat (to - op_size a))")
qed (auto dest!: Append_size [OF sym])

declare grow_loop.simps [simp del]

text \<open>The flags: whether the context has ended and whether the replicas sync.\<close>

datatype demo_error = DemoLog tlog_error | DocsSync

definition grow ::
  "('b, 'd, 'x) store_ops_scheme \<Rightarrow> (int \<Rightarrow> bool \<times> u64 \<times> bytes) \<Rightarrow> (nat \<Rightarrow> u64) \<Rightarrow> bool \<times> bool \<Rightarrow> int \<Rightarrow>
   ('b, 'd) operator \<Rightarrow> ('b, 'd) operator \<times> (demo_error + bytes)" where
  "grow E line clock flags to a =
     (case grow_loop E line to a of
        (b, Inl e) \<Rightarrow> (b, Inl (DemoLog e))
      | (b, Inr _) \<Rightarrow>
        (case Operator_Publish E (fst flags) clock b of
           (c, Inl e) \<Rightarrow> (c, Inl (DemoLog e))
         | (c, Inr _) \<Rightarrow>
           if \<not> snd flags then (c, Inl DocsSync)
           else (case Announce c of Inl e \<Rightarrow> (c, Inl (DemoLog e)) | Inr m \<Rightarrow> (c, Inr m))))"

text \<open>The heads that the client yields are read until one of the size comes.\<close>

fun waitHead :: "int \<Rightarrow> checkpoint list \<Rightarrow> (checkpoint \<times> checkpoint list) option" where
  "waitHead n [] = None"
| "waitHead n (cp # heads) = (if Tree_N (Tree cp) = n then Some (cp, heads) else waitHead n heads)"

subsection \<open>One round of the demo\<close>

text \<open>
  The operator announces, the witness hears it and broadcasts, and the client hears the witness, having
  heard the operator first or not. What a loop broadcasts in a step is what it adds to its outputs.
\<close>

record ('b, 'd) parties =
  pa_operator :: "('b, 'd) operator"
  pa_witness :: witness_run
  pa_client :: watch

definition broadcasts :: "nat \<Rightarrow> watch_out list \<Rightarrow> bytes list" where
  "broadcasts n os = concat (map (\<lambda>x. case x of Broadcast m \<Rightarrow> [m] | _ \<Rightarrow> []) (drop n os))"

definition deliver :: "('b, 'd, 'x) store_ops_scheme \<Rightarrow> source \<Rightarrow> bytes \<Rightarrow> watch \<Rightarrow> watch" where
  "deliver E src m w = fst (watch_message E (src, False, True) m w)"

definition demo_hears ::
  "('b, 'd, 'x) store_ops_scheme \<Rightarrow> bool \<Rightarrow> source \<Rightarrow> bytes \<Rightarrow> witness_run \<times> watch \<Rightarrow> witness_run \<times> watch" where
  "demo_hears E heard src m s =
     (let (r, w) = s;
          r' = run_message E (src, False) m r;
          w = (if heard then deliver E src m w else w) in
      (r', fold (deliver E src) (broadcasts (length (outs r)) (outs r')) w))"

definition demo_round ::
  "('b, 'd, 'x) store_ops_scheme \<Rightarrow> (int \<Rightarrow> bool \<times> u64 \<times> bytes) \<Rightarrow> (nat \<Rightarrow> u64) \<Rightarrow> bool \<times> bool \<Rightarrow> bool \<Rightarrow> int \<Rightarrow>
   ('b, 'd) parties \<Rightarrow> ('b, 'd) parties \<times> (demo_error + unit)" where
  "demo_round E line clock flags heard to s =
     (case grow E line clock flags to (pa_operator s) of
        (b, Inl e) \<Rightarrow> (s\<lparr>pa_operator := b\<rparr>, Inl e)
      | (b, Inr m) \<Rightarrow>
        (let (r, w) = demo_hears E heard (Operator_Source E b) m (pa_witness s, pa_client s) in
         (\<lparr>pa_operator = b, pa_witness = r, pa_client = w\<rparr>, Inr ())))"

text \<open>Rounds one after the other, ended by the first that fails.\<close>

fun demo_run ::
  "('b, 'd, 'x) store_ops_scheme \<Rightarrow> ((int \<Rightarrow> bool \<times> u64 \<times> bytes) \<times> (nat \<Rightarrow> u64) \<times> (bool \<times> bool) \<times> bool \<times> int) list \<Rightarrow>
   ('b, 'd) parties \<Rightarrow> ('b, 'd) parties \<times> (demo_error + unit)" where
  "demo_run E [] s = (s, Inr ())"
| "demo_run E ((line, clock, flags, heard, to) # rounds) s =
     (case demo_round E line clock flags heard to s of
        (s', Inl e) \<Rightarrow> (s', Inl e)
      | (s', Inr _) \<Rightarrow> demo_run E rounds s')"

text \<open>The evil node announces the checkpoint of a twin log.\<close>

definition demo_twin ::
  "('b, 'd, 'x) store_ops_scheme \<Rightarrow> bool \<Rightarrow> ('b, 'd) operator \<Rightarrow> ('b, 'd) parties \<Rightarrow> ('b, 'd) parties \<times> (tlog_error + unit)" where
  "demo_twin E heard twin s =
     (case Announce twin of
        Inl e \<Rightarrow> (s, Inl e)
      | Inr m \<Rightarrow>
        (let (r, w) = demo_hears E heard (Operator_Source E (pa_operator s)) m (pa_witness s, pa_client s) in
         (s\<lparr>pa_witness := r, pa_client := w\<rparr>, Inr ())))"

subsection \<open>What the note package documents of merged and counted signatures\<close>

definition note_merge_ok :: "'x note_ops_scheme \<Rightarrow> bool" where
  "note_merge_ok E \<longleftrightarrow>
     (\<forall>a b t sa sb vs na nb. splitNote a = Inr (t, sa) \<and> splitNote b = Inr (t, sb) \<and>
        note_open E a vs = Some na \<and> note_open E b vs = Some nb \<and>
        card (set (sig_lines sa) \<union> set (sig_lines sb)) \<le> 100 \<longrightarrow>
        (\<exists>n. note_open E (t @ [nl] @ merge_lines [] (lines_of (sa @ sb))) vs = Some n \<and> Text n = t \<and>
          sigID ` set (Sigs na) \<union> sigID ` set (Sigs nb) \<subseteq> sigID ` set (Sigs n)))"

definition note_lines_ok :: "'x sign_ops_scheme \<Rightarrow> bool" where
  "note_lines_ok E \<longleftrightarrow>
     (\<forall>sg n m s. note_sign E sg n = Some m \<and> splitNote m = Inr (Text n, s) \<longrightarrow>
        card (set (sig_lines s)) \<le> length (Sigs n) + 1)"

text \<open>A signer that signs every checkpoint it has opened, as long as a note has room.\<close>

definition signer_works :: "'x sign_ops_scheme \<Rightarrow> signer \<Rightarrow> bool" where
  "signer_works E sg \<longleftrightarrow>
     (\<forall>msg vs n c. note_open E msg vs = Some n \<and> ParseCheckpoint E (Text n) = Inr c \<and>
        length (Sigs n) + length (UnverifiedSigs n) < 100 \<longrightarrow>
        note_sign E sg (n\<lparr>Sigs := Sigs n @ UnverifiedSigs n, UnverifiedSigs := []\<rparr>) \<noteq> None)"

definition notes_ok :: "'x sign_ops_scheme \<Rightarrow> bool" where
  "notes_ok E \<longleftrightarrow> note_sign_ok E \<and> note_cosign_ok E \<and> note_merge_ok E \<and> note_lines_ok E \<and> note_format_ok E"

lemma lines_notes_ok: "signs_lines E \<Longrightarrow> parse_hash E [] = None \<Longrightarrow> notes_ok E"
proof -
  assume E: "signs_lines E" and h: "parse_hash E [] = None"
  then have o: "note_open E = line_open" "note_sign E = line_sign" by (simp_all add: signs_lines_def)
  have "note_merge_ok E" using lines_merge unfolding note_merge_ok_def o by blast
  moreover have "note_lines_ok E" using line_sign_count unfolding note_lines_ok_def o by blast
  moreover have "\<exists>s. msg = Text n @ [nl] @ s" if "line_open msg vs = Some n" for msg vs n
    using that by (rule line_open_ok) (use splitNote_ok(1) in blast)
  then have "note_format_ok E" using h by (simp add: note_format_ok_def o)
  ultimately show ?thesis using lines_sign [OF E] lines_cosign [OF E] by (simp add: notes_ok_def)
qed

subsection \<open>Lemmas: the witness and the client hear the operator\<close>

text \<open>
  A checkpoint as the operator signed it: the message \<open>msg\<close> over the text \<open>tx\<close> of \<open>cp\<close>, by a signer
  whose verifier is \<open>v\<close>; \<open>wv\<close> is the verifier of the witness.
\<close>

definition op_message ::
  "'x sign_ops_scheme \<Rightarrow> verifier \<Rightarrow> verifier \<Rightarrow> bytes \<Rightarrow> bytes \<Rightarrow> checkpoint \<Rightarrow> bool" where
  "op_message E v wv msg tx cp \<longleftrightarrow> ParseCheckpoint E tx = Inr cp \<and> keyID v \<noteq> keyID wv \<and>
     (\<exists>sg. note_sign E sg \<lparr>Text = tx, Sigs = [], UnverifiedSigs = []\<rparr> = Some msg \<and> verifier_of sg v)"

lemma op_message_opens:
  assumes "notes_ok E" and "op_message E v wv msg tx cp" and "vs = [v] \<or> vs = [v, wv]"
  obtains n where "note_open E msg vs = Some n" "Text n = tx" "map sigID (Sigs n) = [keyID v]" "UnverifiedSigs n = []"
proof -
  from assms(2) obtain sg where sg: "note_sign E sg \<lparr>Text = tx, Sigs = [], UnverifiedSigs = []\<rparr> = Some msg"
    "verifier_of sg v" "keyID v \<noteq> keyID wv" by (auto simp: op_message_def)
  have "note_sign_ok E" using assms(1) by (simp add: notes_ok_def)
  from note_signed [OF this sg(1,2), of vs] assms(3) sg(3) that show ?thesis by auto
qed

lemma op_message_split:
  assumes "notes_ok E" and "op_message E v wv msg tx cp"
  obtains s where "splitNote msg = Inr (tx, s)" "card (set (sig_lines s)) \<le> 1"
proof -
  obtain n where n: "note_open E msg [v] = Some n" "Text n = tx"
    by (rule op_message_opens [OF assms, where vs = "[v]"]) auto
  have f: "note_format_ok E" and l: "note_lines_ok E" using assms(1) by (simp_all add: notes_ok_def)
  from f n obtain s where msg: "msg = tx @ [nl] @ s" unfolding note_format_ok_def by blast
  have s: "splitNote msg = Inr (tx, s)"
    unfolding msg by (rule parsed_text) (use assms(2) f in \<open>auto simp: op_message_def note_format_ok_def\<close>)
  from assms(2) obtain sg where "note_sign E sg \<lparr>Text = tx, Sigs = [], UnverifiedSigs = []\<rparr> = Some msg"
    by (auto simp: op_message_def)
  with l s have "card (set (sig_lines s)) \<le> length (Sigs \<lparr>Text = tx, Sigs = [], UnverifiedSigs = []\<rparr>) + 1"
    unfolding note_lines_ok_def by (metis Note.select_convs(1))
  with s show ?thesis by (intro that) simp_all
qed

text \<open>The witness's message: signed by both, over the same text.\<close>

definition cosigned_message :: "'x sign_ops_scheme \<Rightarrow> verifier \<Rightarrow> verifier \<Rightarrow> bytes \<Rightarrow> bytes \<Rightarrow> bool" where
  "cosigned_message E v wv m tx \<longleftrightarrow> (\<exists>s. splitNote m = Inr (tx, s) \<and> card (set (sig_lines s)) \<le> 2) \<and>
     (\<exists>n. note_open E m [v] = Some n \<and> Text n = tx) \<and>
     (\<exists>n. note_open E m [v, wv] = Some n \<and> Text n = tx \<and> {keyID v, keyID wv} \<subseteq> sigID ` set (Sigs n))"

lemma sign_cosigned:
  assumes "notes_ok E" and "op_message E v wv msg tx cp" and "verifier_of sg wv"
    and "note_open E msg [v] = Some n"
    and "note_sign E sg (n\<lparr>Sigs := Sigs n @ UnverifiedSigs n, UnverifiedSigs := []\<rparr>) = Some m"
  shows "cosigned_message E v wv m tx"
proof -
  have E: "note_cosign_ok E" "note_format_ok E" "note_lines_ok E" using assms(1) by (simp_all add: notes_ok_def)
  obtain n' where "note_open E msg [v] = Some n'" "Text n' = tx" "map sigID (Sigs n') = [keyID v]" "UnverifiedSigs n' = []"
    by (rule op_message_opens [OF assms(1,2), where vs = "[v]"]) auto
  with assms(4) have n: "Text n = tx" "map sigID (Sigs n) = [keyID v]" "UnverifiedSigs n = []" by simp_all
  have len: "length (Sigs n) = 1" using n(2) by (metis length_map length_Cons list.size(3) One_nat_def)
  have ids: "sigID ` set (Sigs n) = {keyID v}" using n(2) by (metis list.set_map list.simps(15) list.set(1))
  have key: "keyID v \<noteq> keyID wv" and parse: "ParseCheckpoint E tx = Inr cp" using assms(2) by (simp_all add: op_message_def)
  have wv: "vName wv = sgName sg" "vKeyHash wv = sgHash sg" using assms(3) by (simp_all add: verifier_of_def)
  have not_v: "\<not> (vName v = sgName sg \<and> vKeyHash v = sgHash sg)" using key wv by (auto simp: keyID_def)
  have opens: "\<exists>n'. note_open E m vs = Some n' \<and> Text n' = Text n \<and>
      (\<forall>x \<in> set vs. keyID x \<in> sigID ` set (Sigs n) \<or> verifier_of sg x \<longrightarrow> keyID x \<in> sigID ` set (Sigs n'))"
    if "vs = [v] \<or> vs = [v, wv]" for vs
    using E(1) [unfolded note_cosign_ok_def, rule_format, of msg "[v]" n sg m vs] assms(3-5) that n(3) len ids key not_v
    by auto
  from opens [of "[v, wv]"] obtain n2 where n2: "note_open E m [v, wv] = Some n2" "Text n2 = tx"
    "{keyID v, keyID wv} \<subseteq> sigID ` set (Sigs n2)" using n(1) ids assms(3) by auto
  from E(2) n2(1,2) obtain s where m: "m = tx @ [nl] @ s" unfolding note_format_ok_def by blast
  have s: "splitNote m = Inr (tx, s)"
    unfolding m by (rule parsed_text [OF parse]) (use E(2) in \<open>simp add: note_format_ok_def\<close>)
  let ?n = "n\<lparr>Sigs := Sigs n @ UnverifiedSigs n, UnverifiedSigs := []\<rparr>"
  have "card (set (sig_lines s)) \<le> length (Sigs ?n) + 1"
    using E(3) [unfolded note_lines_ok_def, rule_format, of sg ?n m s] assms(5) s n(1) by simp
  then have "card (set (sig_lines s)) \<le> 2" using len n(3) by simp
  with s n2 opens [of "[v]"] n(1) show ?thesis by (auto simp: cosigned_message_def)
qed

definition one_witness :: "policy \<Rightarrow> bytes \<Rightarrow> verifier \<Rightarrow> verifier \<Rightarrow> bool" where
  "one_witness p origin v wv \<longleftrightarrow> p = \<lparr>p_origin = origin, p_operator = Some v, p_witnesses = [wv], p_k = 1\<rparr>"

lemma NewPolicy_one: "NewPolicy origin (Some v) [Some wv] 1 = Inr p \<Longrightarrow> one_witness p origin v wv \<and> keyID v \<noteq> keyID wv"
  by (auto simp: NewPolicy_def one_witness_def split: if_splits)

lemma one_witness_refuses:
  assumes "notes_ok E" and "op_message E v wv msg tx cp" and "one_witness p (Origin cp) v wv"
  shows "Policy_Open E p msg = Inl ErrWitnessThreshold"
proof -
  have p: "p_operator p = Some v" "p_witnesses p = [wv]" "p_k p = 1" "p_origin p = Origin cp"
    using assms(3) by (simp_all add: one_witness_def)
  have parse: "ParseCheckpoint E tx = Inr cp" and key: "keyID v \<noteq> keyID wv"
    using assms(2) by (simp_all add: op_message_def)
  obtain n where n: "note_open E msg [v, wv] = Some n" "Text n = tx" "map sigID (Sigs n) = [keyID v]"
    by (rule op_message_opens [OF assms(1,2), where vs = "[v, wv]"]) auto
  have "sigID ` set (Sigs n) = {keyID v}" using n(3) by (metis list.set_map list.simps(15) list.set(1))
  then show ?thesis using n p parse key by (simp add: Policy_Open_def)
qed

lemma one_witness_opens:
  assumes "notes_ok E" and "op_message E v wv msg tx cp" and "one_witness p (Origin cp) v wv"
    and "cosigned_message E v wv m tx"
  shows "Policy_Open E p m = Inr cp"
    and "\<exists>mm. mergeSignedNotes msg m = Inr mm \<and> Policy_Open E p mm = Inr cp"
proof -
  have p: "p_operator p = Some v" "p_witnesses p = [wv]" "p_k p = 1" "p_origin p = Origin cp"
    using assms(3) by (simp_all add: one_witness_def)
  have parse: "ParseCheckpoint E tx = Inr cp" and key: "keyID v \<noteq> keyID wv"
    using assms(2) by (simp_all add: op_message_def)
  obtain n where n: "note_open E msg [v, wv] = Some n" "Text n = tx" "map sigID (Sigs n) = [keyID v]"
    by (rule op_message_opens [OF assms(1,2), where vs = "[v, wv]"]) auto
  have opens: "Policy_Open E p x = Inr cp"
    if "note_open E x [v, wv] = Some y" "Text y = tx" "{keyID v, keyID wv} \<subseteq> sigID ` set (Sigs y)" for x y
    using that p parse by (simp add: Policy_Open_def)
  from assms(4) obtain n2 s where n2: "note_open E m [v, wv] = Some n2" "Text n2 = tx"
    "{keyID v, keyID wv} \<subseteq> sigID ` set (Sigs n2)" and s: "splitNote m = Inr (tx, s)" "card (set (sig_lines s)) \<le> 2"
    by (auto simp: cosigned_message_def)
  show "Policy_Open E p m = Inr cp" by (rule opens [OF n2])
  obtain s0 where s0: "splitNote msg = Inr (tx, s0)" "card (set (sig_lines s0)) \<le> 1"
    by (rule op_message_split [OF assms(1,2)])
  let ?mm = "tx @ [nl] @ merge_lines [] (lines_of (s0 @ s))"
  have "card (set (sig_lines s0) \<union> set (sig_lines s)) \<le> 100"
    using card_Un_le [of "set (sig_lines s0)" "set (sig_lines s)"] s(2) s0(2) by simp
  then have all: "splitNote msg = Inr (tx, s0) \<and> splitNote m = Inr (tx, s) \<and> note_open E msg [v, wv] = Some n \<and>
      note_open E m [v, wv] = Some n2 \<and> card (set (sig_lines s0) \<union> set (sig_lines s)) \<le> 100"
    using s(1) s0(1) n(1) n2(1) by blast
  have "note_merge_ok E" using assms(1) by (simp add: notes_ok_def)
  from this [unfolded note_merge_ok_def, rule_format, OF all]
  obtain y where y: "note_open E ?mm [v, wv] = Some y" "Text y = tx"
    "sigID ` set (Sigs n) \<union> sigID ` set (Sigs n2) \<subseteq> sigID ` set (Sigs y)" by blast
  have "Policy_Open E p ?mm = Inr cp" by (rule opens [OF y(1,2) order.trans [OF n2(3)]]) (use y(3) in simp)
  moreover have "mergeSignedNotes msg m = Inr ?mm" using s(1) s0(1) by (auto simp: mergeSignedNotes_ok)
  ultimately show "\<exists>mm. mergeSignedNotes msg m = Inr mm \<and> Policy_Open E p mm = Inr cp" by blast
qed

text \<open>The log a message speaks of, as the stores of the operator hold it.\<close>

definition served :: "('b, 'd, 'x) store_ops_scheme \<Rightarrow> (int \<Rightarrow> tile set) \<Rightarrow> ('b, 'd) operator \<Rightarrow> tree \<Rightarrow> bool" where
  "served E tiles z t \<longleftrightarrow> tiles_ok E tiles \<and> proofs_ok E tiles \<and>
     (\<exists>P ds. log_inv E tiles P ds z \<and> Tree_N t \<in> P) \<and> hashes_to E (op_hashes z) t"

lemma served_proof:
  assumes "served E tiles z u" and "hashes_to E (op_hashes z) t" and "0 < Tree_N t" and "Tree_N t < Tree_N u"
  obtains p where "prove_tree E (Tree_N u) (Tree_N t) (hashReaderForTree E (Operator_Source E z) u) = Inr p"
    "check_tree E p (Tree_N u) (Tree_Hash u) (Tree_N t) (Tree_Hash t)"
proof -
  from assms(1) obtain P ds where log: "tiles_ok E tiles" "proofs_ok E tiles" "log_inv E tiles P ds z" "Tree_N u \<in> P"
    "hashes_to E (op_hashes z) u" unfolding served_def by blast
  have "Tree_N t \<le> Tree_N u" using assms(4) by simp
  from provable_consistency [OF log assms(2,3) this] that show ?thesis by blast
qed

lemma witness_can_sign:
  assumes "notes_ok E" and "op_message E v wv msg tx cp" and "verifier_of sg wv" and "signer_works E sg"
  obtains n m where "note_open E msg [v] = Some n" "Text n = tx" "ParseCheckpoint E tx = Inr cp"
    "note_sign E sg (n\<lparr>Sigs := Sigs n @ UnverifiedSigs n, UnverifiedSigs := []\<rparr>) = Some m" "cosigned_message E v wv m tx"
proof -
  obtain n where n: "note_open E msg [v] = Some n" "Text n = tx" "map sigID (Sigs n) = [keyID v]" "UnverifiedSigs n = []"
    by (rule op_message_opens [OF assms(1,2), where vs = "[v]"]) auto
  have parse: "ParseCheckpoint E tx = Inr cp" using assms(2) by (simp add: op_message_def)
  have len: "length (Sigs n) = 1" using n(3) by (metis length_map length_Cons list.size(3) One_nat_def)
  have "note_sign E sg (n\<lparr>Sigs := Sigs n @ UnverifiedSigs n, UnverifiedSigs := []\<rparr>) \<noteq> None"
    using assms(4) [unfolded signer_works_def, rule_format, of msg "[v]" n cp] n(1,2,4) len parse by simp
  then obtain m where m: "note_sign E sg (n\<lparr>Sigs := Sigs n @ UnverifiedSigs n, UnverifiedSigs := []\<rparr>) = Some m" by blast
  from that [OF n(1,2) parse m sign_cosigned [OF assms(1,2,3) n(1) m]] show thesis .
qed

lemma witness_hears:
  assumes "notes_ok E" and "op_message E v wv msg tx cp" and "served E tiles z (Tree cp)"
    and w: "wt_operator w = v" "wt_origin w = Origin cp" "verifier_of (wt_signer w) wv" "signer_works E (wt_signer w)"
    and head: "wt_hasHead w \<Longrightarrow> Tree_N (Tree (wt_head w)) < Tree_N (Tree cp) \<and> hashes_to E (op_hashes z) (Tree (wt_head w))"
  shows "\<exists>m. Cosign E (Operator_Source E z) False msg w =
      (w\<lparr>wt_headMsg := m, wt_head := cp, wt_hasHead := True\<rparr>, Inr m) \<and> cosigned_message E v wv m tx"
proof -
  obtain n m where n: "note_open E msg [v] = Some n" "Text n = tx" and parse: "ParseCheckpoint E tx = Inr cp"
    and m: "note_sign E (wt_signer w) (n\<lparr>Sigs := Sigs n @ UnverifiedSigs n, UnverifiedSigs := []\<rparr>) = Some m"
    and cos: "cosigned_message E v wv m tx"
    by (rule witness_can_sign [OF assms(1,2) w(3,4)])
  have "Witness_cosign E (Operator_Source E z) msg w = (w\<lparr>wt_headMsg := m, wt_head := cp, wt_hasHead := True\<rparr>, Inr m)"
  proof (cases "wt_hasHead w \<and> 0 < Tree_N (Tree (wt_head w))")
    case True
    obtain p where "prove_tree E (Tree_N (Tree cp)) (Tree_N (Tree (wt_head w))) (hashReaderForTree E (Operator_Source E z) (Tree cp)) = Inr p"
      "check_tree E p (Tree_N (Tree cp)) (Tree_Hash (Tree cp)) (Tree_N (Tree (wt_head w))) (Tree_Hash (Tree (wt_head w)))"
      by (rule served_proof [OF assms(3)]) (use head True in auto)
    with True head show ?thesis
      using n(1,2) parse w(1,2) m by (simp add: Witness_cosign_def Let_def)
  next
    case False
    with head show ?thesis using n(1,2) parse w(1,2) m by (auto simp: Witness_cosign_def Let_def)
  qed
  then show ?thesis using cos by (simp add: Cosign_def)
qed

lemma update_strict:
  assumes "served E tiles z (Tree cp)" and "Policy_Open E (c_policy c) x = Inr cp"
    and head: "c_hasHead c \<Longrightarrow> Tree_N (Tree (c_head c)) < Tree_N (Tree cp) \<and> hashes_to E (op_hashes z) (Tree (c_head c))"
  shows "Client_Update E (Operator_Source E z) False x c = (c\<lparr>c_headMsg := x, c_head := cp, c_hasHead := True\<rparr>, Inr cp)"
proof (cases "c_hasHead c \<and> 0 < Tree_N (Tree (c_head c))")
  case True
  obtain p where "prove_tree E (Tree_N (Tree cp)) (Tree_N (Tree (c_head c))) (hashReaderForTree E (Operator_Source E z) (Tree cp)) = Inr p"
    "check_tree E p (Tree_N (Tree cp)) (Tree_Hash (Tree cp)) (Tree_N (Tree (c_head c))) (Tree_Hash (Tree (c_head c)))"
    by (rule served_proof [OF assms(1)]) (use head True in auto)
  with True head assms(2) show ?thesis by (simp add: Client_Update_def Client_update_def Let_def)
next
  case False
  with head assms(2) show ?thesis by (auto simp: Client_Update_def Client_update_def Let_def)
qed

text \<open>A checkpoint message that is parked, and one that is accepted, alone or merged with the parked one.\<close>

lemma deliver_parks:
  assumes "splitNote msg = Inr (tx, s)" and "pending w = []"
    and "Policy_Open E (c_policy (w_client w)) msg = Inl ErrWitnessThreshold"
  shows "deliver E src (envelope envCheckpoint msg) w = park tx msg w"
proof -
  have "msg \<noteq> []" using splitNote_ok(1) [OF assms(1)] by auto
  with assms show ?thesis
    by (simp add: deliver_def watch_message_def openEnvelope_envelope watch_process_def Client_Update_def)
qed

lemma deliver_accepts:
  assumes "splitNote m = Inr (tx, s)" and "pending w = [] \<and> x = m \<or> pending w = [(tx, msg)] \<and> mergeSignedNotes msg m = Inr x"
    and u: "Client_Update E src False x (w_client w) = (c, Inr cp)" and "lastYielded w \<noteq> cp"
  shows "deliver E src (envelope envCheckpoint m) w =
    w\<lparr>w_client := c, pending := [], outs := outs w @ [Yielded cp], lastYielded := cp\<rparr>"
proof -
  have "m \<noteq> []" using splitNote_ok(1) [OF assms(1)] by auto
  then have "watch_message E (src, False, True) (envelope envCheckpoint m) w = watch_process E (src, False, True) tx x w"
    using assms(1,2) by (auto simp: watch_message_def openEnvelope_envelope)
  also have "\<dots> = (emit (Yielded cp) ((unpark tx (w\<lparr>w_client := c\<rparr>))\<lparr>lastYielded := cp\<rparr>), True)"
    using u assms(4) by (simp add: watch_process_def unpark_def)
  also have "emit (Yielded cp) ((unpark tx (w\<lparr>w_client := c\<rparr>))\<lparr>lastYielded := cp\<rparr>) =
      w\<lparr>w_client := c, pending := [], outs := outs w @ [Yielded cp], lastYielded := cp\<rparr>"
    using assms(2) by (auto simp: emit_def unpark_def alist_del_def)
  finally show ?thesis by (simp add: deliver_def)
qed

lemma client_hears:
  assumes E: "notes_ok E" "op_message E v wv msg tx cp" "cosigned_message E v wv m tx" and z: "served E tiles z (Tree cp)"
    and w: "pending w = []" "one_witness (c_policy (w_client w)) (Origin cp) v wv" "lastYielded w \<noteq> cp"
    and head: "c_hasHead (w_client w) \<Longrightarrow> Tree_N (Tree (c_head (w_client w))) < Tree_N (Tree cp) \<and>
      hashes_to E (op_hashes z) (Tree (c_head (w_client w)))"
  shows "\<exists>x. deliver E (Operator_Source E z) (envelope envCheckpoint m)
      (if heard then deliver E (Operator_Source E z) (envelope envCheckpoint msg) w else w) =
    w\<lparr>w_client := (w_client w)\<lparr>c_headMsg := x, c_head := cp, c_hasHead := True\<rparr>, pending := [],
      outs := outs w @ [Yielded cp], lastYielded := cp\<rparr>"
proof -
  note opens = one_witness_opens [OF E(1,2) w(2) E(3)]
  obtain s where s: "splitNote m = Inr (tx, s)" using E(3) by (auto simp: cosigned_message_def)
  obtain s0 where s0: "splitNote msg = Inr (tx, s0)" by (rule op_message_split [OF E(1,2)])
  note update = update_strict [OF z _ head]
  show ?thesis
  proof (cases heard)
    case True
    have parked: "deliver E (Operator_Source E z) (envelope envCheckpoint msg) w = park tx msg w"
      by (rule deliver_parks [OF s0 w(1) one_witness_refuses [OF E(1,2) w(2)]])
    obtain mm where mm: "mergeSignedNotes msg m = Inr mm" "Policy_Open E (c_policy (w_client w)) mm = Inr cp"
      using opens(2) by blast
    have "deliver E (Operator_Source E z) (envelope envCheckpoint m) (park tx msg w) =
        (park tx msg w)\<lparr>w_client := (w_client w)\<lparr>c_headMsg := mm, c_head := cp, c_hasHead := True\<rparr>, pending := [],
          outs := outs w @ [Yielded cp], lastYielded := cp\<rparr>"
      using deliver_accepts [OF s, of "park tx msg w" mm msg E "Operator_Source E z"] mm(1) update [OF mm(2)] w(1,3)
      by (simp add: park_def)
    then show ?thesis using True parked by (intro exI [of _ mm]) (simp add: park_def)
  next
    case False
    have "deliver E (Operator_Source E z) (envelope envCheckpoint m) w =
        w\<lparr>w_client := (w_client w)\<lparr>c_headMsg := m, c_head := cp, c_hasHead := True\<rparr>, pending := [],
          outs := outs w @ [Yielded cp], lastYielded := cp\<rparr>"
      by (rule deliver_accepts [OF s _ update [OF opens(1)] w(3)]) (simp add: w(1))
    then show ?thesis using False by (intro exI [of _ m]) simp
  qed
qed

subsection \<open>Lemmas: a round\<close>

lemma demo_announce_honest:
  assumes E: "notes_ok E" "op_message E v wv msg tx cp" and z: "served E tiles z (Tree cp)"
    and r: "wt_operator (r_witness r) = v" "wt_origin (r_witness r) = Origin cp" "verifier_of (wt_signer (r_witness r)) wv"
      "signer_works E (wt_signer (r_witness r))" "pending r = []"
    and rhead: "wt_hasHead (r_witness r) \<Longrightarrow> Tree_N (Tree (wt_head (r_witness r))) < Tree_N (Tree cp) \<and>
      hashes_to E (op_hashes z) (Tree (wt_head (r_witness r)))"
    and w: "pending w = []" "one_witness (c_policy (w_client w)) (Origin cp) v wv" "lastYielded w \<noteq> cp"
    and whead: "c_hasHead (w_client w) \<Longrightarrow> Tree_N (Tree (c_head (w_client w))) < Tree_N (Tree cp) \<and>
      hashes_to E (op_hashes z) (Tree (c_head (w_client w)))"
  shows "\<exists>m x. cosigned_message E v wv m tx \<and>
    demo_hears E heard (Operator_Source E z) (envelope envCheckpoint msg) (r, w) =
      (r\<lparr>r_witness := (r_witness r)\<lparr>wt_headMsg := m, wt_head := cp, wt_hasHead := True\<rparr>,
         outs := outs r @ [Broadcast (envelope envCheckpoint m)]\<rparr>,
       w\<lparr>w_client := (w_client w)\<lparr>c_headMsg := x, c_head := cp, c_hasHead := True\<rparr>, pending := [],
         outs := outs w @ [Yielded cp], lastYielded := cp\<rparr>)"
proof -
  obtain s0 where s0: "splitNote msg = Inr (tx, s0)" by (rule op_message_split [OF E])
  then have ne: "msg \<noteq> []" using splitNote_ok(1) [OF s0] by auto
  obtain m where m: "Cosign E (Operator_Source E z) False msg (r_witness r) =
      ((r_witness r)\<lparr>wt_headMsg := m, wt_head := cp, wt_hasHead := True\<rparr>, Inr m)" "cosigned_message E v wv m tx"
    using witness_hears [OF E z r(1-4) rhead] by blast
  let ?r = "r\<lparr>r_witness := (r_witness r)\<lparr>wt_headMsg := m, wt_head := cp, wt_hasHead := True\<rparr>,
      outs := outs r @ [Broadcast (envelope envCheckpoint m)]\<rparr>"
  have run: "run_message E (Operator_Source E z, False) (envelope envCheckpoint msg) r = ?r"
    using s0 ne m(1) r(5)
    by (simp add: run_message_def openEnvelope_envelope run_process_def emit_def unpark_def alist_del_def)
  obtain x where "deliver E (Operator_Source E z) (envelope envCheckpoint m)
      (if heard then deliver E (Operator_Source E z) (envelope envCheckpoint msg) w else w) =
    w\<lparr>w_client := (w_client w)\<lparr>c_headMsg := x, c_head := cp, c_hasHead := True\<rparr>, pending := [],
      outs := outs w @ [Yielded cp], lastYielded := cp\<rparr>"
    using client_hears [OF E m(2) z w whead, where heard = heard] by blast
  with run m(2) show ?thesis
    by (intro exI [of _ m] exI [of _ x]) (simp add: demo_hears_def broadcasts_def Let_def)
qed

text \<open>What growing the log leaves: a published tree of the size asked for.\<close>

lemma Append_frame:
  "Operator_append E t entry a = (b, Inr i) \<Longrightarrow>
   (\<exists>hs. op_hashes b = op_hashes a @ hs) \<and> op_origin b = op_origin a \<and> op_signer b = op_signer a"
  by (auto simp: Operator_append_def Let_def putTimeline_def split: sum.splits option.splits)

lemma grow_loop_ok:
  "grow_loop E line to a = (b, Inr u) \<Longrightarrow> op_laws E \<Longrightarrow> tiles_ok E tiles \<Longrightarrow> log_inv E tiles P ds a \<Longrightarrow>
   op_size a \<le> to \<Longrightarrow> to < 2 ^ 63 \<Longrightarrow>
   (\<exists>ds'. log_inv E tiles P ds' b) \<and> op_size b = to \<and> (\<exists>hs. op_hashes b = op_hashes a @ hs) \<and>
   op_origin b = op_origin a \<and> op_signer b = op_signer a"
proof (induction E line to a arbitrary: ds rule: grow_loop.induct)
  case (1 E line to a)
  show ?case
  proof (cases "op_size a < to")
    case True
    obtain d t entry where l: "line (op_size a) = (d, t, entry)" by (cases "line (op_size a)")
    with "1.prems"(1) True obtain c i where c: "Operator_Append E d t entry a = (c, Inr i)" "grow_loop E line to c = (b, Inr u)"
      by (subst (asm) grow_loop.simps) (auto split: prod.splits sum.splits)
    then have app: "Operator_append E t entry a = (c, Inr i)" by (simp add: Operator_Append_def split: if_splits)
    have size: "op_size c = op_size a + 1" using Append_size [OF c(1)] by simp
    have small: "op_size a + 1 < 2 ^ 63" using True "1.prems"(6) by simp
    note log = append_log [OF "1.prems"(2,3,4) small app]
    have "(\<exists>ds'. log_inv E tiles P ds' b) \<and> op_size b = to \<and> (\<exists>hs. op_hashes b = op_hashes c @ hs) \<and>
        op_origin b = op_origin c \<and> op_signer b = op_signer c"
      by (rule "1.IH" [OF True l [symmetric] refl refl c(1) [symmetric] refl c(2) "1.prems"(2,3) log _ "1.prems"(6)])
        (use True size in simp)
    with Append_frame [OF app] show ?thesis by auto
  next
    case False
    with "1.prems" show ?thesis by (subst (asm) grow_loop.simps) auto
  qed
qed

lemma grow_ok:
  assumes laws: "op_laws E" "tiles_ok E tiles" "proofs_ok E tiles" "hash_ops_ok E"
      "\<forall>n r h. tree_hash E n r = Inr h \<longrightarrow> length h = 32"
    and a: "log_inv E tiles P ds a" "op_size a \<le> to" "to + 1 < 2 ^ 63" "verifier_of (op_signer a) v" "keyID v \<noteq> keyID wv"
    and g: "grow E line clock flags to a = (z, Inr m)"
  shows "\<exists>msg tx root. m = envelope envCheckpoint msg \<and>
    op_message E v wv msg tx \<lparr>Origin = op_origin a, Tree = \<lparr>Tree_N = to, Tree_Hash = root\<rparr>\<rparr> \<and>
    served E tiles z \<lparr>Tree_N = to, Tree_Hash = root\<rparr> \<and> op_size z = to \<and> op_origin z = op_origin a \<and>
    op_signer z = op_signer a \<and> (\<exists>hs. op_hashes z = op_hashes a @ hs) \<and> (\<exists>P ds. log_inv E tiles P ds z)"
proof -
  from g obtain b u msg where b: "grow_loop E line to a = (b, Inr u)" "Operator_Publish E (fst flags) clock b = (z, Inr msg)"
    and m: "Announce z = Inr m"
    by (auto simp: grow_def split: prod.splits sum.splits if_splits)
  then have pub: "Operator_publish E clock b = (z, Inr msg)" by (simp add: Operator_Publish_def split: if_splits)
  have small: "to < 2 ^ 63" using a(3) by simp
  from grow_loop_ok [OF b(1) laws(1,2) a(1,2) small] obtain ds' hs where
    log: "log_inv E tiles P ds' b" and bb: "op_size b = to" "op_hashes b = op_hashes a @ hs"
    "op_origin b = op_origin a" "op_signer b = op_signer a" by blast
  have "op_size b + 1 < 2 ^ 63" using a(3) bb by simp
  note inv = publish_log [OF laws(1,2) log this pub]
  have "op_inv E b" "op_size b + 1 < 2 ^ 63" using log a(3) bb by (simp_all add: log_inv_def)
  from publish_inv [OF laws(1) this pub] have size: "op_size z = op_size b" by blast
  have hashes: "op_hashes z = op_hashes b"
    using pub by (auto simp: Operator_publish_def Let_def putTimeline_def dest!: publish_tiles_hashes
        split: prod.splits sum.splits option.splits)
  note zs = size hashes
  have lt: "op_size z < 2 ^ 63" using zs bb small by simp
  obtain root tx where z: "SignedCheckpoint z = Some msg" "op_published z = op_size z"
    "op_origin z = op_origin b" "op_signer z = op_signer b"
    "tree_hash E (op_size z) (op_hashReader (op_hashes z)) = Inr root"
    "note_sign E (op_signer z) \<lparr>Text = tx, Sigs = [], UnverifiedSigs = []\<rparr> = Some msg"
    "ParseCheckpoint E tx = Inr \<lparr>Origin = op_origin z, Tree = \<lparr>Tree_N = op_size z, Tree_Hash = root\<rparr>\<rparr>"
    by (rule publish_signs [OF laws(4,5) pub lt])
  have "m = envelope envCheckpoint msg" using m z(1) by (simp add: Announce_def)
  moreover have "op_message E v wv msg tx \<lparr>Origin = op_origin a, Tree = \<lparr>Tree_N = to, Tree_Hash = root\<rparr>\<rparr>"
    using z(3,4,6,7) zs bb a(4,5) by (auto simp: op_message_def)
  moreover have "served E tiles z \<lparr>Tree_N = to, Tree_Hash = root\<rparr>"
    using inv laws(2,3) z(2,5) zs bb by (auto simp: served_def)
  moreover have "\<exists>hs. op_hashes z = op_hashes a @ hs" using zs(2) bb(2) by simp
  moreover have "\<exists>P ds. log_inv E tiles P ds z" using inv by (intro exI)
  ultimately show ?thesis using zs(1) bb z(3,4) by (intro exI [of _ msg] exI [of _ tx] exI [of _ root]) simp
qed

text \<open>
  Operator, witness and client between two rounds: the heads of witness and client are one tree of the
  operator's log, and nothing is parked.
\<close>

definition demo_inv ::
  "('b, 'd, 'x) store_ops_scheme \<Rightarrow> (int \<Rightarrow> tile set) \<Rightarrow> verifier \<Rightarrow> verifier \<Rightarrow> bytes \<Rightarrow> ('b, 'd) parties \<Rightarrow> bool" where
  "demo_inv E tiles v wv origin s \<longleftrightarrow>
     (let z = pa_operator s; wt = r_witness (pa_witness s); c = w_client (pa_client s) in
      (\<exists>P ds. log_inv E tiles P ds z) \<and> op_origin z = origin \<and> verifier_of (op_signer z) v \<and>
      verifier_of (wt_signer wt) wv \<and> signer_works E (wt_signer wt) \<and> wt_operator wt = v \<and> wt_origin wt = origin \<and>
      one_witness (c_policy c) origin v wv \<and> pending (pa_witness s) = [] \<and> pending (pa_client s) = [] \<and>
      flooded (pa_witness s) = [] \<and> Tree_N (Tree (lastYielded (pa_client s))) \<le> op_size z \<and>
      wt_hasHead wt = c_hasHead c \<and>
      (c_hasHead c \<longrightarrow> wt_head wt = c_head c \<and> Tree_N (Tree (c_head c)) = op_size z \<and> Origin (c_head c) = origin \<and>
         hashes_to E (op_hashes z) (Tree (c_head c)) \<and>
         (\<exists>n. note_open E (wt_headMsg wt) [v] = Some n \<and> ParseCheckpoint E (Text n) = Inr (wt_head wt))))"

definition demo_laws :: "('b, 'd, 'x) store_ops_scheme \<Rightarrow> (int \<Rightarrow> tile set) \<Rightarrow> bool" where
  "demo_laws E tiles \<longleftrightarrow> op_laws E \<and> tiles_ok E tiles \<and> proofs_ok E tiles \<and> hash_ops_ok E \<and> notes_ok E \<and>
     (\<forall>n r h. tree_hash E n r = Inr h \<longrightarrow> length h = 32)"

lemma demo_round_ok:
  assumes "demo_laws E tiles" and "keyID v \<noteq> keyID wv" and "demo_inv E tiles v wv origin s"
    and "op_size (pa_operator s) < to" and "to + 1 < 2 ^ 63"
    and "demo_round E line clock flags heard to s = (s', Inr u)"
  shows "demo_inv E tiles v wv origin s' \<and> op_size (pa_operator s') = to \<and> c_hasHead (w_client (pa_client s')) \<and>
    (\<exists>root. outs (pa_client s') = outs (pa_client s) @ [Yielded \<lparr>Origin = origin, Tree = \<lparr>Tree_N = to, Tree_Hash = root\<rparr>\<rparr>] \<and>
       tree_hash E to (op_hashReader (op_hashes (pa_operator s'))) = Inr root \<and>
       c_head (w_client (pa_client s')) = \<lparr>Origin = origin, Tree = \<lparr>Tree_N = to, Tree_Hash = root\<rparr>\<rparr>)"
proof -
  let ?a = "pa_operator s" and ?r = "pa_witness s" and ?w = "pa_client s"
  have laws: "op_laws E" "tiles_ok E tiles" "proofs_ok E tiles" "hash_ops_ok E" "notes_ok E"
    "\<forall>n r h. tree_hash E n r = Inr h \<longrightarrow> length h = 32" using assms(1) unfolding demo_laws_def by blast+
  note inv = assms(3) [unfolded demo_inv_def Let_def]
  obtain P ds where log: "log_inv E tiles P ds ?a" using inv by blast
  from assms(6) obtain z m where g: "grow E line clock flags to ?a = (z, Inr m)"
    and s': "s' = (let (r, w) = demo_hears E heard (Operator_Source E z) m (?r, ?w) in
      \<lparr>pa_operator = z, pa_witness = r, pa_client = w\<rparr>)"
    by (auto simp: demo_round_def split: prod.splits sum.splits)
  have le: "op_size ?a \<le> to" using assms(4) by simp
  have sig: "verifier_of (op_signer ?a) v" "op_origin ?a = origin" using inv by blast+
  obtain msg tx root where m: "m = envelope envCheckpoint msg"
    and msg: "op_message E v wv msg tx \<lparr>Origin = origin, Tree = \<lparr>Tree_N = to, Tree_Hash = root\<rparr>\<rparr>"
    and z: "served E tiles z \<lparr>Tree_N = to, Tree_Hash = root\<rparr>" "op_size z = to" "op_origin z = origin"
      "op_signer z = op_signer ?a" "\<exists>P ds. log_inv E tiles P ds z" "\<exists>hs. op_hashes z = op_hashes ?a @ hs"
    using grow_ok [OF laws(1-4,6) log le assms(5) sig(1) assms(2) g] sig(2) by blast
  define cp where "cp = \<lparr>Origin = origin, Tree = \<lparr>Tree_N = to, Tree_Hash = root\<rparr>\<rparr>"
  have cp: "Origin cp = origin" "Tree cp = \<lparr>Tree_N = to, Tree_Hash = root\<rparr>" by (simp_all add: cp_def)
  have grown: "hashes_to E (op_hashes z) t" if "hashes_to E (op_hashes ?a) t" for t :: tree
    using z(6) laws(2) that unfolding tiles_ok_def by auto
  have older: "Tree_N (Tree (lastYielded ?w)) < to" using inv assms(4) by linarith
  have heads: "c_hasHead (w_client ?w) \<Longrightarrow> Tree_N (Tree (c_head (w_client ?w))) < Tree_N (Tree cp) \<and>
      hashes_to E (op_hashes z) (Tree (c_head (w_client ?w)))"
  proof -
    assume h: "c_hasHead (w_client ?w)"
    with inv have "Tree_N (Tree (c_head (w_client ?w))) = op_size ?a"
      "hashes_to E (op_hashes ?a) (Tree (c_head (w_client ?w)))" by blast+
    with assms(4) show "Tree_N (Tree (c_head (w_client ?w))) < Tree_N (Tree cp) \<and>
      hashes_to E (op_hashes z) (Tree (c_head (w_client ?w)))" by (intro conjI grown) (simp_all add: cp)
  qed
  have same: "wt_hasHead (r_witness ?r) = c_hasHead (w_client ?w)"
    "c_hasHead (w_client ?w) \<Longrightarrow> wt_head (r_witness ?r) = c_head (w_client ?w)" using inv by blast+
  have fresh: "lastYielded ?w \<noteq> cp" using older by (auto simp: cp_def)
  have r: "wt_operator (r_witness ?r) = v" "wt_origin (r_witness ?r) = Origin cp" "verifier_of (wt_signer (r_witness ?r)) wv"
    "signer_works E (wt_signer (r_witness ?r))" "pending ?r = []"
    and w: "pending ?w = []" "one_witness (c_policy (w_client ?w)) (Origin cp) v wv"
    unfolding cp(1) using inv by blast+
  have rheads: "wt_hasHead (r_witness ?r) \<Longrightarrow> Tree_N (Tree (wt_head (r_witness ?r))) < Tree_N (Tree cp) \<and>
      hashes_to E (op_hashes z) (Tree (wt_head (r_witness ?r)))" using heads same by simp
  obtain m' x where cos: "cosigned_message E v wv m' tx"
    and ann: "demo_hears E heard (Operator_Source E z) (envelope envCheckpoint msg) (?r, ?w) =
      (?r\<lparr>r_witness := (r_witness ?r)\<lparr>wt_headMsg := m', wt_head := cp, wt_hasHead := True\<rparr>,
         outs := outs ?r @ [Broadcast (envelope envCheckpoint m')]\<rparr>,
       ?w\<lparr>w_client := (w_client ?w)\<lparr>c_headMsg := x, c_head := cp, c_hasHead := True\<rparr>, pending := [],
         outs := outs ?w @ [Yielded cp], lastYielded := cp\<rparr>)"
    using demo_announce_honest [OF laws(5) msg [folded cp_def] z(1) [folded cp(2)] r rheads w fresh heads] by blast
  have opens: "\<exists>n. note_open E m' [v] = Some n \<and> ParseCheckpoint E (Text n) = Inr cp"
    using cos msg by (auto simp: cosigned_message_def op_message_def cp_def)
  have root: "tree_hash E to (op_hashReader (op_hashes z)) = Inr root" using z(1) by (simp add: served_def)
  show ?thesis using inv z(2-5) opens root unfolding s' m ann
    by (simp add: demo_inv_def cp cp_def [symmetric])
qed

abbreviation round_size :: "('p \<times> 'q \<times> 'r \<times> 's \<times> int) \<Rightarrow> int" where
  "round_size rd \<equiv> snd (snd (snd (snd rd)))"

text \<open>A client that has a head after the rounds has that of the last one.\<close>

lemma demo_run_ok:
  assumes "demo_laws E tiles" and "keyID v \<noteq> keyID wv"
  shows "demo_inv E tiles v wv origin s \<Longrightarrow> demo_run E rounds s = (s', Inr u) \<Longrightarrow>
    sorted_wrt (<) (op_size (pa_operator s) # map round_size rounds) \<Longrightarrow> \<forall>rd \<in> set rounds. round_size rd + 1 < 2 ^ 63 \<Longrightarrow>
    demo_inv E tiles v wv origin s' \<and>
    op_size (pa_operator s') = last (op_size (pa_operator s) # map round_size rounds) \<and>
    (rounds \<noteq> [] \<longrightarrow> c_hasHead (w_client (pa_client s'))) \<and>
    (\<exists>cps. outs (pa_client s') = outs (pa_client s) @ map Yielded cps \<and>
       map (\<lambda>cp. Tree_N (Tree cp)) cps = map round_size rounds \<and> (\<forall>cp \<in> set cps. Origin cp = origin))"
proof (induction rounds arbitrary: s)
  case (Cons rd rounds)
  obtain line clock flags heard to where rd: "rd = (line, clock, flags, heard, to)" by (cases rd)
  from Cons.prems(2) obtain t where t: "demo_round E line clock flags heard to s = (t, Inr ())" "demo_run E rounds t = (s', Inr u)"
    by (auto simp: rd split: prod.splits sum.splits)
  have "op_size (pa_operator s) < to" "to + 1 < 2 ^ 63" using Cons.prems(3,4) by (simp_all add: rd)
  from demo_round_ok [OF assms Cons.prems(1) this t(1)] obtain root where
    inv: "demo_inv E tiles v wv origin t" and size: "op_size (pa_operator t) = to"
    and out: "outs (pa_client t) = outs (pa_client s) @ [Yielded \<lparr>Origin = origin, Tree = \<lparr>Tree_N = to, Tree_Hash = root\<rparr>\<rparr>]"
    and has: "c_hasHead (w_client (pa_client t))" by blast
  have "sorted_wrt (<) (op_size (pa_operator t) # map round_size rounds)" using Cons.prems(3) by (simp add: rd size)
  note IH = Cons.IH [OF inv t(2) this]
  have "\<forall>rd \<in> set rounds. round_size rd + 1 < 2 ^ 63" using Cons.prems(4) by simp
  note IH = IH [OF this, unfolded size]
  then have "\<exists>cps. outs (pa_client s') = outs (pa_client t) @ map Yielded cps \<and>
      map (\<lambda>cp. Tree_N (Tree cp)) cps = map round_size rounds \<and> (\<forall>cp \<in> set cps. Origin cp = origin)"
    by (elim conjE)
  then obtain cps where cps: "outs (pa_client s') = outs (pa_client t) @ map Yielded cps"
    "map (\<lambda>cp. Tree_N (Tree cp)) cps = map round_size rounds" "\<forall>cp \<in> set cps. Origin cp = origin"
    by blast
  have has': "c_hasHead (w_client (pa_client s'))"
  proof (cases rounds)
    case Nil
    with has t(2) show ?thesis by simp
  next
    case (Cons r rs)
    with IH show ?thesis by (simp only: list.distinct not_False_eq_True simp_thms)
  qed
  let ?cp = "\<lparr>Origin = origin, Tree = \<lparr>Tree_N = to, Tree_Hash = root\<rparr>\<rparr>"
  have "outs (pa_client s') = outs (pa_client s) @ map Yielded (?cp # cps)" using cps(1) out by simp
  moreover have "map (\<lambda>cp. Tree_N (Tree cp)) (?cp # cps) = map round_size (rd # rounds)" using cps(2) by (simp add: rd)
  moreover have "\<forall>cp \<in> set (?cp # cps). Origin cp = origin" using cps(3) by simp
  moreover have "op_size (pa_operator s') = last (op_size (pa_operator s) # map round_size (rd # rounds))"
    using IH by (simp add: rd)
  moreover have "demo_inv E tiles v wv origin s'" using IH by (elim conjE)
  ultimately show ?case using has' by blast
qed simp

definition demo_start :: "('b, 'd) operator \<Rightarrow> signer \<Rightarrow> verifier \<Rightarrow> policy \<Rightarrow> ('b, 'd) parties" where
  "demo_start a wsg v p = \<lparr>pa_operator = a, pa_witness = start_run (NewWitness wsg (op_origin a) v),
     pa_client = start_watch (NewClient p)\<rparr>"

lemma demo_start_inv:
  assumes "demo_laws E tiles" and "NewOperator origin (Some sg) blobs doc ns au = Inr a" "\<forall>k. doc_exact E doc ns au k = None"
    and "verifier_of sg v" and "verifier_of wsg wv" and "signer_works E wsg" and "NewPolicy origin (Some v) [Some wv] 1 = Inr p"
  shows "demo_inv E tiles v wv origin (demo_start a wsg v p)" and "op_size a = 0" and "keyID v \<noteq> keyID wv"
proof -
  have laws: "op_laws E" "tiles_ok E tiles" using assms(1) by (simp_all add: demo_laws_def)
  have a: "op_origin a = origin" "op_signer a = sg" "op_size a = 0"
    using assms(2) by (auto simp: NewOperator_def split: if_splits option.splits)
  from NewOperator_log [OF laws assms(2,3)] NewPolicy_one [OF assms(7)] assms(4-6) a
  show "demo_inv E tiles v wv origin (demo_start a wsg v p)" "op_size a = 0" "keyID v \<noteq> keyID wv"
    by (auto simp: demo_inv_def demo_start_def start_run_def start_watch_def NewWitness_def NewClient_def
        zero_checkpoint_def zero_tree_def)
qed

lemma yields_map [simp]: "yields (map Yielded cps) = cps"
  by (induction cps) simp_all

lemma waitHead_finds: "n \<in> (\<lambda>cp. Tree_N (Tree cp)) ` set cps \<Longrightarrow> waitHead n cps \<noteq> None"
  by (induction cps) auto

text \<open>A second history of the head's size is told apart by the witness and reported to the client.\<close>

lemma witness_convicts:
  assumes "notes_ok E" and "op_message E v wv mt tx cp" and "wt_operator (r_witness r) = v"
    and "wt_origin (r_witness r) = Origin cp" and "wt_hasHead (r_witness r)" and "pending r = []" and "flooded r = []"
    and "Tree_N (Tree cp) = Tree_N (Tree (wt_head (r_witness r)))" and "Tree_Hash (Tree cp) \<noteq> Tree_Hash (Tree (wt_head (r_witness r)))"
    and "wt_headMsg (r_witness r) \<noteq> []"
  defines "e \<equiv> \<lparr>First = wt_headMsg (r_witness r), Second = mt\<rparr>"
  shows "\<exists>data. Equivocation_MarshalBinary e = Inr data \<and>
    run_message E (src, False) (envelope envCheckpoint mt) r =
      r\<lparr>flooded := [data], outs := outs r @ [Broadcast (envelope envEquivocation data)]\<rparr>"
proof -
  obtain s0 where s0: "splitNote mt = Inr (tx, s0)" by (rule op_message_split [OF assms(1,2)])
  then have ne: "mt \<noteq> []" using splitNote_ok(1) [OF s0] by auto
  obtain n where n: "note_open E mt [v] = Some n" "Text n = tx"
    by (rule op_message_opens [OF assms(1,2), where vs = "[v]"]) auto
  have parse: "ParseCheckpoint E tx = Inr cp" using assms(2) by (simp add: op_message_def)
  have "Cosign E src False mt (r_witness r) = (r_witness r, Inl (EquivocationError e))"
    using n parse assms(3-5,8,9) by (simp add: Cosign_def Witness_cosign_def e_def)
  moreover obtain data where "Equivocation_MarshalBinary e = Inr data"
    using assms(10) ne by (simp add: Equivocation_MarshalBinary_def e_def)
  ultimately show ?thesis using s0 ne assms(6,7)
    by (simp add: run_message_def openEnvelope_envelope run_process_def flood_def emit_def unpark_def alist_del_def)
qed

lemma client_reports:
  assumes "Equivocation_MarshalBinary e = Inr data" and "length (First e) < 2 ^ 64" and "length (Second e) < 2 ^ 64"
    and "p_operator (c_policy (w_client w)) = Some v"
    and "VerifyEquivocation E e (p_origin (c_policy (w_client w))) v = Inr n"
  shows "w_client (deliver E src (envelope envEquivocation data) w) = w_client w"
    and "YieldedErr e \<in> set (outs (deliver E src (envelope envEquivocation data) w))"
proof -
  from assms(1) have "data \<noteq> []" "Equivocation_UnmarshalBinary data = Inr e"
    using MarshalBinary_chunks [OF assms(1)] Unmarshal_chunks [OF assms(2,3)]
    by (auto simp: Equivocation_MarshalBinary_def split: if_splits)
  then have "watch_message E (src, False, True) (envelope envEquivocation data) w = (emit (YieldedErr e) (flood data w), True)"
    using assms(4,5) by (simp add: watch_message_def openEnvelope_envelope)
  then show "w_client (deliver E src (envelope envEquivocation data) w) = w_client w"
    "YieldedErr e \<in> set (outs (deliver E src (envelope envEquivocation data) w))"
    by (simp_all add: deliver_def)
qed

lemma twin_round:
  assumes "notes_ok E" and "demo_inv E tiles v wv origin s" and "c_hasHead (w_client (pa_client s))"
    and msg: "op_message E v wv mt tx cp" and ann: "Announce twin = Inr (envelope envCheckpoint mt)"
    and cp: "Origin cp = origin" "Tree_N (Tree cp) = Tree_N (Tree (c_head (w_client (pa_client s))))"
      "Tree_Hash (Tree cp) \<noteq> Tree_Hash (Tree (c_head (w_client (pa_client s))))"
    and "length (wt_headMsg (r_witness (pa_witness s))) < 2 ^ 64" and "length mt < 2 ^ 64"
    and "demo_twin E heard twin s = (s', r)"
  shows "r = Inr () \<and> w_client (pa_client s') = w_client (pa_client s) \<and>
    (\<exists>e. YieldedErr e \<in> set (outs (pa_client s')) \<and> Second e = mt \<and> VerifyEquivocation E e origin v = Inr (Tree_N (Tree cp)))"
proof -
  let ?w = "pa_client s" and ?r = "pa_witness s" and ?src = "Operator_Source E (pa_operator s)"
  let ?head = "c_head (w_client ?w)"
  note facts = assms(2) [unfolded demo_inv_def Let_def]
  have r: "wt_operator (r_witness ?r) = v" "wt_origin (r_witness ?r) = Origin cp" "wt_hasHead (r_witness ?r)"
    "pending ?r = []" "flooded ?r = []"
    and head: "wt_head (r_witness ?r) = ?head" "Origin ?head = origin"
    and w: "pending ?w = []" "one_witness (c_policy (w_client ?w)) (Origin cp) v wv"
    unfolding cp(1) using facts assms(3) by (elim conjE, blast)+
  have opened: "\<exists>n. note_open E (wt_headMsg (r_witness ?r)) [v] = Some n \<and> ParseCheckpoint E (Text n) = Inr ?head"
    using facts assms(3) unfolding head(1) by (elim conjE) blast
  define e where "e = \<lparr>First = wt_headMsg (r_witness ?r), Second = mt\<rparr>"
  obtain n where n: "note_open E mt [v] = Some n" "Text n = tx"
    by (rule op_message_opens [OF assms(1) msg, where vs = "[v]"]) auto
  have ver: "VerifyEquivocation E e origin v = Inr (Tree_N (Tree cp))"
    using opened n msg cp head(2) by (auto simp: VerifyEquivocation_ok openOperatorCheckpoint_ok e_def op_message_def)
  obtain n0 where n0: "note_open E (wt_headMsg (r_witness ?r)) [v] = Some n0" using opened by blast
  have "note_format_ok E" using assms(1) by (simp add: notes_ok_def)
  from this [unfolded note_format_ok_def, THEN conjunct2, rule_format, OF n0]
  have ne: "wt_headMsg (r_witness ?r) \<noteq> []" by auto
  obtain data where data: "Equivocation_MarshalBinary e = Inr data"
    and run: "run_message E (?src, False) (envelope envCheckpoint mt) ?r =
      ?r\<lparr>flooded := [data], outs := outs ?r @ [Broadcast (envelope envEquivocation data)]\<rparr>"
    using witness_convicts [OF assms(1) msg r(1-5), of ?src] cp(2,3) ne head(1) unfolding e_def by auto
  define w1 where "w1 = (if heard then deliver E ?src (envelope envCheckpoint mt) ?w else ?w)"
  obtain s0 where s0: "splitNote mt = Inr (tx, s0)" by (rule op_message_split [OF assms(1) msg])
  have w1: "w_client w1 = w_client ?w"
    using deliver_parks [OF s0 w(1) one_witness_refuses [OF assms(1) msg w(2)]] by (simp add: w1_def park_def)
  have pol: "p_operator (c_policy (w_client w1)) = Some v" "p_origin (c_policy (w_client w1)) = origin"
    using w(2) w1 cp(1) by (simp_all add: one_witness_def)
  have short: "length (First e) < 2 ^ 64" "length (Second e) < 2 ^ 64" using assms(9,10) by (simp_all add: e_def)
  note told = client_reports [OF data short pol(1) ver [folded pol(2)], of ?src]
  have "demo_hears E heard ?src (envelope envCheckpoint mt) (?r, ?w) =
      (?r\<lparr>flooded := [data], outs := outs ?r @ [Broadcast (envelope envEquivocation data)]\<rparr>,
       deliver E ?src (envelope envEquivocation data) w1)"
    using run by (simp add: demo_hears_def broadcasts_def Let_def w1_def)
  then have "s' = s\<lparr>pa_witness := ?r\<lparr>flooded := [data], outs := outs ?r @ [Broadcast (envelope envEquivocation data)]\<rparr>,
      pa_client := deliver E ?src (envelope envEquivocation data) w1\<rparr> \<and> r = Inr ()"
    using assms(11) ann by (simp add: demo_twin_def)
  with told w1 ver show ?thesis by (auto simp: e_def)
qed

subsection \<open>Properties\<close>



subsection \<open>Lemmas: a connection that has ended\<close>

text \<open>
  The getter keeps its first connection for ever: once that opens no more streams, every later get
  fails, whatever dialing again would give.
\<close>

lemma dead_connection_kept:
  "\<forall>(W, h) \<in> set calls. \<not> dw_open W c \<Longrightarrow>
   dial_calls calls (Some c) = (Some c, map (\<lambda>_. Inl OpenBlobStream) calls)"
  by (induction calls) (auto simp: DialBlobGetter_def dial_get_def Let_def split: prod.split)

lemma fresh_getter_dials:
  "dw_connect W = Some c \<Longrightarrow> dw_open W c \<Longrightarrow> dw_blob W c h = Some data \<Longrightarrow>
   DialBlobGetter W h None = (Some c, Inr data)"
  by (simp add: DialBlobGetter_def dial_get_def)

subsection \<open>Witnesses\<close>

lemma flat_demo_laws: "demo_laws flat_ops flat_tiles"
proof -
  have "parse_hash flat_ops [] = None" by (simp add: flat_simps std_hash_ops_def b64_decode_def)
  then show ?thesis
    using flat_laws flat_tiles_ok flat_proofs_ok flat_hash_laws lines_notes_ok [OF flat_simps(21)]
    by (simp add: demo_laws_def)
qed

lemma demo_signer_works: "signer_works flat_ops demo_signer"
  unfolding signer_works_def flat_simps
proof (intro allI impI, elim conjE)
  fix msg vs n c
  assume o: "line_open msg vs = Some n"
  let ?n = "n\<lparr>Sigs := Sigs n @ UnverifiedSigs n, UnverifiedSigs := []\<rparr>"
  obtain s where s: "splitNote msg = Inr (Text n, s)"
    "map sName (Sigs n) = filter (\<lambda>l. \<exists>v \<in> set vs. line_of v l) (fresh [] (sig_lines s))"
    "map sName (UnverifiedSigs n) = filter (\<lambda>l. \<not> (\<exists>v \<in> set vs. line_of v l)) (fresh [] (sig_lines s))"
    by (rule line_open_ok [OF o])
  have "l \<in> set (sig_lines s)" if "l \<in> set (map sName (Sigs n @ UnverifiedSigs n))" for l
    using that unfolding map_append s(2,3) by (auto simp: set_fresh)
  then have "l \<noteq> [] \<and> nl \<notin> set l" if "l \<in> set (line_names demo_signer ?n)" for l
    using that sig_lines_free [of l s] by (auto simp: line_names_def demo_signer_def)
  moreover have "splitNote (Text n @ [nl] @ unlines (line_names demo_signer ?n)) =
      Inr (Text n, unlines (line_names demo_signer ?n))" by (rule splitNote_ok(2) [OF s(1)])
  ultimately show "line_sign demo_signer ?n \<noteq> None"
    by (auto simp: line_sign_def Let_def) (simp_all add: demo_signer_def)
qed

abbreviation (input) demo_op_signer :: signer where
  "demo_op_signer \<equiv> demo_signer\<lparr>sgName := ''op''\<rparr>"

definition demo_parties :: "(bytes list, timeline_entry list) parties" where
  "demo_parties = demo_start demo_op0 demo_signer demo_operator demo_policy"

lemma demo_parties_ok:
  "verifier_of demo_op_signer demo_operator" "verifier_of demo_signer demo_witness"
  "NewPolicy ''log'' (Some demo_operator) [Some demo_witness] 1 = Inr demo_policy"
  "NewOperator ''log'' (Some demo_op_signer) (Some []) [] ''ns'' ''au'' = Inr demo_op0"
  "\<forall>k. doc_exact flat_ops [] ''ns'' ''au'' k = None"
  using demo_NewOperator demo_NewPolicy
  by (simp_all add: verifier_of_def demo_operator_def demo_witness_def demo_verifier_def demo_signer_def flat_simps demo_store_simps)

definition demo_line :: "int \<Rightarrow> bool \<times> u64 \<times> bytes" where
  "demo_line i = (False, 7, ''hello'')"

definition demo_rounds :: "((int \<Rightarrow> bool \<times> u64 \<times> bytes) \<times> (nat \<Rightarrow> u64) \<times> (bool \<times> bool) \<times> bool \<times> int) list" where
  "demo_rounds = [(demo_line, \<lambda>i. 9, (False, True), True, 1)]"

lemma demo_grow:
  "\<exists>b. grow flat_ops demo_line (\<lambda>i. 9) (False, True) 1 demo_op0 =
     (b, Inr (envelope envCheckpoint (flat_text ''hello'' @ [nl] @ ''op'' @ [nl])))"
proof -
  obtain b where b: "Operator_Publish flat_ops False (\<lambda>i. 9) (flat_op1 ''hello'') =
      (b, Inr (flat_text ''hello'' @ [nl] @ ''op'' @ [nl]))" "op_size b = 1" using flat_Publish by blast
  have "op_size (flat_op1 ''hello'') = 1" by (simp add: flat_op1_eq)
  then have "grow_loop flat_ops demo_line 1 (flat_op1 ''hello'') = (flat_op1 ''hello'', Inr ())"
    by (simp add: grow_loop.simps)
  moreover obtain i where "Operator_Append flat_ops False 7 ''hello'' demo_op0 = (flat_op1 ''hello'', Inr i)"
    by (simp add: flat_op1_def Operator_Append_def Operator_append_def flat_simps demo_store_simps Let_def)
  ultimately have "grow_loop flat_ops demo_line 1 demo_op0 = (flat_op1 ''hello'', Inr ())"
    by (subst grow_loop.simps) (simp add: demo_line_def demo_op0_def)
  moreover have "SignedCheckpoint b = Some (flat_text ''hello'' @ [nl] @ ''op'' @ [nl])"
    by (rule publish_signs [OF flat_hash_laws, of "\<lambda>i. 9" "flat_op1 ''hello''" b])
      (use b in \<open>simp_all add: Operator_Publish_def\<close>)
  ultimately show ?thesis using b(1) by (simp add: grow_def Announce_def)
qed

lemma demo_run_runs: "\<exists>s. demo_run flat_ops demo_rounds demo_parties = (s, Inr ())"
proof -
  obtain b where "grow flat_ops demo_line (\<lambda>i. 9) (False, True) 1 demo_op0 =
     (b, Inr (envelope envCheckpoint (flat_text ''hello'' @ [nl] @ ''op'' @ [nl])))" using demo_grow by blast
  then show ?thesis
    by (simp add: demo_rounds_def demo_round_def demo_parties_def demo_start_def split_def Let_def)
qed


lemma flat_text_parse:
  "ParseCheckpoint flat_ops (flat_text d) = Inr \<lparr>Origin = ''log'', Tree = \<lparr>Tree_N = 1, Tree_Hash = flat_hash d\<rparr>\<rparr>"
  by (rule ParseCheckpoint_Marshal [OF _ flat_hash_laws(1)])
    (simp_all add: MarshalText_def flat_text_def flat_simps flat_hash_length)

lemma flat_text_short: "length (flat_text d) < 200"
  using length_b64 [of "flat_hash d"] by (simp add: flat_text_def std_hash_ops_def flat_hash_length fmt_int_def dec_digits.simps)

definition demo_cosigned :: bytes where
  "demo_cosigned = flat_text ''hello'' @ [nl] @ unlines [''op'', ''wit'']"

lemma demo_cosigns:
  "Cosign flat_ops src False (flat_text ''hello'' @ [nl] @ ''op'' @ [nl]) (NewWitness demo_signer ''log'' demo_operator) =
     ((NewWitness demo_signer ''log'' demo_operator)\<lparr>wt_headMsg := demo_cosigned,
        wt_head := \<lparr>Origin = ''log'', Tree = \<lparr>Tree_N = 1, Tree_Hash = flat_hash ''hello''\<rparr>\<rparr>, wt_hasHead := True\<rparr>,
      Inr demo_cosigned)"
proof -
  have one: "sig_lines (''op'' @ [nl]) = [''op'']" by code_simp
  have "line_open (flat_text ''hello'' @ [nl] @ ''op'' @ [nl]) [demo_operator] =
      Some \<lparr>Text = flat_text ''hello'', Sigs = [line_sig ''op''], UnverifiedSigs = []\<rparr>"
    using line_open_eq [OF flat_split [of "''hello''" "''op'' @ [nl]"], of "[demo_operator]"] unfolding one
    by (simp add: line_of_def demo_operator_def demo_verifier_def)
  moreover have "line_names demo_signer \<lparr>Text = flat_text ''hello'', Sigs = [line_sig ''op''], UnverifiedSigs = []\<rparr> = [''op'', ''wit'']"
    by (simp add: line_names_def line_sig_def demo_signer_def)
  then have "line_sign demo_signer \<lparr>Text = flat_text ''hello'', Sigs = [line_sig ''op''], UnverifiedSigs = []\<rparr> = Some demo_cosigned"
    using flat_split [of "''hello''" "unlines [''op'', ''wit'']"]
    by (simp add: line_sign_def Let_def demo_cosigned_def demo_signer_def)
  ultimately show ?thesis
    by (simp add: Cosign_def Witness_cosign_def NewWitness_def flat_simps flat_text_parse)
qed

lemma demo_state:
  assumes "demo_run flat_ops demo_rounds demo_parties = (s, Inr u)"
  shows "wt_headMsg (r_witness (pa_witness s)) = demo_cosigned"
    and "wt_head (r_witness (pa_witness s)) = \<lparr>Origin = ''log'', Tree = \<lparr>Tree_N = 1, Tree_Hash = flat_hash ''hello''\<rparr>\<rparr>"
proof -
  obtain b where b: "grow flat_ops demo_line (\<lambda>i. 9) (False, True) 1 demo_op0 =
     (b, Inr (envelope envCheckpoint (flat_text ''hello'' @ [nl] @ ''op'' @ [nl])))" using demo_grow by blast
  let ?r = "run_message flat_ops (Operator_Source flat_ops b, False)
      (envelope envCheckpoint (flat_text ''hello'' @ [nl] @ ''op'' @ [nl])) (start_run (NewWitness demo_signer ''log'' demo_operator))"
  have s: "pa_witness s = ?r"
    using assms b by (auto simp: demo_rounds_def demo_round_def demo_parties_def demo_start_def demo_hears_def
        demo_op0_def split_def Let_def)
  have "r_witness ?r = (NewWitness demo_signer ''log'' demo_operator)\<lparr>wt_headMsg := demo_cosigned,
        wt_head := \<lparr>Origin = ''log'', Tree = \<lparr>Tree_N = 1, Tree_Hash = flat_hash ''hello''\<rparr>\<rparr>, wt_hasHead := True\<rparr>"
    using demo_cosigns flat_split [of "''hello''" "''op'' @ [nl]"]
    by (simp add: run_message_def openEnvelope_envelope run_process_def start_run_def emit_def unpark_def)
  with s show "wt_headMsg (r_witness (pa_witness s)) = demo_cosigned"
    "wt_head (r_witness (pa_witness s)) = \<lparr>Origin = ''log'', Tree = \<lparr>Tree_N = 1, Tree_Hash = flat_hash ''hello''\<rparr>\<rparr>"
    by simp_all
qed


end
