(* ===== verification/Tlog_Roles.thy ===== *)
theory Tlog_Roles
  imports Tlog_Demo
begin

section \<open>Transparency log: whole runs of the command (tlogiroh/cmd/tlog-iroh/main.go)\<close>

text \<open>
  The roles operator, witness, watch and get from their flags to their results: the keys they make, the log they
  open, the topic they join, and then the events of the run. A run starts from its flags alone; what a role keeps
  across runs is the head file of watch, and the keys that the user passes again.
\<close>

subsection \<open>Flags and nodes\<close>

definition stringList_String :: "bytes list \<Rightarrow> bytes" where
  "stringList_String l = concat (map (\<lambda>(i, s). if i = 0 then s else '','' @ s) (enumerate 0 l))"

definition stringList_Set :: "bytes \<Rightarrow> bytes list \<Rightarrow> bytes list" where
  "stringList_Set s l = l @ [s]"

datatype run_error =
    ParseBindAddr | BindEndpoint | NewRouter | SubscribeTopic | Canceled | OpenLog open_error | RoleFlags
  | RoleCmd cmd_error | RoleTlog tlog_error

text \<open>The network as \<^verbatim>\<open>bindNode\<close> and \<^verbatim>\<open>Subscribe\<close> find it, and the parsers of keys and tickets.\<close>

record net =
  nt_addr :: bool
  nt_bind :: bool
  nt_router :: bool
  nt_subscribe :: bool

record parsers =
  ps_signer :: "bytes \<Rightarrow> signer option"
  ps_verifier :: "bytes \<Rightarrow> verifier option"
  ps_ticket :: "bytes \<Rightarrow> ticket option"

definition bind_error :: "net \<Rightarrow> run_error option" where
  "bind_error N =
     (if \<not> nt_addr N then Some ParseBindAddr
      else if \<not> nt_bind N then Some BindEndpoint
      else if \<not> nt_router N then Some NewRouter
      else None)"

text \<open>The handlers of a node by their ALPN: gossip (\<open>alpn\<close>), and those given, which take precedence.\<close>

definition bindNode :: "net \<Rightarrow> bytes \<Rightarrow> 'h \<Rightarrow> (bytes \<rightharpoonup> 'h) \<Rightarrow> run_error + (bytes \<rightharpoonup> 'h)" where
  "bindNode N alpn gossip extra =
     (case bind_error N of Some e \<Rightarrow> Inl e | None \<Rightarrow> Inr ([alpn \<mapsto> gossip] ++ extra))"

definition open_role ::
  "parsers \<Rightarrow> net \<Rightarrow> bytes \<Rightarrow> bytes \<Rightarrow> bytes \<Rightarrow> timeline_entry list option list \<Rightarrow> run_error + opened_log" where
  "open_role Q N ticket operatorKey origin rounds =
     (case openLog (ps_ticket Q) (ps_verifier Q) ticket operatorKey origin (bind_error N = None) rounds of
        Inl e \<Rightarrow> Inl (OpenLog e) | Inr l \<Rightarrow> Inr l)"

subsection \<open>The operator\<close>

text \<open>
  What the operator's process sees: a tick of its announcer, a line with the state of the context and the
  clock, the end of its input. The list ends when the process is interrupted. A tick that falls between the steps of a line
  announces what was announced before the line, so a line is one event.
\<close>

datatype op_event = AnnounceTick | InputLine bool u64 "nat \<Rightarrow> u64" bytes | InputClosed

fun operator_events ::
  "('b, 'd, 'x) store_ops_scheme \<Rightarrow> bool \<Rightarrow> op_event list \<Rightarrow> ('b, 'd) operator \<Rightarrow>
   ('b, 'd) operator \<times> bytes list \<times> (run_error + unit)" where
  "operator_events E closed [] a = (a, [], Inl Canceled)"
| "operator_events E closed (AnnounceTick # es) a =
     (let (b, msgs, r) = operator_events E closed es a in
      (b, (case Announce a of Inl _ \<Rightarrow> msgs | Inr m \<Rightarrow> m # msgs), r))"
| "operator_events E closed (InputClosed # es) a = operator_events E True es a"
| "operator_events E closed (InputLine d t clock line # es) a =
     (if closed then operator_events E closed es a
      else case operator_line E d t clock line a of
        (b, Inl e) \<Rightarrow> (b, [], Inl (RoleTlog e))
      | (b, Inr (index, msg)) \<Rightarrow> (let (c, msgs, r) = operator_events E closed es b in (c, msg # msgs, r)))"

text \<open>\<open>made\<close> is what \<^verbatim>\<open>NewOperator\<close> makes: an empty blob store and document, and new identities of namespace and author.\<close>

definition runOperator ::
  "parsers \<Rightarrow> net \<Rightarrow> ('b, 'd, 'x) store_ops_scheme \<Rightarrow> bytes \<Rightarrow> bytes \<Rightarrow> (bytes \<times> bytes) option \<Rightarrow>
   'b option \<times> 'd \<times> bytes \<times> bytes \<Rightarrow> op_event list \<Rightarrow> ('b, 'd) operator option \<times> bytes list \<times> (run_error + unit)" where
  "runOperator Q N E origin skey generated made es =
     (if origin = [] then (None, [], Inl RoleFlags)
      else case signerFor (ps_signer Q) generated skey of
        Inl e \<Rightarrow> (None, [], Inl (RoleCmd e))
      | Inr sg \<Rightarrow>
        (case made of (blobs, doc, namespace, author) \<Rightarrow>
         (case NewOperator origin (Some sg) blobs doc namespace author of
            Inl e \<Rightarrow> (None, [], Inl (RoleTlog e))
          | Inr a \<Rightarrow>
            (case bind_error N of
               Some e \<Rightarrow> (Some a, [], Inl e)
             | None \<Rightarrow>
               if \<not> nt_subscribe N then (Some a, [], Inl SubscribeTopic)
               else (let (b, msgs, r) = operator_events E False es a in (Some b, msgs, r))))))"

subsection \<open>The witness, watch and get\<close>

text \<open>What the ticker of the witness prints: the size of each head that differs from the last one it saw.\<close>

fun cosigned_sizes :: "checkpoint \<Rightarrow> (checkpoint \<times> bool) list \<Rightarrow> int list" where
  "cosigned_sizes seen [] = []"
| "cosigned_sizes seen ((head, ok) # polls) =
     (if ok \<and> head \<noteq> seen then Tree_N (Tree head) # cosigned_sizes head polls else cosigned_sizes seen polls)"

definition runWitness ::
  "parsers \<Rightarrow> net \<Rightarrow> 'x sign_ops_scheme \<Rightarrow> bytes \<Rightarrow> bytes \<Rightarrow> bytes \<Rightarrow> bytes \<Rightarrow> (bytes \<times> bytes) option \<Rightarrow>
   timeline_entry list option list \<Rightarrow> run_event list \<Rightarrow> run_error + witness_run" where
  "runWitness Q N E ticket operatorKey origin skey generated rounds evs =
     (case signerFor (ps_signer Q) generated skey of
        Inl e \<Rightarrow> Inl (RoleCmd e)
      | Inr sg \<Rightarrow>
        (case open_role Q N ticket operatorKey origin rounds of
           Inl e \<Rightarrow> Inl e
         | Inr l \<Rightarrow>
           if \<not> nt_subscribe N then Inl SubscribeTopic
           else Inr (fold (run_step E) evs (start_run (NewWitness sg (ol_origin l) (ol_opKey l))))))"

text \<open>Without a head file nothing is restored and nothing is written; a context that ends is how watching ends.\<close>

definition watch_role ::
  "parsers \<Rightarrow> net \<Rightarrow> 'x tlog_ops_scheme \<Rightarrow> bytes \<Rightarrow> bytes \<Rightarrow> bytes \<Rightarrow> bytes list \<Rightarrow> int \<Rightarrow> bool \<Rightarrow>
   timeline_entry list option list \<Rightarrow> file_event list \<Rightarrow> head_file \<Rightarrow> head_file \<times> (run_error + unit)" where
  "watch_role Q N E ticket operatorKey origin witnessKeys k keep rounds es f =
     (case open_role Q N ticket operatorKey origin rounds of
        Inl e \<Rightarrow> (f, Inl e)
      | Inr l \<Rightarrow>
        (case clientFor (ps_verifier Q) (ol_origin l) (Some (ol_opKey l)) witnessKeys k of
           Inl e \<Rightarrow> (f, Inl (RoleCmd e))
         | Inr client \<Rightarrow>
           (case restore_head E client (if keep then f else None) of
              Inl e \<Rightarrow> (f, Inl (RoleCmd e))
            | Inr c \<Rightarrow>
              if \<not> nt_subscribe N then (f, Inl SubscribeTopic)
              else (if keep then snd (watch_loop E es (start_watch c, f)) else f, Inl Canceled))))"

definition get_role ::
  "parsers \<Rightarrow> net \<Rightarrow> 'x tlog_ops_scheme \<Rightarrow> bytes \<Rightarrow> bytes \<Rightarrow> bytes \<Rightarrow> bytes list \<Rightarrow> int \<Rightarrow> bool \<Rightarrow>
   timeline_entry list option list \<Rightarrow> (bytes \<Rightarrow> source) \<Rightarrow> int \<Rightarrow> head_file \<Rightarrow> run_error + bytes" where
  "get_role Q N E ticket operatorKey origin witnessKeys k head rounds src index f =
     (if \<not> head \<or> index < 0 then Inl RoleFlags
      else if f = None then Inl (RoleCmd ReadHeadFile)
      else case open_role Q N ticket operatorKey origin rounds of
        Inl e \<Rightarrow> Inl e
      | Inr l \<Rightarrow>
        (case clientFor (ps_verifier Q) (ol_origin l) (Some (ol_opKey l)) witnessKeys k of
           Inl e \<Rightarrow> Inl (RoleCmd e)
         | Inr client \<Rightarrow> (case runGet E client (src (ol_author l)) index f of Inl e \<Rightarrow> Inl (RoleCmd e) | Inr out \<Rightarrow> Inr out)))"

subsection \<open>Lemmas: what a running operator broadcasts\<close>

text \<open>The checkpoint an operator holds is one it signed, of its own origin.\<close>

definition op_signed :: "'x sign_ops_scheme \<Rightarrow> signer \<Rightarrow> bytes \<Rightarrow> bytes \<Rightarrow> bool" where
  "op_signed E sg origin msg \<longleftrightarrow> (\<exists>cp tx. ParseCheckpoint E tx = Inr cp \<and> Origin cp = origin \<and>
     note_sign E sg \<lparr>Text = tx, Sigs = [], UnverifiedSigs = []\<rparr> = Some msg)"

definition op_signs :: "'x sign_ops_scheme \<Rightarrow> signer \<Rightarrow> bytes \<Rightarrow> ('b, 'd) operator \<Rightarrow> bool" where
  "op_signs E sg origin a \<longleftrightarrow> op_signer a = sg \<and> op_origin a = origin \<and>
     (\<forall>msg. SignedCheckpoint a = Some msg \<longrightarrow> op_signed E sg origin msg)"

lemma op_signed_message:
  assumes "op_signed E sg origin msg" and "verifier_of sg v" and "keyID v \<noteq> keyID wv"
  obtains tx cp where "op_message E v wv msg tx cp" "Origin cp = origin"
  using assms by (auto simp: op_signed_def op_message_def)

lemma Append_keeps_ids:
  "Operator_Append E d t entry a = (b, r) \<Longrightarrow> op_signer b = op_signer a \<and> op_origin b = op_origin a \<and>
     SignedCheckpoint b = SignedCheckpoint a"
  by (auto simp: Operator_Append_def Operator_append_def SignedCheckpoint_def putTimeline_def Let_def
      split: if_split_asm option.split_asm sum.split_asm prod.split_asm)

lemma Publish_keeps_size: "Operator_publish E clock a = (b, r) \<Longrightarrow> op_size b = op_size a"
  by (auto simp: Operator_publish_def Let_def putTimeline_def dest!: publish_tiles_size
      split: prod.split_asm sum.split_asm option.split_asm)

lemma line_signs:
  assumes "hash_ops_ok E" and "\<forall>n r h. tree_hash E n r = Inr h \<longrightarrow> length h = 32"
    and "operator_line E d t clock line a = (b, Inr (i, m))" and "op_signs E sg origin a" and "op_size a + 1 < 2 ^ 63"
  shows "op_signs E sg origin b \<and> op_size b = op_size a + 1 \<and> (\<exists>msg. m = envelope envCheckpoint msg \<and> op_signed E sg origin msg)"
proof -
  from assms(3) obtain o2 msg where s: "Operator_Append E d t line a = (o2, Inr i)" "Operator_Publish E d clock o2 = (b, Inr msg)"
    "Announce b = Inr m"
    by (auto simp: operator_line_def split: prod.split_asm sum.split_asm)
  have size: "op_size o2 = op_size a + 1" using Append_size [OF s(1)] by simp
  have pub: "Operator_publish E clock o2 = (b, Inr msg)" using s(2) by (simp add: Operator_Publish_def split: if_splits)
  have "op_size b < 2 ^ 63" using Publish_keeps_size [OF pub] size assms(5) by simp
  from publish_signs [OF assms(1,2) pub this] obtain root tx where p: "SignedCheckpoint b = Some msg" "op_size b = op_size o2"
    "op_origin b = op_origin o2" "op_signer b = op_signer o2"
    "note_sign E (op_signer b) \<lparr>Text = tx, Sigs = [], UnverifiedSigs = []\<rparr> = Some msg"
    "ParseCheckpoint E tx = Inr \<lparr>Origin = op_origin b, Tree = \<lparr>Tree_N = op_size b, Tree_Hash = root\<rparr>\<rparr>" by metis
  have ids: "op_signer b = sg" "op_origin b = origin" using Append_keeps_ids [OF s(1)] p(3,4) assms(4) by (simp_all add: op_signs_def)
  have "op_signed E sg origin msg"
    using p(5,6) unfolding ids op_signed_def by (intro exI [of _ "\<lparr>Origin = origin, Tree = \<lparr>Tree_N = op_size b, Tree_Hash = root\<rparr>\<rparr>"] exI [of _ tx]) simp
  moreover have "m = envelope envCheckpoint msg" using s(3) p(1) by (simp add: Announce_def)
  ultimately show ?thesis using ids p(1,2) size by (auto simp: op_signs_def)
qed

lemma operator_events_sign:
  assumes "hash_ops_ok E" and "\<forall>n r h. tree_hash E n r = Inr h \<longrightarrow> length h = 32"
  shows "operator_events E closed es a = (b, msgs, r) \<Longrightarrow> op_signs E sg origin a \<Longrightarrow> op_size a + int (length es) < 2 ^ 63 \<Longrightarrow>
    m \<in> set msgs \<Longrightarrow> \<exists>msg. m = envelope envCheckpoint msg \<and> op_signed E sg origin msg"
proof (induction es arbitrary: closed a b msgs r)
  case (Cons e es)
  show ?case
  proof (cases e)
    case AnnounceTick
    obtain b' msgs' r' where rest: "operator_events E closed es a = (b', msgs', r')" by (metis prod_cases3)
    have "m \<in> set msgs' \<Longrightarrow> ?thesis" using Cons.IH [OF rest] Cons.prems by simp
    then show ?thesis using Cons.prems rest AnnounceTick
      by (auto simp: Announce_def op_signs_def split: option.split_asm sum.split_asm)
  next
    case (InputLine d t clock line)
    show ?thesis
    proof (cases closed)
      case False
      obtain c res where l: "operator_line E d t clock line a = (c, res)" by fastforce
      show ?thesis
      proof (cases res)
        case (Inr im)
        obtain i m' where im: "im = (i, m')" by fastforce
        from line_signs [OF assms l [unfolded Inr im] Cons.prems(2)] Cons.prems(3)
        have c: "op_signs E sg origin c" "op_size c = op_size a + 1" "\<exists>msg. m' = envelope envCheckpoint msg \<and> op_signed E sg origin msg"
          by simp_all
        obtain b' msgs' r' where rest: "operator_events E closed es c = (b', msgs', r')" by (metis prod_cases3)
        have "m = m' \<or> m \<in> set msgs'" using Cons.prems(1,4) False l InputLine Inr im rest by auto
        then show ?thesis using Cons.IH [OF rest c(1)] c(2,3) Cons.prems(3) by auto
      qed (use Cons.prems(1,4) False l InputLine in auto)
    qed (use Cons InputLine in auto)
  qed (use Cons in auto)
qed simp

lemma runOperator_signs:
  assumes "hash_ops_ok E" and "\<forall>n r h. tree_hash E n r = Inr h \<longrightarrow> length h = 32"
    and "runOperator Q N E origin skey gen made es = (a, msgs, r)" and "skey \<noteq> []" and "ps_signer Q skey = Some sg"
    and "length es < 2 ^ 63" and "m \<in> set msgs"
  shows "\<exists>msg. m = envelope envCheckpoint msg \<and> op_signed E sg origin msg"
proof -
  obtain blobs doc ns au where made: "made = (blobs, doc, ns, au)" by (metis prod_cases4)
  from assms(3,4,5,7) made obtain a0 b where a0: "NewOperator origin (Some sg) blobs doc ns au = Inr a0"
    "operator_events E False es a0 = (b, msgs, r)"
    by (auto simp: runOperator_def signerFor_def split: if_split_asm sum.split_asm prod.split_asm option.split_asm)
  have "op_signs E sg origin a0" "op_size a0 = 0"
    using a0(1) by (auto simp: NewOperator_def op_signs_def SignedCheckpoint_def split: if_split_asm option.split_asm)
  moreover have "int (length es) < 2 ^ 63" using assms(6) by simp
  ultimately show ?thesis using operator_events_sign [OF assms(1,2) a0(2) _ _ assms(7)] by simp
qed

subsection \<open>Lemmas: a process that starts anew\<close>

text \<open>A witness that has no head cosigns what the operator signed, and a client that has none accepts it.\<close>

lemma fresh_witness_cosigns:
  assumes "notes_ok E" and "op_message E v wv msg tx cp" and "verifier_of wsg wv" and "signer_works E wsg"
  obtains m where "cosigned_message E v wv m tx"
    "outs (fold (run_step E) [RunMessage (src, False) (envelope envCheckpoint msg)] (start_run (NewWitness wsg (Origin cp) v))) =
      [Broadcast (envelope envCheckpoint m)]"
proof -
  obtain n m where n: "note_open E msg [v] = Some n" "Text n = tx" "ParseCheckpoint E tx = Inr cp"
    "note_sign E wsg (n\<lparr>Sigs := Sigs n @ UnverifiedSigs n, UnverifiedSigs := []\<rparr>) = Some m" "cosigned_message E v wv m tx"
    by (rule witness_can_sign [OF assms])
  obtain s where s: "splitNote msg = Inr (tx, s)" by (rule op_message_split [OF assms(1,2)])
  let ?w = "NewWitness wsg (Origin cp) v"
  have "Cosign E src False msg ?w = (?w\<lparr>wt_headMsg := m, wt_head := cp, wt_hasHead := True\<rparr>, Inr m)"
    using n(1-4) by (simp add: Cosign_def Witness_cosign_def NewWitness_def Let_def)
  moreover have "msg \<noteq> []" using splitNote_ok(1) [OF s] by auto
  ultimately have "outs (run_message E (src, False) (envelope envCheckpoint msg) (start_run ?w)) = [Broadcast (envelope envCheckpoint m)]"
    using s by (simp add: run_message_def openEnvelope_envelope run_process_def start_run_def)
  with n(5) that show thesis by simp
qed

lemma op_message_checkpoint:
  assumes "notes_ok E" and "op_message E v wv msg tx cp" and "Origin cp = origin"
  shows "openOperatorCheckpoint E msg origin v = Inr cp"
  by (rule op_message_opens [OF assms(1,2), where vs = "[v]"])
    (use assms(2,3) in \<open>auto simp: openOperatorCheckpoint_ok op_message_def\<close>)

lemma fresh_client_accepts:
  assumes "Policy_Open E p m = Inr cp"
  shows "Client_Update E src False m (NewClient p) = ((NewClient p)\<lparr>c_headMsg := m, c_head := cp, c_hasHead := True\<rparr>, Inr cp)"
  using assms by (simp add: Client_Update_def Client_update_def NewClient_def Let_def)

text \<open>The log that a role opens is of the given origin, under the given operator key.\<close>

lemma runWitness_runs:
  assumes "runWitness Q N E ticket opk origin skey gen rounds evs = Inr r" and "skey \<noteq> []" and "origin \<noteq> []"
  obtains sg v where "ps_signer Q skey = Some sg" "ps_verifier Q opk = Some v"
    "r = fold (run_step E) evs (start_run (NewWitness sg origin v))"
  using assms by (auto simp: runWitness_def open_role_def openLog_def signerFor_def Let_def of_option_def
      split: sum.split_asm option.split_asm list.split_asm if_split_asm)

subsection \<open>Properties\<close>


subsection \<open>Witnesses\<close>

definition demo_parsers :: parsers where
  "demo_parsers = \<lparr>ps_signer = (\<lambda>k. if k = ''ok'' then Some demo_op_signer else Some demo_signer),
     ps_verifier = (\<lambda>k. Some demo_operator), ps_ticket = (\<lambda>t. Some \<lparr>tk_nodes = [''n''], tk_namespace = ''ns''\<rparr>)\<rparr>"

definition demo_net :: net where
  "demo_net = \<lparr>nt_addr = True, nt_bind = True, nt_router = True, nt_subscribe = True\<rparr>"

definition demo_entries :: "timeline_entry list option list" where
  "demo_entries = [None, Some [\<lparr>te_namespace = ''ns'', te_author = ''au'', te_key = [], te_hash = [], te_len = 0\<rparr>]]"

text \<open>An operator that is given one line, and a witness that hears its announcement.\<close>

abbreviation flat_message :: "bytes \<Rightarrow> bytes" where
  "flat_message d \<equiv> flat_text d @ [nl] @ ''op'' @ [nl]"

lemma flat_operator:
  "\<exists>a r. runOperator demo_parsers demo_net flat_ops ''log'' ''ok'' None (Some [], [], ''ns'', ''au'') [InputLine False 7 (\<lambda>i. 9) d] =
     (a, [envelope envCheckpoint (flat_message d)], r)"
proof -
  obtain b where b: "Operator_Publish flat_ops False (\<lambda>i. 9) (flat_op1 d) = (b, Inr (flat_message d))" "op_size b = 1"
    using flat_Publish by blast
  have "SignedCheckpoint b = Some (flat_message d)"
    by (rule publish_signs [OF flat_hash_laws, of "\<lambda>i. 9" "flat_op1 d" b]) (use b in \<open>simp_all add: Operator_Publish_def\<close>)
  moreover obtain i where "Operator_Append flat_ops False 7 d demo_op0 = (flat_op1 d, Inr i)"
    by (simp add: flat_op1_def Operator_Append_def Operator_append_def flat_simps demo_store_simps Let_def)
  ultimately have "operator_line flat_ops False 7 (\<lambda>i. 9) d demo_op0 = (b, Inr (i, envelope envCheckpoint (flat_message d)))"
    using b(1) by (simp add: operator_line_def Announce_def)
  then show ?thesis
    using demo_parties_ok(4) by (simp add: runOperator_def signerFor_def demo_parsers_def demo_net_def bind_error_def)
qed

lemma flat_witness:
  "\<exists>w. runWitness demo_parsers demo_net flat_ops ''t'' ''ov'' ''log'' ''wk'' None demo_entries evs = Inr w"
  by (simp add: runWitness_def open_role_def openLog_def signerFor_def demo_parsers_def demo_net_def bind_error_def demo_entries_def Let_def)

lemma flat_notes_ok: "notes_ok flat_ops"
  using flat_demo_laws by (simp add: demo_laws_def)

lemma flat_checkpoint:
  "openOperatorCheckpoint flat_ops (flat_message d) ''log'' demo_operator =
     Inr \<lparr>Origin = ''log'', Tree = \<lparr>Tree_N = 1, Tree_Hash = flat_hash d\<rparr>\<rparr>"
proof -
  have "op_message flat_ops demo_operator demo_witness (flat_message d) (flat_text d)
      \<lparr>Origin = ''log'', Tree = \<lparr>Tree_N = 1, Tree_Hash = flat_hash d\<rparr>\<rparr>"
    using flat_signed [of d] demo_parties_ok(1) NewPolicy_one [OF demo_parties_ok(3)]
    by (auto simp: op_message_def flat_text_parse flat_simps)
  from op_message_checkpoint [OF flat_notes_ok this] show ?thesis by simp
qed


end
