(* ===== verification/Dtrain_Frames.thy ===== *)
theory Dtrain_Frames
  imports GoText
begin

section \<open>Distributed training: frames on a stream (dtrain/group.go)\<close>

text \<open>
  The frame one member sends another in a collective: a JSON header behind its 32-bit length and
  a vector of 32-bit floats behind its 64-bit length. The JSON codec is a parameter; a float is
  its bits.
\<close>

type_synonym f32 = u32
type_synonym eid = bytes

datatype reduce_op = Sum | Mean | Max

record frame =
  fr_Group :: bytes
  fr_Seq :: u64
  fr_Op :: reduce_op
  fr_From :: bytes
  fr_Values :: "f32 list"

record frame_header =
  hd_Group :: bytes
  hd_Seq :: u64
  hd_Op :: reduce_op
  hd_From :: bytes
  hd_N :: int

record json_ops =
  json_header :: "frame_header \<Rightarrow> bytes option"
  parse_header :: "bytes \<Rightarrow> frame_header option"

text \<open>What \<^verbatim>\<open>encoding/json\<close> documents: unmarshaling undoes marshaling of text.\<close>

definition json_ok :: "'x json_ops_scheme \<Rightarrow> bool" where
  "json_ok J \<longleftrightarrow> (\<forall>h b. ascii (hd_Group h) \<longrightarrow> ascii (hd_From h) \<longrightarrow> json_header J h = Some b \<longrightarrow> parse_header J b = Some h)"

datatype dtrain_error =
    FrameWrite | FrameHeaderLength | FrameHeaderTooLarge | FrameHeader | FrameHeaderDecode
  | FrameVectorLength | FrameLengthMismatch | FrameTooLarge | FrameValue
  | NilGroup | NoHandler | NotMember | PeerLength | UnknownPeer | MissingRank | EmptyGroup
  | NotDivisible | NoAddress | NoIdentity | IdentityMismatch | BadIdentity | CtxEnded | NetError
  | EncodeError | BarrierIncomplete

definition maxAllReduceHeader :: nat where
  "maxAllReduceHeader = 65536"

definition maxAllReduceValues :: nat where
  "maxAllReduceValues = 67108864"

definition frame_header_of :: "frame \<Rightarrow> frame_header" where
  "frame_header_of f = \<lparr>hd_Group = fr_Group f, hd_Seq = fr_Seq f, hd_Op = fr_Op f,
     hd_From = fr_From f, hd_N = int (length (fr_Values f))\<rparr>"

text \<open>Writing to a stream that takes every byte.\<close>

definition writeAllReduce :: "'x json_ops_scheme \<Rightarrow> frame \<Rightarrow> dtrain_error + bytes" where
  "writeAllReduce J f =
     (case json_header J (frame_header_of f) of
        None \<Rightarrow> Inl EncodeError
      | Some h \<Rightarrow>
        if length h > 2 ^ 32 - 1 then Inl FrameHeaderTooLarge
        else Inr (be_bytes 4 (length h) @ h @ be_bytes 8 (length (fr_Values f)) @
          concat (map (\<lambda>v. be_bytes 4 (unat v)) (fr_Values f))))"

fun read_values :: "nat \<Rightarrow> bytes \<Rightarrow> (f32 list \<times> bytes) option" where
  "read_values 0 s = Some ([], s)"
| "read_values (Suc n) s =
     (case read_be 4 s of
        None \<Rightarrow> None
      | Some (b, r) \<Rightarrow>
        (case read_values n r of None \<Rightarrow> None | Some (vs, r') \<Rightarrow> Some (of_nat b # vs, r')))"

definition readAllReduce :: "'x json_ops_scheme \<Rightarrow> bytes \<Rightarrow> dtrain_error + (frame \<times> bytes)" where
  "readAllReduce J s =
     (case read_be 4 s of
        None \<Rightarrow> Inl FrameHeaderLength
      | Some (n, s1) \<Rightarrow>
        if n > maxAllReduceHeader then Inl FrameHeaderTooLarge
        else if length s1 < n then Inl FrameHeader
        else case parse_header J (take n s1) of
          None \<Rightarrow> Inl FrameHeaderDecode
        | Some h \<Rightarrow>
          (case read_be 8 (drop n s1) of
             None \<Rightarrow> Inl FrameVectorLength
           | Some (m, s2) \<Rightarrow>
             if (of_nat m :: u64) \<noteq> of_int (hd_N h) then Inl FrameLengthMismatch
             else if m > maxAllReduceValues then Inl FrameTooLarge
             else case read_values m s2 of
               None \<Rightarrow> Inl FrameValue
             | Some (vs, rest) \<Rightarrow>
               Inr (\<lparr>fr_Group = hd_Group h, fr_Seq = hd_Seq h, fr_Op = hd_Op h, fr_From = hd_From h,
                     fr_Values = vs\<rparr>, rest)))"

subsection \<open>Lemmas\<close>

lemma read_values_write:
  "read_values (length vs) (concat (map (\<lambda>v. be_bytes 4 (unat v)) vs) @ r) = Some (vs, r)"
proof (induction vs)
  case (Cons v vs)
  have "unat v < 2 ^ 32" using unsigned_less [of v, where ?'a = nat] by simp
  with Cons show ?case by (simp add: be32.dec_enc)
qed simp

lemma read_values_length: "read_values n s = Some (vs, r) \<Longrightarrow> length vs = n"
  by (induction n s arbitrary: vs r rule: read_values.induct) (auto split: option.splits prod.splits)

lemma read_be_consumed: "read_be k s = Some (b, r) \<Longrightarrow> length s = k + length r"
  by (auto simp: read_be_def split: if_splits)

lemma read_values_consumed: "read_values n s = Some (vs, r) \<Longrightarrow> length s = 4 * n + length r"
proof (induction n s arbitrary: vs r rule: read_values.induct)
  case (2 n s)
  from "2.prems" obtain b s' vs' where "read_be 4 s = Some (b, s')" "read_values n s' = Some (vs', r)"
    by (auto split: option.splits prod.splits)
  with "2.IH" read_be_consumed [of 4 s] show ?case by fastforce
qed simp

lemma readAllReduce_write:
  assumes "json_ok J" and "writeAllReduce J f = Inr b"
    and "\<forall>h. json_header J (frame_header_of f) = Some h \<longrightarrow> length h \<le> maxAllReduceHeader"
    and "length (fr_Values f) \<le> maxAllReduceValues" and "ascii (fr_Group f)" and "ascii (fr_From f)"
  shows "readAllReduce J (b @ rest) = Inr (f, rest)"
proof -
  let ?n = "length (fr_Values f)"
  from assms(2) obtain h where h: "json_header J (frame_header_of f) = Some h" "length h \<le> 2 ^ 32 - 1"
    and b: "b = be_bytes 4 (length h) @ h @ be_bytes 8 ?n @
        concat (map (\<lambda>v. be_bytes 4 (unat v)) (fr_Values f))"
    by (auto simp: writeAllReduce_def split: option.splits if_splits)
  have len: "length h < 2 ^ 32" "length h \<le> maxAllReduceHeader" using h assms(3) by auto
  have n: "?n < 2 ^ 64" using assms(4) by (simp add: maxAllReduceValues_def)
  have parse: "parse_header J h = Some (frame_header_of f)"
    using assms(1,5,6) h(1) by (auto simp: json_ok_def frame_header_of_def)
  show ?thesis
    using len n assms(4)
    by (simp add: readAllReduce_def b be32.dec_enc be64.dec_enc parse read_values_write frame_header_of_def)
qed

subsection \<open>Properties\<close>

text \<open>A frame written to a stream is read back as it was, and the reader leaves what follows
  on the stream: this holds for every frame whose header and vector are within the reader's
  bounds.\<close>

theorem frame_roundtrip:
  assumes "json_ok J" and "writeAllReduce J f = Inr b"
    and "\<forall>h. json_header J (frame_header_of f) = Some h \<longrightarrow> length h \<le> maxAllReduceHeader"
    and "length (fr_Values f) \<le> maxAllReduceValues" and "ascii (fr_Group f)" and "ascii (fr_From f)"
  shows "readAllReduce J (b @ rest) = Inr (f, rest)"
  using readAllReduce_write [OF assms] .

text \<open>The reader's allocations are bounded and backed by input: a frame it accepts has at most
  64 Mi values behind a header of at most 64 KiB, and the stream held every byte of both.\<close>

theorem frame_bounded:
  assumes "readAllReduce J s = Inr (f, rest)"
  shows "\<exists>n. n \<le> maxAllReduceHeader \<and> length (fr_Values f) \<le> maxAllReduceValues \<and>
    length s = 4 + n + 8 + 4 * length (fr_Values f) + length rest"
proof -
  from assms obtain n s1 h m s2 vs where r: "read_be 4 s = Some (n, s1)" "n \<le> maxAllReduceHeader"
    "n \<le> length s1" "read_be 8 (drop n s1) = Some (m, s2)" "m \<le> maxAllReduceValues"
    "read_values m s2 = Some (vs, rest)" "fr_Values f = vs"
    by (auto simp: readAllReduce_def split: option.splits if_splits)
  from read_values_consumed [OF r(6)] read_values_length [OF r(6)] r
  have "length s = 4 + n + 8 + 4 * length vs + length rest" "length vs = m"
    by (auto simp: read_be_def split: if_splits)
  with r show ?thesis by auto
qed

text \<open>A JSON codec that writes only the headers of one group and collective, for the witnesses.\<close>

definition demo_json :: json_ops where
  "demo_json =
     \<lparr>json_header = (\<lambda>h. case hd_From h of
          [c] \<Rightarrow> if h = \<lparr>hd_Group = ''g'', hd_Seq = 1, hd_Op = Sum, hd_From = [c], hd_N = hd_N h\<rparr> \<and>
            0 \<le> hd_N h \<and> hd_N h < 2 ^ 63 then Some (c # fmt_int (hd_N h)) else None
        | _ \<Rightarrow> None),
      parse_header = (\<lambda>b. case b of
          [] \<Rightarrow> None
        | c # ds \<Rightarrow> map_option (\<lambda>n. \<lparr>hd_Group = ''g'', hd_Seq = 1, hd_Op = Sum, hd_From = [c], hd_N = int n\<rparr>)
            (parse_uint64 ds))\<rparr>"

lemma demo_json_ok: "json_ok demo_json"
  by (auto simp: json_ok_def demo_json_def fmt_int_def nat_less_iff split: if_splits list.splits)

definition demo_frame :: frame where
  "demo_frame = \<lparr>fr_Group = ''g'', fr_Seq = 1, fr_Op = Sum, fr_From = ''a'', fr_Values = [5, 6]\<rparr>"

lemma demo_frame_header: "json_header demo_json (frame_header_of demo_frame) = Some (CHR ''a'' # dec_digits 2)"
  by (simp add: demo_json_def frame_header_of_def demo_frame_def fmt_int_def)

lemma demo_frame_short: "length (dec_digits 2) \<le> 1"
  by (rule length_dec_digits) simp_all

definition demo_frame_bytes :: bytes where
  "demo_frame_bytes = be_bytes 4 (Suc (length (dec_digits 2))) @ (CHR ''a'' # dec_digits 2) @
     be_bytes 8 (length (fr_Values demo_frame)) @ concat (map (\<lambda>v. be_bytes 4 (unat v)) (fr_Values demo_frame))"

lemma demo_frame_written: "writeAllReduce demo_json demo_frame = Inr demo_frame_bytes"
  using demo_frame_short unfolding writeAllReduce_def demo_frame_header
  by (simp add: demo_frame_bytes_def)

lemma demo_frame_small:
  "\<forall>h. json_header demo_json (frame_header_of demo_frame) = Some h \<longrightarrow> length h \<le> maxAllReduceHeader"
  "length (fr_Values demo_frame) \<le> maxAllReduceValues"
  using demo_frame_short unfolding demo_frame_header
  by (simp_all add: maxAllReduceHeader_def demo_frame_def maxAllReduceValues_def)

lemma demo_frame_ascii: "ascii (fr_Group demo_frame)" "ascii (fr_From demo_frame)"
  by (simp_all add: demo_frame_def)

lemma demo_frame_read: "readAllReduce demo_json (demo_frame_bytes @ ''x'') = Inr (demo_frame, ''x'')"
  by (rule readAllReduce_write [OF demo_json_ok demo_frame_written demo_frame_small demo_frame_ascii])

theorem frame_roundtrip_witness:
  "readAllReduce demo_json (demo_frame_bytes @ ''next'') = Inr (demo_frame, ''next'')"
  by (rule frame_roundtrip [OF demo_json_ok demo_frame_written demo_frame_small demo_frame_ascii])

theorem frame_bounded_witness:
  "\<exists>n. n \<le> maxAllReduceHeader \<and> length (fr_Values demo_frame) \<le> maxAllReduceValues \<and>
    length (demo_frame_bytes @ ''x'') = 4 + n + 8 + 4 * length (fr_Values demo_frame) + length ''x''"
  by (rule frame_bounded [OF demo_frame_read])

end
