(* ===== verification/Dtrain_Group.thy ===== *)
theory Dtrain_Group
  imports Dtrain_Frames
begin

section \<open>Distributed training: the group and its members (dtrain/group.go)\<close>

text \<open>
  A group keeps the members heard of on its gossip topic, ranked by the order of their ids, and
  the channels of the collectives in flight. An endpoint id is its string form; addresses, JSON
  messages and times are parameters or inputs. A buffered channel is its contents with its
  capacity; a send that would block is dropped, as the code's \<^verbatim>\<open>select\<close> with \<^verbatim>\<open>default\<close> does.
\<close>

subsection \<open>Parameters\<close>

record announcement =
  an_Type :: bytes
  an_ID :: bytes
  an_Addrs :: "bytes list"

record broadcast_msg =
  bm_Type :: bytes
  bm_Seq :: u64
  bm_Data :: bytes

text \<open>
  \<open>addr_with a s\<close> is \<^verbatim>\<open>a.WithAddrs\<close> of the parsed transport address \<open>s\<close>, \<open>None\<close> when it does not
  parse.
\<close>

record 'a net_ops = json_ops +
  parse_announcement :: "bytes \<Rightarrow> announcement option"
  parse_broadcast :: "bytes \<Rightarrow> broadcast_msg option"
  json_broadcast :: "broadcast_msg \<Rightarrow> bytes option"
  parse_id :: "bytes \<Rightarrow> eid option"
  new_addr :: "eid \<Rightarrow> 'a"
  addr_with :: "'a \<Rightarrow> bytes \<Rightarrow> 'a option"
  addr_empty :: "'a \<Rightarrow> bool"
  addr_strings :: "'a \<Rightarrow> bytes list"

subsection \<open>State\<close>

datatype event_kind = Join | Leave | Membership

record 'a member =
  m_ID :: eid
  m_Rank :: int
  m_Addr :: 'a

record 'a event =
  ev_Kind :: event_kind
  ev_Peer :: "eid option"
  ev_Members :: "'a member list"

record 'a member_state =
  ms_addr :: 'a
  ms_seen :: int

record 'a group =
  g_ID :: eid
  g_name :: bytes
  g_members :: "(eid \<times> 'a member_state) list"
  g_ranked :: "'a member list"
  g_events :: "'a event list"
  g_closed :: bool
  g_serving :: bool
  g_seq :: u64
  g_bseq :: u64
  g_pending :: "(u64 \<times> f32 list) list"
  g_inbound :: "(u64 \<times> nat \<times> frame list) list"
  g_bcast :: "(u64 \<times> bytes option) list"

definition events_capacity :: nat where
  "events_capacity = 128"

subsection \<open>Membership\<close>

definition emitLocked :: "'a event \<Rightarrow> 'a group \<Rightarrow> 'a group" where
  "emitLocked ev g =
     (if g_closed g then g
      else if length (g_events g) < events_capacity then g\<lparr>g_events := g_events g @ [ev]\<rparr>
      else g)"

definition sameMember :: "('a, 'x) net_ops_scheme \<Rightarrow> 'a member \<Rightarrow> 'a member \<Rightarrow> bool" where
  "sameMember N a b \<longleftrightarrow> m_ID a = m_ID b \<and> m_Rank a = m_Rank b \<and>
     addr_strings N (m_Addr a) = addr_strings N (m_Addr b)"

definition rank_members :: "(eid \<times> 'a member_state) list \<Rightarrow> 'a member list" where
  "rank_members ms =
     map (\<lambda>(i, (pid, st)). \<lparr>m_ID = pid, m_Rank = int i, m_Addr = ms_addr st\<rparr>) (enumerate 0 (sort_key fst ms))"

definition refreshLocked :: "('a, 'x) net_ops_scheme \<Rightarrow> 'a group \<Rightarrow> 'a group" where
  "refreshLocked N g =
     (let ranked = rank_members (g_members g) in
      if list_all2 (sameMember N) (g_ranked g) ranked then g
      else emitLocked \<lparr>ev_Kind = Membership, ev_Peer = None, ev_Members = ranked\<rparr> (g\<lparr>g_ranked := ranked\<rparr>))"

definition setMember :: "('a, 'x) net_ops_scheme \<Rightarrow> eid \<Rightarrow> 'a \<Rightarrow> int \<Rightarrow> 'a group \<Rightarrow> 'a group" where
  "setMember N pid addr seen g =
     (let addr' = (case map_of (g_members g) pid of
          None \<Rightarrow> addr
        | Some old \<Rightarrow> if addr_empty N addr \<and> \<not> addr_empty N (ms_addr old) then ms_addr old else addr) in
      refreshLocked N (g\<lparr>g_members := alist_put pid \<lparr>ms_addr = addr', ms_seen = seen\<rparr> (g_members g)\<rparr>))"

definition removeMember :: "('a, 'x) net_ops_scheme \<Rightarrow> eid \<Rightarrow> 'a group \<Rightarrow> 'a group" where
  "removeMember N pid g = refreshLocked N (g\<lparr>g_members := alist_del pid (g_members g)\<rparr>)"

definition Group_Members :: "'a group \<Rightarrow> 'a member list" where
  "Group_Members g = g_ranked g"

definition rankOfMember :: "'a member list \<Rightarrow> eid \<Rightarrow> int" where
  "rankOfMember ms pid = (case find (\<lambda>m. m_ID m = pid) ms of None \<Rightarrow> -1 | Some m \<Rightarrow> m_Rank m)"

definition Group_Rank :: "'a group \<Rightarrow> int" where
  "Group_Rank g = rankOfMember (g_ranked g) (g_ID g)"

definition hasMember :: "'a group \<Rightarrow> eid \<Rightarrow> bool" where
  "hasMember g pid \<longleftrightarrow> map_of (g_members g) pid \<noteq> None"

text \<open>A fresh group with the local endpoint as its first member; \<open>serving\<close> says whether it has a stream
  handler.\<close>

definition new_group :: "('a, 'x) net_ops_scheme \<Rightarrow> bytes \<Rightarrow> bool \<Rightarrow> eid \<Rightarrow> 'a \<Rightarrow> int \<Rightarrow> 'a group" where
  "new_group N name serving pid addr seen =
     setMember N pid addr seen \<lparr>g_ID = pid, g_name = name, g_members = [], g_ranked = [], g_events = [],
       g_closed = False, g_serving = serving, g_seq = 0, g_bseq = 0, g_pending = [], g_inbound = [], g_bcast = []\<rparr>"

subsection \<open>Broadcast data\<close>

definition deliverBroadcast :: "u64 \<Rightarrow> bytes \<Rightarrow> 'a group \<Rightarrow> 'a group" where
  "deliverBroadcast seq data g =
     (case map_of (g_bcast g) seq of
        Some (Some old) \<Rightarrow> g
      | _ \<Rightarrow> g\<lparr>g_bcast := alist_put seq (Some data) (g_bcast g)\<rparr>)"

text \<open>One look at the channel: the data when it is there, otherwise the call blocks (\<open>None\<close>).\<close>

definition waitBroadcast :: "u64 \<Rightarrow> 'a group \<Rightarrow> 'a group \<times> bytes option" where
  "waitBroadcast seq g =
     (case map_of (g_bcast g) seq of
        Some (Some data) \<Rightarrow> (g\<lparr>g_bcast := alist_del seq (g_bcast g)\<rparr>, Some data)
      | Some None \<Rightarrow> (g, None)
      | None \<Rightarrow> (g\<lparr>g_bcast := alist_put seq None (g_bcast g)\<rparr>, None))"

text \<open>Rank 0 hands its data to the topic and to the caller; the others wait for theirs.\<close>

datatype broadcast_outcome = Sent bytes bytes | Waiting u64

definition Group_Broadcast ::
  "('a, 'x) net_ops_scheme \<Rightarrow> bool \<Rightarrow> bytes \<Rightarrow> 'a group \<Rightarrow> 'a group \<times> (dtrain_error + broadcast_outcome)" where
  "Group_Broadcast N net_ok rank0Data g0 =
     (let seq = g_bseq g0 + 1; g = g0\<lparr>g_bseq := seq\<rparr>; rank = Group_Rank g in
      if rank < 0 then (g, Inl NotMember)
      else if rank = 0 then
        (case json_broadcast N \<lparr>bm_Type = ''dtrain.broadcast'', bm_Seq = seq, bm_Data = rank0Data\<rparr> of
           None \<Rightarrow> (g, Inl EncodeError)
         | Some msg \<Rightarrow> if \<not> net_ok then (g, Inl NetError) else (g, Inr (Sent msg rank0Data)))
      else (g, Inr (Waiting seq)))"

subsection \<open>Gossip events\<close>

datatype gossip_event = NeighborUp eid | NeighborDown eid | Received bytes

fun announcementAddr :: "('a, 'x) net_ops_scheme \<Rightarrow> 'a \<Rightarrow> bytes list \<Rightarrow> 'a option" where
  "announcementAddr N addr [] = Some addr"
| "announcementAddr N addr (s # ss) =
     (case addr_with N addr s of None \<Rightarrow> None | Some addr' \<Rightarrow> announcementAddr N addr' ss)"

definition handle :: "('a, 'x) net_ops_scheme \<Rightarrow> int \<Rightarrow> gossip_event \<Rightarrow> 'a group \<Rightarrow> 'a group" where
  "handle N now ev g =
     (case ev of
        NeighborUp peer \<Rightarrow>
          (let g = setMember N peer (new_addr N peer) now g in
           emitLocked \<lparr>ev_Kind = Join, ev_Peer = Some peer, ev_Members = Group_Members g\<rparr> g)
      | NeighborDown peer \<Rightarrow>
          (let g = removeMember N peer g in
           emitLocked \<lparr>ev_Kind = Leave, ev_Peer = Some peer, ev_Members = Group_Members g\<rparr> g)
      | Received content \<Rightarrow>
          (case parse_announcement N content of
             Some a \<Rightarrow>
               if an_Type a = ''dtrain.join'' then
                 (case parse_id N (an_ID a) of
                    None \<Rightarrow> g
                  | Some pid \<Rightarrow>
                    (case announcementAddr N (new_addr N pid) (an_Addrs a) of
                       None \<Rightarrow> g
                     | Some addr \<Rightarrow> setMember N pid addr now g))
               else
                 (case parse_broadcast N content of
                    Some b \<Rightarrow> if bm_Type b = ''dtrain.broadcast'' then deliverBroadcast (bm_Seq b) (bm_Data b) g else g
                  | None \<Rightarrow> g)
           | None \<Rightarrow>
               (case parse_broadcast N content of
                  Some b \<Rightarrow> if bm_Type b = ''dtrain.broadcast'' then deliverBroadcast (bm_Seq b) (bm_Data b) g else g
                | None \<Rightarrow> g)))"

subsection \<open>Channels of a collective\<close>

definition publishLocal :: "u64 \<Rightarrow> f32 list \<Rightarrow> 'a group \<Rightarrow> 'a group" where
  "publishLocal seq values g =
     g\<lparr>g_pending := alist_put seq values (g_pending g),
       g_inbound := alist_put seq (length (g_ranked g), []) (g_inbound g)\<rparr>"

definition clearLocal :: "u64 \<Rightarrow> 'a group \<Rightarrow> 'a group" where
  "clearLocal seq g =
     g\<lparr>g_pending := alist_del seq (g_pending g), g_inbound := alist_del seq (g_inbound g)\<rparr>"

text \<open>\<open>None\<close> is a call that still waits.\<close>

definition waitLocal :: "u64 \<Rightarrow> 'a group \<Rightarrow> f32 list option" where
  "waitLocal seq g = map_of (g_pending g) seq"

definition deliverInbound :: "frame \<Rightarrow> 'a group \<Rightarrow> 'a group" where
  "deliverInbound f g =
     (case map_of (g_inbound g) (fr_Seq f) of
        None \<Rightarrow> g
      | Some (cap, fs) \<Rightarrow>
        if length fs < cap then g\<lparr>g_inbound := alist_put (fr_Seq f) (cap, fs @ [f]) (g_inbound g)\<rparr>
        else g)"

definition waitInboundFrame :: "u64 \<Rightarrow> 'a group \<Rightarrow> 'a group \<times> frame option" where
  "waitInboundFrame seq g =
     (case map_of (g_inbound g) seq of
        Some (cap, f # fs) \<Rightarrow> (g\<lparr>g_inbound := alist_put seq (cap, fs) (g_inbound g)\<rparr>, Some f)
      | _ \<Rightarrow> (g, None))"

subsection \<open>Serving a peer\<close>

text \<open>
  The first half of \<^verbatim>\<open>Handler.serve\<close>: what a stream from the verified identity \<open>remote\<close> does to the
  registered groups; \<open>None\<close> when the stream is dropped. The second half answers once the local
  vector is published.
\<close>

definition serve_deliver ::
  "('a, 'x) net_ops_scheme \<Rightarrow> (bytes \<Rightarrow> 'a group option) \<Rightarrow> eid option \<Rightarrow> bytes \<Rightarrow> (frame \<times> 'a group) option" where
  "serve_deliver N groups remote s =
     (case remote of
        None \<Rightarrow> None
      | Some r \<Rightarrow>
        (case readAllReduce N s of
           Inl e \<Rightarrow> None
         | Inr (f, rest) \<Rightarrow>
           if parse_id N (fr_From f) \<noteq> Some r then None
           else (case groups (fr_Group f) of
               None \<Rightarrow> None
             | Some g \<Rightarrow> if \<not> hasMember g r then None else Some (f, deliverInbound f g))))"

definition serve_reply :: "('a, 'x) net_ops_scheme \<Rightarrow> frame \<Rightarrow> 'a group \<Rightarrow> (dtrain_error + bytes) option" where
  "serve_reply N f g =
     (case waitLocal (fr_Seq f) g of
        None \<Rightarrow> None
      | Some values \<Rightarrow> Some (writeAllReduce N \<lparr>fr_Group = fr_Group f, fr_Seq = fr_Seq f, fr_Op = fr_Op f,
          fr_From = g_ID g, fr_Values = values\<rparr>))"

definition Handler_register :: "bytes \<Rightarrow> 'h \<Rightarrow> (bytes \<times> 'h) list \<Rightarrow> (bytes \<times> 'h) list" where
  "Handler_register name g groups = alist_put name g groups"

definition Handler_unregister :: "bytes \<Rightarrow> 'h \<Rightarrow> (bytes \<times> 'h) list \<Rightarrow> (bytes \<times> 'h) list" where
  "Handler_unregister name g groups =
     (if map_of groups name = Some g then alist_del name groups else groups)"

subsection \<open>Lemmas: ranking\<close>

lemma emitLocked_simps [simp]:
  "g_members (emitLocked ev g) = g_members g" "g_ranked (emitLocked ev g) = g_ranked g"
  "g_ID (emitLocked ev g) = g_ID g"
  by (simp_all add: emitLocked_def)

lemma rank_members_ids: "map m_ID (rank_members ms) = map fst (sort_key fst ms)"
  by (rule nth_equalityI) (simp_all add: rank_members_def split_def nth_enumerate_eq)

lemma rank_members_ranks: "map m_Rank (rank_members ms) = map int [0..<length ms]"
  by (rule nth_equalityI) (simp_all add: rank_members_def split_def nth_enumerate_eq)

text \<open>
  The invariant: member ids are unique, and the ranked list is the sorted ids with their positions
  as ranks.
\<close>

definition ranked_ok :: "'a group \<Rightarrow> bool" where
  "ranked_ok g \<longleftrightarrow> distinct (map fst (g_members g)) \<and>
     map m_ID (g_ranked g) = sorted_list_of_set (fst ` set (g_members g)) \<and>
     map m_Rank (g_ranked g) = map int [0..<length (g_ranked g)]"

lemma sorted_ids:
  "distinct (map fst ms) \<Longrightarrow> map fst (sort_key fst ms) = sorted_list_of_set (fst ` set ms)"
proof -
  assume d: "distinct (map fst ms)"
  have "distinct (map fst (sort_key fst ms))"
    using d by (metis distinct_sort distinct_map set_sort)
  then show ?thesis
    by (intro sorted_distinct_set_unique) simp_all
qed

lemma refresh_ok: "distinct (map fst (g_members g)) \<Longrightarrow> ranked_ok (refreshLocked N g)"
proof -
  assume d: "distinct (map fst (g_members g))"
  let ?r = "rank_members (g_members g)"
  have ids: "map m_ID ?r = sorted_list_of_set (fst ` set (g_members g))"
    using sorted_ids [OF d] by (simp add: rank_members_ids)
  have ranks: "map m_Rank ?r = map int [0..<length ?r]"
    using rank_members_ranks [of "g_members g"] by (simp add: rank_members_def)
  show ?thesis
  proof (cases "list_all2 (sameMember N) (g_ranked g) ?r")
    case True
    then have "map m_ID (g_ranked g) = map m_ID ?r" "map m_Rank (g_ranked g) = map m_Rank ?r"
      by (induction rule: list_all2_induct) (simp_all add: sameMember_def)
    moreover have "length (g_ranked g) = length ?r" using True by (rule list_all2_lengthD)
    ultimately show ?thesis using True d ids ranks by (simp add: refreshLocked_def ranked_ok_def)
  next
    case False
    with d ids ranks show ?thesis by (simp add: refreshLocked_def ranked_ok_def Let_def)
  qed
qed

lemma refresh_members [simp]: "g_members (refreshLocked N g) = g_members g"
  by (simp add: refreshLocked_def Let_def)

lemma setMember_ok: "ranked_ok g \<Longrightarrow> ranked_ok (setMember N pid addr now g)"
  unfolding setMember_def Let_def by (rule refresh_ok) (simp add: ranked_ok_def)

lemma removeMember_ok: "ranked_ok g \<Longrightarrow> ranked_ok (removeMember N pid g)"
  unfolding removeMember_def by (rule refresh_ok) (simp add: ranked_ok_def)

lemma ranked_ok_cong:
  "g_members g = g_members h \<Longrightarrow> g_ranked g = g_ranked h \<Longrightarrow> ranked_ok g = ranked_ok h"
  by (simp add: ranked_ok_def)

lemma deliverBroadcast_ok: "ranked_ok (deliverBroadcast s d g) = ranked_ok g"
  by (rule ranked_ok_cong) (simp_all add: deliverBroadcast_def split: option.splits)

lemma emit_ok: "ranked_ok (emitLocked ev g) = ranked_ok g"
  by (rule ranked_ok_cong) simp_all

lemma handle_ok: "ranked_ok g \<Longrightarrow> ranked_ok (handle N now ev g)"
  by (cases ev) (auto simp: handle_def Let_def emit_ok setMember_ok removeMember_ok deliverBroadcast_ok
      split: option.splits)

definition handle_all :: "('a, 'x) net_ops_scheme \<Rightarrow> (int \<times> gossip_event) list \<Rightarrow> 'a group \<Rightarrow> 'a group" where
  "handle_all N evs g = fold (\<lambda>(now, ev). handle N now ev) evs g"

lemma handle_all_ok: "ranked_ok g \<Longrightarrow> ranked_ok (handle_all N evs g)"
  unfolding handle_all_def by (induction evs arbitrary: g) (auto simp: handle_ok)

lemma new_group_ok: "ranked_ok (new_group N name serving pid addr seen)"
  unfolding new_group_def by (rule setMember_ok) (simp add: ranked_ok_def)

subsection \<open>Lemmas: channels\<close>

lemma publish_inbound:
  "map_of (g_inbound (publishLocal seq vs g)) seq = Some (length (g_ranked g), [])"
  by (simp add: publishLocal_def)

lemma deliver_inbound:
  "map_of (g_inbound g) seq = Some (cap, fs) \<Longrightarrow> fr_Seq f = seq \<Longrightarrow> length fs < cap \<Longrightarrow>
   map_of (g_inbound (deliverInbound f g)) seq = Some (cap, fs @ [f])"
  by (simp add: deliverInbound_def)

lemma deliver_all:
  "map_of (g_inbound g) seq = Some (cap, q) \<Longrightarrow> \<forall>f \<in> set fs. fr_Seq f = seq \<Longrightarrow> length q + length fs \<le> cap \<Longrightarrow>
   map_of (g_inbound (fold deliverInbound fs g)) seq = Some (cap, q @ fs)"
proof (induction fs arbitrary: g q)
  case (Cons f fs)
  then have "map_of (g_inbound (deliverInbound f g)) seq = Some (cap, q @ [f])"
    by (intro deliver_inbound) simp_all
  from Cons.IH [OF this] Cons.prems show ?case by simp
qed simp

lemma wait_inbound:
  "map_of (g_inbound g) seq = Some (cap, f # fs) \<Longrightarrow>
   snd (waitInboundFrame seq g) = Some f \<and>
   map_of (g_inbound (fst (waitInboundFrame seq g))) seq = Some (cap, fs)"
  by (simp add: waitInboundFrame_def)

subsection \<open>Properties\<close>

text \<open>Ranks are the positions of the sorted member ids, whatever happens on the gossip topic; so
  two members that know the same set of ids agree on every rank.\<close>

theorem members_agree_on_ranks:
  fixes g h :: "'a group"
  assumes "g = handle_all N evs (new_group N name serving pid addr seen)"
    and "h = handle_all N evs' (new_group N name' serving' pid' addr' seen')"
    and "fst ` set (g_members g) = fst ` set (g_members h)"
  shows "map (\<lambda>m. (m_ID m, m_Rank m)) (Group_Members g) = map (\<lambda>m. (m_ID m, m_Rank m)) (Group_Members h) \<and>
    sorted_wrt (<) (map m_ID (Group_Members g)) \<and>
    map m_Rank (Group_Members g) = map int [0..<card (fst ` set (g_members g))]"
proof -
  have g: "ranked_ok g" and h: "ranked_ok h"
    unfolding assms(1,2) by (intro handle_all_ok new_group_ok)+
  have ids: "map m_ID (g_ranked g) = map m_ID (g_ranked h)"
    using g h assms(3) by (simp add: ranked_ok_def)
  then have len: "length (g_ranked g) = length (g_ranked h)" by (metis length_map)
  with g h have ranks: "map m_Rank (g_ranked g) = map m_Rank (g_ranked h)" by (simp add: ranked_ok_def)
  have "length (g_ranked g) = card (fst ` set (g_members g))"
    using g by (metis length_map length_sorted_list_of_set ranked_ok_def)
  moreover have "map (\<lambda>m. (m_ID m, m_Rank m)) (g_ranked x) = zip (map m_ID (g_ranked x)) (map m_Rank (g_ranked x))"
    for x :: "'a group" by (simp add: zip_map_map zip_same_conv_map)
  moreover have "sorted_wrt (<) (map m_ID (g_ranked g))"
    using g by (simp add: ranked_ok_def)
  ultimately show ?thesis using ids ranks g by (simp add: Group_Members_def ranked_ok_def)
qed

text \<open>A group of three members seen by one of them, with addresses that never parse, for the
  witnesses.\<close>

definition demo_net :: "unit net_ops" where
  "demo_net = \<lparr>json_header = json_header demo_json, parse_header = parse_header demo_json,
     parse_announcement = (\<lambda>b. None), parse_broadcast = (\<lambda>b. None), json_broadcast = (\<lambda>b. None),
     parse_id = Some, new_addr = (\<lambda>i. ()), addr_with = (\<lambda>a b. None), addr_empty = (\<lambda>a. False),
     addr_strings = (\<lambda>a. [])\<rparr>"

definition demo_group :: "unit group" where
  "demo_group = handle_all demo_net [(1, NeighborUp ''c''), (2, NeighborUp ''b'')]
     (new_group demo_net ''g'' True ''a'' () 0)"

definition demo_group' :: "unit group" where
  "demo_group' = handle_all demo_net [(1, NeighborUp ''a''), (1, NeighborUp ''d''), (2, NeighborUp ''c''), (3, NeighborDown ''d'')]
     (new_group demo_net ''g'' True ''b'' () 0)"

lemmas group_eval = handle_all_def handle_def new_group_def setMember_def removeMember_def refreshLocked_def
  rank_members_def emitLocked_def sameMember_def alist_del_def Group_Members_def events_capacity_def Let_def

lemma demo_group_state:
  "fst ` set (g_members demo_group) = {''a'', ''b'', ''c''} \<and> g_ID demo_group = ''a'' \<and>
   g_ranked demo_group = [\<lparr>m_ID = ''a'', m_Rank = 0, m_Addr = ()\<rparr>, \<lparr>m_ID = ''b'', m_Rank = 1, m_Addr = ()\<rparr>,
     \<lparr>m_ID = ''c'', m_Rank = 2, m_Addr = ()\<rparr>] \<and>
   g_seq demo_group = 0 \<and> g_serving demo_group \<and> g_name demo_group = ''g'' \<and> g_inbound demo_group = []"
  by (auto simp: demo_group_def group_eval demo_net_def)

lemma demo_group'_members: "fst ` set (g_members demo_group') = {''a'', ''b'', ''c''}"
  by (auto simp: demo_group'_def group_eval demo_net_def)

theorem members_agree_on_ranks_witness:
  "map (\<lambda>m. (m_ID m, m_Rank m)) (Group_Members demo_group) =
     map (\<lambda>m. (m_ID m, m_Rank m)) (Group_Members demo_group') \<and>
   sorted_wrt (<) (map m_ID (Group_Members demo_group)) \<and>
   map m_Rank (Group_Members demo_group) = map int [0..<card (fst ` set (g_members demo_group))]"
  by (rule members_agree_on_ranks [OF demo_group_def demo_group'_def])
    (simp add: demo_group_state demo_group'_members)

text \<open>A frame that arrives before the local member starts the collective is lost: delivering it
  changes nothing, so after the start the member waits with an empty channel, while the sender gets
  its answer.\<close>

theorem early_frame_lost:
  assumes "map_of (g_inbound g) (fr_Seq f) = None"
  shows "deliverInbound f g = g \<and>
    snd (waitInboundFrame (fr_Seq f) (publishLocal (fr_Seq f) vs (deliverInbound f g))) = None \<and>
    serve_reply N f (publishLocal (fr_Seq f) vs (deliverInbound f g)) =
      Some (writeAllReduce N \<lparr>fr_Group = fr_Group f, fr_Seq = fr_Seq f, fr_Op = fr_Op f,
        fr_From = g_ID g, fr_Values = vs\<rparr>)"
proof -
  have same: "deliverInbound f g = g" using assms by (simp add: deliverInbound_def)
  show ?thesis
    unfolding same by (simp add: waitInboundFrame_def serve_reply_def waitLocal_def publishLocal_def)
qed

theorem early_frame_lost_witness:
  "deliverInbound demo_frame demo_group = demo_group \<and>
    snd (waitInboundFrame (fr_Seq demo_frame) (publishLocal (fr_Seq demo_frame) [7] (deliverInbound demo_frame demo_group))) = None \<and>
    serve_reply demo_net demo_frame (publishLocal (fr_Seq demo_frame) [7] (deliverInbound demo_frame demo_group)) =
      Some (writeAllReduce demo_net \<lparr>fr_Group = fr_Group demo_frame, fr_Seq = fr_Seq demo_frame,
        fr_Op = fr_Op demo_frame, fr_From = g_ID demo_group, fr_Values = [7]\<rparr>)"
  by (rule early_frame_lost) (simp add: demo_group_state)

end
