(* ===== verification/Dtrain_Collective.thy ===== *)
theory Dtrain_Collective
  imports Dtrain_Group "HOL-Library.Multiset"
begin

section \<open>Distributed training: the collectives (dtrain/group.go)\<close>

text \<open>
  \<^verbatim>\<open>AllReduce\<close>, \<^verbatim>\<open>AllGather\<close>, \<^verbatim>\<open>ReduceScatter\<close> and \<^verbatim>\<open>Barrier\<close> over the group of
  \<open>Dtrain_Group\<close>. The arithmetic of \<^verbatim>\<open>float32\<close> is a parameter: addition does not associate, so
  a result that does not depend on the order of arrival has that as a hypothesis on the values. The
  network of a member maps an address to the identity reached and to what it answers to the bytes
  written; the frames other members push arrive in batches, one before each wait, and an empty
  channel at a wait is a call that runs into its deadline.
\<close>

record float_ops =
  f_add :: "f32 \<Rightarrow> f32 \<Rightarrow> f32"
  f_gt :: "f32 \<Rightarrow> f32 \<Rightarrow> bool"
  f_div :: "f32 \<Rightarrow> f32 \<Rightarrow> f32"
  f_of_int :: "int \<Rightarrow> f32"
  f_to_int :: "f32 \<Rightarrow> int"

type_synonym 'a net = "'a \<Rightarrow> (eid option \<times> (bytes \<Rightarrow> bytes)) option"

subsection \<open>Operations\<close>

definition reduce_one :: "'y float_ops_scheme \<Rightarrow> reduce_op \<Rightarrow> f32 \<Rightarrow> f32 \<Rightarrow> f32" where
  "reduce_one F op d v = (case op of Max \<Rightarrow> if f_gt F v d then v else d | _ \<Rightarrow> f_add F d v)"

definition reduceInto :: "'y float_ops_scheme \<Rightarrow> reduce_op \<Rightarrow> f32 list \<Rightarrow> f32 list \<Rightarrow> f32 list" where
  "reduceInto F op dst src = map2 (reduce_one F op) dst src @ drop (length src) dst"

definition exchange ::
  "('a, 'x) net_ops_scheme \<Rightarrow> 'a net \<Rightarrow> 'a group \<Rightarrow> 'a member \<Rightarrow> u64 \<Rightarrow> reduce_op \<Rightarrow> f32 list \<Rightarrow>
   dtrain_error + f32 list" where
  "exchange N net g m seq op values =
     (if addr_empty N (m_Addr m) then Inl NoAddress
      else case net (m_Addr m) of
        None \<Rightarrow> Inl NetError
      | Some (remote, respond) \<Rightarrow>
        (case remote of
           None \<Rightarrow> Inl NoIdentity
         | Some r \<Rightarrow>
           if r \<noteq> m_ID m then Inl IdentityMismatch
           else case writeAllReduce N \<lparr>fr_Group = g_name g, fr_Seq = seq, fr_Op = op, fr_From = g_ID g,
               fr_Values = values\<rparr> of
             Inl e \<Rightarrow> Inl e
           | Inr sent \<Rightarrow>
             (case readAllReduce N (respond sent) of
                Inl e \<Rightarrow> Inl e
              | Inr (f, _) \<Rightarrow>
                (case parse_id N (fr_From f) of
                   None \<Rightarrow> Inl BadIdentity
                 | Some from \<Rightarrow> if from \<noteq> r then Inl IdentityMismatch else Inr (fr_Values f)))))"

text \<open>
  The frame of the next peer in rank order: a member with a lower rank is called, the others push
  theirs.
\<close>

definition peer_frame ::
  "('a, 'x) net_ops_scheme \<Rightarrow> 'a net \<Rightarrow> int \<Rightarrow> u64 \<Rightarrow> reduce_op \<Rightarrow> f32 list \<Rightarrow> 'a member \<Rightarrow>
   frame list list \<Rightarrow> 'a group \<Rightarrow> 'a group \<times> frame list list \<times> (dtrain_error + frame)" where
  "peer_frame N net rank seq op values m bs g =
     (if rank > m_Rank m then
        (g, bs, case exchange N net g m seq op values of
           Inl e \<Rightarrow> Inl e
         | Inr peer \<Rightarrow> Inr \<lparr>fr_Group = [], fr_Seq = 0, fr_Op = Sum, fr_From = m_ID m, fr_Values = peer\<rparr>)
      else
        (let g1 = fold deliverInbound (case bs of [] \<Rightarrow> [] | b # _ \<Rightarrow> b) g; (g2, fo) = waitInboundFrame seq g1 in
         (g2, tl bs, case fo of None \<Rightarrow> Inl CtxEnded | Some f \<Rightarrow> Inr f)))"

fun reduce_loop ::
  "('a, 'x) net_ops_scheme \<Rightarrow> 'y float_ops_scheme \<Rightarrow> 'a net \<Rightarrow> int \<Rightarrow> u64 \<Rightarrow> reduce_op \<Rightarrow> f32 list \<Rightarrow>
   'a member list \<Rightarrow> frame list list \<Rightarrow> 'a group \<Rightarrow> f32 list \<Rightarrow> 'a group \<times> (dtrain_error + f32 list)" where
  "reduce_loop N F net rank seq op values [] bs g out = (g, Inr out)"
| "reduce_loop N F net rank seq op values (m # ms) bs g out =
     (if m_Rank m = rank then reduce_loop N F net rank seq op values ms bs g out
      else case peer_frame N net rank seq op values m bs g of
        (g', bs', Inl e) \<Rightarrow> (g', Inl e)
      | (g', bs', Inr f) \<Rightarrow>
        if length (fr_Values f) \<noteq> length out then (g', Inl PeerLength)
        else reduce_loop N F net rank seq op values ms bs' g' (reduceInto F op out (fr_Values f)))"

definition scale_mean :: "'y float_ops_scheme \<Rightarrow> reduce_op \<Rightarrow> nat \<Rightarrow> f32 list \<Rightarrow> f32 list" where
  "scale_mean F op n out =
     (if op = Mean \<and> n > 0 then map (\<lambda>v. f_div F v (f_of_int F (int n))) out else out)"

definition AllReduce ::
  "('a, 'x) net_ops_scheme \<Rightarrow> 'y float_ops_scheme \<Rightarrow> 'a net \<Rightarrow> frame list list \<Rightarrow> f32 list \<Rightarrow> reduce_op \<Rightarrow>
   'a group \<Rightarrow> 'a group \<times> (dtrain_error + f32 list)" where
  "AllReduce N F net bs values op g =
     (let members = Group_Members g; rank = Group_Rank g in
      if \<not> g_serving g then (g, Inl NoHandler)
      else if rank < 0 then (g, Inl NotMember)
      else
        let seq = g_seq g + 1;
            g1 = publishLocal seq values (g\<lparr>g_seq := seq\<rparr>);
            (g2, r) = reduce_loop N F net rank seq op values members bs g1 values in
        (clearLocal seq g2,
         case r of Inl e \<Rightarrow> Inl e | Inr out \<Rightarrow> Inr (scale_mean F op (length members) out)))"

fun gather_loop ::
  "('a, 'x) net_ops_scheme \<Rightarrow> 'a net \<Rightarrow> 'a member list \<Rightarrow> int \<Rightarrow> u64 \<Rightarrow> f32 list \<Rightarrow> 'a member list \<Rightarrow>
   frame list list \<Rightarrow> 'a group \<Rightarrow> f32 list option list \<Rightarrow> 'a group \<times> (dtrain_error + f32 list option list)" where
  "gather_loop N net members rank seq values [] bs g parts = (g, Inr parts)"
| "gather_loop N net members rank seq values (m # ms) bs g parts =
     (if m_Rank m = rank then gather_loop N net members rank seq values ms bs g parts
      else case peer_frame N net rank seq Sum values m bs g of
        (g', bs', Inl e) \<Rightarrow> (g', Inl e)
      | (g', bs', Inr f) \<Rightarrow>
        let peerRank = rankOfMember members (fr_From f) in
        if peerRank < 0 then (g', Inl UnknownPeer)
        else if length (fr_Values f) \<noteq> length values then (g', Inl PeerLength)
        else gather_loop N net members rank seq values ms bs' g' (parts[nat peerRank := Some (fr_Values f)]))"

definition join_parts :: "f32 list option list \<Rightarrow> dtrain_error + f32 list" where
  "join_parts parts = (if None \<in> set parts then Inl MissingRank else Inr (concat (map the parts)))"

definition AllGather ::
  "('a, 'x) net_ops_scheme \<Rightarrow> 'a net \<Rightarrow> frame list list \<Rightarrow> f32 list \<Rightarrow> 'a group \<Rightarrow>
   'a group \<times> (dtrain_error + f32 list)" where
  "AllGather N net bs values g =
     (let members = Group_Members g; rank = Group_Rank g in
      if \<not> g_serving g then (g, Inl NoHandler)
      else if rank < 0 then (g, Inl NotMember)
      else
        let seq = g_seq g + 1;
            g1 = publishLocal seq values (g\<lparr>g_seq := seq\<rparr>);
            parts = (replicate (length members) None)[nat rank := Some values];
            (g2, r) = gather_loop N net members rank seq values members bs g1 parts in
        (clearLocal seq g2, case r of Inl e \<Rightarrow> Inl e | Inr ps \<Rightarrow> join_parts ps))"

definition ReduceScatter ::
  "('a, 'x) net_ops_scheme \<Rightarrow> 'y float_ops_scheme \<Rightarrow> 'a net \<Rightarrow> frame list list \<Rightarrow> f32 list \<Rightarrow> reduce_op \<Rightarrow>
   'a group \<Rightarrow> 'a group \<times> (dtrain_error + f32 list)" where
  "ReduceScatter N F net bs values op g =
     (let members = Group_Members g; rank = Group_Rank g in
      if rank < 0 then (g, Inl NotMember)
      else if members = [] then (g, Inl EmptyGroup)
      else if length values mod length members \<noteq> 0 then (g, Inl NotDivisible)
      else case AllReduce N F net bs values op g of
        (g', Inl e) \<Rightarrow> (g', Inl e)
      | (g', Inr reduced) \<Rightarrow>
        let shard = length reduced div length members; start = nat rank * shard in
        (g', Inr (take shard (drop start reduced))))"

definition Barrier ::
  "('a, 'x) net_ops_scheme \<Rightarrow> 'y float_ops_scheme \<Rightarrow> 'a net \<Rightarrow> frame list list \<Rightarrow> 'a group \<Rightarrow>
   'a group \<times> (dtrain_error + unit)" where
  "Barrier N F net bs g =
     (case AllReduce N F net bs [f_of_int F 1] Sum g of
        (g', Inl e) \<Rightarrow> (g', Inl e)
      | (g', Inr out) \<Rightarrow>
        if length out \<noteq> 1 \<or> f_to_int F (hd out) \<noteq> int (length (Group_Members g')) then (g', Inl BarrierIncomplete)
        else (g', Inr ()))"

subsection \<open>Lemmas: reduction\<close>

lemma length_reduceInto [simp]: "length src = length dst \<Longrightarrow> length (reduceInto F op dst src) = length dst"
  by (simp add: reduceInto_def)

lemma nth_reduceInto: "length src = length dst \<Longrightarrow> i < length dst \<Longrightarrow>
  reduceInto F op dst src ! i = reduce_one F op (dst ! i) (src ! i)"
  by (simp add: reduceInto_def)

definition reduce_all :: "'y float_ops_scheme \<Rightarrow> reduce_op \<Rightarrow> f32 list \<Rightarrow> f32 list list \<Rightarrow> f32 list" where
  "reduce_all F op out vs = foldl (reduceInto F op) out vs"

lemma reduce_all_simps [simp]:
  "reduce_all F op out [] = out"
  "reduce_all F op out (v # vs) = reduce_all F op (reduceInto F op out v) vs"
  by (simp_all add: reduce_all_def)

lemma reduce_all_append: "reduce_all F op out (vs @ ws) = reduce_all F op (reduce_all F op out vs) ws"
  by (simp add: reduce_all_def)

lemma length_reduce_all: "\<forall>v \<in> set vs. length v = length out \<Longrightarrow> length (reduce_all F op out vs) = length out"
  by (induction vs arbitrary: out) simp_all

lemma nth_reduce_all:
  "\<forall>v \<in> set vs. length v = length out \<Longrightarrow> i < length out \<Longrightarrow>
   reduce_all F op out vs ! i = foldl (reduce_one F op) (out ! i) (map (\<lambda>v. v ! i) vs)"
  by (induction vs arbitrary: out) (simp_all add: nth_reduceInto)

text \<open>The reduction of a column does not depend on the order of its values.\<close>

definition order_free :: "('b \<Rightarrow> 'b \<Rightarrow> 'b) \<Rightarrow> 'b list \<Rightarrow> bool" where
  "order_free f xs \<longleftrightarrow> (\<forall>y ys z zs. mset (y # ys) = mset xs \<longrightarrow> mset (z # zs) = mset xs \<longrightarrow>
     foldl f y ys = foldl f z zs)"

lemma reduce_all_perm:
  assumes len: "\<forall>v \<in> set (y # ys). length v = L" and perm: "mset (y # ys) = mset (z # zs)"
    and free: "\<forall>i < L. order_free (reduce_one F op) (map (\<lambda>v. v ! i) (y # ys))"
  shows "reduce_all F op y ys = reduce_all F op z zs"
proof (rule nth_equalityI)
  have len': "\<forall>v \<in> set (z # zs). length v = L" using len mset_eq_setD [OF perm] by metis
  from len len' show "length (reduce_all F op y ys) = length (reduce_all F op z zs)"
    by (simp add: length_reduce_all)
  fix i assume "i < length (reduce_all F op y ys)"
  with len have i: "i < L" by (simp add: length_reduce_all)
  have "image_mset (\<lambda>v. v ! i) (mset (z # zs)) = image_mset (\<lambda>v. v ! i) (mset (y # ys))"
    by (simp only: perm)
  then have cols: "mset ((z ! i) # map (\<lambda>v. v ! i) zs) = mset (map (\<lambda>v. v ! i) (y # ys))" by simp
  have "mset ((y ! i) # map (\<lambda>v. v ! i) ys) = mset (map (\<lambda>v. v ! i) (y # ys))" by simp
  then have "foldl (reduce_one F op) (y ! i) (map (\<lambda>v. v ! i) ys) =
    foldl (reduce_one F op) (z ! i) (map (\<lambda>v. v ! i) zs)"
    using free [rule_format, OF i] cols unfolding order_free_def by blast
  with len len' i show "reduce_all F op y ys ! i = reduce_all F op z zs ! i"
    by (simp add: nth_reduce_all)
qed

subsection \<open>Lemmas: the loop over the members\<close>

lemma reduce_loop_lower:
  assumes "\<forall>m \<in> set ms. m_Rank m < rank \<and> exchange N net g m seq op values = Inr (v m) \<and> length (v m) = length out"
  shows "reduce_loop N F net rank seq op values (ms @ ms') bs g out =
    reduce_loop N F net rank seq op values ms' bs g (reduce_all F op out (map v ms))"
  using assms
proof (induction ms arbitrary: out)
  case (Cons m ms)
  then have m: "m_Rank m < rank" "exchange N net g m seq op values = Inr (v m)" "length (v m) = length out"
    by simp_all
  then have "\<forall>m' \<in> set ms. m_Rank m' < rank \<and> exchange N net g m' seq op values = Inr (v m') \<and>
      length (v m') = length (reduceInto F op out (v m))"
    using Cons.prems by simp
  from Cons.IH [OF this] m show ?case by (simp add: peer_frame_def)
qed simp

lemma reduce_loop_higher:
  assumes "\<forall>m \<in> set ms. rank < m_Rank m"
    and "map_of (g_inbound g) seq = Some (cap, q)" and "length q + length (concat bs) \<le> cap"
    and "\<forall>f \<in> set q \<union> set (concat bs). fr_Seq f = seq \<and> length (fr_Values f) = length out"
    and "\<forall>k < length ms. k < length q + length (concat (take (Suc k) bs))"
  shows "snd (reduce_loop N F net rank seq op values ms bs g out) =
    Inr (reduce_all F op out (map fr_Values (take (length ms) (q @ concat bs))))"
  using assms
proof (induction ms arbitrary: bs g q out cap)
  case (Cons m ms)
  define b where "b = (case bs of [] \<Rightarrow> [] | b # _ \<Rightarrow> b)"
  have bs: "concat bs = b @ concat (tl bs)" and b1: "concat (take (Suc 0) bs) = b"
    by (simp_all add: b_def split: list.splits)
  let ?g1 = "fold deliverInbound b g"
  have inb: "map_of (g_inbound ?g1) seq = Some (cap, q @ b)"
    using Cons.prems bs by (intro deliver_all) auto
  have "0 < length (q @ b)" using Cons.prems(5) b1 by force
  then obtain f r where qb: "q @ b = f # r" by (cases "q @ b") auto
  from wait_inbound [of ?g1 seq cap f r] inb qb
  obtain g2 where w: "waitInboundFrame seq ?g1 = (g2, Some f)" and inb2: "map_of (g_inbound g2) seq = Some (cap, r)"
    by (cases "waitInboundFrame seq ?g1") simp
  have pf: "peer_frame N net rank seq op values m bs g = (g2, tl bs, Inr f)"
    using Cons.prems(1) w by (simp add: peer_frame_def b_def [symmetric] Let_def)
  have mem: "set q \<union> set (concat bs) = insert f (set r \<union> set (concat (tl bs)))"
  proof -
    have "set q \<union> set (concat bs) = set (q @ b) \<union> set (concat (tl bs))" using bs by auto
    with qb show ?thesis by simp
  qed
  have lf: "length (fr_Values f) = length out" using Cons.prems(4) mem by blast
  have count: "length q + length (concat bs) = Suc (length r + length (concat (tl bs)))"
    using qb bs by (metis add_Suc append.assoc length_Cons length_append)
  have rest: "snd (reduce_loop N F net rank seq op values ms (tl bs) g2 (reduceInto F op out (fr_Values f))) =
    Inr (reduce_all F op (reduceInto F op out (fr_Values f)) (map fr_Values (take (length ms) (r @ concat (tl bs)))))"
  proof (rule Cons.IH)
    show "\<forall>k < length ms. k < length r + length (concat (take (Suc k) (tl bs)))"
    proof (intro allI impI)
      fix k assume "k < length ms"
      then have "Suc k < length q + length (concat (take (Suc (Suc k)) bs))" using Cons.prems(5) by simp
      moreover have "concat (take (Suc (Suc k)) bs) = b @ concat (take (Suc k) (tl bs))"
        by (cases bs) (simp_all add: b_def)
      moreover have "length q + length b = Suc (length r)" using qb by (metis length_Cons length_append)
      ultimately show "k < length r + length (concat (take (Suc k) (tl bs)))" by simp
    qed
    show "\<forall>f' \<in> set r \<union> set (concat (tl bs)). fr_Seq f' = seq \<and>
        length (fr_Values f') = length (reduceInto F op out (fr_Values f))"
      using Cons.prems(4) mem lf by simp
    show "length r + length (concat (tl bs)) \<le> cap" using Cons.prems(3) count by linarith
  qed (use Cons.prems(1) inb2 in simp_all)
  have "q @ concat bs = f # r @ concat (tl bs)" using qb bs by (metis append.assoc append_Cons)
  moreover have "m_Rank m \<noteq> rank" using Cons.prems(1) by auto
  ultimately show ?case using pf lf rest by simp
qed simp

lemma reduce_loop_self:
  "m_Rank m = rank \<Longrightarrow> reduce_loop N F net rank seq op values (m # ms) bs g out =
    reduce_loop N F net rank seq op values ms bs g out"
  by simp

text \<open>In a ranked group the members before, at and after the local rank.\<close>

lemma rank_nth: "ranked_ok g \<Longrightarrow> i < length (g_ranked g) \<Longrightarrow> m_Rank (g_ranked g ! i) = int i"
  unfolding ranked_ok_def by (metis (no_types, lifting) add_0 diff_zero length_map length_upt nth_map nth_upt)

lemma distinct_ids: "ranked_ok g \<Longrightarrow> distinct (map m_ID (g_ranked g))"
  by (simp add: ranked_ok_def)

lemma rank_in_range:
  assumes "ranked_ok g" and "rankOfMember (g_ranked g) i = int r"
  shows "r < length (g_ranked g) \<and> m_ID (g_ranked g ! r) = i"
proof -
  from assms(2) obtain m where m: "find (\<lambda>m. m_ID m = i) (g_ranked g) = Some m" "m_Rank m = int r"
    by (auto simp: rankOfMember_def split: option.splits)
  then obtain k where "k < length (g_ranked g)" "m = g_ranked g ! k" "m_ID m = i"
    by (auto simp: find_Some_iff)
  with m rank_nth [OF assms(1)] show ?thesis by auto
qed

lemma rank_of_nth:
  assumes "ranked_ok g" and "r < length (g_ranked g)"
  shows "rankOfMember (g_ranked g) (m_ID (g_ranked g ! r)) = int r"
proof -
  have "find (\<lambda>m. m_ID m = m_ID (g_ranked g ! r)) (g_ranked g) = Some (g_ranked g ! r)"
    unfolding find_Some_iff using assms(2) distinct_ids [OF assms(1)]
    by (intro exI [of _ r]) (auto simp: distinct_conv_nth)
  with rank_nth [OF assms] show ?thesis by (simp add: rankOfMember_def)
qed

lemma exchange_cong:
  "g_name g = g_name h \<Longrightarrow> g_ID g = g_ID h \<Longrightarrow> exchange N net g = exchange N net h"
  by (simp add: exchange_def fun_eq_iff split: option.split sum.split)

lemma publish_simps [simp]:
  "g_name (publishLocal seq vs g) = g_name g" "g_ID (publishLocal seq vs g) = g_ID g"
  "g_ranked (publishLocal seq vs g) = g_ranked g"
  by (simp_all add: publishLocal_def)

text \<open>The reduction from rank \<open>r\<close>'s view is the one in rank order.\<close>

lemma reduce_rank_order:
  assumes r: "r < n" and len: "\<forall>k < n. length (vs k) = L"
    and arrived: "mset (map fr_Values fs) = mset (map vs [r + 1..<n])"
    and free: "\<forall>i < L. order_free (reduce_one F op) (map (\<lambda>k. vs k ! i) [0..<n])"
  shows "reduce_all F op (vs r) (map vs [0..<r] @ map fr_Values fs) = reduce_all F op (vs 0) (map vs [1..<n])"
proof -
  have "mset (map vs [0..<r]) + mset (map vs [r + 1..<n]) + {#vs r#} = mset (map vs ([0..<r] @ r # [r + 1..<n]))"
    by simp
  also have "[0..<r] @ r # [r + 1..<n] = [0..<n]"
    using r by (metis Suc_eq_plus1 less_imp_add_positive upt_add_eq_append upt_conv_Cons zero_le add_0)
  finally have perm: "mset (vs r # map vs [0..<r] @ map fr_Values fs) = mset (map vs [0..<n])"
    using arrived by simp
  have zero: "map vs [0..<n] = vs 0 # map vs [1..<n]" using r by (simp add: upt_conv_Cons)
  show ?thesis
  proof (rule reduce_all_perm [where L = L, symmetric])
    show "\<forall>v \<in> set (vs 0 # map vs [1..<n]). length v = L" using len r by auto
    show "mset (vs 0 # map vs [1..<n]) = mset (vs r # map vs [0..<r] @ map fr_Values fs)"
      using perm zero by simp
    show "\<forall>i<L. order_free (reduce_one F op) (map (\<lambda>v. v ! i) (vs 0 # map vs [1..<n]))"
      using free unfolding zero [symmetric] by (simp add: comp_def)
  qed
qed

text \<open>The loop over the members of lower rank, and over the local member.\<close>

lemma reduce_lower_ranks:
  assumes g: "ranked_ok g" "r < length (g_ranked g)"
    and len: "\<forall>k < length (g_ranked g). length (vs k) = L"
    and lower: "\<forall>m \<in> set (g_ranked g). m_Rank m < int r \<longrightarrow>
      exchange N net g1 m seq op (vs r) = Inr (vs (nat (m_Rank m)))"
  shows "reduce_loop N F net (int r) seq op (vs r) (g_ranked g) bs g1 (vs r) =
    reduce_loop N F net (int r) seq op (vs r) (drop (Suc r) (g_ranked g)) bs g1 (reduce_all F op (vs r) (map vs [0..<r]))"
proof -
  let ?ms = "g_ranked g"
  have split: "?ms = take r ?ms @ ?ms ! r # drop (Suc r) ?ms" using g(2) by (simp add: id_take_nth_drop)
  have rank_take: "\<forall>k < r. m_Rank (?ms ! k) = int k" using rank_nth [OF g(1)] g(2) by simp
  have low: "\<forall>m \<in> set (take r ?ms). m_Rank m < int r \<and>
      exchange N net g1 m seq op (vs r) = Inr (vs (nat (m_Rank m))) \<and> length (vs (nat (m_Rank m))) = length (vs r)"
  proof
    fix m assume "m \<in> set (take r ?ms)"
    then obtain k where k: "k < r" "m = ?ms ! k" using g(2) by (auto simp: in_set_conv_nth)
    then have "m \<in> set ?ms" "m_Rank m = int k" "length (vs k) = length (vs r)"
      using g(2) rank_take len by simp_all
    then show "m_Rank m < int r \<and> exchange N net g1 m seq op (vs r) = Inr (vs (nat (m_Rank m))) \<and>
        length (vs (nat (m_Rank m))) = length (vs r)"
      using lower k(1) by simp
  qed
  have "map (\<lambda>m. vs (nat (m_Rank m))) (take r ?ms) = map vs [0..<r]"
    using g(2) rank_take by (intro nth_equalityI) simp_all
  then show ?thesis
    by (subst split, subst reduce_loop_lower [OF low]) (simp add: rank_nth [OF g])
qed

lemma AllReduce_result:
  fixes g :: "'a group"
  assumes g: "ranked_ok g" "g_serving g" "Group_Rank g = int r" and n: "n = length (Group_Members g)"
    and len: "\<forall>k < n. length (vs k) = L"
    and lower: "\<forall>m \<in> set (Group_Members g). m_Rank m < int r \<longrightarrow>
      exchange N net g m (g_seq g + 1) op (vs r) = Inr (vs (nat (m_Rank m)))"
    and arrived: "mset (map fr_Values (concat bs)) = mset (map vs [r + 1..<n])"
      "\<forall>f \<in> set (concat bs). fr_Seq f = g_seq g + 1"
      "\<forall>k < n - 1 - r. k < length (concat (take (Suc k) bs))"
    and free: "\<forall>i < L. order_free (reduce_one F op) (map (\<lambda>k. vs k ! i) [0..<n])"
  shows "snd (AllReduce N F net bs (vs r) op g) = Inr (scale_mean F op n (reduce_all F op (vs 0) (map vs [1..<n])))"
proof -
  let ?seq = "g_seq g + 1" and ?ms = "g_ranked g" and ?low = "reduce_all F op (vs r) (map vs [0..<r])"
  let ?g1 = "publishLocal ?seq (vs r) (g\<lparr>g_seq := ?seq\<rparr>)"
  have n': "n = length ?ms" using n by (simp add: Group_Members_def)
  have r: "r < n" using rank_in_range [OF g(1)] g(3) n' by (simp add: Group_Rank_def)
  have high: "\<forall>m \<in> set (drop (Suc r) ?ms). int r < m_Rank m"
    using rank_nth [OF g(1)] n' by (auto simp: in_set_conv_nth)
  have count: "length (concat bs) = n - 1 - r"
    using arg_cong [OF arrived(1), of size] by simp
  have flen: "length (fr_Values f) = L" if "f \<in> set (concat bs)" for f
  proof -
    from that have "fr_Values f \<in># mset (map vs [r + 1..<n])" unfolding arrived(1) [symmetric] by simp
    with len show ?thesis by auto
  qed
  have "exchange N net ?g1 = exchange N net g" by (rule exchange_cong) simp_all
  then have "snd (reduce_loop N F net (int r) ?seq op (vs r) ?ms bs ?g1 (vs r)) =
    snd (reduce_loop N F net (int r) ?seq op (vs r) (drop (Suc r) ?ms) bs ?g1 ?low)"
    using reduce_lower_ranks [OF g(1), of r vs L N net ?g1 ?seq op F bs] r n' len lower
    by (simp add: Group_Members_def)
  also have "\<dots> = Inr (reduce_all F op ?low (map fr_Values (take (length (drop (Suc r) ?ms)) ([] @ concat bs))))"
  proof (rule reduce_loop_higher [OF high publish_inbound])
    show "\<forall>f \<in> set [] \<union> set (concat bs). fr_Seq f = ?seq \<and> length (fr_Values f) = length ?low"
      using arrived(2) flen len r by (simp add: length_reduce_all)
  qed (use count arrived(3) n' in simp_all)
  also have "\<dots> = Inr (reduce_all F op (vs 0) (map vs [1..<n]))"
    using count n' reduce_rank_order [OF r len arrived(1) free] by (simp add: reduce_all_append)
  finally obtain g2 where "reduce_loop N F net (int r) ?seq op (vs r) ?ms bs ?g1 (vs r) =
    (g2, Inr (reduce_all F op (vs 0) (map vs [1..<n])))" by (metis prod.collapse)
  with g(2,3) n' show ?thesis
    by (simp add: AllReduce_def Let_def Group_Members_def)
qed

subsection \<open>Lemmas: gathering\<close>

definition inbound_from :: "frame set \<Rightarrow> u64 \<Rightarrow> 'a group \<Rightarrow> bool" where
  "inbound_from A seq g \<longleftrightarrow> (\<forall>cap q. map_of (g_inbound g) seq = Some (cap, q) \<longrightarrow> set q \<subseteq> A)"

lemma deliver_from: "inbound_from A seq g \<Longrightarrow> f \<in> A \<Longrightarrow> inbound_from A seq (deliverInbound f g)"
  by (auto simp: inbound_from_def deliverInbound_def split: option.splits)

lemma deliver_all_from: "inbound_from A seq g \<Longrightarrow> set fs \<subseteq> A \<Longrightarrow> inbound_from A seq (fold deliverInbound fs g)"
  by (induction fs arbitrary: g) (simp_all add: deliver_from)

lemma wait_from: "inbound_from A seq g \<Longrightarrow> waitInboundFrame seq g = (g', fo) \<Longrightarrow>
  inbound_from A seq g' \<and> set_option fo \<subseteq> A"
  by (auto simp: inbound_from_def waitInboundFrame_def split: option.splits list.splits prod.splits)

lemma deliver_frame [simp]: "g_name (deliverInbound f g) = g_name g" "g_ID (deliverInbound f g) = g_ID g"
  by (simp_all add: deliverInbound_def split: option.split)

lemma deliver_all_frame [simp]:
  "g_name (fold deliverInbound fs g) = g_name g" "g_ID (fold deliverInbound fs g) = g_ID g"
  by (induction fs arbitrary: g) simp_all

lemma wait_frame: "waitInboundFrame seq g = (g', fo) \<Longrightarrow> g_name g' = g_name g \<and> g_ID g' = g_ID g"
  by (auto simp: waitInboundFrame_def split: option.splits list.splits)

text \<open>One step of the loop: where the frame comes from, and that the rest keeps its provenance.\<close>

lemma peer_frame_source:
  assumes "peer_frame N net rank seq op values m bs g = (g', bs', Inr f)"
    and "inbound_from A seq g" "set (concat bs) \<subseteq> A" "m_Rank m \<noteq> rank"
  shows "(if m_Rank m < rank then fr_From f = m_ID m \<and> exchange N net g m seq op values = Inr (fr_Values f)
      else f \<in> A) \<and>
    inbound_from A seq g' \<and> set (concat bs') \<subseteq> A \<and> g_name g' = g_name g \<and> g_ID g' = g_ID g"
proof (cases "m_Rank m < rank")
  case True
  with assms show ?thesis by (auto simp: peer_frame_def split: sum.splits)
next
  case False
  define b where "b = (case bs of [] \<Rightarrow> [] | b # _ \<Rightarrow> b)"
  from False assms(1) have w: "waitInboundFrame seq (fold deliverInbound b g) = (g', Some f)" and bs': "bs' = tl bs"
    by (auto simp: peer_frame_def b_def [symmetric] Let_def split: prod.splits option.splits)
  have "set b \<subseteq> A" "set (concat bs') \<subseteq> A" using assms(3) bs' by (cases bs; auto simp: b_def)+
  with wait_from [OF deliver_all_from [OF assms(2)] w] wait_frame [OF w] False show ?thesis by simp
qed

definition upd_parts :: "(nat \<times> 'v) list \<Rightarrow> 'v option list \<Rightarrow> 'v option list" where
  "upd_parts w ps = fold (\<lambda>(k, v) qs. qs[k := Some v]) w ps"

lemma upd_parts_simps [simp]:
  "upd_parts [] ps = ps" "upd_parts ((k, v) # w) ps = upd_parts w (ps[k := Some v])"
  by (simp_all add: upd_parts_def)

lemma length_upd_parts [simp]: "length (upd_parts w ps) = length ps"
  by (induction w arbitrary: ps) auto

lemma upd_parts_other: "k \<notin> fst ` set w \<Longrightarrow> upd_parts w ps ! k = ps ! k"
  by (induction w arbitrary: ps) auto

lemma upd_parts_same:
  "distinct (map fst w) \<Longrightarrow> (k, v) \<in> set w \<Longrightarrow> k < length ps \<Longrightarrow> upd_parts w ps ! k = Some v"
proof (induction w arbitrary: ps)
  case (Cons e w)
  obtain k' v' where e: "e = (k', v')" by (cases e)
  show ?case
  proof (cases "e = (k, v)")
    case True
    with Cons.prems have "k \<notin> fst ` set w" by auto
    with True Cons.prems show ?thesis by (simp add: upd_parts_other)
  next
    case False
    with Cons e show ?thesis by auto
  qed
qed simp

text \<open>
  \<open>gathered\<close> relates a run of the loop to the writes it makes: one for each peer, from the call of
  a lower rank or from a frame in \<open>A\<close>.
\<close>

definition write_ok ::
  "('a member \<Rightarrow> dtrain_error + f32 list) \<Rightarrow> 'a member list \<Rightarrow> int \<Rightarrow> nat \<Rightarrow> frame set \<Rightarrow> 'a member list \<Rightarrow>
   nat \<times> f32 list \<Rightarrow> bool" where
  "write_ok call members rank n A ms kv \<longleftrightarrow> length (snd kv) = n \<and>
     ((\<exists>m \<in> set ms. m_Rank m < rank \<and> fst kv = nat (rankOfMember members (m_ID m)) \<and> call m = Inr (snd kv)) \<or>
      (\<exists>f \<in> A. rankOfMember members (fr_From f) = int (fst kv) \<and> fr_Values f = snd kv))"

lemma gather_loop_writes:
  assumes "gather_loop N net members rank seq values ms bs g parts = (g', Inr parts')"
    and "inbound_from A seq g" "set (concat bs) \<subseteq> A" "g_name g = g_name g0" "g_ID g = g_ID g0"
  shows "\<exists>w. length w = length (filter (\<lambda>m. m_Rank m \<noteq> rank) ms) \<and> parts' = upd_parts w parts \<and>
    (\<forall>kv \<in> set w. write_ok (\<lambda>m. exchange N net g0 m seq Sum values) members rank (length values) A ms kv) \<and>
    (\<forall>m \<in> set ms. m_Rank m < rank \<longrightarrow>
      (\<exists>v. exchange N net g0 m seq Sum values = Inr v \<and> (nat (rankOfMember members (m_ID m)), v) \<in> set w))"
  using assms
proof (induction ms arbitrary: bs g parts)
  case Nil
  then show ?case by (intro exI [of _ "[]"]) simp
next
  case (Cons m ms)
  let ?call = "\<lambda>m. exchange N net g0 m seq Sum values"
  let ?low = "\<lambda>w ms. \<forall>m \<in> set ms. m_Rank m < rank \<longrightarrow>
    (\<exists>v. ?call m = Inr v \<and> (nat (rankOfMember members (m_ID m)), v) \<in> set w)"
  show ?case
  proof (cases "m_Rank m = rank")
    case True
    with Cons.prems have "gather_loop N net members rank seq values ms bs g parts = (g', Inr parts')" by simp
    from Cons.IH [OF this Cons.prems(2-5)] obtain w where w:
      "length w = length (filter (\<lambda>m. m_Rank m \<noteq> rank) ms)" "parts' = upd_parts w parts"
      "\<forall>kv \<in> set w. write_ok ?call members rank (length values) A ms kv" "?low w ms" by blast
    moreover from w(3) have "\<forall>kv \<in> set w. write_ok ?call members rank (length values) A (m # ms) kv"
      by (auto simp: write_ok_def)
    ultimately show ?thesis using True by (intro exI [of _ w]) simp
  next
    case False
    with Cons.prems(1) obtain g1 bs1 f where f: "peer_frame N net rank seq Sum values m bs g = (g1, bs1, Inr f)"
      "0 \<le> rankOfMember members (fr_From f)" "length (fr_Values f) = length values"
      and rest: "gather_loop N net members rank seq values ms bs1 g1
        (parts[nat (rankOfMember members (fr_From f)) := Some (fr_Values f)]) = (g', Inr parts')"
      by (auto simp: Let_def not_less split: prod.splits sum.splits if_splits)
    note src = peer_frame_source [OF f(1) Cons.prems(2,3) False]
    have call: "exchange N net g = exchange N net g0" by (rule exchange_cong) (use Cons.prems in simp_all)
    let ?e = "(nat (rankOfMember members (fr_From f)), fr_Values f)"
    have e: "write_ok ?call members rank (length values) A (m # ms) ?e"
      using src f(2,3) by (auto simp: write_ok_def call split: if_splits)
    have "inbound_from A seq g1" "set (concat bs1) \<subseteq> A" "g_name g1 = g_name g0" "g_ID g1 = g_ID g0"
      using src Cons.prems(4,5) by simp_all
    from Cons.IH [OF rest this] obtain w where w:
      "length w = length (filter (\<lambda>m. m_Rank m \<noteq> rank) ms)"
      "parts' = upd_parts w (parts[nat (rankOfMember members (fr_From f)) := Some (fr_Values f)])"
      "\<forall>kv \<in> set w. write_ok ?call members rank (length values) A ms kv" "?low w ms" by blast
    then have "\<forall>kv \<in> set w. write_ok ?call members rank (length values) A (m # ms) kv"
      by (auto simp: write_ok_def)
    moreover have "?low (?e # w) (m # ms)"
      using w(4) src call by (auto split: if_splits)
    ultimately show ?thesis using w(1,2) e False by (intro exI [of _ "?e # w"]) simp
  qed
qed

text \<open>When every part is there, each peer wrote exactly its own: the writes are as many as the peers.\<close>

lemma all_written:
  assumes "r < n" and "length w = n - 1"
    and "None \<notin> set (upd_parts w ((replicate n None)[r := Some v]))"
  shows "distinct (map fst w) \<and> fst ` set w = {..<n} - {r}"
proof -
  let ?K = "fst ` set w"
  have sub: "{..<n} - {r} \<subseteq> ?K"
  proof
    fix k assume k: "k \<in> {..<n} - {r}"
    show "k \<in> ?K"
    proof (rule ccontr)
      assume "k \<notin> ?K"
      with k have "upd_parts w ((replicate n None)[r := Some v]) ! k = None" by (simp add: upd_parts_other)
      with k assms(3) show False by (metis DiffD1 length_list_update length_replicate length_upd_parts lessThan_iff nth_mem)
    qed
  qed
  have c: "card ({..<n} - {r}) = n - 1" using assms(1) by simp
  have le: "card ?K \<le> n - 1" using assms(2) by (metis card_length length_map set_map)
  have eq: "?K = {..<n} - {r}"
    using card_subset_eq [OF _ sub] card_mono [OF _ sub] c le by (metis finite_imageI finite_set le_antisym)
  have "card (set (map fst w)) = length (map fst w)" using c eq assms(2) by (simp only: set_map length_map)
  with eq show ?thesis using card_distinct by blast
qed

end
