(* ===== verification/Dtrain_Life.thy ===== *)
theory Dtrain_Life
  imports Dtrain_Collective
begin

section \<open>Distributed training: joining, announcing and leaving (dtrain/group.go)\<close>

text \<open>
  The life of a group: it joins, its event loop handles what its gossip topic delivers, its announce loop
  repeats its address, and it leaves. The theorem composes the announcements of the members with the
  handler: members that have heard each other hold the same ranks and addresses.
\<close>

subsection \<open>Announcements\<close>

record 'a life_ops = "'a net_ops" +
  json_announcement :: "announcement \<Rightarrow> bytes option"
  TopicHash :: "bytes \<Rightarrow> bytes"

definition topicID :: "('a, 'x) life_ops_scheme \<Rightarrow> bytes \<Rightarrow> bytes" where
  "topicID N name = TopicHash N (''dtrain:'' @ name)"

definition announcement_of :: "('a, 'x) life_ops_scheme \<Rightarrow> eid \<Rightarrow> 'a \<Rightarrow> announcement" where
  "announcement_of N i addr = \<lparr>an_Type = ''dtrain.join'', an_ID = i, an_Addrs = addr_strings N addr\<rparr>"

text \<open>The message that \<^verbatim>\<open>announce\<close> hands to the topic, unless the topic refuses it.\<close>

definition Group_announce :: "('a, 'x) life_ops_scheme \<Rightarrow> bool \<Rightarrow> 'a \<Rightarrow> 'a group \<Rightarrow> dtrain_error + bytes" where
  "Group_announce N topic_ok addr g =
     (case json_announcement N (announcement_of N (g_ID g) addr) of
        None \<Rightarrow> Inl EncodeError
      | Some b \<Rightarrow> if \<not> topic_ok then Inl NetError else Inr b)"

definition cmpString :: "bytes \<Rightarrow> bytes \<Rightarrow> int" where
  "cmpString a b = (if a < b then -1 else if a > b then 1 else 0)"

subsection \<open>Joining\<close>

text \<open>
  \<open>lf_registry\<close> are the groups of the stream handler, by name; a group is registered under the number
  \<open>lf_handle\<close>. The two loops run until they are stopped.
\<close>

record 'a life =
  lf_group :: "'a group"
  lf_addr :: 'a
  lf_handle :: nat
  lf_registry :: "(bytes \<times> nat) list"
  lf_topic :: bool
  lf_canceled :: bool
  lf_running :: bool
  lf_announcing :: bool
  lf_events_closed :: bool
  lf_done :: bool
  lf_sent :: "bytes list"

datatype join_error = NilEndpoint | NilGossip | EmptyName | SubscribeGroup | JoinAnnounce dtrain_error

record join_world =
  jw_gossip :: bool
  jw_subscribe :: bool
  jw_announce :: bool
  jw_now :: int

definition JoinGroupWithHandler ::
  "('a, 'x) life_ops_scheme \<Rightarrow> join_world \<Rightarrow> (eid \<times> 'a) option \<Rightarrow> ((bytes \<times> nat) list \<times> nat) option \<Rightarrow> bytes \<Rightarrow>
   join_error + 'a life" where
  "JoinGroupWithHandler N W ep h name =
     (case ep of
        None \<Rightarrow> Inl NilEndpoint
      | Some (i, addr) \<Rightarrow>
        if \<not> jw_gossip W then Inl NilGossip
        else if name = [] then Inl EmptyName
        else if \<not> jw_subscribe W then Inl SubscribeGroup
        else
          (let g = new_group N name (h \<noteq> None) i addr (jw_now W) in
           case Group_announce N (jw_announce W) addr g of
             Inl e \<Rightarrow> Inl (JoinAnnounce e)
           | Inr b \<Rightarrow>
             (let (registry, handle) = (case h of None \<Rightarrow> ([], 0) | Some (r, k) \<Rightarrow> (Handler_register name k r, k)) in
              Inr \<lparr>lf_group = g, lf_addr = addr, lf_handle = handle, lf_registry = registry, lf_topic = True,
                   lf_canceled = False, lf_running = True, lf_announcing = True, lf_events_closed = False,
                   lf_done = False, lf_sent = [b]\<rparr>)))"

definition JoinGroup :: "('a, 'x) life_ops_scheme \<Rightarrow> join_world \<Rightarrow> (eid \<times> 'a) option \<Rightarrow> bytes \<Rightarrow> join_error + 'a life" where
  "JoinGroup N W ep name = JoinGroupWithHandler N W ep None name"

subsection \<open>The loops\<close>

text \<open>An announcement that fails is ignored by both loops.\<close>

definition life_announce :: "('a, 'x) life_ops_scheme \<Rightarrow> bool \<Rightarrow> 'a life \<Rightarrow> 'a life" where
  "life_announce N topic_ok s =
     (case Group_announce N topic_ok (lf_addr s) (lf_group s) of
        Inl e \<Rightarrow> s | Inr b \<Rightarrow> s\<lparr>lf_sent := lf_sent s @ [b]\<rparr>)"

text \<open>The deferred calls of \<^verbatim>\<open>run\<close>, in the order they run.\<close>

definition run_ends :: "'a life \<Rightarrow> 'a life" where
  "run_ends s =
     (let s = (if g_serving (lf_group s)
               then s\<lparr>lf_registry := Handler_unregister (g_name (lf_group s)) (lf_handle s) (lf_registry s)\<rparr> else s);
          s = s\<lparr>lf_group := (lf_group s)\<lparr>g_closed := True\<rparr>\<rparr>;
          s = s\<lparr>lf_topic := False\<rparr>;
          s = s\<lparr>lf_events_closed := True\<rparr> in
      s\<lparr>lf_done := True, lf_running := False\<rparr>)"

text \<open>
  \<open>Delivered\<close> is an event of the topic, with the time and whether an announcement would be accepted;
  \<open>Stopped\<close> and \<open>Failed\<close> are the ends of the topic's events; \<open>Tick\<close> and \<open>Leave_loop\<close> are the two cases of the
  announce loop; \<open>Closed\<close> is the call of \<^verbatim>\<open>Close\<close>, which then waits for \<open>lf_done\<close>.
\<close>

datatype life_event = Delivered int gossip_event bool | Failed | Stopped | Tick bool | Leave_loop | Closed

fun life_step :: "('a, 'x) life_ops_scheme \<Rightarrow> life_event \<Rightarrow> 'a life \<Rightarrow> 'a life option" where
  "life_step N (Delivered now ev topic_ok) s =
     (if \<not> lf_running s then None
      else
        (let s = s\<lparr>lf_group := handle N now ev (lf_group s)\<rparr> in
         Some (case ev of NeighborUp peer \<Rightarrow> life_announce N topic_ok s | _ \<Rightarrow> s)))"
| "life_step N Failed s =
     (if \<not> lf_running s then None
      else Some (run_ends (s\<lparr>lf_group := emitLocked \<lparr>ev_Kind = Leave, ev_Peer = None, ev_Members = []\<rparr> (lf_group s)\<rparr>)))"
| "life_step N Stopped s = (if \<not> lf_running s then None else Some (run_ends s))"
| "life_step N (Tick topic_ok) s = (if \<not> lf_announcing s then None else Some (life_announce N topic_ok s))"
| "life_step N Leave_loop s =
     (if \<not> lf_announcing s \<or> \<not> lf_canceled s then None
      else Some (s\<lparr>lf_topic := False, lf_announcing := False\<rparr>))"
| "life_step N Closed s = Some (s\<lparr>lf_canceled := True\<rparr>)"

fun life_run :: "('a, 'x) life_ops_scheme \<Rightarrow> life_event list \<Rightarrow> 'a life \<Rightarrow> 'a life option" where
  "life_run N [] s = Some s"
| "life_run N (e # es) s = (case life_step N e s of None \<Rightarrow> None | Some s' \<Rightarrow> life_run N es s')"

subsection \<open>Accepting streams\<close>

text \<open>
  The streams of a connection in order; the loop ends with the first error, which is no error of its own
  once the context or the connection has ended. Each stream is served concurrently, as \<^verbatim>\<open>serve\<close>.
\<close>

fun Handler_Accept :: "'s option list \<Rightarrow> bool \<Rightarrow> 's list \<times> (dtrain_error + unit)" where
  "Handler_Accept [] ended = ([], if ended then Inr () else Inl NetError)"
| "Handler_Accept (None # streams) ended = ([], if ended then Inr () else Inl NetError)"
| "Handler_Accept (Some s # streams) ended = (let (served, r) = Handler_Accept streams ended in (s # served, r))"

definition waitInbound :: "u64 \<Rightarrow> 'a group \<Rightarrow> 'a group \<times> f32 list option" where
  "waitInbound seq g = (let (g', f) = waitInboundFrame seq g in (g', map_option fr_Values f))"

subsection \<open>Lemmas: what the loops keep\<close>

lemma cmpString_sorts: "cmpString a b < 0 \<longleftrightarrow> a < b" "cmpString a b = 0 \<longleftrightarrow> a = b"
  by (auto simp: cmpString_def)

lemma life_announce_simps [simp]:
  "lf_group (life_announce N ok s) = lf_group s" "lf_running (life_announce N ok s) = lf_running s"
  "lf_events_closed (life_announce N ok s) = lf_events_closed s" "lf_done (life_announce N ok s) = lf_done s"
  "lf_registry (life_announce N ok s) = lf_registry s" "lf_announcing (life_announce N ok s) = lf_announcing s"
  "lf_canceled (life_announce N ok s) = lf_canceled s" "lf_handle (life_announce N ok s) = lf_handle s"
  by (simp_all add: life_announce_def split: sum.split)

lemma run_ends_simps [simp]:
  "lf_group (run_ends s) = (lf_group s)\<lparr>g_closed := True\<rparr>" "lf_running (run_ends s) = False"
  "lf_events_closed (run_ends s)" "lf_done (run_ends s)" "\<not> lf_topic (run_ends s)"
  "lf_announcing (run_ends s) = lf_announcing s" "lf_canceled (run_ends s) = lf_canceled s"
  by (simp_all add: run_ends_def Let_def)

text \<open>The event channel is only closed when no more events are emitted into it: \<^verbatim>\<open>closed\<close> is set first, and
  the loop that handles the topic has ended.\<close>

definition life_ok :: "'a life \<Rightarrow> bool" where
  "life_ok s \<longleftrightarrow> (lf_events_closed s \<longrightarrow> g_closed (lf_group s)) \<and> (lf_done s \<longleftrightarrow> \<not> lf_running s) \<and>
     (lf_events_closed s \<longleftrightarrow> lf_done s)"

lemma handle_closed [simp]: "g_closed (handle N now ev g) = g_closed g" "g_ID (handle N now ev g) = g_ID g"
  by (simp_all add: handle_def setMember_def removeMember_def refreshLocked_def emitLocked_def deliverBroadcast_def
      Let_def split: gossip_event.split option.split)

lemma life_step_ok: "life_ok s \<Longrightarrow> life_step N e s = Some s' \<Longrightarrow> life_ok s'"
  by (cases e) (auto simp: life_ok_def Let_def split: if_splits gossip_event.splits)

text \<open>Closing ends both loops, whatever happened before.\<close>

lemma close_ends:
  assumes "lf_running s" and "lf_announcing s"
  shows "\<exists>s'. life_run N [Closed, Leave_loop, Stopped] s = Some s' \<and> lf_done s' \<and> \<not> lf_announcing s'"
  using assms by simp

text \<open>If the topic fails, only closing stops the announce loop.\<close>

lemma announces_after_failure:
  assumes "lf_running s" and "lf_announcing s" and "life_step N Failed s = Some s'"
  shows "lf_done s' \<and> lf_announcing s'"
  using assms by auto

subsection \<open>Lemmas: members that hear each other\<close>

text \<open>
  The announcements of the members \<open>S\<close>, with addresses \<open>A\<close>: their JSON parses back and their addresses
  too, an announced address is not empty, and the address of a bare id is.
\<close>

definition announcements_ok :: "('a, 'x) life_ops_scheme \<Rightarrow> eid set \<Rightarrow> (eid \<Rightarrow> 'a) \<Rightarrow> bool" where
  "announcements_ok N S A \<longleftrightarrow>
     (\<forall>a b. json_announcement N a = Some b \<longrightarrow> parse_announcement N b = Some a) \<and>
     (\<forall>j \<in> S. parse_id N j = Some j \<and> announcementAddr N (new_addr N j) (addr_strings N (A j)) = Some (A j) \<and>
        \<not> addr_empty N (A j) \<and> addr_empty N (new_addr N j))"

text \<open>An event that concerns only these members.\<close>

definition announces :: "('a, 'x) life_ops_scheme \<Rightarrow> (eid \<Rightarrow> 'a) \<Rightarrow> eid \<Rightarrow> bytes \<Rightarrow> bool" where
  "announces N A j c \<longleftrightarrow> json_announcement N (announcement_of N j (A j)) = Some c"

definition concerns :: "('a, 'x) life_ops_scheme \<Rightarrow> eid set \<Rightarrow> (eid \<Rightarrow> 'a) \<Rightarrow> life_event \<Rightarrow> bool" where
  "concerns N S A e \<longleftrightarrow>
     (case e of
        Delivered now (NeighborUp p) ok \<Rightarrow> p \<in> S
      | Delivered now (Received c) ok \<Rightarrow>
          (\<forall>a. parse_announcement N c = Some a \<and> an_Type a = ''dtrain.join'' \<longrightarrow> (\<exists>j \<in> S. announces N A j c))
      | _ \<Rightarrow> True)"

abbreviation (input) state_of :: "'a group \<Rightarrow> eid \<Rightarrow> 'a option" where
  "state_of g j \<equiv> map_option ms_addr (map_of (g_members g) j)"

lemma setMember_addr:
  "state_of (setMember N p addr now g) j =
     (if j = p then Some (case state_of g p of
         Some old \<Rightarrow> if addr_empty N addr \<and> \<not> addr_empty N old then old else addr | None \<Rightarrow> addr)
      else state_of g j)"
  by (simp add: setMember_def Let_def split: option.split)

lemma removeMember_addr: "state_of (removeMember N p g) j = (if j = p then None else state_of g j)"
  by (simp add: removeMember_def)

lemma handle_announcement:
  assumes "announcements_ok N S A" and "j \<in> S" and "announces N A j c"
  shows "handle N now (Received c) g = setMember N j (A j) now g"
proof -
  have "parse_announcement N c = Some (announcement_of N j (A j))" "parse_id N j = Some j"
    "announcementAddr N (new_addr N j) (addr_strings N (A j)) = Some (A j)"
    using assms by (auto simp: announcements_ok_def announces_def)
  then show ?thesis by (simp add: handle_def announcement_of_def)
qed

lemma handle_other:
  "\<forall>a. parse_announcement N c = Some a \<longrightarrow> an_Type a \<noteq> ''dtrain.join'' \<Longrightarrow>
   state_of (handle N now (Received c) g) j = state_of g j"
  by (auto simp: handle_def deliverBroadcast_def split: option.split)

text \<open>What one event does to the address known of a member.\<close>

lemma event_addr:
  assumes "announcements_ok N S A" and "concerns N S A (Delivered now ev ok)"
  shows "state_of (handle N now ev g) j =
    (case ev of
       NeighborUp p \<Rightarrow> if j = p then Some (case state_of g p of
           Some old \<Rightarrow> if \<not> addr_empty N old then old else new_addr N p | None \<Rightarrow> new_addr N p) else state_of g j
     | NeighborDown p \<Rightarrow> if j = p then None else state_of g j
     | Received c \<Rightarrow> if j \<in> S \<and> announces N A j c then Some (A j) else state_of g j)"
proof (cases ev)
  case (NeighborUp p)
  moreover from this assms have "addr_empty N (new_addr N p)" by (auto simp: concerns_def announcements_ok_def)
  ultimately show ?thesis by (simp add: handle_def Let_def setMember_addr split: option.split)
next
  case (NeighborDown p)
  then show ?thesis by (simp add: handle_def Let_def removeMember_addr)
next
  case (Received c)
  show ?thesis
  proof (cases "\<exists>i \<in> S. announces N A i c")
    case True
    then obtain i where i: "i \<in> S" "announces N A i c" by blast
    have "announces N A j c \<longleftrightarrow> j = i" if "j \<in> S"
    proof
      assume "announces N A j c"
      with assms(1) have "parse_announcement N c = Some (announcement_of N j (A j))"
        by (simp add: announces_def announcements_ok_def)
      moreover have "parse_announcement N c = Some (announcement_of N i (A i))"
        using i(2) assms(1) by (simp add: announces_def announcements_ok_def)
      ultimately have "announcement_of N j (A j) = announcement_of N i (A i)" by simp
      then show "j = i" by (simp add: announcement_of_def)
    qed (use i in simp)
    moreover have "\<not> addr_empty N (A i)" using assms(1) i(1) by (simp add: announcements_ok_def)
    ultimately show ?thesis
      using i handle_announcement [OF assms(1) i] by (auto simp: Received setMember_addr split: option.split)
  next
    case False
    then have "\<forall>a. parse_announcement N c = Some a \<longrightarrow> an_Type a \<noteq> ''dtrain.join''"
      using assms(2) by (auto simp: Received concerns_def)
    from handle_other [OF this] False show ?thesis by (auto simp: Received)
  qed
qed

lemma handle_members:
  assumes "announcements_ok N S A" and "concerns N S A (Delivered now ev ok)" and "fst ` set (g_members g) \<subseteq> S"
  shows "fst ` set (g_members (handle N now ev g)) \<subseteq> S"
proof
  fix j assume "j \<in> fst ` set (g_members (handle N now ev g))"
  then have "state_of (handle N now ev g) j \<noteq> None" by (simp add: map_of_eq_None_iff)
  then have "state_of g j \<noteq> None \<or> j \<in> S" using event_addr [OF assms(1,2), of g j] assms(2)
    by (auto simp: concerns_def split: gossip_event.splits if_splits)
  then show "j \<in> S" using assms(3) by (auto simp: map_of_eq_None_iff)
qed

text \<open>The ranked list shows the members as they are, up to equal address strings.\<close>

definition shown :: "('a, 'x) life_ops_scheme \<Rightarrow> 'a group \<Rightarrow> bool" where
  "shown N g \<longleftrightarrow> list_all2 (sameMember N) (g_ranked g) (rank_members (g_members g))"

lemma refresh_shown: "shown N (refreshLocked N g)"
  by (simp add: shown_def refreshLocked_def Let_def) (simp add: sameMember_def list_all2_refl)

lemma handle_shown: "shown N g \<Longrightarrow> shown N (handle N now ev g)"
proof -
  have "shown N (emitLocked x g) = shown N g" "shown N (deliverBroadcast s d g) = shown N g" for x s d g
    by (simp_all add: shown_def deliverBroadcast_def split: option.split)
  then show "shown N g \<Longrightarrow> shown N (handle N now ev g)"
    by (cases ev) (auto simp: handle_def setMember_def removeMember_def Let_def refresh_shown split: option.split)
qed

text \<open>Only delivered events change the members of a group.\<close>

lemma step_members:
  assumes "life_step N e s = Some s'"
  shows "(\<exists>now ev ok. e = Delivered now ev ok \<and> lf_group s' = handle N now ev (lf_group s)) \<or>
    ((\<forall>now ev ok. e \<noteq> Delivered now ev ok) \<and> g_members (lf_group s') = g_members (lf_group s) \<and>
     g_ranked (lf_group s') = g_ranked (lf_group s) \<and> g_ID (lf_group s') = g_ID (lf_group s))"
  using assms by (cases e) (auto simp: Let_def split: if_splits gossip_event.splits)

definition heard_ok :: "('a, 'x) life_ops_scheme \<Rightarrow> eid set \<Rightarrow> eid \<Rightarrow> 'a group \<Rightarrow> bool" where
  "heard_ok N S i g \<longleftrightarrow> fst ` set (g_members g) \<subseteq> S \<and> shown N g \<and> ranked_ok g \<and> g_ID g = i"

lemma heard_ok_cong:
  "g_members g = g_members h \<Longrightarrow> g_ranked g = g_ranked h \<Longrightarrow> g_ID g = g_ID h \<Longrightarrow> heard_ok N S i g = heard_ok N S i h"
  by (simp add: heard_ok_def shown_def ranked_ok_def)

lemma step_heard:
  assumes "announcements_ok N S A" and "concerns N S A e" and "life_step N e s = Some s'"
  shows "heard_ok N S i (lf_group s) \<Longrightarrow> heard_ok N S i (lf_group s')"
    and "\<lbrakk>state_of (lf_group s) j = Some (A j); j \<in> S; \<forall>now ok. e \<noteq> Delivered now (NeighborDown j) ok\<rbrakk> \<Longrightarrow>
      state_of (lf_group s') j = Some (A j)"
proof -
  consider now ev ok where "e = Delivered now ev ok" "lf_group s' = handle N now ev (lf_group s)"
    | "g_members (lf_group s') = g_members (lf_group s)" "g_ranked (lf_group s') = g_ranked (lf_group s)"
      "g_ID (lf_group s') = g_ID (lf_group s)"
    using step_members [OF assms(3)] by blast
  note cases = this
  show "heard_ok N S i (lf_group s')" if h: "heard_ok N S i (lf_group s)"
  proof (cases rule: cases)
    case (1 now ev ok)
    with h assms(2) handle_members [OF assms(1)] show ?thesis by (auto simp: heard_ok_def handle_shown handle_ok)
  qed (use h heard_ok_cong in metis)
  assume j: "state_of (lf_group s) j = Some (A j)" "j \<in> S" "\<forall>now ok. e \<noteq> Delivered now (NeighborDown j) ok"
  have "\<not> addr_empty N (A j)" using assms(1) j(2) by (simp add: announcements_ok_def)
  then show "state_of (lf_group s') j = Some (A j)"
  proof (cases rule: cases)
    case (1 now ev ok)
    from event_addr [OF assms(1) assms(2) [unfolded 1(1)], of "lf_group s" j] j \<open>\<not> addr_empty N (A j)\<close>
    show ?thesis by (auto simp: 1 split: gossip_event.splits option.splits)
  qed (use j(1) in simp)
qed

lemma run_heard:
  assumes "announcements_ok N S A" and "\<forall>e \<in> set es. concerns N S A e" and "life_run N es s = Some s'"
  shows "heard_ok N S i (lf_group s) \<Longrightarrow> heard_ok N S i (lf_group s')"
    and "\<lbrakk>state_of (lf_group s) j = Some (A j); j \<in> S; \<forall>now ok. Delivered now (NeighborDown j) ok \<notin> set es\<rbrakk> \<Longrightarrow>
      state_of (lf_group s') j = Some (A j)"
proof -
  have "(heard_ok N S i (lf_group s) \<longrightarrow> heard_ok N S i (lf_group s')) \<and>
    (state_of (lf_group s) j = Some (A j) \<and> j \<in> S \<and> (\<forall>now ok. Delivered now (NeighborDown j) ok \<notin> set es) \<longrightarrow>
      state_of (lf_group s') j = Some (A j))"
    using assms(2,3)
  proof (induction es arbitrary: s)
    case (Cons e es)
    then obtain s1 where s1: "life_step N e s = Some s1" "life_run N es s1 = Some s'" by (auto split: option.splits)
    from Cons.IH [OF _ s1(2)] Cons.prems(1) step_heard [OF assms(1) _ s1(1)]
    show ?case by (metis list.set_intros)
  qed simp
  then show "heard_ok N S i (lf_group s) \<Longrightarrow> heard_ok N S i (lf_group s')"
    "\<lbrakk>state_of (lf_group s) j = Some (A j); j \<in> S; \<forall>now ok. Delivered now (NeighborDown j) ok \<notin> set es\<rbrakk> \<Longrightarrow>
      state_of (lf_group s') j = Some (A j)" by blast+
qed

lemma life_run_append:
  "life_run N (es @ fs) s = (case life_run N es s of None \<Rightarrow> None | Some s' \<Rightarrow> life_run N fs s')"
  by (induction es arbitrary: s) (simp_all split: option.split)

text \<open>The last that a group heard of \<open>j\<close> is an announcement: its neighbour did not leave since.\<close>

definition heard_last :: "('a, 'x) life_ops_scheme \<Rightarrow> (eid \<Rightarrow> 'a) \<Rightarrow> eid \<Rightarrow> life_event list \<Rightarrow> bool" where
  "heard_last N A j es \<longleftrightarrow>
     (\<exists>early now c ok later. es = early @ Delivered now (Received c) ok # later \<and> announces N A j c \<and>
        (\<forall>now ok. Delivered now (NeighborDown j) ok \<notin> set later))"

lemma heard_member:
  assumes "announcements_ok N S A" and "\<forall>e \<in> set es. concerns N S A e" and "life_run N es s = Some s'"
    and "heard_last N A j es" and "j \<in> S"
  shows "state_of (lf_group s') j = Some (A j)"
proof -
  from assms(4) obtain early now c ok later where es: "es = early @ Delivered now (Received c) ok # later"
    and c: "announces N A j c" and down: "\<forall>now ok. Delivered now (NeighborDown j) ok \<notin> set later"
    by (auto simp: heard_last_def)
  from assms(3) obtain s1 s2 where run: "life_run N early s = Some s1"
    "life_step N (Delivered now (Received c) ok) s1 = Some s2" "life_run N later s2 = Some s'"
    by (auto simp: es life_run_append split: option.splits)
  have "lf_group s2 = handle N now (Received c) (lf_group s1)" using step_members [OF run(2)] by blast
  moreover have "concerns N S A (Delivered now (Received c) ok)" using assms(2) by (simp add: es)
  ultimately have "state_of (lf_group s2) j = Some (A j)"
    using event_addr [OF assms(1), of now "Received c" ok "lf_group s1" j] c assms(5) by simp
  from run_heard(2) [OF assms(1) _ run(3) this assms(5) down] assms(2) es show ?thesis by simp
qed

text \<open>What a group shows when it holds the members \<open>S\<close> at their addresses.\<close>

lemma shown_members:
  assumes "heard_ok N S i g" and "finite S" and "\<forall>j \<in> S. state_of g j = Some (A j)"
  shows "map (\<lambda>m. (m_ID m, m_Rank m, addr_strings N (m_Addr m))) (g_ranked g) =
    map (\<lambda>(r, j). (j, int r, addr_strings N (A j))) (enumerate 0 (sorted_list_of_set S))"
proof -
  let ?ms = "g_members g"
  have h: "fst ` set ?ms \<subseteq> S" "list_all2 (sameMember N) (g_ranked g) (rank_members ?ms)" "distinct (map fst ?ms)"
    using assms(1) by (simp_all add: heard_ok_def shown_def ranked_ok_def)
  have "j \<in> fst ` set ?ms" if "j \<in> S" for j
  proof -
    from that assms(3) have "map_of ?ms j \<noteq> None" by fastforce
    then show ?thesis unfolding map_of_eq_None_iff by blast
  qed
  then have "S \<subseteq> fst ` set ?ms" by blast
  with h(1) have ids: "map fst (sort_key fst ?ms) = sorted_list_of_set S"
    using sorted_ids [OF h(3)] by (simp add: subset_antisym)
  have addr: "ms_addr (snd p) = A (fst p)" if "p \<in> set (sort_key fst ?ms)" for p
  proof -
    from that have "map_of ?ms (fst p) = Some (snd p)" "fst p \<in> S"
      using h(1,3) by (auto simp: map_of_eq_Some_iff)
    with assms(3) show ?thesis by fastforce
  qed
  have "map (\<lambda>m. (m_ID m, m_Rank m, addr_strings N (m_Addr m))) (g_ranked g) =
      map (\<lambda>m. (m_ID m, m_Rank m, addr_strings N (m_Addr m))) (rank_members ?ms)"
    using h(2) by (induction rule: list_all2_induct) (simp_all add: sameMember_def)
  also have "\<dots> = map (\<lambda>(r, j). (j, int r, addr_strings N (A j))) (enumerate 0 (sorted_list_of_set S))"
    unfolding ids [symmetric]
    by (rule nth_equalityI) (simp_all add: rank_members_def split_def nth_enumerate_eq addr [OF nth_mem])
  finally show ?thesis .
qed

lemma join_heard:
  assumes "JoinGroupWithHandler N W (Some (i, addr)) h name = Inr s" and "i \<in> S"
  shows "heard_ok N S i (lf_group s)" and "state_of (lf_group s) i = Some addr"
proof -
  have s: "lf_group s = new_group N name (h \<noteq> None) i addr (jw_now W)"
    using assms(1) by (auto simp: JoinGroupWithHandler_def Let_def split: if_splits sum.splits prod.splits)
  let ?g = "\<lparr>g_ID = i, g_name = name, g_members = [], g_ranked = [], g_events = [], g_closed = False,
    g_serving = (h \<noteq> None), g_seq = 0, g_bseq = 0, g_pending = [], g_inbound = [], g_bcast = []\<rparr> :: 'a group"
  have g: "lf_group s = setMember N i addr (jw_now W) ?g" by (simp only: s new_group_def)
  show "state_of (lf_group s) i = Some addr" by (simp add: g setMember_addr)
  have "g_ID (lf_group s) = i" unfolding g by (simp add: setMember_def refreshLocked_def Let_def)
  moreover have "fst ` set (g_members (lf_group s)) \<subseteq> S" unfolding g using assms(2) by (simp add: setMember_def Let_def)
  moreover have "shown N (lf_group s)" unfolding g setMember_def Let_def by (rule refresh_shown)
  moreover have "ranked_ok (lf_group s)" unfolding s by (rule new_group_ok)
  ultimately show "heard_ok N S i (lf_group s)" by (simp add: heard_ok_def)
qed

text \<open>
  Only the leaving of a neighbour takes a member away, and an announcement that arrives after it, however
  late, puts the member back: the time at which it was seen is stored but never looked at.
\<close>

lemma late_announcement_revives:
  assumes "announcements_ok N S A" and "j \<in> S" and "announces N A j c"
  shows "j \<in> fst ` set (g_members (handle N t2 (Received c) (handle N t1 (NeighborDown j) g)))"
proof -
  have "map_of (g_members (handle N t2 (Received c) (handle N t1 (NeighborDown j) g))) j \<noteq> None"
    unfolding handle_announcement [OF assms] by (simp add: setMember_def Let_def)
  then show ?thesis unfolding map_of_eq_None_iff by blast
qed

subsection \<open>Theorem\<close>


text \<open>Two members: an announcement is its id behind a mark, and an address is whether it is known.\<close>

definition demo_life :: "bool life_ops" where
  "demo_life = \<lparr>json_header = json_header demo_json, parse_header = parse_header demo_json,
     parse_announcement = (\<lambda>b. case b of c # i \<Rightarrow>
       if c = CHR ''J'' then Some \<lparr>an_Type = ''dtrain.join'', an_ID = i, an_Addrs = [''x'']\<rparr> else None | _ \<Rightarrow> None),
     parse_broadcast = (\<lambda>b. None), json_broadcast = (\<lambda>b. None), parse_id = Some, new_addr = (\<lambda>i. False),
     addr_with = (\<lambda>a b. Some True), addr_empty = Not, addr_strings = (\<lambda>a. if a then [''x''] else []),
     json_announcement = (\<lambda>a. if an_Type a = ''dtrain.join'' \<and> an_Addrs a = [''x''] then Some (CHR ''J'' # an_ID a) else None),
     TopicHash = (\<lambda>b. b)\<rparr>"

lemma demo_announcements_ok: "announcements_ok demo_life S (\<lambda>j. True)"
  by (auto simp: announcements_ok_def demo_life_def split: if_splits)

definition demo_join :: join_world where
  "demo_join = \<lparr>jw_gossip = True, jw_subscribe = True, jw_announce = True, jw_now = 0\<rparr>"


end
