(* ===== verification/Wasm_Chat.thy ===== *)
theory Wasm_Chat
  imports GoText
begin

section \<open>The browser chat node\<close>

text \<open>
  \<^verbatim>\<open>wasmrelay/cmd/wasm-gossip-chat/main_js.go\<close>: a node that joins a gossip topic over a relay,
  exchanges chat lines, learns peers from beacons and dials them again when it has no neighbour.
  The key, relay and hash functions of the third-party packages are parameters; what the endpoint,
  the topic and the clock answer is an input of the step that asks. What the node hands to the page
  or to the topic is appended to a list of outputs.
\<close>

subsection \<open>State (type node)\<close>

record endpoint_addr =
  ea_id :: bytes
  ea_relay :: bytes

record key_ops =
  ParseEndpointID :: "bytes \<Rightarrow> bytes option"
  ID_String :: "bytes \<Rightarrow> bytes"
  ZeroID :: bytes
  ParseRelayURL :: "bytes \<Rightarrow> bytes option"
  Sha256 :: "bytes \<Rightarrow> bytes"

datatype chat_out =
    Emit bytes bytes bytes
  | SetStatus bytes bytes
  | Ready bytes bytes bytes
  | Online bytes
  | OverlayLost nat
  | RejoinFailed bytes
  | TopicBroadcast bytes
  | JoinPeers "endpoint_addr list"

record chat_node =
  cn_id :: bytes
  cn_name :: bytes
  cn_relay :: bytes
  cn_known :: "(bytes \<times> endpoint_addr) list"
  cn_lastAttempt :: "int option"
  cn_listener :: bool
  cn_out :: "chat_out list"

definition remember :: "key_ops \<Rightarrow> bytes \<Rightarrow> chat_node \<Rightarrow> chat_node" where
  "remember K i n =
     (if i = ZeroID K \<or> i = cn_id n then n
      else n\<lparr>cn_known := alist_put i \<lparr>ea_id = i, ea_relay = cn_relay n\<rparr> (cn_known n)\<rparr>)"

definition healPeers :: "chat_node \<Rightarrow> endpoint_addr list" where
  "healPeers n = map snd (cn_known n)"

text \<open>The page is called back only if it has installed a listener.\<close>

definition chat_emit :: "chat_out \<Rightarrow> chat_node \<Rightarrow> chat_node" where
  "chat_emit e n = (if cn_listener n then n\<lparr>cn_out := cn_out n @ [e]\<rparr> else n)"

definition chat_push :: "chat_out \<Rightarrow> chat_node \<Rightarrow> chat_node" where
  "chat_push e n = n\<lparr>cn_out := cn_out n @ [e]\<rparr>"

subsection \<open>Messages\<close>

definition presencePrefix :: bytes where
  "presencePrefix = CHR 0x00 # ''iroh-presence|''"

definition parsePresence :: "key_ops \<Rightarrow> bytes \<Rightarrow> bytes option" where
  "parsePresence K content =
     (if \<not> prefix presencePrefix content then None
      else ParseEndpointID K (trim_prefix content presencePrefix))"

definition splitMsg :: "bytes \<Rightarrow> bytes \<times> bytes" where
  "splitMsg s =
     (case find_sub ''|'' s of
        Some i \<Rightarrow> (take i s, drop (i + 1) s)
      | None \<Rightarrow> (''anon'', s))"

text \<open>The payload of \<^verbatim>\<open>irohSend\<close>, and the message of \<^verbatim>\<open>beacon\<close>.\<close>

definition chat_payload :: "chat_node \<Rightarrow> bytes \<Rightarrow> bytes" where
  "chat_payload n s = cn_name n @ ''|'' @ s"

definition beacon_msg :: "key_ops \<Rightarrow> chat_node \<Rightarrow> bytes" where
  "beacon_msg K n = presencePrefix @ ID_String K (cn_id n)"

subsection \<open>Start (run)\<close>

datatype chat_error = MissingRelay | ParseRelay | BindEndpoint | NewRouter | RelayOnline | ParsePeerID | SubscribeTopic

definition query_param :: "(bytes \<Rightarrow> bytes option) \<Rightarrow> bytes \<Rightarrow> bytes" where
  "query_param params k = (case params k of None \<Rightarrow> [] | Some v \<Rightarrow> v)"

record chat_world =
  cw_bind :: "bytes option"
  cw_router :: bool
  cw_online :: bool
  cw_subscribe :: bool
  cw_listener :: bool

text \<open>The result holds the node, the topic that it subscribed to and the peers it bootstraps from.\<close>

definition chat_start ::
  "key_ops \<Rightarrow> chat_world \<Rightarrow> (bytes \<Rightarrow> bytes option) \<Rightarrow> chat_error + (chat_node \<times> bytes \<times> endpoint_addr list)" where
  "chat_start K W params =
     (let q = query_param params; relayRaw = q ''relay'' in
      if relayRaw = [] then Inl MissingRelay
      else case ParseRelayURL K relayRaw of
        None \<Rightarrow> Inl ParseRelay
      | Some relayURL \<Rightarrow>
        (let topicName = (if q ''topic'' = [] then ''go-iroh-browser-chat'' else q ''topic'');
             nm = (if q ''name'' = [] then ''anon'' else q ''name'') in
         case cw_bind W of
           None \<Rightarrow> Inl BindEndpoint
         | Some ep \<Rightarrow>
           if \<not> cw_router W then Inl NewRouter
           else if \<not> cw_online W then Inl RelayOnline
           else
             (case (if q ''peer'' = [] then Some []
                    else map_option (\<lambda>p. [\<lparr>ea_id = p, ea_relay = relayURL\<rparr>]) (ParseEndpointID K (q ''peer''))) of
                None \<Rightarrow> Inl ParsePeerID
              | Some bootstrap \<Rightarrow>
                if \<not> cw_subscribe W then Inl SubscribeTopic
                else
                  (let n0 = \<lparr>cn_id = ep, cn_name = nm, cn_relay = relayURL, cn_known = [],
                             cn_lastAttempt = None, cn_listener = cw_listener W, cn_out = []\<rparr>;
                       n1 = fold (\<lambda>a. remember K (ea_id a)) bootstrap n0;
                       i = ID_String K ep;
                       n2 = chat_emit (Emit ''self'' i nm) n1;
                       n3 = chat_push (SetStatus ''pass'' (take 12 i)) (chat_push (Ready i topicName nm) n2) in
                   Inr (chat_emit (Online (take 12 i)) n3, Sha256 K topicName, bootstrap)))))"

subsection \<open>Steps\<close>

datatype topic_event =
    Heard bytes bytes
  | PeerUp bytes
  | PeerDown bytes
  | StreamError bytes

text \<open>One event of the topic: \<open>Heard from content\<close> is a delivery by the last hop \<open>from\<close>.\<close>

definition chat_event :: "key_ops \<Rightarrow> topic_event \<Rightarrow> chat_node \<Rightarrow> chat_node" where
  "chat_event K ev n =
     (case ev of
        StreamError e \<Rightarrow> chat_emit (Emit ''error'' [] e) n
      | Heard from content \<Rightarrow>
        (let n = remember K from n in
         case parsePresence K content of
           Some origin \<Rightarrow> remember K origin n
         | None \<Rightarrow>
           (let (who, s) = splitMsg content in
            chat_emit (Emit ''msg'' (ID_String K from @ ''|'' @ who) s) n))
      | PeerUp peer \<Rightarrow> chat_emit (Emit ''up'' (ID_String K peer) []) (remember K peer n)
      | PeerDown peer \<Rightarrow> chat_emit (Emit ''down'' (ID_String K peer) []) n)"

text \<open>A tick of \<^verbatim>\<open>beacon\<close>; the error of the broadcast is ignored.\<close>

definition beacon_tick :: "key_ops \<Rightarrow> bool \<Rightarrow> chat_node \<Rightarrow> chat_node" where
  "beacon_tick K joined n = (if \<not> joined then n else chat_push (TopicBroadcast (beacon_msg K n)) n)"

text \<open>A tick of \<^verbatim>\<open>heal\<close>. Times are nanoseconds; \<open>result\<close> is the error of joining the peers, if any.\<close>

definition settle :: int where
  "settle = 3000000000"

definition heal_tick :: "bool \<Rightarrow> int \<Rightarrow> bytes option \<Rightarrow> chat_node \<Rightarrow> chat_node" where
  "heal_tick joined now result n =
     (if joined then n
      else
        (let peers = healPeers n in
         if length peers = 0 then n
         else if (case cn_lastAttempt n of None \<Rightarrow> False | Some l \<Rightarrow> now - l < settle) then n
         else
           (let n = chat_push (JoinPeers peers) (chat_emit (OverlayLost (length peers)) (n\<lparr>cn_lastAttempt := Some now\<rparr>)) in
            case result of None \<Rightarrow> n | Some e \<Rightarrow> chat_emit (RejoinFailed e) n)))"

text \<open>\<^verbatim>\<open>irohSend\<close> with its arguments; what it returns to the page is \<open>args \<noteq> []\<close>.\<close>

definition irohSend :: "bytes list \<Rightarrow> bytes option \<Rightarrow> chat_node \<Rightarrow> chat_node \<times> bool" where
  "irohSend args result n =
     (case args of
        [] \<Rightarrow> (n, False)
      | s # _ \<Rightarrow>
        (let n = chat_push (TopicBroadcast (chat_payload n s)) n in
         (case result of None \<Rightarrow> n | Some e \<Rightarrow> chat_emit (Emit ''error'' [] (''broadcast: '' @ e)) n, True)))"

text \<open>The event loop, the two goroutines and the page interleave.\<close>

datatype chat_action =
    Topic topic_event
  | BeaconTick bool
  | HealTick bool int "bytes option"
  | Send "bytes list" "bytes option"

fun chat_step :: "key_ops \<Rightarrow> chat_action \<Rightarrow> chat_node \<Rightarrow> chat_node" where
  "chat_step K (Topic ev) n = chat_event K ev n"
| "chat_step K (BeaconTick joined) n = beacon_tick K joined n"
| "chat_step K (HealTick joined now result) n = heal_tick joined now result n"
| "chat_step K (Send args result) n = fst (irohSend args result n)"

definition chat_run :: "key_ops \<Rightarrow> chat_action list \<Rightarrow> chat_node \<Rightarrow> chat_node" where
  "chat_run K = fold (chat_step K)"

subsection \<open>What the steps keep\<close>

named_theorems chat_frame

lemma remember_frame [chat_frame]:
  "cn_id (remember K i n) = cn_id n" "cn_relay (remember K i n) = cn_relay n"
  "cn_name (remember K i n) = cn_name n" "cn_listener (remember K i n) = cn_listener n"
  "cn_lastAttempt (remember K i n) = cn_lastAttempt n" "cn_out (remember K i n) = cn_out n"
  by (simp_all add: remember_def)

lemma emit_frame [chat_frame]:
  "cn_id (chat_emit e n) = cn_id n" "cn_relay (chat_emit e n) = cn_relay n"
  "cn_name (chat_emit e n) = cn_name n" "cn_listener (chat_emit e n) = cn_listener n"
  "cn_lastAttempt (chat_emit e n) = cn_lastAttempt n" "cn_known (chat_emit e n) = cn_known n"
  by (simp_all add: chat_emit_def)

lemma push_frame [chat_frame]:
  "cn_id (chat_push e n) = cn_id n" "cn_relay (chat_push e n) = cn_relay n"
  "cn_name (chat_push e n) = cn_name n" "cn_listener (chat_push e n) = cn_listener n"
  "cn_lastAttempt (chat_push e n) = cn_lastAttempt n" "cn_known (chat_push e n) = cn_known n"
  "cn_out (chat_push e n) = cn_out n @ [e]"
  by (simp_all add: chat_push_def)

lemmas chat_ops = chat_event_def beacon_tick_def heal_tick_def irohSend_def Let_def

lemma step_fixed [chat_frame]:
  "cn_id (chat_step K a n) = cn_id n" "cn_relay (chat_step K a n) = cn_relay n"
  "cn_name (chat_step K a n) = cn_name n" "cn_listener (chat_step K a n) = cn_listener n"
  by (cases a; auto simp: chat_ops chat_frame split: topic_event.split option.split list.split prod.split)+

text \<open>Only a tick that dials changes the time of the last attempt.\<close>

lemma step_attempt:
  "(\<forall>joined now result. a \<noteq> HealTick joined now result) \<Longrightarrow> cn_lastAttempt (chat_step K a n) = cn_lastAttempt n"
  by (cases a; auto simp: chat_ops chat_frame split: topic_event.split option.split list.split prod.split)

lemma step_outputs: "prefix (cn_out n) (cn_out (chat_step K a n))"
  by (cases a) (auto simp: chat_ops chat_emit_def chat_push_def remember_frame
      split: topic_event.split option.split list.split prod.split)

text \<open>The peers of a node: neither itself nor the zero id, each under its own id and over the node's relay.\<close>

definition known_ok :: "key_ops \<Rightarrow> chat_node \<Rightarrow> bool" where
  "known_ok K n \<longleftrightarrow> distinct (map fst (cn_known n)) \<and>
     (\<forall>(i, a) \<in> set (cn_known n). i \<noteq> ZeroID K \<and> i \<noteq> cn_id n \<and> a = \<lparr>ea_id = i, ea_relay = cn_relay n\<rparr>)"

abbreviation (input) peers_of :: "chat_node \<Rightarrow> bytes set" where
  "peers_of n \<equiv> fst ` set (cn_known n)"

lemma alist_put_in: "(i, a) \<in> set (alist_put k v m) \<Longrightarrow> (i = k \<and> a = v) \<or> (i, a) \<in> set m"
  by (induction k v m rule: alist_put.induct) (auto split: if_splits)

lemma remember_ok:
  "known_ok K n \<Longrightarrow> known_ok K (remember K i n)" "peers_of n \<subseteq> peers_of (remember K i n)"
  "i \<noteq> ZeroID K \<Longrightarrow> i \<noteq> cn_id n \<Longrightarrow> i \<in> peers_of (remember K i n)"
  by (auto simp: known_ok_def remember_def dest!: alist_put_in)

lemma known_ok_cong [chat_frame]:
  "known_ok K (chat_emit e n) = known_ok K n" "known_ok K (chat_push e n) = known_ok K n"
  "known_ok K (n\<lparr>cn_lastAttempt := l\<rparr>) = known_ok K n"
  by (simp_all add: known_ok_def chat_frame)

lemma step_ok: "known_ok K n \<Longrightarrow> known_ok K (chat_step K a n)"
  by (cases a) (auto simp: chat_ops chat_frame intro!: remember_ok(1)
      split: topic_event.split option.split list.split prod.split)

lemma remember_peers:
  "peers_of (remember K i n) = (if i = ZeroID K \<or> i = cn_id n then peers_of n else insert i (peers_of n))"
  by (simp add: remember_def)

lemma step_peers: "peers_of n \<subseteq> peers_of (chat_step K a n)"
  by (cases a) (simp_all add: chat_ops chat_frame remember_peers subset_insertI subset_insertI2
      split: topic_event.split option.split list.split prod.split)

lemma chat_run_Cons: "chat_run K (a # as) n = chat_run K as (chat_step K a n)"
  by (simp add: chat_run_def)

lemma run_ok:
  "known_ok K n \<Longrightarrow> known_ok K (chat_run K as n)" "peers_of n \<subseteq> peers_of (chat_run K as n)"
  "cn_id (chat_run K as n) = cn_id n" "cn_relay (chat_run K as n) = cn_relay n"
  "prefix (cn_out n) (cn_out (chat_run K as n))"
proof -
  have "(known_ok K n \<longrightarrow> known_ok K (chat_run K as n)) \<and> peers_of n \<subseteq> peers_of (chat_run K as n) \<and>
    cn_id (chat_run K as n) = cn_id n \<and> cn_relay (chat_run K as n) = cn_relay n \<and>
    prefix (cn_out n) (cn_out (chat_run K as n))"
  proof (induction as arbitrary: n)
    case (Cons a as)
    from Cons.IH [of "chat_step K a n"] have IH: "known_ok K (chat_step K a n) \<longrightarrow> known_ok K (chat_run K (a # as) n)"
      "peers_of (chat_step K a n) \<subseteq> peers_of (chat_run K (a # as) n)"
      "cn_id (chat_run K (a # as) n) = cn_id n" "cn_relay (chat_run K (a # as) n) = cn_relay n"
      "prefix (cn_out (chat_step K a n)) (cn_out (chat_run K (a # as) n))"
      by (simp_all add: chat_run_Cons chat_frame)
    show ?case
      using IH(1,3,4) step_ok subset_trans [OF step_peers IH(2)] prefix_order.trans [OF step_outputs IH(5)] by blast
  qed (simp add: chat_run_def)
  then show "known_ok K n \<Longrightarrow> known_ok K (chat_run K as n)" "peers_of n \<subseteq> peers_of (chat_run K as n)"
    "cn_id (chat_run K as n) = cn_id n" "cn_relay (chat_run K as n) = cn_relay n"
    "prefix (cn_out n) (cn_out (chat_run K as n))" by simp_all
qed

lemma start_ok:
  assumes "chat_start K W params = Inr (n, topic, bootstrap)"
  shows "known_ok K n" and "cn_lastAttempt n = None"
proof -
  have "known_ok K \<lparr>cn_id = i, cn_name = nm, cn_relay = r, cn_known = [], cn_lastAttempt = l, cn_listener = b, cn_out = os\<rparr>"
    for i nm r l b os by (simp add: known_ok_def)
  with assms show "known_ok K n" "cn_lastAttempt n = None"
    by (auto simp: chat_start_def Let_def chat_frame remember_ok(1) split: if_splits option.splits)
qed

subsection \<open>Lemmas: dialing again\<close>

fun tick_time :: "chat_action \<Rightarrow> int list" where
  "tick_time (HealTick joined now result) = [now]"
| "tick_time a = []"

definition tick_times :: "chat_action list \<Rightarrow> int list" where
  "tick_times as = concat (map tick_time as)"

lemma tick_times_simps [simp]:
  "tick_times [] = []" "tick_times (a # as) = tick_time a @ tick_times as" "tick_times (as @ bs) = tick_times as @ tick_times bs"
  by (simp_all add: tick_times_def)

lemma chat_run_append: "chat_run K (as @ bs) n = chat_run K bs (chat_run K as n)"
  by (simp add: chat_run_def)

lemma heal_attempt: "cn_lastAttempt (heal_tick joined now result n) \<in> {cn_lastAttempt n, Some now}"
  by (auto simp: heal_tick_def Let_def chat_frame split: option.split)

lemma attempt_time:
  "cn_lastAttempt (chat_run K as n) = Some l \<Longrightarrow> cn_lastAttempt n = Some l \<or> l \<in> set (tick_times as)"
proof (induction as arbitrary: n)
  case (Cons a as)
  from Cons.IH [of "chat_step K a n"] Cons.prems
  have "cn_lastAttempt (chat_step K a n) = Some l \<or> l \<in> set (tick_times as)" by (simp add: chat_run_Cons)
  moreover have "cn_lastAttempt (chat_step K a n) \<in> {cn_lastAttempt n} \<union> Some ` set (tick_time a)"
  proof (cases a)
    case (HealTick joined now result)
    then show ?thesis using heal_attempt [of joined now result n] by auto
  qed (use step_attempt [of a K n] in auto)
  ultimately show ?case by auto
qed (simp add: chat_run_def)

lemma attempt_kept: "tick_times as = [] \<Longrightarrow> cn_lastAttempt (chat_run K as n) = cn_lastAttempt n"
proof (induction as arbitrary: n)
  case (Cons a as)
  then have "\<forall>joined now result. a \<noteq> HealTick joined now result" by auto
  then show ?case using Cons step_attempt [of a K n] by (simp add: chat_run_Cons)
qed (simp add: chat_run_def)

text \<open>The first outputs of \<open>n'\<close> are those of \<open>n\<close>, and among the others is a dial of the peer \<open>a\<close>.\<close>

definition dialed :: "endpoint_addr \<Rightarrow> chat_node \<Rightarrow> chat_node \<Rightarrow> bool" where
  "dialed a n n' \<longleftrightarrow> (\<exists>os ps. cn_out n' = cn_out n @ os \<and> JoinPeers ps \<in> set os \<and> a \<in> set ps)"

lemma dialed_later:
  "dialed a n n' \<Longrightarrow> prefix (cn_out n') (cn_out n'') \<Longrightarrow> dialed a n n''"
  "prefix (cn_out n) (cn_out n') \<Longrightarrow> dialed a n' n'' \<Longrightarrow> dialed a n n''"
  by (fastforce simp: dialed_def prefix_def)+

lemma heal_dials:
  assumes "known_ok K n" and "i \<in> peers_of n"
  shows "(case cn_lastAttempt n of None \<Rightarrow> True | Some l \<Rightarrow> settle \<le> now - l) \<Longrightarrow>
      dialed \<lparr>ea_id = i, ea_relay = cn_relay n\<rparr> n (heal_tick False now result n)"
    and "(case cn_lastAttempt n of None \<Rightarrow> False | Some l \<Rightarrow> now - l < settle) \<Longrightarrow> heal_tick False now result n = n"
proof -
  from assms have a: "\<lparr>ea_id = i, ea_relay = cn_relay n\<rparr> \<in> set (healPeers n)"
    by (force simp: known_ok_def healPeers_def)
  then have "healPeers n \<noteq> []" by auto
  then show "(case cn_lastAttempt n of None \<Rightarrow> True | Some l \<Rightarrow> settle \<le> now - l) \<Longrightarrow>
      dialed \<lparr>ea_id = i, ea_relay = cn_relay n\<rparr> n (heal_tick False now result n)"
    using a by (auto simp: heal_tick_def Let_def dialed_def chat_emit_def chat_push_def split: option.splits)
qed (simp add: heal_tick_def Let_def split: option.splits)

text \<open>Hearing a beacon, however many hops away, makes its sender known.\<close>

lemma parse_beacon: "parsePresence K (beacon_msg K m) = ParseEndpointID K (ID_String K (cn_id m))"
  by (simp add: parsePresence_def beacon_msg_def)

lemma beacon_known:
  assumes "ParseEndpointID K (ID_String K (cn_id m)) = Some (cn_id m)" and "cn_id m \<noteq> ZeroID K" and "cn_id m \<noteq> cn_id n"
  shows "cn_id m \<in> peers_of (chat_step K (Topic (Heard h (beacon_msg K m))) n)"
  using assms by (simp add: chat_event_def parse_beacon remember_peers chat_frame)

subsection \<open>Theorems\<close>


lemma find_sub_char: "c \<notin> set a \<Longrightarrow> find_sub [c] (a @ c # b) = Some (length a)"
  by (induction a) auto

lemma splitMsg_payload: "CHR ''|'' \<notin> set nm \<Longrightarrow> splitMsg (nm @ ''|'' @ s) = (nm, s)"
  using find_sub_char [of "CHR ''|''" nm s] by (simp add: splitMsg_def)

text \<open>A line with a name without bar is a beacon only if the name spells the beacon's prefix.\<close>

lemma payload_no_beacon:
  assumes "CHR ''|'' \<notin> set nm" and "nm \<noteq> CHR 0x00 # ''iroh-presence''"
  shows "\<not> prefix presencePrefix (nm @ ''|'' @ s)"
proof
  assume "prefix presencePrefix (nm @ ''|'' @ s)"
  then obtain r where "nm @ CHR ''|'' # s = (CHR 0x00 # ''iroh-presence'') @ CHR ''|'' # r"
    by (auto simp: prefix_def presencePrefix_def)
  from append_stop_unique [OF this assms(1)] assms(2) show False by simp
qed

text \<open>A chat line comes through: what the page of one node sends, a node that hears it over any hop
  hands to its page as the line and the sender's name, whatever its state, if the name has no bar and is
  not the name of a beacon.\<close>

theorem chat_line_delivered:
  assumes "irohSend [s] result a = (a', ok)" and "CHR ''|'' \<notin> set (cn_name a)"
    and "cn_name a \<noteq> CHR 0x00 # ''iroh-presence''" and "cn_listener b"
  shows "\<exists>payload os. cn_out a' = cn_out a @ TopicBroadcast payload # os \<and> ok \<and>
    cn_out (chat_event K (Heard hop payload) b) =
      cn_out b @ [Emit ''msg'' (ID_String K hop @ ''|'' @ cn_name a) s]"
proof -
  have "\<exists>os. cn_out a' = cn_out a @ TopicBroadcast (chat_payload a s) # os \<and> ok"
    using assms(1) by (auto simp: irohSend_def Let_def chat_push_def chat_emit_def split: option.splits if_splits)
  moreover have "parsePresence K (chat_payload a s) = None"
    using payload_no_beacon [OF assms(2,3)] by (simp add: parsePresence_def chat_payload_def)
  then have "cn_out (chat_event K (Heard hop (chat_payload a s)) b) =
      cn_out b @ [Emit ''msg'' (ID_String K hop @ ''|'' @ cn_name a) s]"
    using splitMsg_payload [OF assms(2), of s] assms(4)
    by (simp add: chat_event_def Let_def chat_emit_def chat_frame chat_payload_def remember_frame)
  ultimately show ?thesis by blast
qed

text \<open>Both conditions on the name are needed: nothing checks the name of the page's address.\<close>

lemma bar_in_name_garbles:
  assumes "CHR ''|'' \<notin> set x" and "cn_name a = x @ ''|'' @ y"
  shows "splitMsg (chat_payload a s) = (x, y @ ''|'' @ s)"
  using splitMsg_payload [OF assms(1), of "y @ ''|'' @ s"] assms(2) by (simp add: chat_payload_def)

lemma beacon_name_swallowed:
  assumes "cn_name a = CHR 0x00 # ''iroh-presence''" and "ParseEndpointID K s = Some i"
  shows "cn_out (chat_event K (Heard hop (chat_payload a s)) b) = cn_out b"
  using assms by (simp add: chat_event_def chat_payload_def parsePresence_def presencePrefix_def trim_prefix_def
      Let_def chat_frame)

subsection \<open>Witnesses\<close>

definition demo_keys_op :: key_ops where
  "demo_keys_op = \<lparr>ParseEndpointID = Some, ID_String = (\<lambda>i. i), ZeroID = [], ParseRelayURL = Some, Sha256 = (\<lambda>s. s)\<rparr>"

definition demo_params :: "bytes \<Rightarrow> bytes option" where
  "demo_params k = (if k = ''relay'' then Some ''http://r/'' else if k = ''peer'' then Some ''h'' else None)"

definition demo_chat :: chat_node where
  "demo_chat = \<lparr>cn_id = ''m'', cn_name = ''ann'', cn_relay = ''http://r/'', cn_known = [], cn_lastAttempt = None,
     cn_listener = True, cn_out = []\<rparr>"


theorem chat_line_delivered_witness:
  "\<exists>payload os. cn_out (fst (irohSend [''hi''] None demo_chat)) = cn_out demo_chat @ TopicBroadcast payload # os \<and>
    cn_out (chat_event demo_keys_op (Heard ''h'' payload) (demo_chat\<lparr>cn_id := ''b''\<rparr>)) = [Emit ''msg'' ''h|ann'' ''hi'']"
proof -
  obtain a' ok where "irohSend [''hi''] None demo_chat = (a', ok)" by fastforce
  from chat_line_delivered [OF this, of "demo_chat\<lparr>cn_id := ''b''\<rparr>" demo_keys_op "''h''"] this
  show ?thesis by (auto simp: demo_chat_def demo_keys_op_def)
qed

end
