(* ===== verification/X402_Ledger.thy ===== *)
theory X402_Ledger
  imports GoText
begin

section \<open>Payments: the exact scheme and the ledger (x402iroh)\<close>

text \<open>
  \<^verbatim>\<open>scheme.go\<close>, \<^verbatim>\<open>ledger.go\<close> and \<^verbatim>\<open>wallet.go\<close>: signed payment authorizations, the in-memory
  ledger that settles them and the wallet that makes them. Keys, signatures, SHA-256 and the JSON
  codec are parameters; the clock is an input in nanoseconds since 1970. A balance is a
  \<open>u64\<close> and wraps as the code's does.
\<close>

subsection \<open>Parameters\<close>

record authorization =
  au_From :: bytes
  au_To :: bytes
  au_Value :: bytes
  au_ValidAfter :: bytes
  au_ValidBefore :: bytes
  au_Nonce :: bytes

record exact_payload =
  ep_Signature :: bytes
  ep_Authorization :: authorization

text \<open>
  \<open>'k\<close> is a public key, \<open>'s\<close> a secret one. \<open>sig_from_slice\<close> is \<^verbatim>\<open>key.SignatureFromSlice\<close>, \<open>sign\<close>
  returns the bytes of the signature and \<open>x402_Version\<close> is the protocol version of the x402 package.
\<close>

record ('k, 's) pay_ops =
  parse_eid :: "bytes \<Rightarrow> 'k option"
  eid_string :: "'k \<Rightarrow> bytes"
  public_id :: "'s \<Rightarrow> 'k"
  sign :: "'s \<Rightarrow> bytes \<Rightarrow> bytes"
  sig_from_slice :: "bytes \<Rightarrow> bytes option"
  verify_sig :: "'k \<Rightarrow> bytes \<Rightarrow> bytes \<Rightarrow> bool"
  sha256 :: "bytes \<Rightarrow> bytes"
  json_exact :: "exact_payload \<Rightarrow> bytes option"
  parse_exact :: "bytes \<Rightarrow> exact_payload option"
  x402_Version :: int

text \<open>What the key package and the JSON package document; JSON keeps text only.\<close>

definition payload_ascii :: "exact_payload \<Rightarrow> bool" where
  "payload_ascii p \<longleftrightarrow> (let a = ep_Authorization p in
     list_all ascii [ep_Signature p, au_From a, au_To a, au_Value a, au_ValidAfter a, au_ValidBefore a, au_Nonce a])"

definition pay_ok :: "('k, 's, 'x) pay_ops_scheme \<Rightarrow> bool" where
  "pay_ok K \<longleftrightarrow> (\<forall>k. parse_eid K (eid_string K k) = Some k) \<and>
     (\<forall>s m. sig_from_slice K (sign K s m) = Some (sign K s m) \<and> verify_sig K (public_id K s) m (sign K s m)) \<and>
     (\<forall>p b. payload_ascii p \<longrightarrow> json_exact K p = Some b \<longrightarrow> parse_exact K b = Some p)"

text \<open>The messages of the x402 package, as far as this package reads them.\<close>

record requirements =
  rq_Scheme :: bytes
  rq_Network :: bytes
  rq_PayTo :: bytes
  rq_Amount :: bytes
  rq_MaxTimeoutSeconds :: int

record payment =
  pm_Version :: int
  pm_Accepted :: requirements
  pm_Payload :: bytes

subsection \<open>The scheme (scheme.go)\<close>

definition Scheme :: bytes where
  "Scheme = ''exact''"

definition Network :: bytes where
  "Network = ''iroh:ed25519''"

definition signingDomain :: bytes where
  "signingDomain = ''x402/iroh/exact/1''"

definition signingMessage :: "bytes \<Rightarrow> authorization \<Rightarrow> bytes" where
  "signingMessage network a = concat (map length_prefixed
     [signingDomain, network, au_From a, au_To a, au_Value a, au_ValidAfter a, au_ValidBefore a, au_Nonce a])"

definition SignAuthorization :: "('k, 's, 'x) pay_ops_scheme \<Rightarrow> 's \<Rightarrow> bytes \<Rightarrow> authorization \<Rightarrow> bytes" where
  "SignAuthorization K sk network a = ''0x'' @ hex_encode (sign K sk (signingMessage network a))"

datatype auth_error = ParseFrom | ParseSignature | VerifySignature

definition VerifyAuthorization ::
  "('k, 's, 'x) pay_ops_scheme \<Rightarrow> bytes \<Rightarrow> exact_payload \<Rightarrow> auth_error + 'k" where
  "VerifyAuthorization K network p =
     (case parse_eid K (au_From (ep_Authorization p)) of
        None \<Rightarrow> Inl ParseFrom
      | Some from \<Rightarrow>
        (case hex_decode (trim_prefix (ep_Signature p) ''0x'') of
           None \<Rightarrow> Inl ParseSignature
         | Some raw \<Rightarrow>
           (case sig_from_slice K raw of
              None \<Rightarrow> Inl ParseSignature
            | Some sig \<Rightarrow>
              if verify_sig K from (signingMessage network (ep_Authorization p)) sig then Inr from
              else Inl VerifySignature)))"

subsection \<open>The clock\<close>

text \<open>
  \<^verbatim>\<open>time.Unix(sec, 0)\<close> counts seconds since year 1 in an \<^verbatim>\<open>int64\<close> that wraps, and \<^verbatim>\<open>After\<close> compares
  those.
\<close>

definition second :: int where
  "second = 1000000000"

definition unix_to_internal :: int where
  "unix_to_internal = 62135596800"

definition int64 :: "int \<Rightarrow> int" where
  "int64 i = sint (word_of_int i :: 64 word)"

definition time_after :: "int \<Rightarrow> int \<Rightarrow> bool" where
  "time_after sec t \<longleftrightarrow>
     int64 (sec + unix_to_internal) * second > t + unix_to_internal * second"

subsection \<open>The ledger (ledger.go)\<close>

record ledger =
  lg_Faucet :: u64
  lg_MaxValidity :: int
  lg_balances :: "(bytes \<times> u64) list"
  lg_spent :: "bytes list"

definition NewLedger :: ledger where
  "NewLedger = \<lparr>lg_Faucet = 0, lg_MaxValidity = 0, lg_balances = [], lg_spent = []\<rparr>"

definition defaultMaxValidity :: int where
  "defaultMaxValidity = 5 * 60 * second"

definition account :: "bytes \<Rightarrow> ledger \<Rightarrow> ledger \<times> u64" where
  "account i l =
     (case map_of (lg_balances l) i of
        Some b \<Rightarrow> (l, b)
      | None \<Rightarrow> (l\<lparr>lg_balances := alist_put i (lg_Faucet l) (lg_balances l)\<rparr>, lg_Faucet l))"

definition add_balance :: "bytes \<Rightarrow> u64 \<Rightarrow> ledger \<Rightarrow> ledger" where
  "add_balance i amount l =
     l\<lparr>lg_balances := alist_put i ((case map_of (lg_balances l) i of None \<Rightarrow> 0 | Some b \<Rightarrow> b) + amount) (lg_balances l)\<rparr>"

definition Credit :: "('k, 's, 'x) pay_ops_scheme \<Rightarrow> 'k \<Rightarrow> u64 \<Rightarrow> ledger \<Rightarrow> ledger" where
  "Credit K i amount l = add_balance (eid_string K i) amount (fst (account (eid_string K i) l))"

definition Balance :: "('k, 's, 'x) pay_ops_scheme \<Rightarrow> 'k \<Rightarrow> ledger \<Rightarrow> ledger \<times> u64" where
  "Balance K i l = account (eid_string K i) l"

record checked_payment =
  ck_auth :: authorization
  ck_from :: bytes
  ck_to :: bytes
  ck_value :: nat

datatype reject =
    InvalidVersion | UnsupportedScheme bytes | InvalidNetwork bytes | MalformedPayload | PayToNotEndpoint
  | RecipientMismatch | BadValue | ValueMismatch | BadWindow | NotYetValid | Expired | WindowTooLong
  | BadNonce | NonceSpent | BadAuthorization auth_error | InsufficientFunds bytes

definition check ::
  "('k, 's, 'x) pay_ops_scheme \<Rightarrow> int \<Rightarrow> payment \<Rightarrow> requirements \<Rightarrow> ledger \<Rightarrow> ledger \<times> (reject + checked_payment)" where
  "check K now p reqs l =
     (if pm_Version p \<noteq> x402_Version K then (l, Inl InvalidVersion)
      else if rq_Scheme reqs \<noteq> Scheme then (l, Inl (UnsupportedScheme (rq_Scheme reqs)))
      else if rq_Network reqs \<noteq> Network then (l, Inl (InvalidNetwork (rq_Network reqs)))
      else case parse_exact K (pm_Payload p) of
        None \<Rightarrow> (l, Inl MalformedPayload)
      | Some exact \<Rightarrow>
        let auth = ep_Authorization exact in
        (case parse_eid K (rq_PayTo reqs) of
           None \<Rightarrow> (l, Inl PayToNotEndpoint)
         | Some payTo \<Rightarrow>
           if parse_eid K (au_To auth) \<noteq> Some payTo then (l, Inl RecipientMismatch)
           else (case parse_uint64 (au_Value auth) of
              None \<Rightarrow> (l, Inl BadValue)
            | Some val \<Rightarrow>
              if parse_uint64 (rq_Amount reqs) \<noteq> Some val then (l, Inl ValueMismatch)
              else (case (parse_int64 (au_ValidAfter auth), parse_int64 (au_ValidBefore auth)) of
                 (Some validAfter, Some validBefore) \<Rightarrow>
                   if now div second < validAfter then (l, Inl NotYetValid)
                   else if now div second > validBefore then (l, Inl Expired)
                   else if time_after validBefore
                       (now + (if lg_MaxValidity l = 0 then defaultMaxValidity else lg_MaxValidity l))
                     then (l, Inl WindowTooLong)
                   else (case hex_decode (trim_prefix (au_Nonce auth) ''0x'') of
                      None \<Rightarrow> (l, Inl BadNonce)
                    | Some raw \<Rightarrow>
                      if length raw \<noteq> 32 then (l, Inl BadNonce)
                      else if au_Nonce auth \<in> set (lg_spent l) then (l, Inl NonceSpent)
                      else (case VerifyAuthorization K (rq_Network reqs) exact of
                         Inl e \<Rightarrow> (l, Inl (BadAuthorization e))
                       | Inr from \<Rightarrow>
                         (case account (eid_string K from) l of
                            (l', bal) \<Rightarrow>
                              if unat bal < val then (l', Inl (InsufficientFunds (eid_string K from)))
                              else (l', Inr \<lparr>ck_auth = auth, ck_from = eid_string K from,
                                ck_to = eid_string K payTo, ck_value = val\<rparr>))))
               | _ \<Rightarrow> (l, Inl BadWindow)))))"

definition Verify ::
  "('k, 's, 'x) pay_ops_scheme \<Rightarrow> int \<Rightarrow> payment \<Rightarrow> requirements \<Rightarrow> ledger \<Rightarrow> ledger \<times> (reject + bytes)" where
  "Verify K now p reqs l =
     (case check K now p reqs l of (l', Inl e) \<Rightarrow> (l', Inl e) | (l', Inr c) \<Rightarrow> (l', Inr (ck_from c)))"

record receipt =
  rc_Payer :: bytes
  rc_Transaction :: bytes
  rc_Network :: bytes
  rc_Amount :: bytes

definition Settle ::
  "('k, 's, 'x) pay_ops_scheme \<Rightarrow> int \<Rightarrow> payment \<Rightarrow> requirements \<Rightarrow> ledger \<Rightarrow> ledger \<times> (reject + receipt)" where
  "Settle K now p reqs l =
     (case check K now p reqs l of
        (l1, Inl e) \<Rightarrow> (l1, Inl e)
      | (l1, Inr c) \<Rightarrow>
        let l2 = l1\<lparr>lg_spent := au_Nonce (ck_auth c) # lg_spent l1\<rparr>;
            l3 = add_balance (ck_from c) (- of_nat (ck_value c)) l2;
            l4 = fst (account (ck_to c) l3);
            l5 = add_balance (ck_to c) (of_nat (ck_value c)) l4 in
        (l5, Inr \<lparr>rc_Payer = ck_from c,
          rc_Transaction = ''0x'' @ hex_encode (sha256 K (signingMessage (rq_Network reqs) (ck_auth c))),
          rc_Network = rq_Network reqs, rc_Amount = au_Value (ck_auth c)\<rparr>))"

subsection \<open>The wallet (wallet.go)\<close>

record 's wallet =
  w_Key :: 's
  w_MaxAmount :: u64

datatype wallet_error = NoPayable | RandFailed | WalletEncode

definition clockSkew :: int where
  "clockSkew = 30 * second"

definition wallet_auth ::
  "('k, 's, 'x) pay_ops_scheme \<Rightarrow> 's wallet \<Rightarrow> int \<Rightarrow> bytes \<Rightarrow> requirements \<Rightarrow> authorization" where
  "wallet_auth K w now nonce req =
     (let timeout = (if rq_MaxTimeoutSeconds req \<le> 0 then 60 else rq_MaxTimeoutSeconds req) in
      \<lparr>au_From = eid_string K (public_id K (w_Key w)), au_To = rq_PayTo req, au_Value = rq_Amount req,
       au_ValidAfter = fmt_int ((now - clockSkew) div second),
       au_ValidBefore = fmt_int ((now + int64 (timeout * second)) div second),
       au_Nonce = ''0x'' @ hex_encode nonce\<rparr>)"

definition wallet_pay ::
  "('k, 's, 'x) pay_ops_scheme \<Rightarrow> 's wallet \<Rightarrow> int \<Rightarrow> bytes option \<Rightarrow> requirements \<Rightarrow> wallet_error + payment" where
  "wallet_pay K w now nonce req =
     (case nonce of
        None \<Rightarrow> Inl RandFailed
      | Some n \<Rightarrow>
        let auth = wallet_auth K w now n req in
        (case json_exact K \<lparr>ep_Signature = SignAuthorization K (w_Key w) (rq_Network req) auth,
             ep_Authorization = auth\<rparr> of
           None \<Rightarrow> Inl WalletEncode
         | Some b \<Rightarrow> Inr \<lparr>pm_Version = x402_Version K, pm_Accepted = req, pm_Payload = b\<rparr>))"

fun Pay ::
  "('k, 's, 'x) pay_ops_scheme \<Rightarrow> 's wallet \<Rightarrow> int \<Rightarrow> bytes option \<Rightarrow> requirements list \<Rightarrow> wallet_error + payment" where
  "Pay K w now nonce [] = Inl NoPayable"
| "Pay K w now nonce (req # reqs) =
     (if rq_Scheme req \<noteq> Scheme \<or> rq_Network req \<noteq> Network then Pay K w now nonce reqs
      else case parse_uint64 (rq_Amount req) of
        None \<Rightarrow> Pay K w now nonce reqs
      | Some val \<Rightarrow>
        if w_MaxAmount w > 0 \<and> val > unat (w_MaxAmount w) then Pay K w now nonce reqs
        else wallet_pay K w now nonce req)"

subsection \<open>Lemmas: accounts\<close>

text \<open>The abstract balance: an account not seen before has the faucet balance.\<close>

definition balance_of :: "ledger \<Rightarrow> bytes \<Rightarrow> u64" where
  "balance_of l i = (case map_of (lg_balances l) i of None \<Rightarrow> lg_Faucet l | Some b \<Rightarrow> b)"

lemma account_value [simp]: "snd (account i l) = balance_of l i"
  by (simp add: account_def balance_of_def split: option.split)

lemma account_seen [simp]: "map_of (lg_balances (fst (account i l))) i = Some (balance_of l i)"
  by (simp add: account_def balance_of_def split: option.split)

lemma account_balance_of [simp]: "balance_of (fst (account i l)) j = balance_of l j"
  by (simp add: account_def balance_of_def split: option.split)

lemma account_frame [simp]:
  "lg_Faucet (fst (account i l)) = lg_Faucet l" "lg_spent (fst (account i l)) = lg_spent l"
  "lg_MaxValidity (fst (account i l)) = lg_MaxValidity l"
  by (simp_all add: account_def split: option.split)

lemma account_keeps_seen: "map_of (lg_balances l) j = Some b \<Longrightarrow> map_of (lg_balances (fst (account i l))) j = Some b"
  by (auto simp: account_def split: option.split)

lemma add_balance_frame [simp]:
  "lg_Faucet (add_balance i a l) = lg_Faucet l" "lg_spent (add_balance i a l) = lg_spent l"
  "lg_MaxValidity (add_balance i a l) = lg_MaxValidity l"
  by (simp_all add: add_balance_def)

lemma add_balance_seen:
  "map_of (lg_balances l) i = Some b \<Longrightarrow> balance_of (add_balance i a l) = (balance_of l)(i := balance_of l i + a)"
  by (auto simp: add_balance_def balance_of_def fun_eq_iff split: option.split)

lemma spent_frame [simp]:
  "balance_of (l\<lparr>lg_spent := s\<rparr>) = balance_of l" "lg_balances (l\<lparr>lg_spent := s\<rparr>) = lg_balances l"
  "lg_Faucet (l\<lparr>lg_spent := s\<rparr>) = lg_Faucet l"
  by (simp_all add: balance_of_def fun_eq_iff split: option.split)

subsection \<open>Lemmas: what a checked payment is\<close>

definition payment_checks ::
  "('k, 's, 'x) pay_ops_scheme \<Rightarrow> int \<Rightarrow> payment \<Rightarrow> requirements \<Rightarrow> ledger \<Rightarrow> exact_payload \<Rightarrow> 'k \<Rightarrow> 'k \<Rightarrow>
   int \<Rightarrow> int \<Rightarrow> nat \<Rightarrow> bool" where
  "payment_checks K now p reqs l exact payer payee va vb val \<longleftrightarrow> (let auth = ep_Authorization exact in
     pm_Version p = x402_Version K \<and> rq_Scheme reqs = Scheme \<and> rq_Network reqs = Network \<and>
     parse_exact K (pm_Payload p) = Some exact \<and>
     parse_eid K (rq_PayTo reqs) = Some payee \<and> parse_eid K (au_To auth) = Some payee \<and>
     parse_uint64 (au_Value auth) = Some val \<and> parse_uint64 (rq_Amount reqs) = Some val \<and>
     parse_int64 (au_ValidAfter auth) = Some va \<and> parse_int64 (au_ValidBefore auth) = Some vb \<and>
     va \<le> now div second \<and> now div second \<le> vb \<and>
     \<not> time_after vb (now + (if lg_MaxValidity l = 0 then defaultMaxValidity else lg_MaxValidity l)) \<and>
     (\<exists>raw. hex_decode (trim_prefix (au_Nonce auth) ''0x'') = Some raw \<and> length raw = 32) \<and>
     au_Nonce auth \<notin> set (lg_spent l) \<and> VerifyAuthorization K Network exact = Inr payer \<and>
     val \<le> unat (balance_of l (eid_string K payer)))"

definition checked :: "('k, 's, 'x) pay_ops_scheme \<Rightarrow> exact_payload \<Rightarrow> 'k \<Rightarrow> 'k \<Rightarrow> nat \<Rightarrow> checked_payment" where
  "checked K exact payer payee val = \<lparr>ck_auth = ep_Authorization exact, ck_from = eid_string K payer,
     ck_to = eid_string K payee, ck_value = val\<rparr>"

lemma check_Inr:
  assumes "check K now p reqs l = (l', Inr c)"
  obtains exact payer payee va vb val where "payment_checks K now p reqs l exact payer payee va vb val"
    "c = checked K exact payer payee val" "l' = fst (account (ck_from c) l)"
proof -
  note ch = assms [unfolded check_def Let_def]
  have hd: "pm_Version p = x402_Version K" "rq_Scheme reqs = Scheme" "rq_Network reqs = Network"
    using ch by (auto split: if_split_asm)
  then obtain exact where exact: "parse_exact K (pm_Payload p) = Some exact"
    using ch by (cases "parse_exact K (pm_Payload p)") simp_all
  let ?a = "ep_Authorization exact"
  note ch = ch [unfolded hd exact, simplified]
  obtain payee where payee: "parse_eid K (rq_PayTo reqs) = Some payee" "parse_eid K (au_To ?a) = Some payee"
    using ch by (cases "parse_eid K (rq_PayTo reqs)") (simp_all split: if_split_asm)
  note ch = ch [unfolded payee, simplified]
  obtain val where val: "parse_uint64 (au_Value ?a) = Some val" "parse_uint64 (rq_Amount reqs) = Some val"
    using ch by (cases "parse_uint64 (au_Value ?a)") (simp_all split: if_split_asm)
  note ch = ch [unfolded val, simplified]
  obtain va vb where w: "parse_int64 (au_ValidAfter ?a) = Some va" "parse_int64 (au_ValidBefore ?a) = Some vb"
    using ch by (cases "parse_int64 (au_ValidAfter ?a)"; cases "parse_int64 (au_ValidBefore ?a)") simp_all
  let ?mv = "if lg_MaxValidity l = 0 then defaultMaxValidity else lg_MaxValidity l"
  note ch = ch [unfolded w, simplified]
  have win: "\<not> now div second < va" "\<not> vb < now div second" "\<not> time_after vb (now + ?mv)"
    using ch by (simp_all split: if_split_asm)
  obtain raw where raw: "hex_decode (trim_prefix (au_Nonce ?a) ''0x'') = Some raw" "length raw = 32"
    "au_Nonce ?a \<notin> set (lg_spent l)"
    using ch win by (cases "hex_decode (trim_prefix (au_Nonce ?a) ''0x'')") (simp_all split: if_split_asm)
  obtain payer where payer: "VerifyAuthorization K Network exact = Inr payer"
    using ch win raw by (cases "VerifyAuthorization K Network exact") simp_all
  have fin: "l' = fst (account (eid_string K payer) l)" "c = checked K exact payer payee val"
    "\<not> unat (balance_of l (eid_string K payer)) < val"
    using ch win raw payer by (simp_all add: case_prod_beta checked_def split: if_split_asm)
  show ?thesis
  proof (rule that [of exact payer payee va vb val])
    show "payment_checks K now p reqs l exact payer payee va vb val"
      using hd exact payee val w win raw payer fin(3) by (simp add: payment_checks_def not_less)
  qed (use fin in \<open>simp_all add: checked_def\<close>)
qed

lemma check_complete:
  assumes "payment_checks K now p reqs l exact payer payee va vb val"
  shows "check K now p reqs l = (fst (account (eid_string K payer) l), Inr (checked K exact payer payee val))"
  using assms unfolding payment_checks_def Let_def check_def not_less [symmetric]
  by (auto simp: case_prod_beta checked_def)

lemma check_frame:
  "check K now p reqs l = (l', r) \<Longrightarrow> l' = l \<or> (\<exists>i. l' = fst (account i l))"
  unfolding check_def Let_def case_prod_beta
  by (auto split: if_split_asm option.split_asm sum.split_asm)

subsection \<open>Lemmas: settlement\<close>

definition transfer :: "bytes \<Rightarrow> bytes \<Rightarrow> u64 \<Rightarrow> (bytes \<Rightarrow> u64) \<Rightarrow> bytes \<Rightarrow> u64" where
  "transfer payer payee v b = (let b1 = b(payer := b payer - v) in b1(payee := b1 payee + v))"

lemma Settle_valid:
  assumes "payment_checks K now p reqs l exact payer payee va vb val"
  shows "\<exists>l' rc. Settle K now p reqs l = (l', Inr rc) \<and>
    balance_of l' = transfer (eid_string K payer) (eid_string K payee) (of_nat val) (balance_of l) \<and>
    lg_spent l' = au_Nonce (ep_Authorization exact) # lg_spent l \<and>
    rc_Payer rc = eid_string K payer \<and> rc_Amount rc = au_Value (ep_Authorization exact)"
proof -
  let ?f = "eid_string K payer" and ?t = "eid_string K payee"
  let ?l2 = "fst (account ?f l)\<lparr>lg_spent := au_Nonce (ep_Authorization exact) # lg_spent l\<rparr>"
  let ?l3 = "add_balance ?f (- of_nat val) ?l2"
  have "map_of (lg_balances ?l2) ?f = Some (balance_of l ?f)" by simp
  from add_balance_seen [OF this] have b3: "balance_of ?l3 = (balance_of l)(?f := balance_of l ?f + - of_nat val)"
    by (simp add: fun_eq_iff)
  have "map_of (lg_balances (fst (account ?t ?l3))) ?t = Some (balance_of ?l3 ?t)" by simp
  from add_balance_seen [OF this]
  have "balance_of (add_balance ?t (of_nat val) (fst (account ?t ?l3))) = transfer ?f ?t (of_nat val) (balance_of l)"
    using b3 by (simp add: transfer_def fun_eq_iff)
  then show ?thesis
    using check_complete [OF assms] by (simp add: Settle_def checked_def Let_def)
qed

lemma Settle_Inr:
  assumes "Settle K now p reqs l = (l', Inr rc)"
  obtains exact payer payee va vb val where "payment_checks K now p reqs l exact payer payee va vb val"
  using assms unfolding Settle_def by (auto elim!: check_Inr split: prod.splits sum.splits)

definition accounts :: "ledger \<Rightarrow> bytes set" where
  "accounts l = dom (map_of (lg_balances l))"

definition total :: "ledger \<Rightarrow> nat" where
  "total l = (\<Sum>i \<in> accounts l. unat (balance_of l i))"

lemma finite_accounts [simp]: "finite (accounts l)"
  by (simp add: accounts_def finite_dom_map_of)

lemma accounts_account [simp]: "accounts (fst (account i l)) = insert i (accounts l)"
  by (auto simp: account_def accounts_def split: option.split)

lemma accounts_add [simp]: "accounts (add_balance i a l) = insert i (accounts l)"
  by (simp add: add_balance_def accounts_def)

lemma accounts_spent [simp]: "accounts (l\<lparr>lg_spent := s\<rparr>) = accounts l"
  by (simp add: accounts_def)

lemma new_account_balance: "i \<notin> accounts l \<Longrightarrow> balance_of l i = lg_Faucet l"
  by (auto simp: accounts_def balance_of_def split: option.split)

lemma total_account:
  "total (fst (account i l)) + unat (lg_Faucet l) * card (accounts l) =
   total l + unat (lg_Faucet l) * card (accounts (fst (account i l)))"
  by (cases "i \<in> accounts l") (simp_all add: total_def insert_absorb new_account_balance)

lemma seen_account: "i \<in> accounts l \<Longrightarrow> \<exists>b. map_of (lg_balances l) i = Some b"
  by (auto simp: accounts_def)

lemma total_add:
  assumes "i \<in> accounts l"
  shows "total (add_balance i a l) + unat (balance_of l i) = total l + unat (balance_of l i + a)"
proof -
  obtain b where "map_of (lg_balances l) i = Some b" using seen_account [OF assms] by blast
  from add_balance_seen [OF this, of a]
  have b: "balance_of (add_balance i a l) = (balance_of l)(i := balance_of l i + a)" .
  have "(\<Sum>j \<in> accounts l - {i}. unat (((balance_of l)(i := balance_of l i + a)) j)) =
    (\<Sum>j \<in> accounts l - {i}. unat (balance_of l j))"
    by (rule sum.cong) auto
  then show ?thesis
    using assms by (simp add: total_def b insert_absorb sum.remove [OF _ assms])
qed

lemma unat_add_exact: "unat (x :: u64) + unat y < 2 ^ 64 \<Longrightarrow> unat (x + y) = unat x + unat y"
  by (simp add: unat_plus_simple [THEN iffD1] no_olen_add_nat)

lemma balance_le_total: "i \<in> accounts l \<Longrightarrow> unat (balance_of l i) \<le> total l"
  unfolding total_def by (rule member_le_sum) simp_all

lemma total_add_exact:
  assumes "i \<in> accounts l" and "total l + unat a < 2 ^ 64"
  shows "total (add_balance i a l) = total l + unat a"
proof -
  have "unat (balance_of l i) + unat a < 2 ^ 64" using balance_le_total [OF assms(1)] assms(2) by linarith
  from unat_add_exact [OF this] total_add [OF assms(1), of a] show ?thesis by linarith
qed

lemma total_sub_exact:
  assumes "i \<in> accounts l" and "v \<le> unat (balance_of l i)"
  shows "total (add_balance i (- of_nat v) l) + v = total l"
proof -
  have v: "unat (of_nat v :: u64) = v"
    using assms(2) unsigned_less [of "balance_of l i", where ?'a = nat] by (simp add: unsigned_of_nat take_bit_nat_eq_self)
  have "unat (balance_of l i - of_nat v) = unat (balance_of l i) - v"
    using assms(2) v by (simp add: unat_sub word_le_nat_alt)
  with total_add [OF assms(1), of "- of_nat v"] assms(2) show ?thesis by simp
qed

subsection \<open>Runs of a ledger\<close>

datatype 'k ledger_op =
    Op_Credit 'k u64 | Op_Balance 'k | Op_Verify int payment requirements | Op_Settle int payment requirements

fun ledger_step :: "('k, 's, 'x) pay_ops_scheme \<Rightarrow> 'k ledger_op \<Rightarrow> ledger \<times> receipt list \<Rightarrow> ledger \<times> receipt list" where
  "ledger_step K (Op_Credit k a) (l, rs) = (Credit K k a l, rs)"
| "ledger_step K (Op_Balance k) (l, rs) = (fst (Balance K k l), rs)"
| "ledger_step K (Op_Verify now p reqs) (l, rs) = (fst (Verify K now p reqs l), rs)"
| "ledger_step K (Op_Settle now p reqs) (l, rs) =
     (case Settle K now p reqs l of (l', Inl e) \<Rightarrow> (l', rs) | (l', Inr r) \<Rightarrow> (l', r # rs))"

definition ledger_run :: "('k, 's, 'x) pay_ops_scheme \<Rightarrow> 'k ledger_op list \<Rightarrow> ledger \<times> receipt list \<Rightarrow> ledger \<times> receipt list" where
  "ledger_run K ops = fold (ledger_step K) ops"

definition credited :: "'k ledger_op list \<Rightarrow> nat" where
  "credited ops = sum_list (map (\<lambda>op. case op of Op_Credit k a \<Rightarrow> unat a | _ \<Rightarrow> 0) ops)"

text \<open>
  The invariant of a run: settled nonces are distinct, one for each receipt, and as long as the
  credit in circulation fits a \<open>u64\<close> the balances add up to it.
\<close>

definition run_ok :: "u64 \<Rightarrow> nat \<Rightarrow> ledger \<times> receipt list \<Rightarrow> bool" where
  "run_ok f c s \<longleftrightarrow> distinct (lg_spent (fst s)) \<and> length (lg_spent (fst s)) = length (snd s) \<and>
     lg_Faucet (fst s) = f \<and>
     (unat f * card (accounts (fst s)) + c < 2 ^ 64 \<longrightarrow> total (fst s) = unat f * card (accounts (fst s)) + c)"

lemma bound_mono:
  "A \<subseteq> accounts l \<Longrightarrow> (f :: nat) * card (accounts l) + c < N \<Longrightarrow> f * card A + c < N"
  by (meson add_le_mono1 card_mono finite_accounts le_less_trans mult_le_mono2)

lemma run_ok_account: "run_ok f c (l, rs) \<Longrightarrow> run_ok f c (fst (account i l), rs)"
proof -
  assume ok: "run_ok f c (l, rs)"
  have "total (fst (account i l)) = unat f * card (accounts (fst (account i l))) + c"
    if b: "unat f * card (accounts (fst (account i l))) + c < 2 ^ 64"
  proof -
    have "unat f * card (accounts l) + c < 2 ^ 64" by (rule bound_mono [OF _ b]) auto
    with ok have "total l = unat f * card (accounts l) + c" by (simp add: run_ok_def)
    with total_account [of i l] ok show ?thesis by (simp add: run_ok_def)
  qed
  with ok show ?thesis by (simp add: run_ok_def)
qed

lemma run_ok_credit:
  assumes "run_ok f c (l, rs)"
  shows "run_ok f (c + unat a) (add_balance i a (fst (account i l)), rs)"
proof -
  let ?l = "fst (account i l)"
  have ok: "run_ok f c (?l, rs)" by (rule run_ok_account [OF assms])
  have "total (add_balance i a ?l) = unat f * card (accounts (add_balance i a ?l)) + (c + unat a)"
    if "unat f * card (accounts (add_balance i a ?l)) + (c + unat a) < 2 ^ 64"
  proof -
    from that ok have t: "total ?l = unat f * card (accounts ?l) + c" by (simp add: run_ok_def)
    with that have "total ?l + unat a < 2 ^ 64" by simp
    with t show ?thesis by (subst total_add_exact) simp_all
  qed
  with ok show ?thesis by (simp add: run_ok_def)
qed

lemma run_ok_settle:
  assumes "run_ok f c (l, rs)" and "Settle K now p reqs l = (l', Inr r)"
  shows "run_ok f c (l', r # rs)"
proof -
  obtain exact payer payee va vb val where pc: "payment_checks K now p reqs l exact payer payee va vb val"
    using Settle_Inr [OF assms(2)] .
  let ?f = "eid_string K payer" and ?t = "eid_string K payee"
  let ?l1 = "fst (account ?f l)"
  let ?l2 = "?l1\<lparr>lg_spent := au_Nonce (ep_Authorization exact) # lg_spent l\<rparr>"
  let ?l3 = "add_balance ?f (- of_nat val) ?l2"
  let ?l4 = "fst (account ?t ?l3)"
  have l': "l' = add_balance ?t (of_nat val) ?l4"
    using assms(2) check_complete [OF pc] by (simp add: Settle_def checked_def Let_def)
  have val: "val \<le> unat (balance_of ?l2 ?f)" and fresh: "au_Nonce (ep_Authorization exact) \<notin> set (lg_spent l)"
    using pc by (simp_all add: payment_checks_def Let_def)
  have v: "unat (of_nat val :: u64) = val"
    using val unsigned_less [of "balance_of ?l2 ?f", where ?'a = nat] by (simp add: unsigned_of_nat take_bit_nat_eq_self)
  have sub: "total ?l3 + val = total ?l2" by (rule total_sub_exact) (use val in simp_all)
  have t2: "total ?l2 = total ?l1" by (simp add: total_def)
  have ok1: "run_ok f c (?l1, rs)" by (rule run_ok_account [OF assms(1)])
  have "total l' = unat f * card (accounts l') + c" if b: "unat f * card (accounts l') + c < 2 ^ 64"
  proof -
    have acc: "accounts l' = accounts ?l4" "accounts ?l3 = accounts ?l1" by (auto simp: l')
    have "unat f * card (accounts ?l3) + c < 2 ^ 64"
      by (rule bound_mono [OF _ b]) (use acc in auto)
    with ok1 have t1: "total ?l1 = unat f * card (accounts ?l3) + c" unfolding acc(2) by (simp add: run_ok_def)
    have f: "lg_Faucet ?l3 = f" using ok1 by (simp add: run_ok_def)
    have "total ?l4 + val = unat f * card (accounts ?l4) + c"
      using total_account [of ?t ?l3] sub t1 t2 unfolding f by linarith
    with b acc have "total ?l4 + unat (of_nat val :: u64) < 2 ^ 64" using v by simp
    from total_add_exact [OF _ this, of ?t] \<open>total ?l4 + val = _\<close> acc v show ?thesis by (simp add: l')
  qed
  with fresh ok1 show ?thesis by (simp add: run_ok_def l')
qed

lemma run_ok_check:
  assumes "run_ok f c (l, rs)" and "check K now p reqs l = (l', r)"
  shows "run_ok f c (l', rs)"
  using check_frame [OF assms(2)] assms(1) run_ok_account by auto

lemma ledger_step_ok:
  assumes "run_ok f c (l, rs)"
  shows "run_ok f (c + credited [op]) (ledger_step K op (l, rs))"
proof (cases op)
  case (Op_Credit k a)
  then show ?thesis using run_ok_credit [OF assms] by (simp add: Credit_def credited_def)
next
  case (Op_Balance k)
  then show ?thesis using run_ok_account [OF assms] by (simp add: Balance_def credited_def)
next
  case (Op_Verify now p reqs)
  then show ?thesis
    using run_ok_check [OF assms] by (auto simp: Verify_def credited_def split: prod.split sum.split)
next
  case (Op_Settle now p reqs)
  then show ?thesis
  proof (cases "snd (Settle K now p reqs l)")
    case (Inl e)
    then have "check K now p reqs l = (fst (Settle K now p reqs l), Inl e)"
      by (auto simp: Settle_def Let_def split: prod.splits sum.splits)
    from run_ok_check [OF assms this] Inl Op_Settle show ?thesis by (simp add: credited_def case_prod_beta)
  next
    case (Inr r)
    then have "Settle K now p reqs l = (fst (Settle K now p reqs l), Inr r)" by (metis prod.collapse)
    from run_ok_settle [OF assms this] Inr Op_Settle show ?thesis by (simp add: credited_def case_prod_beta)
  qed
qed

lemma ledger_run_ok:
  "run_ok f c (l, rs) \<Longrightarrow> run_ok f (c + credited ops) (ledger_run K ops (l, rs))"
proof (induction ops arbitrary: c l rs)
  case (Cons op ops)
  obtain l' rs' where s: "ledger_step K op (l, rs) = (l', rs')" by fastforce
  from ledger_step_ok [OF Cons.prems, of op K] s have "run_ok f (c + credited [op]) (l', rs')" by simp
  from Cons.IH [OF this] s show ?case by (simp add: ledger_run_def credited_def add.assoc)
qed (simp add: ledger_run_def credited_def)

subsection \<open>Lemmas: the wallet\<close>

lemma Pay_Inr:
  "Pay K w now nonce reqs = Inr p \<Longrightarrow> pm_Accepted p \<in> set reqs \<and>
   rq_Scheme (pm_Accepted p) = Scheme \<and> rq_Network (pm_Accepted p) = Network \<and>
   wallet_pay K w now nonce (pm_Accepted p) = Inr p \<and>
   (\<exists>val. parse_uint64 (rq_Amount (pm_Accepted p)) = Some val \<and> (w_MaxAmount w = 0 \<or> val \<le> unat (w_MaxAmount w)))"
proof (induction reqs)
  case (Cons req reqs)
  have *: "pm_Accepted p = req" if "wallet_pay K w now nonce req = Inr p"
    using that by (auto simp: wallet_pay_def Let_def split: option.splits)
  show ?case
    using Cons * by (auto simp: word_gt_0 not_less split: if_splits option.splits)
qed simp

definition effective_timeout :: "requirements \<Rightarrow> int" where
  "effective_timeout req = (if rq_MaxTimeoutSeconds req \<le> 0 then 60 else rq_MaxTimeoutSeconds req)"

lemma int64_small: "- (2 ^ 63) \<le> i \<Longrightarrow> i < 2 ^ 63 \<Longrightarrow> int64 i = i"
  by (simp add: int64_def signed_of_int signed_take_bit_int_eq_self)

lemma not_after_small:
  assumes "0 \<le> sec" and "sec < 2 ^ 62" and "sec * second \<le> t"
  shows "\<not> time_after sec t"
proof -
  have "int64 (sec + unix_to_internal) = sec + unix_to_internal"
    using assms by (intro int64_small) (simp_all add: unix_to_internal_def)
  then show ?thesis using assms(3) by (simp add: time_after_def algebra_simps)
qed

lemma trim_0x [simp]: "trim_prefix (CHR ''0'' # CHR ''x'' # s) ''0x'' = s"
  using trim_prefix_append [of "''0x''" s] by simp

lemma wallet_checks:
  assumes ok: "pay_ok K" and pay: "wallet_pay K w now (Some nonce) req = Inr p" and len: "length nonce = 32"
    and req: "rq_Scheme req = Scheme" "rq_Network req = Network" "parse_uint64 (rq_Amount req) = Some val"
      "parse_eid K (rq_PayTo req) = Some payee"
    and timeout: "effective_timeout req \<le> 300" and max: "lg_MaxValidity l = 0"
    and clock: "clockSkew \<le> now" "now < 2 ^ 61" "now - clockSkew \<le> now'"
      "now' \<le> now + effective_timeout req * second" "now + effective_timeout req * second \<le> now' + defaultMaxValidity"
    and fresh: "''0x'' @ hex_encode nonce \<notin> set (lg_spent l)"
    and funds: "val \<le> unat (balance_of l (eid_string K (public_id K (w_Key w))))"
    and plain: "ascii (eid_string K (public_id K (w_Key w)))" "ascii (rq_PayTo req)"
  shows "\<exists>exact va vb. payment_checks K now' p req l exact (public_id K (w_Key w)) payee va vb val"
proof -
  let ?T = "effective_timeout req" and ?a = "wallet_auth K w now nonce req"
  let ?e = "\<lparr>ep_Signature = SignAuthorization K (w_Key w) (rq_Network req) ?a, ep_Authorization = ?a\<rparr>"
  let ?va = "(now - clockSkew) div second" and ?vb = "(now + ?T * second) div second"
  from pay obtain b where b: "json_exact K ?e = Some b" "p = \<lparr>pm_Version = x402_Version K, pm_Accepted = req, pm_Payload = b\<rparr>"
    by (auto simp: wallet_pay_def Let_def split: option.splits)
  have "payload_ascii ?e"
    using plain parse_uint64_ascii [OF req(3)] by (simp add: payload_ascii_def wallet_auth_def SignAuthorization_def Let_def)
  then have parse: "parse_exact K b = Some ?e" using ok b(1) by (simp add: pay_ok_def)
  have T: "0 < ?T" "int64 (?T * second) = ?T * second"
    using timeout by (auto simp: effective_timeout_def second_def intro!: int64_small)
  have win: "0 \<le> ?va" "?va < 2 ^ 63" "0 \<le> ?vb" "?vb < 2 ^ 62"
    using clock timeout T(1) by (simp_all add: second_def clockSkew_def)
  have times: "?va \<le> now' div second" "now' div second \<le> ?vb"
    using clock by (auto simp: second_def intro!: zdiv_mono1)
  have "?vb * second \<le> now + ?T * second" by (simp add: second_def)
  then have after: "\<not> time_after ?vb (now' + defaultMaxValidity)"
    using win clock by (intro not_after_small) linarith+
  have ver: "VerifyAuthorization K Network ?e = Inr (public_id K (w_Key w))"
    using ok req(2) by (simp add: VerifyAuthorization_def SignAuthorization_def wallet_auth_def Let_def pay_ok_def)
  have win': "?vb < 2 ^ 63" using win(4) by simp
  have auth: "au_To ?a = rq_PayTo req" "au_Value ?a = rq_Amount req" "au_ValidAfter ?a = fmt_int ?va"
    "au_ValidBefore ?a = fmt_int ?vb" "au_Nonce ?a = ''0x'' @ hex_encode nonce"
    by (simp_all add: wallet_auth_def effective_timeout_def [symmetric] T(2) Let_def)
  have "payment_checks K now' p req l ?e (public_id K (w_Key w)) payee ?va ?vb val"
    unfolding payment_checks_def Let_def
    using req b(2) parse auth len fresh funds ver times after max win win'
    by (simp add: parse_int64_fmt_int)
  then show ?thesis by blast
qed

subsection \<open>Properties\<close>

text \<open>C19: A settled payment moves exactly the authorized amount from the payer to the payee and
  marks its nonce: the payer's key verified the authorization for this network, the payee and the
  amount are the required ones, the clock is in the window, the nonce was fresh and the payer could
  pay. On the abstract balances Settle is the transfer, and no other account changes.\<close>

theorem settle_refines_transfer:
  assumes "Settle K now p reqs l = (l', Inr rc)"
  shows "\<exists>exact payer payee va vb val. payment_checks K now p reqs l exact payer payee va vb val \<and>
    balance_of l' = transfer (eid_string K payer) (eid_string K payee) (of_nat val) (balance_of l) \<and>
    lg_spent l' = au_Nonce (ep_Authorization exact) # lg_spent l \<and> rc_Payer rc = eid_string K payer"
proof -
  obtain exact payer payee va vb val where pc: "payment_checks K now p reqs l exact payer payee va vb val"
    using Settle_Inr [OF assms] .
  with Settle_valid [OF pc] assms show ?thesis by fastforce
qed

text \<open>C20: Over any sequence of credits, balance queries, verifications and settlements a fresh
  ledger settles no nonce twice, and as long as the faucet grants and credits fit 64 bits the
  balances add up to exactly what was granted and credited: settling neither creates nor destroys
  credit, and no balance wraps.\<close>

theorem ledger_no_double_spend:
  fixes f :: u64
  assumes "ledger_run K ops (NewLedger\<lparr>lg_Faucet := f, lg_MaxValidity := mv\<rparr>, []) = (l, receipts)"
    and "unat f * card (accounts l) + credited ops < 2 ^ 64"
  shows "distinct (lg_spent l) \<and> length receipts = length (lg_spent l) \<and>
    (\<Sum>i \<in> accounts l. unat (balance_of l i)) = unat f * card (accounts l) + credited ops"
proof -
  have "run_ok f 0 (NewLedger\<lparr>lg_Faucet := f, lg_MaxValidity := mv\<rparr>, [])"
    by (simp add: run_ok_def NewLedger_def accounts_def total_def)
  from ledger_run_ok [OF this, of ops K] assms show ?thesis
    by (simp add: run_ok_def total_def)
qed

text \<open>What the wallet pays, the ledger settles: a payment for an accepted requirement with a
  timeout of at most five minutes moves its amount from the wallet's account to the payee, at any
  time the validity bounds allow, if the nonce is fresh and the wallet has the funds.\<close>

theorem wallet_payment_settles:
  assumes "pay_ok K" and "Pay K w now (Some nonce) reqs = Inr p" and "length nonce = 32"
    and "parse_eid K (rq_PayTo (pm_Accepted p)) = Some payee"
    and "effective_timeout (pm_Accepted p) \<le> 300" and "lg_MaxValidity l = 0"
    and "clockSkew \<le> now" and "now < 2 ^ 61" and "now - clockSkew \<le> now'"
    and "now' \<le> now + effective_timeout (pm_Accepted p) * second"
    and "now + effective_timeout (pm_Accepted p) * second \<le> now' + defaultMaxValidity"
    and "''0x'' @ hex_encode nonce \<notin> set (lg_spent l)"
    and "parse_uint64 (rq_Amount (pm_Accepted p)) = Some val"
    and "val \<le> unat (balance_of l (eid_string K (public_id K (w_Key w))))"
    and "ascii (eid_string K (public_id K (w_Key w)))" and "ascii (rq_PayTo (pm_Accepted p))"
  shows "pm_Accepted p \<in> set reqs \<and> (\<exists>l' rc. Settle K now' p (pm_Accepted p) l = (l', Inr rc) \<and>
    balance_of l' = transfer (eid_string K (public_id K (w_Key w))) (eid_string K payee) (of_nat val) (balance_of l))"
proof -
  from Pay_Inr [OF assms(2)] have p: "pm_Accepted p \<in> set reqs" "rq_Scheme (pm_Accepted p) = Scheme"
    "rq_Network (pm_Accepted p) = Network" "wallet_pay K w now (Some nonce) (pm_Accepted p) = Inr p" by simp_all
  obtain exact va vb where
    pc: "payment_checks K now' p (pm_Accepted p) l exact (public_id K (w_Key w)) payee va vb val"
    using wallet_checks [OF assms(1) p(4) assms(3) p(2,3) assms(13,4,5,6,7,8,9,10,11,12,14,15,16)] by blast
  from Settle_valid [OF pc] p(1) show ?thesis by blast
qed

text \<open>The bound on the remaining lifetime does not hold for the largest expiry times: the seconds
  of \<^verbatim>\<open>ValidBefore\<close> wrap when they become a time, so a payment that passes once with such an expiry
  passes at every later time, however short the ledger's validity bound.\<close>

theorem validity_bound_wraps:
  assumes "payment_checks K now p reqs l exact payer payee va vb val"
    and "2 ^ 63 - unix_to_internal \<le> vb" and "now \<le> now'" and "0 \<le> now" and "now' < 2 ^ 63 * second - unix_to_internal * second"
    and "0 \<le> lg_MaxValidity l"
  shows "snd (check K now' p reqs l) = Inr (checked K exact payer payee val)"
proof -
  from assms(1) have vb: "parse_int64 (au_ValidBefore (ep_Authorization exact)) = Some vb"
    by (simp add: payment_checks_def Let_def)
  have "vb < 2 ^ 63" using parse_int64_range [OF vb] by simp
  then have wrap: "int64 (vb + unix_to_internal) = vb + unix_to_internal - 2 ^ 64"
  proof -
    have "word_of_int (vb + unix_to_internal) = (word_of_int (vb + unix_to_internal - 2 ^ 64) :: 64 word)"
      by (simp add: word_of_int_2p_len)
    then have "int64 (vb + unix_to_internal) = int64 (vb + unix_to_internal - 2 ^ 64)"
      by (simp only: int64_def)
    also have "\<dots> = vb + unix_to_internal - 2 ^ 64"
      using assms(2) \<open>vb < 2 ^ 63\<close> by (intro int64_small) (simp_all add: unix_to_internal_def)
    finally show ?thesis .
  qed
  then have early: "\<not> time_after vb (now' + mv)" if "0 \<le> mv" for mv
    using that assms(2,3,4) \<open>vb < 2 ^ 63\<close> by (simp add: time_after_def second_def unix_to_internal_def)
  have "now' div second < 2 ^ 63 - unix_to_internal"
    using assms(5) by (simp add: second_def unix_to_internal_def)
  moreover have "va \<le> now' div second"
  proof -
    have "va \<le> now div second" using assms(1) by (simp add: payment_checks_def Let_def)
    also have "\<dots> \<le> now' div second" using assms(3) by (simp add: zdiv_mono1 second_def)
    finally show ?thesis .
  qed
  ultimately have "payment_checks K now' p reqs l exact payer payee va vb val"
    using assms(1,2,6) early [of "if lg_MaxValidity l = 0 then defaultMaxValidity else lg_MaxValidity l"]
    by (simp add: payment_checks_def Let_def defaultMaxValidity_def second_def)
  then show ?thesis by (simp add: check_complete)
qed

text \<open>The signed message determines the network and every field of the authorization, so a
  signature for one payment is never one for another.\<close>

theorem signing_message_unambiguous:
  assumes "signingMessage n a = signingMessage n' a'"
  shows "n = n' \<and> a = a'"
proof -
  let ?fs = "\<lambda>n a. [signingDomain, n, au_From a, au_To a, au_Value a, au_ValidAfter a, au_ValidBefore a, au_Nonce a]"
  have "concat (map length_prefixed (?fs n a)) @ [] = concat (map length_prefixed (?fs n' a')) @ []"
    using assms unfolding signingMessage_def by (rule arg_cong)
  then have "?fs n a = ?fs n' a'"
    by (intro field.concat_unique [THEN conjunct1]) simp_all
  then show ?thesis by (cases a; cases a') simp
qed

subsection \<open>Witnesses\<close>

text \<open>Keys that are their own strings, one signature that verifies, and a codec for one payload.\<close>

definition demo_keys :: "exact_payload \<Rightarrow> (bytes, bytes) pay_ops" where
  "demo_keys ex = \<lparr>parse_eid = Some, eid_string = (\<lambda>k. k), public_id = (\<lambda>s. s), sign = (\<lambda>s m. ''s''),
     sig_from_slice = Some, verify_sig = (\<lambda>k m sg. sg = ''s''), sha256 = (\<lambda>m. ''h''),
     json_exact = (\<lambda>p. if p = ex then Some ''j'' else None),
     parse_exact = (\<lambda>b. if b = ''j'' then Some ex else None), x402_Version = 2\<rparr>"

lemma demo_keys_ok: "pay_ok (demo_keys ex)"
  by (simp add: pay_ok_def demo_keys_def)

definition demo_req :: requirements where
  "demo_req = \<lparr>rq_Scheme = Scheme, rq_Network = Network, rq_PayTo = ''B'', rq_Amount = ''5'', rq_MaxTimeoutSeconds = 60\<rparr>"

definition demo_wallet :: "bytes wallet" where
  "demo_wallet = \<lparr>w_Key = ''A'', w_MaxAmount = 9\<rparr>"

definition demo_nonce :: bytes where
  "demo_nonce = replicate 32 CHR ''n''"

definition demo_auth :: authorization where
  "demo_auth = wallet_auth (demo_keys undefined) demo_wallet (100 * second) demo_nonce demo_req"

definition demo_exact :: exact_payload where
  "demo_exact = \<lparr>ep_Signature = ''0x'' @ hex_encode ''s'', ep_Authorization = demo_auth\<rparr>"

definition demo_payment :: payment where
  "demo_payment = \<lparr>pm_Version = 2, pm_Accepted = demo_req, pm_Payload = ''j''\<rparr>"

definition demo_ledger :: ledger where
  "demo_ledger = NewLedger\<lparr>lg_Faucet := 7\<rparr>"

lemma parse_five: "parse_uint64 ''5'' = Some 5"
  by (simp add: parse_uint64_def is_digit_def digits_val_def digit_val_def)

lemma demo_pays: "Pay (demo_keys demo_exact) demo_wallet (100 * second) (Some demo_nonce) [demo_req] = Inr demo_payment"
  by (simp add: wallet_pay_def demo_req_def parse_five demo_wallet_def demo_payment_def Let_def
      demo_exact_def demo_auth_def wallet_auth_def SignAuthorization_def demo_keys_def)

theorem wallet_payment_settles_witness:
  "pm_Accepted demo_payment \<in> set [demo_req] \<and>
   (\<exists>l' rc. Settle (demo_keys demo_exact) (110 * second) demo_payment (pm_Accepted demo_payment) demo_ledger = (l', Inr rc) \<and>
    balance_of l' = transfer (eid_string (demo_keys demo_exact) (public_id (demo_keys demo_exact) (w_Key demo_wallet)))
      (eid_string (demo_keys demo_exact) ''B'') (of_nat 5) (balance_of demo_ledger))"
  by (rule wallet_payment_settles [OF demo_keys_ok demo_pays])
    (simp_all add: demo_nonce_def demo_payment_def demo_req_def demo_keys_def effective_timeout_def
      demo_ledger_def NewLedger_def clockSkew_def second_def defaultMaxValidity_def parse_five balance_of_def demo_wallet_def)

lemma demo_settles: "\<exists>l' rc. Settle (demo_keys demo_exact) (110 * second) demo_payment demo_req demo_ledger = (l', Inr rc)"
proof -
  have wp: "wallet_pay (demo_keys demo_exact) demo_wallet (100 * second) (Some demo_nonce) demo_req = Inr demo_payment"
    using Pay_Inr [OF demo_pays] by (simp add: demo_payment_def)
  have "\<exists>exact va vb. payment_checks (demo_keys demo_exact) (110 * second) demo_payment demo_req demo_ledger exact
      (public_id (demo_keys demo_exact) (w_Key demo_wallet)) ''B'' va vb 5"
    by (rule wallet_checks [OF demo_keys_ok wp])
      (simp_all add: demo_nonce_def demo_payment_def demo_req_def demo_keys_def effective_timeout_def
        demo_ledger_def NewLedger_def clockSkew_def second_def defaultMaxValidity_def parse_five balance_of_def demo_wallet_def)
  then obtain exact va vb where "payment_checks (demo_keys demo_exact) (110 * second) demo_payment demo_req demo_ledger exact
      (public_id (demo_keys demo_exact) (w_Key demo_wallet)) ''B'' va vb 5" by blast
  from Settle_valid [OF this] show ?thesis by metis
qed

theorem settle_refines_transfer_witness:
  "\<exists>l' exact payer payee va vb val.
    payment_checks (demo_keys demo_exact) (110 * second) demo_payment demo_req demo_ledger exact payer payee va vb val \<and>
    balance_of l' = transfer (eid_string (demo_keys demo_exact) payer) (eid_string (demo_keys demo_exact) payee) (of_nat val)
      (balance_of demo_ledger)"
  using demo_settles settle_refines_transfer by metis

theorem ledger_no_double_spend_witness:
  "distinct (lg_spent (NewLedger\<lparr>lg_Faucet := 7, lg_MaxValidity := 0,
      lg_balances := [(''A'', 7)]\<rparr>)) \<and>
   (\<Sum>i \<in> {''A''}. unat (balance_of (NewLedger\<lparr>lg_Faucet := 7, lg_MaxValidity := 0, lg_balances := [(''A'', 7)]\<rparr>) i)) = 7"
proof -
  let ?l = "NewLedger\<lparr>lg_Faucet := 7, lg_MaxValidity := 0, lg_balances := [(''A'', 7)]\<rparr>"
  have "ledger_run (demo_keys demo_exact) [Op_Balance ''A''] (NewLedger\<lparr>lg_Faucet := 7, lg_MaxValidity := 0\<rparr>, []) = (?l, [])"
    by (simp add: ledger_run_def Balance_def account_def NewLedger_def demo_keys_def)
  from ledger_no_double_spend [OF this] show ?thesis
    by (simp add: accounts_def credited_def NewLedger_def)
qed

text \<open>An authorization signed to expire at the last representable second.\<close>

definition endless_exact :: exact_payload where
  "endless_exact = demo_exact\<lparr>ep_Authorization := demo_auth\<lparr>au_ValidBefore := fmt_int (2 ^ 63 - 1)\<rparr>\<rparr>"

lemma endless_checks:
  "payment_checks (demo_keys endless_exact) (100 * second) demo_payment demo_req demo_ledger endless_exact ''A'' ''B'' 70 (2 ^ 63 - 1) 5"
proof -
  have "int64 (2 ^ 63 - 1 + unix_to_internal) = unix_to_internal - 2 ^ 63 - 1"
    by (simp add: int64_def unix_to_internal_def) 
  then have "\<not> time_after (2 ^ 63 - 1) (100 * second + defaultMaxValidity)"
    by (simp add: time_after_def unix_to_internal_def second_def defaultMaxValidity_def)
  moreover have "parse_int64 (fmt_int 70) = Some 70" by (rule parse_int64_fmt_int) simp_all
  moreover have "parse_int64 (fmt_int (2 ^ 63 - 1)) = Some (2 ^ 63 - 1)" by (rule parse_int64_fmt_int) simp_all
  moreover have "to_byte 115 = CHR ''s''" by code_simp
  ultimately show ?thesis
    unfolding payment_checks_def Let_def
    by (simp add: endless_exact_def demo_exact_def demo_auth_def wallet_auth_def Let_def demo_payment_def demo_req_def
        demo_keys_def demo_wallet_def demo_ledger_def NewLedger_def demo_nonce_def parse_five clockSkew_def second_def
        VerifyAuthorization_def balance_of_def defaultMaxValidity_def)
qed

theorem validity_bound_wraps_witness:
  "snd (check (demo_keys endless_exact) (10 ^ 9 * second) demo_payment demo_req demo_ledger) =
    Inr (checked (demo_keys endless_exact) endless_exact ''A'' ''B'' 5)"
  by (rule validity_bound_wraps [OF endless_checks])
    (simp_all add: unix_to_internal_def second_def demo_ledger_def NewLedger_def)

theorem signing_message_unambiguous_witness:
  "Network = Network \<and> demo_auth = demo_auth"
  by (rule signing_message_unambiguous [where n = Network and a = demo_auth]) simp

end
