(* ===== verification/X402_Demo.thy ===== *)
theory X402_Demo
  imports X402_Ledger
begin

section \<open>Payments: the command (x402iroh/cmd/x402-iroh/main.go)\<close>

text \<open>
  A facilitator with a ledger, a paid server and a paying client, as the command and its demo put them
  together. The paywall, the paying HTTP transport and the facilitator's HTTP interface are the x402
  package's: together they are the parameter \<open>x402_get\<close>, which carries one request of the client to the
  ledger and back. What they document is \<open>x402_get_ok\<close>.
\<close>

subsection \<open>Roles\<close>

definition server_requirements :: "('k, 's, 'x) pay_ops_scheme \<Rightarrow> 'k \<Rightarrow> u64 \<Rightarrow> requirements" where
  "server_requirements K server price =
     \<lparr>rq_Scheme = Scheme, rq_Network = Network, rq_PayTo = eid_string K server,
      rq_Amount = dec_digits (unat price), rq_MaxTimeoutSeconds = 60\<rparr>"

definition facilitator_ledger :: "u64 \<Rightarrow> ledger" where
  "facilitator_ledger faucet = NewLedger\<lparr>lg_Faucet := faucet\<rparr>"

definition get_wallet :: "'s \<Rightarrow> u64 \<Rightarrow> 's wallet" where
  "get_wallet sk maxAmount = \<lparr>w_Key = sk, w_MaxAmount = maxAmount\<rparr>"

datatype x402_error = ParseBind | BindFailed | ParseServerTicket | ConnectFailed | MissingTicket | GetFailed wallet_error

definition x402_bind :: "(bytes \<Rightarrow> 'a option) \<Rightarrow> 'a \<Rightarrow> ('a \<Rightarrow> 'e option) \<Rightarrow> bytes \<Rightarrow> x402_error + 'e" where
  "x402_bind parse_addr loopback bind addr =
     (case (if addr \<noteq> [] then parse_addr addr else Some loopback) of
        None \<Rightarrow> Inl ParseBind
      | Some bindAddr \<Rightarrow> of_option BindFailed (bind bindAddr))"

definition x402_connect :: "(bytes \<Rightarrow> 'a option) \<Rightarrow> ('a \<Rightarrow> 'c option) \<Rightarrow> bytes \<Rightarrow> x402_error + 'c" where
  "x402_connect decode_ticket connect ticket =
     (case decode_ticket ticket of
        None \<Rightarrow> Inl ParseServerTicket
      | Some addr \<Rightarrow> of_option ConnectFailed (connect addr))"

subsection \<open>A paid request\<close>

text \<open>
  \<open>x402_get\<close> is given the payer, the server's requirements, and the facilitator's \<^verbatim>\<open>Verify\<close> and \<^verbatim>\<open>Settle\<close>. The
  answer is the resource with a receipt, or the challenge. Documented is: a payment that verifies and then
  settles is answered with the resource and its receipt, and one that does not verify with the challenge,
  without a call of \<^verbatim>\<open>Settle\<close>.
\<close>

datatype x402_response = Served receipt | Challenged

type_synonym x402_get =
  "(requirements list \<Rightarrow> wallet_error + payment) \<Rightarrow> requirements \<Rightarrow>
   (payment \<Rightarrow> ledger \<Rightarrow> ledger \<times> (reject + bytes)) \<Rightarrow> (payment \<Rightarrow> ledger \<Rightarrow> ledger \<times> (reject + receipt)) \<Rightarrow>
   ledger \<Rightarrow> ledger \<times> (wallet_error + x402_response)"

definition x402_get_ok :: "x402_get \<Rightarrow> bool" where
  "x402_get_ok G \<longleftrightarrow>
     (\<forall>pay req verify settle l p l1 r. pay [req] = Inr p \<and> verify p l = (l1, r) \<longrightarrow>
        (case r of
           Inl e \<Rightarrow> G pay req verify settle l = (l1, Inr Challenged)
         | Inr payer \<Rightarrow> (\<forall>l2 rc. settle p l1 = (l2, Inr rc) \<longrightarrow> G pay req verify settle l = (l2, Inr (Served rc)))))"

text \<open>The client's clock and nonce when it pays, and the ledger's clock when it verifies and settles.\<close>

record get_request =
  gr_now :: int
  gr_nonce :: "bytes option"
  gr_verify :: int
  gr_settle :: int

definition paid_get ::
  "('k, 's, 'x) pay_ops_scheme \<Rightarrow> x402_get \<Rightarrow> 's wallet \<Rightarrow> requirements \<Rightarrow> get_request \<Rightarrow> ledger \<Rightarrow>
   ledger \<times> (wallet_error + x402_response)" where
  "paid_get K G w req r =
     G (Pay K w (gr_now r) (gr_nonce r)) req
       (\<lambda>p. Verify K (gr_verify r) p req) (\<lambda>p. Settle K (gr_settle r) p req)"

text \<open>The loop of the demo over its requests: it stops at the first error and looks at the balance after each.\<close>

fun demo_requests ::
  "('k, 's, 'x) pay_ops_scheme \<Rightarrow> x402_get \<Rightarrow> 's wallet \<Rightarrow> requirements \<Rightarrow> get_request list \<Rightarrow> ledger \<Rightarrow>
   ledger \<times> (x402_response \<times> u64) list \<times> (x402_error + unit)" where
  "demo_requests K G w req [] l = (l, [], Inr ())"
| "demo_requests K G w req (r # rs) l =
     (case paid_get K G w req r l of
        (l1, Inl e) \<Rightarrow> (l1, [], Inl (GetFailed e))
      | (l1, Inr resp) \<Rightarrow>
        (let (l2, bal) = Balance K (public_id K (w_Key w)) l1;
             (l3, log, res) = demo_requests K G w req rs l2 in
         (l3, (resp, bal) # log, res)))"

definition x402_demo ::
  "('k, 's, 'x) pay_ops_scheme \<Rightarrow> x402_get \<Rightarrow> 'k \<Rightarrow> 's \<Rightarrow> u64 \<Rightarrow> u64 \<Rightarrow> get_request list \<Rightarrow>
   ledger \<times> (x402_response \<times> u64) list \<times> (x402_error + unit)" where
  "x402_demo K G server client faucet price rs =
     demo_requests K G (get_wallet client 0) (server_requirements K server price) rs (facilitator_ledger faucet)"

text \<open>The get role: the tickets and the endpoint first, then one paid request with the given limit.\<close>

definition x402_runGet ::
  "('k, 's, 'x) pay_ops_scheme \<Rightarrow> x402_get \<Rightarrow> (x402_error + 's) \<Rightarrow> ('s \<Rightarrow> bytes \<Rightarrow> x402_error + requirements) \<Rightarrow> bytes \<Rightarrow> u64 \<Rightarrow>
   get_request \<Rightarrow> ledger \<Rightarrow> ledger \<times> (x402_error + x402_response)" where
  "x402_runGet K G endpoint conn ticket maxAmount r l =
     (if ticket = [] then (l, Inl MissingTicket)
      else case endpoint of
        Inl e \<Rightarrow> (l, Inl e)
      | Inr sk \<Rightarrow>
        (case conn sk ticket of
           Inl e \<Rightarrow> (l, Inl e)
         | Inr req \<Rightarrow>
           (case paid_get K G (get_wallet sk maxAmount) req r l of
              (l', Inl e) \<Rightarrow> (l', Inl (GetFailed e))
            | (l', Inr resp) \<Rightarrow> (l', Inr resp))))"

subsection \<open>Lemmas: one request\<close>

lemma get_served:
  assumes "x402_get_ok G" and "pay [req] = Inr p" and "verify p l = (l1, Inr i)" and "settle p l1 = (l2, Inr rc)"
  shows "G pay req verify settle l = (l2, Inr (Served rc))"
  using assms(1) [unfolded x402_get_ok_def, rule_format, where pay = pay and req = req and p = p and verify = verify
      and l = l and settle = settle] assms(2-4) by fastforce

lemma get_challenged:
  assumes "x402_get_ok G" and "pay [req] = Inr p" and "verify p l = (l1, Inl e)"
  shows "G pay req verify settle l = (l1, Inr Challenged)"
  using assms(1) [unfolded x402_get_ok_def, rule_format, where pay = pay and req = req and p = p and verify = verify
      and l = l and settle = settle] assms(2,3) by fastforce

text \<open>A payment that only lacks funds is refused for that.\<close>

lemma check_short:
  assumes "payment_checks K now p reqs l0 exact payer payee va vb val"
    and "lg_spent l = lg_spent l0" and "lg_MaxValidity l = lg_MaxValidity l0"
    and "unat (balance_of l (eid_string K payer)) < val"
  shows "check K now p reqs l = (fst (account (eid_string K payer) l), Inl (InsufficientFunds (eid_string K payer)))"
  using assms unfolding payment_checks_def Let_def check_def not_less [symmetric]
  by (auto simp: case_prod_beta)

text \<open>A request in time: the payment is made after the first half minute of the clock, and verified and settled
  within the minute that the server asks for.\<close>

definition timely :: "get_request \<Rightarrow> bool" where
  "timely r \<longleftrightarrow> clockSkew \<le> gr_now r \<and> gr_now r < 2 ^ 61 \<and> gr_now r \<le> gr_verify r \<and> gr_verify r \<le> gr_settle r \<and>
     gr_settle r \<le> gr_now r + 60 * second"

definition nonce_of :: "get_request \<Rightarrow> bytes" where
  "nonce_of r = ''0x'' @ hex_encode (case gr_nonce r of Some n \<Rightarrow> n | None \<Rightarrow> [])"

definition pays_ok :: "('k, 's, 'x) pay_ops_scheme \<Rightarrow> bool" where
  "pays_ok K \<longleftrightarrow> pay_ok K \<and> (\<forall>p. payload_ascii p \<longrightarrow> json_exact K p \<noteq> None) \<and> (\<forall>k. ascii (eid_string K k))"

lemma unat_less: "unat (p :: u64) < 2 ^ 64"
  using unsigned_less [of p] by simp

lemma requirements_simps [simp]:
  "rq_Scheme (server_requirements K s p) = Scheme" "rq_Network (server_requirements K s p) = Network"
  "rq_PayTo (server_requirements K s p) = eid_string K s"
  "parse_uint64 (rq_Amount (server_requirements K s p)) = Some (unat p)"
  "effective_timeout (server_requirements K s p) = 60"
  using parse_uint64_dec_digits [of "unat p"] unat_less
  by (simp_all add: server_requirements_def effective_timeout_def)

lemma wallet_pays:
  assumes "pays_ok K" and "gr_nonce r = Some n" and "maxAmount = 0 \<or> price \<le> maxAmount"
  shows "\<exists>p. Pay K (get_wallet sk maxAmount) now (Some n) [server_requirements K server price] = Inr p \<and>
    wallet_pay K (get_wallet sk maxAmount) now (Some n) (server_requirements K server price) = Inr p"
proof -
  let ?w = "get_wallet sk maxAmount" and ?req = "server_requirements K server price"
  let ?a = "wallet_auth K ?w now n ?req"
  let ?e = "\<lparr>ep_Signature = SignAuthorization K (w_Key ?w) (rq_Network ?req) ?a, ep_Authorization = ?a\<rparr>"
  have "payload_ascii ?e" using assms(1) parse_uint64_ascii [OF requirements_simps(4) [of K server price]]
    by (simp add: payload_ascii_def wallet_auth_def SignAuthorization_def Let_def pays_ok_def)
  then obtain b where "json_exact K ?e = Some b" using assms(1) by (auto simp: pays_ok_def)
  moreover have "\<not> (w_MaxAmount ?w > 0 \<and> unat price > unat (w_MaxAmount ?w))"
    using assms(3) by (auto simp: get_wallet_def word_le_nat_alt)
  ultimately show ?thesis by (simp add: wallet_pay_def Let_def)
qed

text \<open>The checks that such a payment passes, at any time between payment and settlement, when the funds suffice.\<close>

lemma request_checks:
  fixes price maxAmount :: u64
  assumes "pays_ok K" and "timely r" and "gr_nonce r = Some n" and "length n = 32"
    and pay: "wallet_pay K (get_wallet sk maxAmount) (gr_now r) (Some n) (server_requirements K server price) = Inr p"
    and "lg_MaxValidity l = 0" and "nonce_of r \<notin> set (lg_spent l)" and "gr_verify r \<le> t" and "t \<le> gr_settle r"
    and funds: "price \<le> balance_of l (eid_string K (public_id K sk))"
  obtains exact va vb where "payment_checks K t p (server_requirements K server price) l exact (public_id K sk) server va vb (unat price)"
    "au_Nonce (ep_Authorization exact) = nonce_of r"
proof -
  let ?w = "get_wallet sk maxAmount" and ?req = "server_requirements K server price"
  have ok: "pay_ok K" "ascii (eid_string K k)" for k using assms(1) by (simp_all add: pays_ok_def)
  have nonce: "nonce_of r = ''0x'' @ hex_encode n" by (simp add: nonce_of_def assms(3))
  have "\<exists>exact va vb. payment_checks K t p ?req l exact (public_id K (w_Key ?w)) server va vb (unat price)"
    by (rule wallet_checks [OF ok(1) pay assms(4)])
      (use assms(2,6-9) funds ok nonce in \<open>simp_all add: timely_def get_wallet_def clockSkew_def second_def
        defaultMaxValidity_def word_le_nat_alt pay_ok_def\<close>)
  then obtain exact va vb where pc: "payment_checks K t p ?req l exact (public_id K (w_Key ?w)) server va vb (unat price)"
    by blast
  let ?a = "wallet_auth K ?w (gr_now r) n ?req"
  let ?e = "\<lparr>ep_Signature = SignAuthorization K (w_Key ?w) (rq_Network ?req) ?a, ep_Authorization = ?a\<rparr>"
  have "payload_ascii ?e" using ok parse_uint64_ascii [OF requirements_simps(4) [of K server price]]
    by (simp add: payload_ascii_def wallet_auth_def SignAuthorization_def Let_def)
  then have "parse_exact K (pm_Payload p) = Some ?e"
    using pay ok(1) by (auto simp: wallet_pay_def Let_def pay_ok_def split: option.splits)
  with pc have "exact = ?e" by (simp add: payment_checks_def Let_def)
  then have "au_Nonce (ep_Authorization exact) = nonce_of r" by (simp add: wallet_auth_def Let_def nonce)
  with pc that show ?thesis by (simp add: get_wallet_def)
qed

lemma Settle_frame: "Settle K now p reqs l = (l', Inr rc) \<Longrightarrow> lg_MaxValidity l' = lg_MaxValidity l"
  by (auto simp: Settle_def Let_def dest!: check_frame split: prod.splits sum.splits)

lemma paid_get_served:
  fixes price maxAmount :: u64
  assumes "pays_ok K" and "x402_get_ok G" and "timely r" and "gr_nonce r = Some n" and "length n = 32"
    and "maxAmount = 0 \<or> price \<le> maxAmount" and "lg_MaxValidity l = 0" and "nonce_of r \<notin> set (lg_spent l)"
    and "price \<le> balance_of l (eid_string K (public_id K sk))"
  shows "\<exists>l' rc. paid_get K G (get_wallet sk maxAmount) (server_requirements K server price) r l = (l', Inr (Served rc)) \<and>
    balance_of l' = transfer (eid_string K (public_id K sk)) (eid_string K server) price (balance_of l) \<and>
    lg_spent l' = nonce_of r # lg_spent l \<and> lg_MaxValidity l' = 0"
proof -
  let ?w = "get_wallet sk maxAmount" and ?req = "server_requirements K server price"
  obtain p where p: "Pay K ?w (gr_now r) (Some n) [?req] = Inr p" "wallet_pay K ?w (gr_now r) (Some n) ?req = Inr p"
    using wallet_pays [OF assms(1,4,6)] by blast
  have t: "gr_verify r \<le> gr_settle r" using assms(3) by (simp add: timely_def)
  obtain exact va vb where v: "payment_checks K (gr_verify r) p ?req l exact (public_id K sk) server va vb (unat price)"
    using request_checks [OF assms(1,3,4,5) p(2) assms(7,8) order_refl t assms(9)] by metis
  let ?l1 = "fst (account (eid_string K (public_id K sk)) l)"
  have ver: "Verify K (gr_verify r) p ?req l = (?l1, Inr (eid_string K (public_id K sk)))"
    using check_complete [OF v] by (simp add: Verify_def checked_def)
  obtain exact va vb where st: "payment_checks K (gr_settle r) p ?req ?l1 exact (public_id K sk) server va vb (unat price)"
    "au_Nonce (ep_Authorization exact) = nonce_of r"
    by (rule request_checks [OF assms(1,3,4,5) p(2), of ?l1 "gr_settle r"]) (use assms(7-9) t in simp_all)
  obtain l2 rc where s: "Settle K (gr_settle r) p ?req ?l1 = (l2, Inr rc)"
      "balance_of l2 = transfer (eid_string K (public_id K sk)) (eid_string K server) price (balance_of ?l1)"
      "lg_spent l2 = nonce_of r # lg_spent ?l1"
    using Settle_valid [OF st(1)] st(2) by auto
  have "paid_get K G ?w ?req r l = (l2, Inr (Served rc))"
    unfolding paid_get_def assms(4) by (rule get_served [where p = p]) (fact assms(2) p(1) ver s(1))+
  moreover have "balance_of ?l1 = balance_of l" by (simp add: fun_eq_iff)
  ultimately show ?thesis using s Settle_frame [OF s(1)] assms(7) by simp
qed

lemma paid_get_refused:
  fixes price maxAmount :: u64
  assumes "pays_ok K" and "x402_get_ok G" and "timely r" and "gr_nonce r = Some n" and "length n = 32"
    and "maxAmount = 0 \<or> price \<le> maxAmount" and "lg_MaxValidity l = 0" and "nonce_of r \<notin> set (lg_spent l)"
    and short: "balance_of l (eid_string K (public_id K sk)) < price"
  shows "\<exists>l'. paid_get K G (get_wallet sk maxAmount) (server_requirements K server price) r l = (l', Inr Challenged) \<and>
    balance_of l' = balance_of l \<and> lg_spent l' = lg_spent l \<and> lg_MaxValidity l' = 0"
proof -
  let ?w = "get_wallet sk maxAmount" and ?req = "server_requirements K server price"
  let ?id = "eid_string K (public_id K sk)"
  obtain p where p: "Pay K ?w (gr_now r) (Some n) [?req] = Inr p" "wallet_pay K ?w (gr_now r) (Some n) ?req = Inr p"
    using wallet_pays [OF assms(1,4,6)] by blast
  let ?l0 = "l\<lparr>lg_balances := [(?id, price)]\<rparr>"
  have t: "gr_verify r \<le> gr_settle r" using assms(3) by (simp add: timely_def)
  obtain exact va vb where "payment_checks K (gr_verify r) p ?req ?l0 exact (public_id K sk) server va vb (unat price)"
    by (rule request_checks [OF assms(1,3,4,5) p(2), of ?l0 "gr_verify r"]) (use assms(7,8) t in \<open>simp_all add: balance_of_def\<close>)
  from check_short [OF this, of l] short
  have ver: "Verify K (gr_verify r) p ?req l = (fst (account ?id l), Inl (InsufficientFunds ?id))"
    by (simp add: Verify_def word_less_nat_alt)
  have "paid_get K G ?w ?req r l = (fst (account ?id l), Inr Challenged)"
    unfolding paid_get_def assms(4) by (rule get_challenged [where p = p]) (fact assms(2) p(1) ver)+
  then show ?thesis using assms(7) by (simp add: fun_eq_iff)
qed

subsection \<open>Theorem: what the faucet pays for\<close>

lemma transfer_payer: "payer \<noteq> payee \<Longrightarrow> transfer payer payee v b payer = b payer - v"
  by (simp add: transfer_def)

lemma transfer_payee: "payer \<noteq> payee \<Longrightarrow> transfer payer payee v b payee = b payee + v"
  by (simp add: transfer_def)

text \<open>A log entry says whether the request was served, and the client's balance after it.\<close>

definition was_served :: "x402_response \<times> u64 \<Rightarrow> bool" where
  "was_served e \<longleftrightarrow> (case fst e of Served rc \<Rightarrow> True | Challenged \<Rightarrow> False)"

definition fresh_requests :: "get_request list \<Rightarrow> bytes list \<Rightarrow> bool" where
  "fresh_requests rs spent \<longleftrightarrow> (\<forall>r \<in> set rs. timely r \<and> (\<exists>n. gr_nonce r = Some n \<and> length n = 32)) \<and>
     distinct (map nonce_of rs @ spent)"

lemma fresh_requests_Cons:
  "fresh_requests (r # rs) spent \<Longrightarrow> timely r \<and> (\<exists>n. gr_nonce r = Some n \<and> length n = 32) \<and> nonce_of r \<notin> set spent \<and>
     fresh_requests rs spent \<and> fresh_requests rs (nonce_of r # spent)"
  by (auto simp: fresh_requests_def)

lemma requests_served:
  fixes price :: u64
  assumes "pays_ok K" and "x402_get_ok G" and ids: "eid_string K (public_id K client) \<noteq> eid_string K server" and "0 < price"
  shows "fresh_requests rs (lg_spent l) \<Longrightarrow> lg_MaxValidity l = 0 \<Longrightarrow>
    demo_requests K G (get_wallet client 0) (server_requirements K server price) rs l = (l', log, res) \<Longrightarrow>
    res = Inr () \<and>
    map was_served log = map (\<lambda>i. i < unat (balance_of l (eid_string K (public_id K client))) div unat price) [0..<length rs] \<and>
    map (\<lambda>e. unat (snd e)) log = map (\<lambda>i. unat (balance_of l (eid_string K (public_id K client))) -
      min (Suc i) (unat (balance_of l (eid_string K (public_id K client))) div unat price) * unat price) [0..<length rs] \<and>
    balance_of l' (eid_string K server) = balance_of l (eid_string K server) +
      of_nat (min (length rs) (unat (balance_of l (eid_string K (public_id K client))) div unat price)) * price"
proof (induction rs arbitrary: l log)
  case (Cons r rs)
  let ?c = "eid_string K (public_id K client)" and ?s = "eid_string K server"
  let ?w = "get_wallet client 0" and ?req = "server_requirements K server price"
  from fresh_requests_Cons [OF Cons.prems(1)] obtain n where r: "timely r" "gr_nonce r = Some n" "length n = 32"
    "nonce_of r \<notin> set (lg_spent l)" and rs: "fresh_requests rs (lg_spent l)" "fresh_requests rs (nonce_of r # lg_spent l)" by blast
  let ?b = "unat (balance_of l ?c)" and ?p = "unat price"
  have p: "0 < ?p" using assms(4) by (simp add: word_less_nat_alt)
  have upt: "map f [0..<length (r # rs)] = f 0 # map (\<lambda>i. f (Suc i)) [0..<length rs]" for f :: "nat \<Rightarrow> 'z"
    by (simp del: upt_Suc add: upt_conv_Cons flip: map_Suc_upt)
  show ?case
  proof (cases "price \<le> balance_of l ?c")
    case True
    obtain l1 rc where get: "paid_get K G ?w ?req r l = (l1, Inr (Served rc))"
      "balance_of l1 = transfer ?c ?s price (balance_of l)" "lg_spent l1 = nonce_of r # lg_spent l" "lg_MaxValidity l1 = 0"
      using paid_get_served [OF assms(1,2) r(1,2,3) _ Cons.prems(2) r(4) True] by blast
    let ?l2 = "fst (account ?c l1)"
    obtain log' where rest: "demo_requests K G ?w ?req rs ?l2 = (l', log', res)" "log = (Served rc, balance_of l1 ?c) # log'"
      using Cons.prems(3) get(1) by (auto simp: Balance_def get_wallet_def Let_def split: prod.splits) (metis account_value snd_conv fst_conv)
    have bal: "balance_of ?l2 ?c = balance_of l ?c - price" "balance_of ?l2 ?s = balance_of l ?s + price"
      using get(2) ids by (simp_all add: transfer_payer transfer_payee)
    have ub: "unat (balance_of ?l2 ?c) = ?b - ?p" unfolding bal(1) by (rule unat_sub) (rule True)
    have "?p \<le> ?b" using True by (simp add: word_le_nat_alt)
    then have div: "?b div ?p = Suc ((?b - ?p) div ?p)" using p by (simp add: le_div_geq)
    from Cons.IH [OF _ _ rest(1)] rs(2) get(3,4)
    have IH: "res = Inr ()" "map was_served log' = map (\<lambda>i. i < (?b - ?p) div ?p) [0..<length rs]"
      "map (\<lambda>e. unat (snd e)) log' = map (\<lambda>i. ?b - ?p - min (Suc i) ((?b - ?p) div ?p) * ?p) [0..<length rs]"
      "balance_of l' ?s = balance_of ?l2 ?s + of_nat (min (length rs) ((?b - ?p) div ?p)) * price"
      by (simp_all only: ub account_frame)
    have "unat (balance_of l1 ?c) = ?b - ?p" using ub by simp
    then show ?thesis unfolding upt rest(2) list.map div IH(2,3)
      using IH(1,4) bal(2) by (simp add: was_served_def algebra_simps min_def)
  next
    case False
    then have less: "balance_of l ?c < price" by simp
    obtain l1 where get: "paid_get K G ?w ?req r l = (l1, Inr Challenged)" "balance_of l1 = balance_of l"
      "lg_spent l1 = lg_spent l" "lg_MaxValidity l1 = 0"
      using paid_get_refused [OF assms(1,2) r(1,2,3) _ Cons.prems(2) r(4) less] by blast
    let ?l2 = "fst (account ?c l1)"
    obtain log' where rest: "demo_requests K G ?w ?req rs ?l2 = (l', log', res)" "log = (Challenged, balance_of l1 ?c) # log'"
      using Cons.prems(3) get(1) by (auto simp: Balance_def get_wallet_def Let_def split: prod.splits) (metis account_value snd_conv fst_conv)
    have zero: "?b div ?p = 0" using less by (simp add: word_less_nat_alt)
    have bal: "balance_of ?l2 i = balance_of l i" for i using get(2) by simp
    from Cons.IH [OF _ _ rest(1)] rs(1) get(3,4)
    have IH: "res = Inr ()" "map was_served log' = map (\<lambda>i. False) [0..<length rs]"
      "map (\<lambda>e. unat (snd e)) log' = map (\<lambda>i. ?b) [0..<length rs]" "balance_of l' ?s = balance_of l ?s"
      by (simp_all add: get(2) zero)
    show ?thesis unfolding upt rest(2) list.map zero IH(2,3)
      using IH(1,4) get(2) by (simp add: was_served_def)
  qed
qed simp

text \<open>C18: A client that makes its requests in time, each with a nonce of its own, is served as long as the
  faucet lasts: with a faucet of \<open>f\<close> and a price of \<open>p\<close> the first \<open>f div p\<close> requests are served and every later
  one is answered with the challenge; after each the client's balance is the faucet less the price of what
  was served, and the server has exactly that on top of its own faucet. No request fails.\<close>

theorem faucet_covers_requests:
  fixes price faucet :: u64
  assumes "pays_ok K" and "x402_get_ok G" and "eid_string K (public_id K client) \<noteq> eid_string K server" and "0 < price"
    and "fresh_requests rs []" and "x402_demo K G server client faucet price rs = (l, log, res)"
  shows "res = Inr () \<and>
    map was_served log = map (\<lambda>i. i < unat faucet div unat price) [0..<length rs] \<and>
    map (\<lambda>e. unat (snd e)) log =
      map (\<lambda>i. unat faucet - min (Suc i) (unat faucet div unat price) * unat price) [0..<length rs] \<and>
    balance_of l (eid_string K server) = faucet + of_nat (min (length rs) (unat faucet div unat price)) * price"
proof -
  have "balance_of (facilitator_ledger faucet) i = faucet" "lg_spent (facilitator_ledger faucet) = []"
    "lg_MaxValidity (facilitator_ledger faucet) = 0" for i
    by (simp_all add: facilitator_ledger_def NewLedger_def balance_of_def)
  with requests_served [OF assms(1-4) _ _ assms(6) [unfolded x402_demo_def]] assms(5) show ?thesis by simp
qed

text \<open>A get with a limit never pays more, and leaves the ledger to the transport when nothing is payable.\<close>

lemma limit_respected:
  assumes "Pay K (get_wallet sk maxAmount) now nonce [server_requirements K server price] = Inr p" and "0 < maxAmount"
  shows "price \<le> maxAmount"
  using Pay_Inr [OF assms(1)] assms(2) by (auto simp: get_wallet_def word_le_nat_alt word_less_nat_alt
      dest: arg_cong [where f = rq_Amount])

subsection \<open>Witnesses\<close>

text \<open>Payloads as the hex of their fields with commas, and the documented paywall.\<close>

definition field_json :: "exact_payload \<Rightarrow> bytes" where
  "field_json p = (let a = ep_Authorization p in
     concat (map (\<lambda>f. hex_encode f @ '','') [ep_Signature p, au_From a, au_To a, au_Value a, au_ValidAfter a, au_ValidBefore a]) @
     hex_encode (au_Nonce a))"

definition field_parse :: "bytes \<Rightarrow> exact_payload option" where
  "field_parse b = (case those (map hex_decode (split_on (CHR '','') b)) of
     Some [sg, f, t, v, va, vb, n] \<Rightarrow> Some \<lparr>ep_Signature = sg, ep_Authorization =
       \<lparr>au_From = f, au_To = t, au_Value = v, au_ValidAfter = va, au_ValidBefore = vb, au_Nonce = n\<rparr>\<rparr>
   | _ \<Rightarrow> None)"

lemma hex_no_comma: "CHR '','' \<notin> set (hex_encode s)"
  using hex_chars [of s] by auto

lemma field_parse_json: "field_parse (field_json p) = Some p"
  by (simp add: field_parse_def field_json_def Let_def hex_no_comma)

definition field_keys :: "(bytes, bytes) pay_ops" where
  "field_keys = (demo_keys undefined)\<lparr>json_exact := (\<lambda>p. Some (field_json p)), parse_exact := field_parse,
     eid_string := hex_encode, parse_eid := hex_decode\<rparr>"

lemma field_keys_ok: "pays_ok field_keys"
  by (simp add: pays_ok_def pay_ok_def field_keys_def demo_keys_def field_parse_json)

definition plain_get :: x402_get where
  "plain_get pay req verify settle l =
     (case pay [req] of
        Inl e \<Rightarrow> (l, Inl e)
      | Inr p \<Rightarrow>
        (case verify p l of
           (l1, Inl e) \<Rightarrow> (l1, Inr Challenged)
         | (l1, Inr payer) \<Rightarrow>
           (case settle p l1 of (l2, Inl e) \<Rightarrow> (l2, Inr Challenged) | (l2, Inr rc) \<Rightarrow> (l2, Inr (Served rc)))))"

lemma plain_get_ok: "x402_get_ok plain_get"
  by (auto simp: x402_get_ok_def plain_get_def split: sum.splits)

definition demo_gets :: "get_request list" where
  "demo_gets = map (\<lambda>c. \<lparr>gr_now = 100 * second, gr_nonce = Some (replicate 32 c), gr_verify = 110 * second,
     gr_settle = 111 * second\<rparr>) ''abc''"

text \<open>The demo itself: a faucet of 12 pays for two of three requests at 5, and 2 are left.\<close>

theorem faucet_covers_requests_witness:
  "\<exists>l log res. x402_demo field_keys plain_get ''S'' ''C'' 12 5 demo_gets = (l, log, res) \<and>
    map was_served log = [True, True, False] \<and> map (\<lambda>e. unat (snd e)) log = [7, 2, 2] \<and>
    balance_of l (hex_encode ''S'') = 22"
proof -
  obtain l log res where run: "x402_demo field_keys plain_get ''S'' ''C'' 12 5 demo_gets = (l, log, res)"
    using prod_cases3 by blast
  have "hex_encode (replicate 32 c) = hex_encode (replicate 32 d) \<longleftrightarrow> c = d" for c d
    by (auto dest: hex_encode_inj simp: replicate_eq_replicate)
  then have "fresh_requests demo_gets []"
    by (simp add: fresh_requests_def demo_gets_def timely_def second_def clockSkew_def nonce_of_def)
  moreover have "eid_string field_keys (public_id field_keys ''C'') \<noteq> eid_string field_keys ''S''"
    unfolding field_keys_def demo_keys_def by (simp del: hex_encode.simps) (auto dest: hex_encode_inj simp del: hex_encode.simps)
  ultimately show ?thesis
    using faucet_covers_requests [OF field_keys_ok plain_get_ok _ _ _ run] run
    by (simp add: demo_gets_def upt_rec field_keys_def)
qed

end
