(* ===== verification/Direct_Path.thy ===== *)
theory Direct_Path
  imports GoText
begin

section \<open>Direct path probes\<close>

text \<open>
  \<^verbatim>\<open>directpath/cmd/directpath-probe/main.go\<close> and \<^verbatim>\<open>directpath/cmd/twobox-directpath/main.go\<close>: the classes of
  addresses that the probe reports, the framed echo between a dialing and a listening probe, and the counted transfer
  of the two-host harness. The echo is modelled twice: as bytes in and out, and as the steps of the two sides
  over streams that buffer only so much, which decides whether they can finish.
\<close>

unbundle bit_operations_syntax

subsection \<open>Addresses (net/netip, net)\<close>

datatype ip = IP4 u8 u8 u8 u8 | IP6 "16 word list"

definition Is4 :: "ip \<Rightarrow> bool" where
  "Is4 a = (case a of IP4 _ _ _ _ \<Rightarrow> True | IP6 _ \<Rightarrow> False)"

text \<open>An IPv6 address has eight groups; the methods below see through IPv4 in IPv6.\<close>

definition Unmap :: "ip \<Rightarrow> ip" where
  "Unmap a =
     (case a of
        IP6 gs \<Rightarrow>
          if take 6 gs = [0, 0, 0, 0, 0, 0xFFFF]
          then IP4 (ucast (drop_bit 8 (gs ! 6))) (ucast (gs ! 6)) (ucast (drop_bit 8 (gs ! 7))) (ucast (gs ! 7)) else a
      | _ \<Rightarrow> a)"

definition IsLoopback :: "ip \<Rightarrow> bool" where
  "IsLoopback a = (case Unmap a of IP4 b _ _ _ \<Rightarrow> b = 127 | IP6 gs \<Rightarrow> gs = [0, 0, 0, 0, 0, 0, 0, 1])"

definition IsLinkLocalUnicast :: "ip \<Rightarrow> bool" where
  "IsLinkLocalUnicast a =
     (case Unmap a of IP4 b c _ _ \<Rightarrow> b = 169 \<and> c = 254 | IP6 gs \<Rightarrow> hd gs AND 0xFFC0 = 0xFE80)"

definition IsPrivate :: "ip \<Rightarrow> bool" where
  "IsPrivate a =
     (case Unmap a of
        IP4 b c _ _ \<Rightarrow> b = 10 \<or> (b = 172 \<and> c AND 0xF0 = 16) \<or> (b = 192 \<and> c = 168)
      | IP6 gs \<Rightarrow> hd gs AND 0xFE00 = 0xFC00)"

definition IsMulticast :: "ip \<Rightarrow> bool" where
  "IsMulticast a = (case Unmap a of IP4 b _ _ _ \<Rightarrow> b AND 0xF0 = 0xE0 | IP6 gs \<Rightarrow> hd gs AND 0xFF00 = 0xFF00)"

definition IPv6Unspecified :: ip where
  "IPv6Unspecified = IP6 (replicate 8 0)"

definition IsGlobalUnicast :: "ip \<Rightarrow> bool" where
  "IsGlobalUnicast a \<longleftrightarrow>
     Unmap a \<noteq> IP4 0 0 0 0 \<and> Unmap a \<noteq> IP4 255 255 255 255 \<and> a \<noteq> IPv6Unspecified \<and>
     \<not> IsLoopback a \<and> \<not> IsMulticast a \<and> \<not> IsLinkLocalUnicast a"

text \<open>The text of an IPv6 address: hexadecimal groups, with the first longest run of two or more zero groups left out.\<close>

fun hex_nat :: "nat \<Rightarrow> bytes" where
  "hex_nat n = (if n < 16 then [hex_char n] else hex_nat (n div 16) @ [hex_char (n mod 16)])"

declare hex_nat.simps [simp del]

definition join_colon :: "'g::len word list \<Rightarrow> bytes" where
  "join_colon gs = concat (map (\<lambda>(i, g). (if i = 0 then [] else '':'') @ hex_nat (unat g)) (enumerate 0 gs))"

definition zero_run :: "16 word list \<Rightarrow> nat \<times> nat" where
  "zero_run gs = fold (\<lambda>i (s, l).
     let l' = length (takeWhile (\<lambda>g. g = 0) (drop i gs)) in if 2 \<le> l' \<and> l < l' then (i, l') else (s, l)) [0..<8] (0, 0)"

definition ip6_string :: "16 word list \<Rightarrow> bytes" where
  "ip6_string gs =
     (let (s, l) = zero_run gs in
      if l = 0 then join_colon gs else join_colon (take s gs) @ ''::'' @ join_colon (drop (s + l) gs))"

text \<open>\<^verbatim>\<open>net.SplitHostPort\<close>.\<close>

definition SplitHostPort :: "bytes \<Rightarrow> (bytes \<times> bytes) option" where
  "SplitHostPort hp =
     (case find_sub '':'' (rev hp) of
        None \<Rightarrow> None
      | Some r \<Rightarrow>
        (let i = length hp - 1 - r in
         case (if prefix ''['' hp then
                 (case find_sub '']'' hp of
                    None \<Rightarrow> None
                  | Some e \<Rightarrow> if e + 1 \<noteq> i then None else Some (take (e - 1) (drop 1 hp), 1, e + 1))
               else if CHR '':'' \<in> set (take i hp) then None else Some (take i hp, 0, 0)) of
           None \<Rightarrow> None
         | Some (host, j, k) \<Rightarrow>
           if CHR ''['' \<in> set (drop j hp) \<or> CHR '']'' \<in> set (drop k hp) then None
           else Some (host, drop (i + 1) hp)))"

subsection \<open>The probe's addresses\<close>

datatype probe_error =
    ParseBindAddress | ParseBindPort | ParseBindHost | MissingPeer | ParsePeerID | ParsePeerIP
  | ReadSize | SizeTooLarge | EchoPayload | WritePayload | ReadEchoSize | EchoSize | ReadEcho

definition parse_uint16 :: "bytes \<Rightarrow> nat option" where
  "parse_uint16 s = (case parse_uint64 s of None \<Rightarrow> None | Some n \<Rightarrow> if n < 2 ^ 16 then Some n else None)"

text \<open>\<open>parse_addr\<close> is \<^verbatim>\<open>netip.ParseAddr\<close>, \<open>parse_prefix\<close> is \<^verbatim>\<open>netip.ParsePrefix\<close>.\<close>

definition parseBind :: "(bytes \<Rightarrow> ip option) \<Rightarrow> bytes \<Rightarrow> probe_error + (ip \<times> nat)" where
  "parseBind parse_addr s =
     (case (case SplitHostPort s of
              Some (host, port) \<Rightarrow> Some (host, port)
            | None \<Rightarrow> if prefix '':'' s then Some ([], trim_prefix s '':'') else None) of
        None \<Rightarrow> Inl ParseBindAddress
      | Some (host, port) \<Rightarrow>
        (case parse_uint16 port of
           None \<Rightarrow> Inl ParseBindPort
         | Some p \<Rightarrow>
           if host \<noteq> [] then (case parse_addr host of None \<Rightarrow> Inl ParseBindHost | Some a \<Rightarrow> Inr (a, p))
           else Inr (IPv6Unspecified, p)))"

definition parseInterfaceAddr ::
  "(bytes \<Rightarrow> (ip \<times> int) option) \<Rightarrow> (bytes \<Rightarrow> ip option) \<Rightarrow> bytes \<Rightarrow> (ip \<times> int) option" where
  "parseInterfaceAddr parse_prefix parse_addr s =
     (case parse_prefix s of
        Some (a, bits) \<Rightarrow> Some (a, bits)
      | None \<Rightarrow>
        (case parse_addr s of
           None \<Rightarrow> None
         | Some a \<Rightarrow> if Is4 a then Some (a, 32) else Some (a, 128)))"

definition family :: "ip \<Rightarrow> bytes" where
  "family a = (if Is4 a then ''ipv4'' else ''ipv6'')"

definition isCGNAT :: "ip \<Rightarrow> bool" where
  "isCGNAT a = (case a of IP4 b c _ _ \<Rightarrow> b = 100 \<and> c AND 0xC0 = 0x40 | IP6 _ \<Rightarrow> False)"

definition scope :: "ip \<Rightarrow> bytes" where
  "scope a =
     (if IsLoopback a then ''loopback''
      else if IsLinkLocalUnicast a then ''link-local''
      else if isCGNAT a then ''cgnat''
      else if IsPrivate a then ''private''
      else if IsGlobalUnicast a then ''global''
      else ''other'')"

definition isTailscale :: "ip \<Rightarrow> bool" where
  "isTailscale a = (case a of IP4 b _ _ _ \<Rightarrow> b = 100 | IP6 gs \<Rightarrow> prefix ''fd7a:115c:a1e0:'' (ip6_string gs))"

text \<open>What \<^verbatim>\<open>runInspect\<close> prints of an interface address.\<close>

definition inspect_line ::
  "(bytes \<Rightarrow> (ip \<times> int) option) \<Rightarrow> (bytes \<Rightarrow> ip option) \<Rightarrow> bytes \<Rightarrow> (ip \<times> int \<times> bytes \<times> bytes \<times> bool) option" where
  "inspect_line parse_prefix parse_addr s =
     map_option (\<lambda>(a, bits). (a, bits, family a, scope a, isTailscale a)) (parseInterfaceAddr parse_prefix parse_addr s)"

text \<open>The arguments of \<^verbatim>\<open>runDial\<close>.\<close>

definition dial_args ::
  "(bytes \<Rightarrow> 'i option) \<Rightarrow> (bytes \<Rightarrow> 'a option) \<Rightarrow> (bytes \<Rightarrow> ip option) \<Rightarrow> bytes \<Rightarrow> bytes \<Rightarrow> bytes \<Rightarrow>
   probe_error + ('i \<times> 'a \<times> ip \<times> nat)" where
  "dial_args parse_id parse_addrport parse_addr peerID peerIP bind =
     (if peerID = [] \<or> peerIP = [] then Inl MissingPeer
      else case parse_id peerID of
        None \<Rightarrow> Inl ParsePeerID
      | Some i \<Rightarrow>
        (case parse_addrport peerIP of
           None \<Rightarrow> Inl ParsePeerIP
         | Some peer \<Rightarrow>
           (case parseBind parse_addr bind of Inl e \<Rightarrow> Inl e | Inr (a, p) \<Rightarrow> Inr (i, peer, a, p))))"

subsection \<open>The framed echo, as bytes\<close>

text \<open>What the listener writes for the bytes it reads until the stream ends, and its result.\<close>

definition echoFramed :: "bytes \<Rightarrow> bytes \<times> (probe_error + nat)" where
  "echoFramed inp =
     (if length inp < 8 then ([], Inl ReadSize)
      else
        (let header = take 8 inp; u = be_val header in
         if u > 2 ^ 62 then ([], Inl SizeTooLarge)
         else
           (let data = take u (drop 8 inp) in
            (header @ data, if length data < u then Inl EchoPayload else Inr (length data)))))"

text \<open>What the dialing side sends for \<open>n\<close> bytes, and how it judges the reply.\<close>

definition dial_request :: "bytes \<Rightarrow> bytes" where
  "dial_request payload = be_bytes 8 (length payload) @ payload"

definition dial_reply :: "nat \<Rightarrow> bytes \<Rightarrow> probe_error + nat" where
  "dial_reply sent reply =
     (if length reply < 8 then Inl ReadEchoSize
      else if be_val (take 8 reply) \<noteq> sent then Inl EchoSize
      else if length (take sent (drop 8 reply)) < sent then Inl ReadEcho
      else Inr sent)"

lemma echo_reply:
  assumes "length payload \<le> 2 ^ 62"
  shows "echoFramed (dial_request payload) = (dial_request payload, Inr (length payload)) \<and>
    dial_reply (length payload) (dial_request payload) = Inr (length payload)"
  using assms by (simp add: echoFramed_def dial_request_def dial_reply_def Let_def be_val_be_bytes)

text \<open>An address outside the shared range of Tailscale, which is the CGNAT range, counts as one of its addresses.\<close>

lemma tailscale_too_wide: "isTailscale (IP4 100 1 2 3) \<and> \<not> isCGNAT (IP4 100 1 2 3) \<and> scope (IP4 100 1 2 3) = ''global''"
  by code_simp

subsection \<open>The framed echo, step by step\<close>

text \<open>
  The dialing side writes its whole request of \<open>N\<close> bytes, a header of 8 and the payload, before it reads. The
  listener reads the header, writes it back, and then copies: it reads up to \<open>B\<close> bytes, and writes all of them before
  it reads again. A stream holds at most \<open>W1\<close> bytes towards the listener and \<open>W2\<close> back that are written and not
  read; beyond that a write blocks. The counters are the bytes each side has written and read.
\<close>

record exchange =
  d_written :: nat
  l_read :: nat
  l_written :: nat
  d_read :: nat

definition exchange_start :: exchange where
  "exchange_start = \<lparr>d_written = 0, l_read = 0, l_written = 0, d_read = 0\<rparr>"

inductive exchange_step :: "nat \<Rightarrow> nat \<Rightarrow> nat \<Rightarrow> nat \<Rightarrow> exchange \<Rightarrow> exchange \<Rightarrow> bool" for N W1 W2 B where
  dial_write: "0 < k \<Longrightarrow> d_written s + k \<le> N \<Longrightarrow> d_written s + k \<le> l_read s + W1 \<Longrightarrow>
    exchange_step N W1 W2 B s (s\<lparr>d_written := d_written s + k\<rparr>)"
| listen_header: "0 < k \<Longrightarrow> l_read s + k \<le> 8 \<Longrightarrow> l_read s + k \<le> d_written s \<Longrightarrow>
    exchange_step N W1 W2 B s (s\<lparr>l_read := l_read s + k\<rparr>)"
| listen_read: "0 < k \<Longrightarrow> k \<le> B \<Longrightarrow> 8 \<le> l_read s \<Longrightarrow> l_written s = l_read s \<Longrightarrow> l_read s + k \<le> d_written s \<Longrightarrow>
    exchange_step N W1 W2 B s (s\<lparr>l_read := l_read s + k\<rparr>)"
| listen_write: "0 < k \<Longrightarrow> 8 \<le> l_read s \<Longrightarrow> l_written s + k \<le> l_read s \<Longrightarrow> l_written s + k \<le> d_read s + W2 \<Longrightarrow>
    exchange_step N W1 W2 B s (s\<lparr>l_written := l_written s + k\<rparr>)"
| dial_read: "0 < k \<Longrightarrow> d_written s = N \<Longrightarrow> d_read s + k \<le> l_written s \<Longrightarrow>
    exchange_step N W1 W2 B s (s\<lparr>d_read := d_read s + k\<rparr>)"

inductive_cases exchange_stepE: "exchange_step N W1 W2 B s s'"

text \<open>The invariant of a run, and the bytes that still have to be moved.\<close>

definition exchange_inv :: "nat \<Rightarrow> nat \<Rightarrow> nat \<Rightarrow> nat \<Rightarrow> exchange \<Rightarrow> bool" where
  "exchange_inv N W1 W2 B s \<longleftrightarrow> d_written s \<le> N \<and> l_read s \<le> d_written s \<and> l_written s \<le> l_read s \<and>
     d_read s \<le> l_written s \<and> d_written s \<le> l_read s + W1 \<and> l_written s \<le> d_read s + W2 \<and>
     l_read s \<le> l_written s + B \<and> (d_written s < N \<longrightarrow> d_read s = 0) \<and> d_written s \<le> W1 + W2 + B"

definition moved :: "exchange \<Rightarrow> nat" where
  "moved s = d_written s + l_read s + l_written s + d_read s"

lemma exchange_start_inv: "exchange_inv N W1 W2 B exchange_start"
  by (simp add: exchange_inv_def exchange_start_def)

lemma exchange_step_inv:
  assumes "exchange_step N W1 W2 B s s'" and "8 \<le> B" and "exchange_inv N W1 W2 B s"
  shows "exchange_inv N W1 W2 B s'" and "moved s < moved s'"
  using assms by (auto elim!: exchange_stepE simp: exchange_inv_def moved_def)

lemma exchange_run:
  assumes "(exchange_step N W1 W2 B ^^ m) exchange_start s" and "8 \<le> B"
  shows "exchange_inv N W1 W2 B s \<and> m \<le> moved s"
  using assms(1)
proof (induction m arbitrary: s)
  case (Suc m)
  then obtain z where z: "(exchange_step N W1 W2 B ^^ m) exchange_start z" "exchange_step N W1 W2 B z s" by auto
  then show ?case using exchange_step_inv [OF z(2) assms(2)] Suc.IH [OF z(1)] by simp
qed (use exchange_start_inv in simp)

text \<open>A state without a step is the end of the exchange, or the listener cannot write and the dialer neither.\<close>

lemma exchange_stuck:
  assumes "exchange_inv N W1 W2 B s" and "\<forall>s'. \<not> exchange_step N W1 W2 B s s'"
    and "8 \<le> N" and "8 \<le> B" and "1 \<le> W1" and "1 \<le> W2"
  shows "d_read s = N \<or> (d_written s < N \<and> W1 + W2 < d_written s)"
proof -
  have no: "\<not> (d_written s + 1 \<le> N \<and> d_written s + 1 \<le> l_read s + W1)"
    "\<not> (l_read s + 1 \<le> 8 \<and> l_read s + 1 \<le> d_written s)"
    "\<not> (8 \<le> l_read s \<and> l_written s = l_read s \<and> l_read s + 1 \<le> d_written s)"
    "\<not> (8 \<le> l_read s \<and> l_written s + 1 \<le> l_read s \<and> l_written s + 1 \<le> d_read s + W2)"
    "\<not> (d_written s = N \<and> d_read s + 1 \<le> l_written s)"
    using assms(2,4) exchange_step.dial_write [where k = 1 and s = s and N = N and ?W1.0 = W1 and ?W2.0 = W2 and B = B]
      exchange_step.listen_header [where k = 1 and s = s and N = N and ?W1.0 = W1 and ?W2.0 = W2 and B = B]
      exchange_step.listen_read [where k = 1 and s = s and N = N and ?W1.0 = W1 and ?W2.0 = W2 and B = B]
      exchange_step.listen_write [where k = 1 and s = s and N = N and ?W1.0 = W1 and ?W2.0 = W2 and B = B]
      exchange_step.dial_read [where k = 1 and s = s and N = N and ?W1.0 = W1 and ?W2.0 = W2 and B = B] by auto
  show ?thesis using no assms(1,3-6) unfolding exchange_inv_def by linarith
qed

text \<open>C37: The probe's exchange always stops: after at most four steps per byte. A request that fits into what the
  two streams hold and one byte more is always echoed to the end. One that is larger than the streams and
  the copy buffer never is: the dialer, which reads only after it has written everything, never reads a byte.\<close>

theorem probe_exchange_bound:
  assumes "(exchange_step N W1 W2 B ^^ m) exchange_start s" and "8 \<le> N" and "8 \<le> B" and "1 \<le> W1" and "1 \<le> W2"
  shows "m \<le> 4 * N \<and>
    (N \<le> W1 + W2 + 1 \<and> (\<forall>s'. \<not> exchange_step N W1 W2 B s s') \<longrightarrow> d_read s = N) \<and>
    (W1 + W2 + B < N \<longrightarrow> d_read s = 0 \<and> d_written s < N)"
proof -
  have inv: "exchange_inv N W1 W2 B s" "m \<le> moved s" using exchange_run [OF assms(1,3)] by blast+
  have b: "d_written s \<le> N" "l_read s \<le> d_written s" "l_written s \<le> l_read s" "d_read s \<le> l_written s"
    "d_written s \<le> l_read s + W1" "l_written s \<le> d_read s + W2" "l_read s \<le> l_written s + B"
    "d_written s < N \<longrightarrow> d_read s = 0" "d_written s \<le> W1 + W2 + B" using inv(1) unfolding exchange_inv_def by blast+
  have "m \<le> 4 * N" using inv(2) b(1-4) unfolding moved_def by linarith
  moreover have "d_read s = N" if "N \<le> W1 + W2 + 1 \<and> (\<forall>s'. \<not> exchange_step N W1 W2 B s s')"
    using exchange_stuck [OF inv(1) _ assms(2-5)] that b(1) by auto
  moreover have "d_read s = 0 \<and> d_written s < N" if "W1 + W2 + B < N"
    using that b by (cases "d_written s < N") linarith+
  ultimately show ?thesis by blast
qed

text \<open>A payload of one byte over streams of 16: six steps, and every byte is back.\<close>

theorem probe_exchange_bound_witness:
  "\<exists>s. (exchange_step 9 16 16 8 ^^ 6) exchange_start s \<and> (6::nat) \<le> 4 * 9 \<and> d_read s = 9"
proof -
  let ?s = "\<lambda>a b c d. \<lparr>d_written = a, l_read = b, l_written = c, d_read = d\<rparr>"
  have steps: "exchange_step 9 16 16 8 (?s 0 0 0 0) (?s 9 0 0 0)" "exchange_step 9 16 16 8 (?s 9 0 0 0) (?s 9 8 0 0)"
    "exchange_step 9 16 16 8 (?s 9 8 0 0) (?s 9 8 8 0)" "exchange_step 9 16 16 8 (?s 9 8 8 0) (?s 9 9 8 0)"
    "exchange_step 9 16 16 8 (?s 9 9 8 0) (?s 9 9 9 0)" "exchange_step 9 16 16 8 (?s 9 9 9 0) (?s 9 9 9 9)"
    using exchange_step.dial_write [of 9 "?s 0 0 0 0" 9 16 16 8] exchange_step.listen_header [of 8 "?s 9 0 0 0" 9 16 16 8]
      exchange_step.listen_write [of 8 "?s 9 8 0 0" 16 9 16 8] exchange_step.listen_read [of 1 8 "?s 9 8 8 0" 9 16 16]
      exchange_step.listen_write [of 1 "?s 9 9 8 0" 16 9 16 8] exchange_step.dial_read [of 9 "?s 9 9 9 0" 9 16 16 8] by simp_all
  let ?R = "exchange_step 9 16 16 8"
  have "(?R ^^ 0) (?s 0 0 0 0) (?s 0 0 0 0)" by simp
  from relpowp_Suc_I [OF this steps(1)] have "(?R ^^ Suc 0) (?s 0 0 0 0) (?s 9 0 0 0)" .
  from relpowp_Suc_I [OF this steps(2)] have "(?R ^^ Suc (Suc 0)) (?s 0 0 0 0) (?s 9 8 0 0)" .
  from relpowp_Suc_I [OF this steps(3)] have "(?R ^^ Suc (Suc (Suc 0))) (?s 0 0 0 0) (?s 9 8 8 0)" .
  from relpowp_Suc_I [OF this steps(4)] have "(?R ^^ Suc (Suc (Suc (Suc 0)))) (?s 0 0 0 0) (?s 9 9 8 0)" .
  from relpowp_Suc_I [OF this steps(5)] have "(?R ^^ Suc (Suc (Suc (Suc (Suc 0))))) (?s 0 0 0 0) (?s 9 9 9 0)" .
  from relpowp_Suc_I [OF this steps(6)] have "(?R ^^ Suc (Suc (Suc (Suc (Suc (Suc 0)))))) (?s 0 0 0 0) (?s 9 9 9 9)" .
  moreover have "Suc (Suc (Suc (Suc (Suc (Suc 0))))) = 6" by simp
  ultimately have run: "(?R ^^ 6) exchange_start (?s 9 9 9 9)" by (simp only: exchange_start_def)
  have stop: "\<forall>s'. \<not> exchange_step 9 16 16 8 (?s 9 9 9 9) s'" by (auto elim: exchange_stepE)
  from probe_exchange_bound [OF run] stop run show ?thesis by fastforce
qed

subsection \<open>The counted transfer (twobox-directpath)\<close>

text \<open>The server drains the stream and answers with the count, least significant byte first; an \<^verbatim>\<open>int64\<close> is its word.\<close>

definition ack_encode :: "u64 \<Rightarrow> bytes" where
  "ack_encode n = map (\<lambda>i. to_byte (unat (drop_bit (8 * i) n))) [0..<8]"

definition ack_decode :: "bytes \<Rightarrow> u64" where
  "ack_decode ack = fold (\<lambda>i got. got OR push_bit (8 * i) (of_nat (byte_val (ack ! i)))) [0..<8] 0"

definition sink_serve :: "bytes list \<Rightarrow> bytes" where
  "sink_serve reads = ack_encode (of_nat (length (concat reads)))"

text \<open>
  The loop of the client: each write is given a chunk of at most 64 KiB and returns how much of it went out,
  or an error. \<open>Inl\<close> is the error that ends the program, with what was sent before; \<open>None\<close> is a write that has not returned.
\<close>

datatype transfer_error = WriteError | ReadAck | WrongCount u64

fun send_chunks :: "bytes \<Rightarrow> nat option list \<Rightarrow> nat \<Rightarrow> bytes \<times> (transfer_error + unit) option" where
  "send_chunks payload results off =
     (if length payload \<le> off then ([], Some (Inr ()))
      else
        (let chunk = take (min (off + 64 * 1024) (length payload) - off) (drop off payload) in
         case results of
           [] \<Rightarrow> ([], None)
         | None # rs \<Rightarrow> ([], Some (Inl WriteError))
         | Some nw # rs \<Rightarrow>
           (let (out, r) = send_chunks payload rs (off + nw) in (take nw chunk @ out, r))))"

declare send_chunks.simps [simp del]

definition check_ack :: "nat \<Rightarrow> bytes \<Rightarrow> transfer_error + unit" where
  "check_ack n reply =
     (if length reply < 8 then Inl ReadAck
      else (let got = ack_decode (take 8 reply) in if got \<noteq> of_nat n then Inl (WrongCount got) else Inr ()))"

record path_info =
  pi_HasAddr :: bool
  pi_Relayed :: bool
  pi_Validated :: bool
  pi_Selected :: bool

definition path_verdict :: "path_info list \<Rightarrow> bool \<times> bool" where
  "path_verdict ps = fold (\<lambda>p (directValidated, directSelected).
     if pi_HasAddr p \<and> \<not> pi_Relayed p \<and> pi_Validated p
     then (True, if pi_Selected p then True else directSelected) else (directValidated, directSelected)) ps (False, False)"

text \<open>
  The polls of \<^verbatim>\<open>waitDirectSelected\<close> before the deadline, each with the time since the start, the paths and whether the
  context ends in the pause after it: the time at which a direct path was selected, if one was.
\<close>

definition direct_selected :: "path_info list \<Rightarrow> bool" where
  "direct_selected ps \<longleftrightarrow> list_ex (\<lambda>p. pi_HasAddr p \<and> \<not> pi_Relayed p \<and> pi_Validated p \<and> pi_Selected p) ps"

fun waitDirectSelected :: "int \<Rightarrow> (int \<times> path_info list \<times> bool) list \<Rightarrow> int option" where
  "waitDirectSelected timeout [] = None"
| "waitDirectSelected timeout ((t, ps, done) # polls) =
     (if t \<ge> timeout then None
      else if direct_selected ps then Some t
      else if done then None
      else waitDirectSelected timeout polls)"

subsection \<open>Lemmas: the transfer\<close>

lemma to_byte_word: "(of_nat (unat (w :: u64) mod 256) :: u64) = take_bit 8 w"
proof -
  have "take_bit 8 w = (of_nat (unat (take_bit 8 w)) :: u64)" by simp
  also have "unat (take_bit 8 w) = unat w mod 256" by (simp only: unsigned_take_bit_eq) (simp add: take_bit_eq_mod)
  finally show ?thesis by simp
qed

lemma ack_roundtrip: "ack_decode (ack_encode n) = n"
proof -
  have "ack_decode (ack_encode n) = fold (\<lambda>i got. got OR push_bit (8 * i) (take_bit 8 (drop_bit (8 * i) n))) [0..<8] 0"
    unfolding ack_decode_def ack_encode_def
    by (rule fold_cong) (simp_all add: to_byte_word)
  also have "fold (\<lambda>i got. got OR push_bit (8 * i) (take_bit 8 (drop_bit (8 * i) n))) [0..<k] 0 = take_bit (8 * k) n" for k
  proof (induction k)
    case (Suc k)
    have "take_bit (8 * k) n OR push_bit (8 * k) (take_bit 8 (drop_bit (8 * k) n)) = take_bit (8 * Suc k) n"
      by (rule bit_word_eqI) (auto simp: bit_simps)
    with Suc show ?case by simp
  qed simp
  finally show ?thesis by (simp add: take_bit_word_eq_self)
qed

text \<open>A write that keeps its contract returns no more than it was given, so what goes out is the payload.\<close>

fun writes_ok :: "bytes \<Rightarrow> nat option list \<Rightarrow> nat \<Rightarrow> bool" where
  "writes_ok payload [] off = True"
| "writes_ok payload (None # rs) off = True"
| "writes_ok payload (Some nw # rs) off \<longleftrightarrow> nw \<le> min (off + 64 * 1024) (length payload) - off \<and> writes_ok payload rs (off + nw)"

lemma send_chunks_sends:
  "writes_ok payload results off \<Longrightarrow> off \<le> length payload \<Longrightarrow> send_chunks payload results off = (out, r) \<Longrightarrow>
   prefix out (drop off payload) \<and> (r = Some (Inr ()) \<longrightarrow> out = drop off payload)"
proof (induction payload results off arbitrary: out rule: writes_ok.induct)
  case (3 payload nw rs off)
  show ?case
  proof (cases "length payload \<le> off")
    case False
    let ?chunk = "take (min (off + 64 * 1024) (length payload) - off) (drop off payload)"
    obtain out' where rest: "send_chunks payload rs (off + nw) = (out', r)" "out = take nw ?chunk @ out'"
      using False 3(4) by (cases "send_chunks payload rs (off + nw)") (simp add: send_chunks.simps [of payload "Some nw # rs"] Let_def)
    have nw: "take nw ?chunk = take nw (drop off payload)" "off + nw \<le> length payload"
    proof -
      have "nw \<le> min (off + 64 * 1024) (length payload) - off" using 3(2) by simp
      then show "take nw ?chunk = take nw (drop off payload)" "off + nw \<le> length payload"
        using False by (simp_all add: min_def split: if_splits)
    qed
    from 3(1) [OF _ nw(2) rest(1)] 3(2) have "prefix out' (drop (off + nw) payload) \<and> (r = Some (Inr ()) \<longrightarrow> out' = drop (off + nw) payload)"
      by simp
    moreover have "drop off payload = take nw (drop off payload) @ drop (off + nw) payload"
      by (metis add.commute append_take_drop_id drop_drop)
    ultimately show ?thesis unfolding rest(2) nw(1) by (metis same_prefix_prefix)
  qed (use 3(3,4) in \<open>simp add: send_chunks.simps [of payload "Some nw # rs"]\<close>)
qed (auto simp: send_chunks.simps [of _ "[]"] send_chunks.simps [of _ "None # _"] Let_def split: if_splits)

text \<open>The result is printed exactly when the server counted every byte that the client sent.\<close>

lemma transfer_counted:
  assumes "writes_ok payload results 0" and "send_chunks payload results 0 = (out, Some (Inr ()))"
    and "prefix (concat reads) out" and "length payload < 2 ^ 64"
  shows "check_ack (length payload) (sink_serve reads) = Inr () \<longleftrightarrow> concat reads = payload"
proof -
  have out: "out = payload" using send_chunks_sends [OF assms(1) _ assms(2)] by simp
  then have len: "length (concat reads) \<le> length payload" using prefix_length_le [OF assms(3)] by simp
  have "length (ack_encode n) = 8" for n by (simp add: ack_encode_def)
  then have "check_ack (length payload) (sink_serve reads) = Inr () \<longleftrightarrow>
      (of_nat (length (concat reads)) :: u64) = of_nat (length payload)"
    by (simp add: check_ack_def sink_serve_def ack_roundtrip Let_def del: length_concat)
  also have "\<dots> \<longleftrightarrow> length (concat reads) = length payload"
  proof -
    have "unat (of_nat k :: u64) = k" if "k < 2 ^ 64" for k using that by (simp add: unat_of_nat)
    then show ?thesis using len assms(4) by (metis le_less_trans)
  qed
  also have "\<dots> \<longleftrightarrow> concat reads = payload"
    using assms(3) out prefix_same_length by fastforce
  finally show ?thesis .
qed

lemma verdict_selected: "snd (path_verdict ps) \<longleftrightarrow> direct_selected ps"
proof -
  have "snd (fold (\<lambda>p (v, s). if pi_HasAddr p \<and> \<not> pi_Relayed p \<and> pi_Validated p
     then (True, if pi_Selected p then True else s) else (v, s)) ps (v0, s0)) \<longleftrightarrow> s0 \<or> direct_selected ps" for v0 s0
    by (induction ps arbitrary: v0 s0) (auto simp: direct_selected_def)
  from this [of False False] show ?thesis by (simp add: path_verdict_def)
qed

end
