(* ===== verification/Dag_Protocol.thy ===== *)
theory Dag_Protocol
  imports GoStd
begin

section \<open>DAG sync: messages (dagsync/protocol.go)\<close>

text \<open>
  The request and response messages of the \<^verbatim>\<open>DAG_SYNC/1\<close> protocol and their postcard form. The
  postcard primitives (unsigned integers, lengths, option tags, byte strings) are third-party
  code and a parameter, the record \<open>postcard\<close>; a struct is the concatenation of its fields, as
  postcard documents. A CID is the string of its bytes; what \<^verbatim>\<open>cid.Cast\<close> accepts is a parameter.
\<close>

subsection \<open>Parameters\<close>

type_synonym cid = bytes
type_synonym blob = bytes

record postcard =
  pc_uint :: "nat \<Rightarrow> bytes"
  get_uint :: "bytes \<Rightarrow> (nat \<times> bytes) option"
  pc_len :: "nat \<Rightarrow> bytes"
  get_len :: "bytes \<Rightarrow> (nat \<times> bytes) option"
  pc_tag :: "bool \<Rightarrow> bytes"
  get_tag :: "bytes \<Rightarrow> (bool \<times> bytes) option"
  cid_cast :: "bytes \<Rightarrow> cid option"
  pc_trailing :: bool

text \<open>
  What postcard documents: integers and lengths of 64 bits and option tags are read back, and an
  integer below 128 takes one byte.
\<close>

definition postcard_ok :: "'x postcard_scheme \<Rightarrow> bool" where
  "postcard_ok P \<longleftrightarrow>
     (\<forall>n r. n < 2 ^ 64 \<longrightarrow> get_uint P (pc_uint P n @ r) = Some (n, r)) \<and>
     (\<forall>n r. n < 2 ^ 64 \<longrightarrow> get_len P (pc_len P n @ r) = Some (n, r)) \<and>
     (\<forall>b r. get_tag P (pc_tag P b @ r) = Some (b, r)) \<and>
     (\<forall>n. n < 128 \<longrightarrow> length (pc_uint P n) = 1)"

lemma postcard_okD:
  assumes "postcard_ok P"
  shows "n < 2 ^ 64 \<Longrightarrow> get_uint P (pc_uint P n @ r) = Some (n, r)"
    "n < 2 ^ 64 \<Longrightarrow> get_len P (pc_len P n @ r) = Some (n, r)"
    "get_tag P (pc_tag P b @ r) = Some (b, r)"
    "n < 128 \<Longrightarrow> length (pc_uint P n) = 1"
  using assms by (auto simp: postcard_ok_def)

text \<open>The postcard form of a slice, an optional field and a byte string, element by element.\<close>

definition put_slice :: "'x postcard_scheme \<Rightarrow> ('a \<Rightarrow> bytes) \<Rightarrow> 'a list \<Rightarrow> bytes" where
  "put_slice P enc xs = pc_len P (length xs) @ concat (map enc xs)"

fun get_elems :: "(bytes \<Rightarrow> ('a \<times> bytes) option) \<Rightarrow> nat \<Rightarrow> bytes \<Rightarrow> ('a list \<times> bytes) option" where
  "get_elems dec 0 s = Some ([], s)"
| "get_elems dec (Suc n) s =
     (case dec s of
        None \<Rightarrow> None
      | Some (x, r) \<Rightarrow>
        (case get_elems dec n r of None \<Rightarrow> None | Some (xs, r') \<Rightarrow> Some (x # xs, r')))"

definition get_slice ::
  "'x postcard_scheme \<Rightarrow> (bytes \<Rightarrow> ('a \<times> bytes) option) \<Rightarrow> bytes \<Rightarrow> ('a list \<times> bytes) option" where
  "get_slice P dec s = (case get_len P s of None \<Rightarrow> None | Some (n, r) \<Rightarrow> get_elems dec n r)"

definition put_option :: "'x postcard_scheme \<Rightarrow> ('a \<Rightarrow> bytes option) \<Rightarrow> 'a option \<Rightarrow> bytes option" where
  "put_option P enc x =
     (case x of
        None \<Rightarrow> Some (pc_tag P False)
      | Some v \<Rightarrow> (case enc v of None \<Rightarrow> None | Some b \<Rightarrow> Some (pc_tag P True @ b)))"

definition get_option ::
  "'x postcard_scheme \<Rightarrow> (bytes \<Rightarrow> ('a \<times> bytes) option) \<Rightarrow> bytes \<Rightarrow> ('a option \<times> bytes) option" where
  "get_option P dec s =
     (case get_tag P s of
        None \<Rightarrow> None
      | Some (False, r) \<Rightarrow> Some (None, r)
      | Some (True, r) \<Rightarrow> (case dec r of None \<Rightarrow> None | Some (v, r') \<Rightarrow> Some (Some v, r')))"

definition put_bytes :: "'x postcard_scheme \<Rightarrow> bytes \<Rightarrow> bytes" where
  "put_bytes P b = pc_len P (length b) @ b"

definition get_bytes :: "'x postcard_scheme \<Rightarrow> bytes \<Rightarrow> (bytes \<times> bytes) option" where
  "get_bytes P s =
     (case get_len P s of
        None \<Rightarrow> None
      | Some (n, r) \<Rightarrow> if length r < n then None else Some (take n r, drop n r))"

subsection \<open>Data\<close>

record filter_opts =
  f_All :: bool
  f_NoRaw :: bool
  f_JustRaw :: bool
  f_Exclude :: "nat list option"

record inline_opts =
  i_All :: bool
  i_NoRaw :: bool
  i_Exclude :: "nat list option"
  i_None :: bool

text \<open>A traversal order is the one Boolean \<^verbatim>\<open>DepthFirstPreOrderLeftToRight\<close>.\<close>

record full_opts =
  Root :: cid
  Visited :: "cid list"
  Order :: "bool option"
  Filter :: "filter_opts option"

record traversal_opts =
  Sequence :: "cid list option"
  Full :: "full_opts option"

record sync_request =
  Traversal :: traversal_opts
  Inline :: inline_opts

text \<open>A request holds a sync request or nothing; a header a hash with or without data.\<close>

type_synonym request = "sync_request option"

record header =
  h_Hash :: "blob option"
  h_Data :: "blob option"

definition NewSyncRequest :: "traversal_opts \<Rightarrow> inline_opts \<Rightarrow> request" where
  "NewSyncRequest tr inline = Some \<lparr>Traversal = tr, Inline = inline\<rparr>"

definition SequenceTraversal :: "cid list \<Rightarrow> traversal_opts" where
  "SequenceTraversal cids = \<lparr>Sequence = Some cids, Full = None\<rparr>"

definition all_filter :: filter_opts where
  "all_filter = \<lparr>f_All = True, f_NoRaw = False, f_JustRaw = False, f_Exclude = None\<rparr>"

definition FullTraversal :: "cid \<Rightarrow> traversal_opts" where
  "FullTraversal root =
     \<lparr>Sequence = None,
      Full = Some \<lparr>Root = root, Visited = [], Order = Some True, Filter = Some all_filter\<rparr>\<rparr>"

definition InlineAll :: inline_opts where
  "InlineAll = \<lparr>i_All = True, i_NoRaw = False, i_Exclude = None, i_None = False\<rparr>"

definition HashHeader :: "blob \<Rightarrow> header" where
  "HashHeader h = \<lparr>h_Hash = Some h, h_Data = None\<rparr>"

definition DataHeader :: "blob \<Rightarrow> header" where
  "DataHeader h = \<lparr>h_Hash = None, h_Data = Some h\<rparr>"

subsection \<open>Encoding and decoding\<close>

definition Cid_Encode :: "'x postcard_scheme \<Rightarrow> cid \<Rightarrow> bytes" where
  "Cid_Encode P c = put_bytes P c"

definition Cid_Decode :: "'x postcard_scheme \<Rightarrow> bytes \<Rightarrow> (cid \<times> bytes) option" where
  "Cid_Decode P s =
     (case get_bytes P s of
        None \<Rightarrow> None
      | Some (b, r) \<Rightarrow> (case cid_cast P b of None \<Rightarrow> None | Some c \<Rightarrow> Some (c, r)))"

definition Order_Encode :: "'x postcard_scheme \<Rightarrow> bool \<Rightarrow> bytes option" where
  "Order_Encode P depth_first = (if \<not> depth_first then None else Some (pc_uint P 0))"

definition Order_Decode :: "'x postcard_scheme \<Rightarrow> bytes \<Rightarrow> (bool \<times> bytes) option" where
  "Order_Decode P s =
     (case get_uint P s of
        None \<Rightarrow> None
      | Some (tag, r) \<Rightarrow> if tag \<noteq> 0 then None else Some (True, r))"

definition Filter_Encode :: "'x postcard_scheme \<Rightarrow> filter_opts \<Rightarrow> bytes option" where
  "Filter_Encode P f =
     (if f_All f then Some (pc_uint P 0)
      else if f_NoRaw f then Some (pc_uint P 1)
      else if f_JustRaw f then Some (pc_uint P 2)
      else case f_Exclude f of
        Some ex \<Rightarrow> Some (pc_uint P 3 @ put_slice P (pc_uint P) ex)
      | None \<Rightarrow> None)"

definition zero_filter :: filter_opts where
  "zero_filter = \<lparr>f_All = False, f_NoRaw = False, f_JustRaw = False, f_Exclude = None\<rparr>"

definition Filter_Decode :: "'x postcard_scheme \<Rightarrow> bytes \<Rightarrow> (filter_opts \<times> bytes) option" where
  "Filter_Decode P s =
     (case get_uint P s of
        None \<Rightarrow> None
      | Some (tag, r) \<Rightarrow>
        if tag = 0 then Some (zero_filter\<lparr>f_All := True\<rparr>, r)
        else if tag = 1 then Some (zero_filter\<lparr>f_NoRaw := True\<rparr>, r)
        else if tag = 2 then Some (zero_filter\<lparr>f_JustRaw := True\<rparr>, r)
        else if tag = 3 then
          (case get_slice P (get_uint P) r of
             None \<Rightarrow> None
           | Some (ex, r') \<Rightarrow> Some (zero_filter\<lparr>f_Exclude := Some ex\<rparr>, r'))
        else None)"

definition Inline_Encode :: "'x postcard_scheme \<Rightarrow> inline_opts \<Rightarrow> bytes option" where
  "Inline_Encode P i =
     (if i_All i then Some (pc_uint P 0)
      else if i_NoRaw i then Some (pc_uint P 1)
      else case i_Exclude i of
        Some ex \<Rightarrow> Some (pc_uint P 2 @ put_slice P (pc_uint P) ex)
      | None \<Rightarrow> if i_None i then Some (pc_uint P 3) else None)"

definition zero_inline :: inline_opts where
  "zero_inline = \<lparr>i_All = False, i_NoRaw = False, i_Exclude = None, i_None = False\<rparr>"

definition Inline_Decode :: "'x postcard_scheme \<Rightarrow> bytes \<Rightarrow> (inline_opts \<times> bytes) option" where
  "Inline_Decode P s =
     (case get_uint P s of
        None \<Rightarrow> None
      | Some (tag, r) \<Rightarrow>
        if tag = 0 then Some (zero_inline\<lparr>i_All := True\<rparr>, r)
        else if tag = 1 then Some (zero_inline\<lparr>i_NoRaw := True\<rparr>, r)
        else if tag = 2 then
          (case get_slice P (get_uint P) r of
             None \<Rightarrow> None
           | Some (ex, r') \<Rightarrow> Some (zero_inline\<lparr>i_Exclude := Some ex\<rparr>, r'))
        else if tag = 3 then Some (zero_inline\<lparr>i_None := True\<rparr>, r)
        else None)"

definition Full_Encode :: "'x postcard_scheme \<Rightarrow> full_opts \<Rightarrow> bytes option" where
  "Full_Encode P o' =
     (case put_option P (Order_Encode P) (Order o') of
        None \<Rightarrow> None
      | Some order \<Rightarrow>
        (case put_option P (Filter_Encode P) (Filter o') of
           None \<Rightarrow> None
         | Some filt \<Rightarrow>
           Some (Cid_Encode P (Root o') @ put_slice P (Cid_Encode P) (Visited o') @ order @ filt)))"

definition Full_Decode :: "'x postcard_scheme \<Rightarrow> bytes \<Rightarrow> (full_opts \<times> bytes) option" where
  "Full_Decode P s =
     (case Cid_Decode P s of
        None \<Rightarrow> None
      | Some (root, s1) \<Rightarrow>
        (case get_slice P (Cid_Decode P) s1 of
           None \<Rightarrow> None
         | Some (visited, s2) \<Rightarrow>
           (case get_option P (Order_Decode P) s2 of
              None \<Rightarrow> None
            | Some (order, s3) \<Rightarrow>
              (case get_option P (Filter_Decode P) s3 of
                 None \<Rightarrow> None
               | Some (filt, s4) \<Rightarrow>
                 Some (\<lparr>Root = root, Visited = visited, Order = order, Filter = filt\<rparr>, s4)))))"

definition Traversal_Encode :: "'x postcard_scheme \<Rightarrow> traversal_opts \<Rightarrow> bytes option" where
  "Traversal_Encode P t =
     (case Sequence t of
        Some cids \<Rightarrow> Some (pc_uint P 0 @ put_slice P (Cid_Encode P) cids)
      | None \<Rightarrow>
        (case Full t of
           Some full \<Rightarrow> (case Full_Encode P full of None \<Rightarrow> None | Some b \<Rightarrow> Some (pc_uint P 1 @ b))
         | None \<Rightarrow> None))"

definition Traversal_Decode :: "'x postcard_scheme \<Rightarrow> bytes \<Rightarrow> (traversal_opts \<times> bytes) option" where
  "Traversal_Decode P s =
     (case get_uint P s of
        None \<Rightarrow> None
      | Some (tag, r) \<Rightarrow>
        if tag = 0 then
          (case get_slice P (Cid_Decode P) r of
             None \<Rightarrow> None
           | Some (cids, r') \<Rightarrow> Some (\<lparr>Sequence = Some cids, Full = None\<rparr>, r'))
        else if tag = 1 then
          (case Full_Decode P r of
             None \<Rightarrow> None
           | Some (full, r') \<Rightarrow> Some (\<lparr>Sequence = None, Full = Some full\<rparr>, r'))
        else None)"

definition Request_Encode :: "'x postcard_scheme \<Rightarrow> request \<Rightarrow> bytes option" where
  "Request_Encode P req =
     (case req of
        None \<Rightarrow> None
      | Some sr \<Rightarrow>
        (case Traversal_Encode P (Traversal sr) of
           None \<Rightarrow> None
         | Some t \<Rightarrow>
           (case Inline_Encode P (Inline sr) of
              None \<Rightarrow> None
            | Some i \<Rightarrow> Some (pc_uint P 0 @ t @ i))))"

definition Request_Decode :: "'x postcard_scheme \<Rightarrow> bytes \<Rightarrow> (request \<times> bytes) option" where
  "Request_Decode P s =
     (case get_uint P s of
        None \<Rightarrow> None
      | Some (tag, r) \<Rightarrow>
        if tag = 0 then
          (case Traversal_Decode P r of
             None \<Rightarrow> None
           | Some (t, r') \<Rightarrow>
             (case Inline_Decode P r' of
                None \<Rightarrow> None
              | Some (i, r'') \<Rightarrow> Some (Some \<lparr>Traversal = t, Inline = i\<rparr>, r'')))
        else None)"

text \<open>Whether \<^verbatim>\<open>postcard.Unmarshal\<close> tolerates trailing bytes is left to the parameter \<open>pc_trailing\<close>.\<close>

definition decodePostcard :: "'x postcard_scheme \<Rightarrow> bytes \<Rightarrow> request option" where
  "decodePostcard P s =
     (case Request_Decode P s of
        None \<Rightarrow> None
      | Some (req, rest) \<Rightarrow> if rest = [] \<or> pc_trailing P then Some req else None)"

subsection \<open>Response headers\<close>

definition HashSize :: nat where
  "HashSize = 32"

definition Header_Encode :: "'x postcard_scheme \<Rightarrow> header \<Rightarrow> bytes option" where
  "Header_Encode P h =
     (case h_Hash h of
        Some x \<Rightarrow> Some (pc_uint P 0 @ x)
      | None \<Rightarrow> (case h_Data h of Some x \<Rightarrow> Some (pc_uint P 1 @ x) | None \<Rightarrow> None))"

definition Header_Decode :: "'x postcard_scheme \<Rightarrow> bytes \<Rightarrow> (header \<times> bytes) option" where
  "Header_Decode P s =
     (case get_uint P s of
        None \<Rightarrow> None
      | Some (tag, r) \<Rightarrow>
        if length r < HashSize then None
        else if tag = 0 then Some (HashHeader (take HashSize r), drop HashSize r)
        else if tag = 1 then Some (DataHeader (take HashSize r), drop HashSize r)
        else None)"

definition Header_Bytes :: "'x postcard_scheme \<Rightarrow> header \<Rightarrow> bytes option" where
  "Header_Bytes P h =
     (case Header_Encode P h of
        None \<Rightarrow> None
      | Some b \<Rightarrow> if length b \<noteq> 33 then None else Some b)"

definition decodeHeader :: "'x postcard_scheme \<Rightarrow> bytes \<Rightarrow> header option" where
  "decodeHeader P b =
     (case Header_Decode P b of Some (h, []) \<Rightarrow> Some h | _ \<Rightarrow> None)"

subsection \<open>What the options select (protocol.go, traversal.go)\<close>

text \<open>The codec of a CID is \<^verbatim>\<open>c.Type()\<close>, third-party code; \<^verbatim>\<open>cid.Raw\<close> is 0x55, \<^verbatim>\<open>cid.DagCBOR\<close> 0x71.\<close>

definition cid_Raw :: nat where
  "cid_Raw = 0x55"

definition cid_DagCBOR :: nat where
  "cid_DagCBOR = 0x71"

definition inlinePredicate :: "(cid \<Rightarrow> nat) \<Rightarrow> inline_opts \<Rightarrow> cid \<Rightarrow> bool" where
  "inlinePredicate ctype opts c =
     (if i_All opts then True
      else if i_NoRaw opts then ctype c \<noteq> cid_Raw
      else case i_Exclude opts of
        Some ex \<Rightarrow> ctype c \<notin> set ex
      | None \<Rightarrow> False)"

definition includeCID :: "(cid \<Rightarrow> nat) \<Rightarrow> filter_opts \<Rightarrow> cid \<Rightarrow> bool" where
  "includeCID ctype filt c =
     (if f_All filt then True
      else if f_NoRaw filt then ctype c \<noteq> cid_Raw
      else if f_JustRaw filt then ctype c = cid_Raw
      else case f_Exclude filt of
        Some ex \<Rightarrow> ctype c \<notin> set ex
      | None \<Rightarrow> True)"

subsection \<open>Lemmas\<close>

text \<open>The values a message can carry: one choice per option, 64-bit numbers, castable CIDs.\<close>

definition cid_ok :: "'x postcard_scheme \<Rightarrow> cid \<Rightarrow> bool" where
  "cid_ok P c \<longleftrightarrow> cid_cast P c = Some c \<and> length c < 2 ^ 64"

definition codecs_ok :: "nat list \<Rightarrow> bool" where
  "codecs_ok ex \<longleftrightarrow> length ex < 2 ^ 64 \<and> list_all (\<lambda>n. n < 2 ^ 64) ex"

definition filter_ok :: "filter_opts \<Rightarrow> bool" where
  "filter_ok f \<longleftrightarrow> f = zero_filter\<lparr>f_All := True\<rparr> \<or> f = zero_filter\<lparr>f_NoRaw := True\<rparr> \<or>
     f = zero_filter\<lparr>f_JustRaw := True\<rparr> \<or> (\<exists>ex. f = zero_filter\<lparr>f_Exclude := Some ex\<rparr> \<and> codecs_ok ex)"

definition inline_ok :: "inline_opts \<Rightarrow> bool" where
  "inline_ok i \<longleftrightarrow> i = zero_inline\<lparr>i_All := True\<rparr> \<or> i = zero_inline\<lparr>i_NoRaw := True\<rparr> \<or>
     i = zero_inline\<lparr>i_None := True\<rparr> \<or> (\<exists>ex. i = zero_inline\<lparr>i_Exclude := Some ex\<rparr> \<and> codecs_ok ex)"

definition cids_ok :: "'x postcard_scheme \<Rightarrow> cid list \<Rightarrow> bool" where
  "cids_ok P cs \<longleftrightarrow> length cs < 2 ^ 64 \<and> list_all (cid_ok P) cs"

definition traversal_ok :: "'x postcard_scheme \<Rightarrow> traversal_opts \<Rightarrow> bool" where
  "traversal_ok P t \<longleftrightarrow>
     (case (Sequence t, Full t) of
        (Some cs, None) \<Rightarrow> cids_ok P cs
      | (None, Some f) \<Rightarrow> cid_ok P (Root f) \<and> cids_ok P (Visited f) \<and> Order f \<noteq> Some False \<and>
          (case Filter f of None \<Rightarrow> True | Some x \<Rightarrow> filter_ok x)
      | _ \<Rightarrow> False)"

definition request_ok :: "'x postcard_scheme \<Rightarrow> request \<Rightarrow> bool" where
  "request_ok P req \<longleftrightarrow>
     (case req of None \<Rightarrow> False | Some sr \<Rightarrow> traversal_ok P (Traversal sr) \<and> inline_ok (Inline sr))"

lemma get_elems_put:
  assumes "codec enc dec valid"
  shows "list_all valid xs \<Longrightarrow> get_elems dec (length xs) (concat (map enc xs) @ r) = Some (xs, r)"
  by (induction xs) (simp_all add: codec.dec_enc [OF assms])

lemma slice_codec:
  assumes "postcard_ok P" and "codec enc dec valid"
  shows "codec (put_slice P enc) (get_slice P dec) (\<lambda>xs. length xs < 2 ^ 64 \<and> list_all valid xs)"
  by unfold_locales
    (simp add: put_slice_def get_slice_def postcard_okD(2) [OF assms(1)] get_elems_put [OF assms(2)])

lemma bytes_codec: "postcard_ok P \<Longrightarrow> codec (put_bytes P) (get_bytes P) (\<lambda>b. length b < 2 ^ 64)"
  by unfold_locales (simp add: put_bytes_def get_bytes_def postcard_okD(2))

lemma uint_codec: "postcard_ok P \<Longrightarrow> codec (pc_uint P) (get_uint P) (\<lambda>n. n < 2 ^ 64)"
  by unfold_locales (simp add: postcard_okD(1))

lemma Cid_codec: "postcard_ok P \<Longrightarrow> codec (Cid_Encode P) (Cid_Decode P) (cid_ok P)"
  by unfold_locales
    (simp add: Cid_Encode_def Cid_Decode_def cid_ok_def codec.dec_enc [OF bytes_codec])

lemma cids_codec: "postcard_ok P \<Longrightarrow> codec (put_slice P (Cid_Encode P)) (get_slice P (Cid_Decode P)) (cids_ok P)"
  using slice_codec [OF _ Cid_codec, of P] by (simp add: codec_def cids_ok_def)

lemma codecs_codec: "postcard_ok P \<Longrightarrow> codec (put_slice P (pc_uint P)) (get_slice P (get_uint P)) codecs_ok"
  using slice_codec [OF _ uint_codec, of P] by (simp add: codec_def codecs_ok_def)

lemma Filter_back:
  assumes "postcard_ok P" and "filter_ok f"
  shows "\<exists>b. Filter_Encode P f = Some b \<and> (\<forall>r. Filter_Decode P (b @ r) = Some (f, r))"
  using assms(2)
  by (auto simp: filter_ok_def Filter_Encode_def Filter_Decode_def zero_filter_def
      postcard_okD(1) [OF assms(1)] codec.dec_enc [OF codecs_codec [OF assms(1)]])

lemma Inline_back:
  assumes "postcard_ok P" and "inline_ok i"
  shows "\<exists>b. Inline_Encode P i = Some b \<and> (\<forall>r. Inline_Decode P (b @ r) = Some (i, r))"
  using assms(2)
  by (auto simp: inline_ok_def Inline_Encode_def Inline_Decode_def zero_inline_def
      postcard_okD(1) [OF assms(1)] codec.dec_enc [OF codecs_codec [OF assms(1)]])

lemma option_back:
  assumes "postcard_ok P" and "\<And>x. v = Some x \<Longrightarrow> \<exists>b. enc x = Some b \<and> (\<forall>r. dec (b @ r) = Some (x, r))"
  shows "\<exists>b. put_option P enc v = Some b \<and> (\<forall>r. get_option P dec (b @ r) = Some (v, r))"
proof (cases v)
  case None
  then show ?thesis by (simp add: put_option_def get_option_def postcard_okD(3) [OF assms(1)])
next
  case (Some x)
  with assms(2) obtain b where "enc x = Some b" "\<forall>r. dec (b @ r) = Some (x, r)" by blast
  with Some show ?thesis by (simp add: put_option_def get_option_def postcard_okD(3) [OF assms(1)])
qed

lemma Traversal_back:
  assumes P: "postcard_ok P" and "traversal_ok P t"
  shows "\<exists>b. Traversal_Encode P t = Some b \<and> (\<forall>r. Traversal_Decode P (b @ r) = Some (t, r))"
proof (cases "Sequence t")
  case (Some cs)
  with assms(2) have "Full t = None" "cids_ok P cs" by (auto simp: traversal_ok_def split: option.splits)
  with Some show ?thesis
    by (cases t) (simp add: Traversal_Encode_def Traversal_Decode_def postcard_okD(1) [OF P]
        codec.dec_enc [OF cids_codec [OF P]])
next
  case None
  with assms(2) obtain f where f: "Full t = Some f" "cid_ok P (Root f)" "cids_ok P (Visited f)"
    "Order f \<noteq> Some False" "\<And>x. Filter f = Some x \<Longrightarrow> filter_ok x"
    by (auto simp: traversal_ok_def split: option.splits)
  have "\<exists>b. put_option P (Order_Encode P) (Order f) = Some b \<and>
      (\<forall>r. get_option P (Order_Decode P) (b @ r) = Some (Order f, r))"
    by (rule option_back [OF P]) (use f(4) in \<open>auto simp: Order_Encode_def Order_Decode_def
        postcard_okD(1) [OF P]\<close>)
  then obtain ob where ob: "put_option P (Order_Encode P) (Order f) = Some ob"
    "\<And>r. get_option P (Order_Decode P) (ob @ r) = Some (Order f, r)" by blast
  have "\<exists>b. put_option P (Filter_Encode P) (Filter f) = Some b \<and>
      (\<forall>r. get_option P (Filter_Decode P) (b @ r) = Some (Filter f, r))"
    by (rule option_back [OF P]) (rule Filter_back [OF P f(5)])
  then obtain fb where fb: "put_option P (Filter_Encode P) (Filter f) = Some fb"
    "\<And>r. get_option P (Filter_Decode P) (fb @ r) = Some (Filter f, r)" by blast
  have "Full_Decode P ((Cid_Encode P (Root f) @ put_slice P (Cid_Encode P) (Visited f) @ ob @ fb) @ r) = Some (f, r)" for r
    using f(2,3) ob(2) fb(2)
    by (simp add: Full_Decode_def codec.dec_enc [OF Cid_codec [OF P]] codec.dec_enc [OF cids_codec [OF P]])
  with None f(1) ob(1) fb(1) show ?thesis
    by (cases t) (simp add: Traversal_Encode_def Full_Encode_def Traversal_Decode_def postcard_okD(1) [OF P])
qed

lemma Request_back:
  assumes P: "postcard_ok P" and "request_ok P req"
  shows "\<exists>b. Request_Encode P req = Some b \<and> (\<forall>r. Request_Decode P (b @ r) = Some (req, r))"
proof -
  obtain sr where sr: "req = Some sr" "traversal_ok P (Traversal sr)" "inline_ok (Inline sr)"
    using assms(2) by (auto simp: request_ok_def split: option.splits)
  obtain t where t: "Traversal_Encode P (Traversal sr) = Some t"
    "\<And>r. Traversal_Decode P (t @ r) = Some (Traversal sr, r)" using Traversal_back [OF P sr(2)] by blast
  obtain i where i: "Inline_Encode P (Inline sr) = Some i"
    "\<And>r. Inline_Decode P (i @ r) = Some (Inline sr, r)" using Inline_back [OF P sr(3)] by blast
  show ?thesis by (simp add: sr(1) Request_Encode_def Request_Decode_def t i postcard_okD(1) [OF P])
qed

lemma decodeHeader_Bytes:
  assumes P: "postcard_ok P" and "length x = 32"
  shows "Header_Bytes P (HashHeader x) = Some (pc_uint P 0 @ x)"
    "Header_Bytes P (DataHeader x) = Some (pc_uint P 1 @ x)"
    "decodeHeader P (pc_uint P 0 @ x) = Some (HashHeader x)"
    "decodeHeader P (pc_uint P 1 @ x) = Some (DataHeader x)"
  using assms(2) postcard_okD(4) [OF P, of 0] postcard_okD(4) [OF P, of 1]
  by (simp_all add: Header_Bytes_def Header_Encode_def HashHeader_def DataHeader_def decodeHeader_def
      Header_Decode_def postcard_okD(1) [OF P] HashSize_def)

subsection \<open>Properties\<close>

text \<open>C13: A sync request survives the wire: encoding a well-formed request and decoding it gives
  the request back, whatever the postcard primitives are as long as they read back what they
  wrote.\<close>

theorem request_roundtrip:
  assumes "postcard_ok P" and "request_ok P req" and "Request_Encode P req = Some b"
  shows "decodePostcard P b = Some req"
proof -
  from Request_back [OF assms(1,2)] assms(3) have "\<forall>r. Request_Decode P (b @ r) = Some (req, r)" by auto
  from this [rule_format, of "[]"] show ?thesis by (simp add: decodePostcard_def)
qed

definition demo_postcard :: postcard where
  "demo_postcard =
     \<lparr>pc_uint = append_uvarint, get_uint = uvarint_split, pc_len = append_uvarint, get_len = uvarint_split,
      pc_tag = (\<lambda>b. [if b then CHR 0x01 else CHR 0x00]),
      get_tag = (\<lambda>s. case s of [] \<Rightarrow> None | c # r \<Rightarrow> if c = CHR 0x00 then Some (False, r)
        else if c = CHR 0x01 then Some (True, r) else None),
      cid_cast = (\<lambda>b. if b = [] then None else Some b), pc_trailing = False\<rparr>"

lemma demo_postcard_ok: "postcard_ok demo_postcard"
  by (simp add: postcard_ok_def demo_postcard_def uvarint_split_append append_uvarint_small)

lemma demo_request_ok: "request_ok demo_postcard (NewSyncRequest (FullTraversal ''q'') InlineAll)"
  by (simp add: request_ok_def NewSyncRequest_def FullTraversal_def InlineAll_def traversal_ok_def
      cid_ok_def cids_ok_def filter_ok_def inline_ok_def all_filter_def zero_filter_def zero_inline_def
      demo_postcard_def)

theorem request_roundtrip_witness:
  "\<exists>b. Request_Encode demo_postcard (NewSyncRequest (FullTraversal ''q'') InlineAll) = Some b \<and>
     decodePostcard demo_postcard b = Some (NewSyncRequest (FullTraversal ''q'') InlineAll)"
proof -
  obtain b where b: "Request_Encode demo_postcard (NewSyncRequest (FullTraversal ''q'') InlineAll) = Some b"
    using Request_back [OF demo_postcard_ok demo_request_ok] by blast
  with request_roundtrip [OF demo_postcard_ok demo_request_ok b] show ?thesis by blast
qed

end
