(* ===== verification/Dag_Tables.thy ===== *)
theory Dag_Tables
  imports Dag_Protocol
begin

section \<open>DAG sync: tables and traversal (dagsync/tables.go, dagsync/traversal.go)\<close>

text \<open>
  The metadata tables, link extraction and the depth-first traversal with an explicit stack,
  whose termination is proved by the number of table keys not yet visited. Decoding dag-cbor,
  multihashes and the blob store are parameters.
\<close>

subsection \<open>Parameters\<close>

datatype node = Node_Link cid | Node_Map "node list" | Node_List "node list" | Node_Other

record ipld_ops = postcard +
  cid_type :: "cid \<Rightarrow> nat"
  cid_hash :: "cid \<Rightarrow> bytes"
  cbor_decode :: "bytes \<Rightarrow> node option"
  mh_decode :: "bytes \<Rightarrow> (nat \<times> int) option"
  mh_sum :: "bytes \<Rightarrow> nat \<Rightarrow> int \<Rightarrow> bytes option"

subsection \<open>Tables\<close>

record tables =
  t_hashes :: "(cid \<times> blob) list"
  t_links :: "(cid \<times> cid list) list"
  t_revLinks :: "(blob \<times> cid list) list"

definition NewTables :: tables where
  "NewTables = \<lparr>t_hashes = [], t_links = [], t_revLinks = []\<rparr>"

definition equalCID :: "cid \<Rightarrow> cid \<Rightarrow> bool" where
  "equalCID a b \<longleftrightarrow> a = b"

fun appendUniqueCID :: "cid list \<Rightarrow> cid \<Rightarrow> cid list" where
  "appendUniqueCID cids c = (if list_ex (\<lambda>x. equalCID x c) cids then cids else cids @ [c])"

definition Tables_Put :: "cid \<Rightarrow> blob \<Rightarrow> cid list \<Rightarrow> tables \<Rightarrow> tables" where
  "Tables_Put c h links t =
     t\<lparr>t_hashes := alist_put c h (t_hashes t), t_links := alist_put c links (t_links t),
       t_revLinks := alist_put h
         (appendUniqueCID (case map_of (t_revLinks t) h of None \<Rightarrow> [] | Some cs \<Rightarrow> cs) c) (t_revLinks t)\<rparr>"

definition BlobHash :: "tables \<Rightarrow> cid \<Rightarrow> blob option" where
  "BlobHash t c = map_of (t_hashes t) c"

definition Links :: "tables \<Rightarrow> cid \<Rightarrow> cid list option" where
  "Links t c = map_of (t_links t) c"

definition CIDsForHash :: "tables \<Rightarrow> blob \<Rightarrow> cid list" where
  "CIDsForHash t h = (case map_of (t_revLinks t) h of None \<Rightarrow> [] | Some cs \<Rightarrow> cs)"

text \<open>The walk of \<^verbatim>\<open>nodeLinks\<close>, in the order the iterators visit, with the links found so far.\<close>

fun walk :: "cid list \<Rightarrow> node \<Rightarrow> cid list" and walks :: "cid list \<Rightarrow> node list \<Rightarrow> cid list" where
  "walk out (Node_Link c) = appendUniqueCID out c"
| "walk out (Node_Map vs) = walks out vs"
| "walk out (Node_List vs) = walks out vs"
| "walk out Node_Other = out"
| "walks out [] = out"
| "walks out (v # vs) = walks (walk out v) vs"

definition nodeLinks :: "node \<Rightarrow> cid list" where
  "nodeLinks n = walk [] n"

definition ExtractLinks :: "'x ipld_ops_scheme \<Rightarrow> cid \<Rightarrow> bytes \<Rightarrow> cid list option" where
  "ExtractLinks E c data =
     (if cid_type E c = cid_Raw then Some []
      else if cid_type E c \<noteq> cid_DagCBOR then Some []
      else case cbor_decode E data of None \<Rightarrow> None | Some n \<Rightarrow> Some (nodeLinks n))"

definition cidMatchesData :: "'x ipld_ops_scheme \<Rightarrow> cid \<Rightarrow> bytes \<Rightarrow> bool" where
  "cidMatchesData E c data =
     (case mh_decode E (cid_hash E c) of
        None \<Rightarrow> False
      | Some (code, len) \<Rightarrow>
        (case mh_sum E data code len of None \<Rightarrow> False | Some got \<Rightarrow> got = cid_hash E c))"

subsection \<open>Traversal\<close>

text \<open>
  The loop of \<^verbatim>\<open>fullTraversal\<close>: the head of the list is the top of the stack, so pushing the
  links from the last to the first puts them in front in order.
\<close>

function full_loop ::
  "'x ipld_ops_scheme \<Rightarrow> filter_opts \<Rightarrow> tables \<Rightarrow> cid list \<Rightarrow> cid list \<Rightarrow> cid list" where
  "full_loop E filt t visited [] = []"
| "full_loop E filt t visited (c # stack) =
     (if c \<in> set visited then full_loop E filt t visited stack
      else
        (if includeCID (cid_type E) filt c then [c] else []) @
        (if cid_type E c = cid_Raw then full_loop E filt t (c # visited) stack
         else case Links t c of
           None \<Rightarrow> full_loop E filt t (c # visited) stack
         | Some links \<Rightarrow> full_loop E filt t (c # visited) (links @ stack)))"
  by pat_completeness auto

lemma unvisited_less:
  "Links t c = Some ls \<Longrightarrow> c \<notin> set visited \<Longrightarrow>
   card (fst ` set (t_links t) - set (c # visited)) < card (fst ` set (t_links t) - set visited)"
proof (rule psubset_card_mono)
  assume a: "Links t c = Some ls" "c \<notin> set visited"
  then have "c \<in> fst ` set (t_links t)" by (force simp: Links_def dest: map_of_SomeD)
  with a(2) show "fst ` set (t_links t) - set (c # visited) \<subset> fst ` set (t_links t) - set visited" by auto
qed simp

lemma unvisited_le:
  "card (fst ` set (t_links t) - set (c # visited)) \<le> card (fst ` set (t_links t) - set visited)"
  by (rule card_mono) auto

termination full_loop
proof (relation "measures [\<lambda>(E, filt, t, visited, stack). card (fst ` set (t_links t) - set visited),
    \<lambda>(E, filt, t, visited, stack). length stack]", goal_cases)
  case (3 E filt t visited c stack)
  then show ?case using unvisited_le [of t c visited] by auto
next
  case (4 E filt t visited c stack)
  then show ?case using unvisited_le [of t c visited] by auto
next
  case (5 E filt t visited c stack links)
  then show ?case using unvisited_less [of t c links visited] by simp
qed simp_all

definition fullTraversal :: "'x ipld_ops_scheme \<Rightarrow> full_opts \<Rightarrow> tables \<Rightarrow> cid list" where
  "fullTraversal E opts t =
     full_loop E (case Filter opts of None \<Rightarrow> all_filter | Some f \<Rightarrow> f) t (Visited opts) [Root opts]"

text \<open>\<open>None\<close> is the error of an empty traversal.\<close>

definition traversalCIDs :: "'x ipld_ops_scheme \<Rightarrow> traversal_opts \<Rightarrow> tables \<Rightarrow> cid list option" where
  "traversalCIDs E opts t =
     (case Sequence opts of
        Some cids \<Rightarrow> Some cids
      | None \<Rightarrow> (case Full opts of Some full \<Rightarrow> Some (fullTraversal E full t) | None \<Rightarrow> None))"

subsection \<open>Lemmas\<close>

interpretation blob_hashes: keyed_store "\<lambda>c h t. Tables_Put c h links t" BlobHash for links
  by unfold_locales (simp add: Tables_Put_def BlobHash_def)

interpretation links: keyed_store "\<lambda>c ls t. Tables_Put c h ls t" Links for h
  by unfold_locales (simp add: Tables_Put_def Links_def)

lemma full_loop_fresh: "set (full_loop E filt t visited stack) \<inter> set visited = {}"
  by (induction E filt t visited stack rule: full_loop.induct) (auto split: option.splits)

lemma full_loop_distinct: "distinct (full_loop E filt t visited stack)"
proof (induction E filt t visited stack rule: full_loop.induct)
  case (2 E filt t visited c stack)
  have "c \<notin> set (full_loop E filt t (c # visited) s)" for s
    using full_loop_fresh [of E filt t "c # visited" s] by auto
  with 2 show ?case by (auto split: option.splits)
qed simp

lemma full_loop_included: "\<forall>c \<in> set (full_loop E filt t visited stack). includeCID (cid_type E) filt c"
  by (induction E filt t visited stack rule: full_loop.induct) (auto split: option.splits)

text \<open>
  The links a traversal follows: from a non-raw CID to what the tables list for it, except to
  CIDs in \<open>V\<close>, those the requester has visited already.
\<close>

inductive linked :: "'x ipld_ops_scheme \<Rightarrow> tables \<Rightarrow> cid set \<Rightarrow> cid \<Rightarrow> cid \<Rightarrow> bool" for E t V where
  "cid_type E c \<noteq> cid_Raw \<Longrightarrow> Links t c = Some ls \<Longrightarrow> d \<in> set ls \<Longrightarrow> d \<notin> V \<Longrightarrow> linked E t V c d"

inductive_simps linked_iff: "linked E t V c d"

lemma linked_mono: "(linked E t V)\<^sup>*\<^sup>* c d \<Longrightarrow> U \<subseteq> V \<Longrightarrow> (linked E t U)\<^sup>*\<^sup>* c d"
  by (erule rtranclp_mono [THEN predicate2D, rotated]) (auto simp: linked_iff subset_iff)

lemma full_loop_sound:
  "c \<in> set (full_loop E filt t visited stack) \<Longrightarrow>
   \<exists>r \<in> set stack - set visited. (linked E t (set visited))\<^sup>*\<^sup>* r c"
proof (induction E filt t visited stack rule: full_loop.induct)
  case (2 E filt t visited x stack)
  have down: "\<exists>r \<in> set s - set visited. (linked E t (set visited))\<^sup>*\<^sup>* r c"
    if "\<exists>r \<in> set s - set (x # visited). (linked E t (set (x # visited)))\<^sup>*\<^sup>* r c" for s
  proof -
    from that obtain r where r: "r \<in> set s" "r \<notin> set visited" "(linked E t (set (x # visited)))\<^sup>*\<^sup>* r c" by auto
    have "(linked E t (set visited))\<^sup>*\<^sup>* r c" by (rule linked_mono [OF r(3)]) auto
    with r show ?thesis by blast
  qed
  show ?case
  proof (cases "x \<in> set visited")
    case True
    with 2 show ?thesis by auto
  next
    case new: False
    consider "c = x" | "cid_type E x = cid_Raw" "c \<in> set (full_loop E filt t (x # visited) stack)"
      | "cid_type E x \<noteq> cid_Raw" "Links t x = None" "c \<in> set (full_loop E filt t (x # visited) stack)"
      | ls where "cid_type E x \<noteq> cid_Raw" "Links t x = Some ls" "c \<in> set (full_loop E filt t (x # visited) (ls @ stack))"
      using "2.prems" new by (auto split: if_splits option.splits)
    then show ?thesis
    proof cases
      case 1
      with new show ?thesis by auto
    next
      case 2
      from down [OF "2.IH"(2) [OF new 2]] show ?thesis by auto
    next
      case 3
      from down [OF "2.IH"(3) [OF new 3]] show ?thesis by auto
    next
      case 4
      from down [OF "2.IH"(4) [OF new 4]] obtain r
        where r: "r \<in> set (ls @ stack)" "r \<notin> set visited" "(linked E t (set visited))\<^sup>*\<^sup>* r c" by auto
      show ?thesis
      proof (cases "r \<in> set stack")
        case False
        with r 4 have "linked E t (set visited) x r" by (auto simp: linked_iff)
        from converse_rtranclp_into_rtranclp [OF this r(3)] new show ?thesis by auto
      qed (use r in auto)
    qed
  qed
qed simp

lemma full_loop_filter:
  "full_loop E filt t visited stack =
   filter (includeCID (cid_type E) filt) (full_loop E all_filter t visited stack)"
proof (induction E filt t visited stack rule: full_loop.induct)
  case (2 E filt t visited c stack)
  have all: "includeCID (cid_type E) all_filter d" for d by (simp add: includeCID_def all_filter_def)
  show ?case
    by (cases "c \<in> set visited"; cases "cid_type E c = cid_Raw"; cases "Links t c")
      (use 2 all in simp_all)
qed simp

text \<open>With the filter that takes everything, the visited CIDs are closed under links.\<close>

lemma full_loop_closed:
  "set stack \<subseteq> set visited \<union> set (full_loop E all_filter t visited stack) \<and>
   (\<forall>c \<in> set (full_loop E all_filter t visited stack). \<forall>d. linked E t {} c d \<longrightarrow>
      d \<in> set visited \<union> set (full_loop E all_filter t visited stack))"
proof (induction E all_filter t visited stack rule: full_loop.induct)
  case (2 E t visited c stack)
  have all: "includeCID (cid_type E) all_filter d" for d by (simp add: includeCID_def all_filter_def)
  show ?case
  proof (cases "c \<in> set visited")
    case True
    with "2.hyps"(1) [OF True] show ?thesis by auto
  next
    case new: False
    show ?thesis
    proof (cases "cid_type E c = cid_Raw")
      case True
      with "2.hyps"(2) [OF new True] new all show ?thesis by (auto simp: linked_iff)
    next
      case node: False
      show ?thesis
      proof (cases "Links t c")
        case None
        with "2.hyps"(3) [OF new node None] new node all show ?thesis by (auto simp: linked_iff)
      next
        case (Some ls)
        with "2.hyps"(4) [OF new node Some] new node all show ?thesis by (fastforce simp: linked_iff)
      qed
    qed
  qed
qed simp

lemma full_loop_reaches:
  assumes "(linked E t (set visited))\<^sup>*\<^sup>* r c" and "r \<in> set stack" and "r \<notin> set visited"
  shows "c \<in> set (full_loop E all_filter t visited stack)"
  using assms(1)
proof (induction rule: rtranclp_induct)
  case base
  then show ?case using full_loop_closed [of stack visited E t] assms(2,3) by blast
next
  case (step c d)
  then have "linked E t {} c d" "d \<notin> set visited" by (auto simp: linked_iff)
  with step.IH show ?case using full_loop_closed [of stack visited E t] by blast
qed

declare full_loop.simps(2) [simp del]

subsection \<open>Properties\<close>

text \<open>C12: A full traversal visits exactly the reachable CIDs: it lists, each once, the CIDs that
  the filter takes among those that links lead to from the root, through non-raw nodes and
  around what the requester has visited; the loop always ends.\<close>

theorem traversal_exact:
  "distinct (fullTraversal E opts t) \<and>
   set (fullTraversal E opts t) =
     {c. Root opts \<notin> set (Visited opts) \<and> (linked E t (set (Visited opts)))\<^sup>*\<^sup>* (Root opts) c \<and>
         includeCID (cid_type E) (case Filter opts of None \<Rightarrow> all_filter | Some f \<Rightarrow> f) c}"
proof -
  let ?f = "case Filter opts of None \<Rightarrow> all_filter | Some f \<Rightarrow> f" and ?V = "Visited opts"
  have "set (full_loop E ?f t ?V [Root opts]) =
      {c \<in> set (full_loop E all_filter t ?V [Root opts]). includeCID (cid_type E) ?f c}"
    by (subst full_loop_filter) auto
  moreover have "c \<in> set (full_loop E all_filter t ?V [Root opts]) \<longleftrightarrow>
      Root opts \<notin> set ?V \<and> (linked E t (set ?V))\<^sup>*\<^sup>* (Root opts) c" for c
    using full_loop_sound [of c E all_filter t ?V "[Root opts]"]
      full_loop_reaches [of E t ?V "Root opts" c "[Root opts]"] by auto
  ultimately show ?thesis unfolding fullTraversal_def by (auto simp: full_loop_distinct)
qed

end
