(* ===== verification/Dag_Sync.thy ===== *)
theory Dag_Sync
  imports Dag_Tables
begin

section \<open>DAG sync: serving and reading responses (dagsync/sync.go)\<close>

text \<open>
  The server writes one header per traversed CID, with the encoded blob after a data header; the
  client walks the same DAG while the tables it walks are filled from the stream. The blob store,
  the BAO encoding and the client's memory store are parameters. A stream is the bytes still to
  be read; a context that ends is a predicate on the CID being handled.
\<close>

subsection \<open>Parameters\<close>

datatype dag_error =
    DagNilTables | DagNilBlobs | DagRead | DagRequestTooLarge | DagDecode | DagNonSync
  | DagEmptyTraversal | DagContext | DagNoHash | DagHeader | DagNoBlob | DagOpen
  | DagIncomplete | DagNoSize | DagEncode | DagHashMismatch | DagUnexpectedEOF | DagBlobDecode
  | DagCidMismatch | DagAdd | DagImportMismatch | DagLinks

text \<open>An opened blob: whether it is complete, its verified size, and its data.\<close>

record blob_entry =
  be_complete :: bool
  be_size :: "nat option"
  be_data :: bytes

record 'o dag_ops = ipld_ops +
  encode_blob :: "bytes \<Rightarrow> (blob \<times> bytes) option"
  decode_blob :: "blob \<Rightarrow> bytes \<Rightarrow> (bytes \<times> nat) option"
  mem_add :: "'o \<Rightarrow> bytes \<Rightarrow> ('o \<times> blob) option"
  mem_get :: "'o \<Rightarrow> blob \<Rightarrow> bytes option"

type_synonym blob_store = "blob \<Rightarrow> dag_error + blob_entry"

text \<open>
  What the blob packages document: the encoding of a blob decodes under its hash and takes just
  its own bytes of the stream; the memory store takes every blob under the same 32-byte hash and
  keeps what it holds.
\<close>

definition dag_ok :: "('o, 'x) dag_ops_scheme \<Rightarrow> bool" where
  "dag_ok E \<longleftrightarrow> postcard_ok E \<and>
     (\<forall>d h enc. encode_blob E d = Some (h, enc) \<longrightarrow> length h = 32 \<and>
        (\<forall>r. decode_blob E h (enc @ r) = Some (d, length enc)) \<and>
        (\<forall>s. \<exists>s'. mem_add E s d = Some (s', h))) \<and>
     (\<forall>s d s' h. mem_add E s d = Some (s', h) \<longrightarrow> mem_get E s' h = Some d \<and>
        (\<forall>h' x. mem_get E s h' = Some x \<longrightarrow> mem_get E s' h' = Some x))"

subsection \<open>The server\<close>

definition maxRequestSize :: nat where
  "maxRequestSize = 16 * 1024 * 1024"

definition readEntry :: "blob_entry \<Rightarrow> dag_error + bytes" where
  "readEntry e =
     (if \<not> be_complete e then Inl DagIncomplete
      else case be_size e of
        None \<Rightarrow> Inl DagNoSize
      | Some n \<Rightarrow> Inr (take n (be_data e) @ replicate (n - length (be_data e)) (CHR 0x00)))"

text \<open>The bytes written so far and the error, if any.\<close>

definition writeHeader :: "('o, 'x) dag_ops_scheme \<Rightarrow> header \<Rightarrow> bytes \<times> (dag_error + unit)" where
  "writeHeader E h = (case Header_Bytes E h of None \<Rightarrow> ([], Inl DagHeader) | Some b \<Rightarrow> (b, Inr ()))"

definition write_one ::
  "('o, 'x) dag_ops_scheme \<Rightarrow> (cid \<Rightarrow> bool) \<Rightarrow> (cid \<Rightarrow> bool) \<Rightarrow> tables \<Rightarrow> blob_store \<Rightarrow> cid \<Rightarrow>
   bytes \<times> (dag_error + unit)" where
  "write_one E cancelled inline t store c =
     (if cancelled c then ([], Inl DagContext)
      else case BlobHash t c of
        None \<Rightarrow> ([], Inl DagNoHash)
      | Some h \<Rightarrow>
        if inline c then
          (case writeHeader E (DataHeader h) of
             (b, Inl e) \<Rightarrow> (b, Inl e)
           | (b, Inr _) \<Rightarrow>
             (case store h of
                Inl e \<Rightarrow> (b, Inl e)
              | Inr entry \<Rightarrow>
                (case readEntry entry of
                   Inl e \<Rightarrow> (b, Inl e)
                 | Inr data \<Rightarrow>
                   (case encode_blob E data of
                      None \<Rightarrow> (b, Inl DagEncode)
                    | Some (got, enc) \<Rightarrow>
                      if got \<noteq> h then (b, Inl DagHashMismatch) else (b @ enc, Inr ())))))
        else writeHeader E (HashHeader h))"

fun write_items ::
  "('o, 'x) dag_ops_scheme \<Rightarrow> (cid \<Rightarrow> bool) \<Rightarrow> (cid \<Rightarrow> bool) \<Rightarrow> tables \<Rightarrow> blob_store \<Rightarrow> cid list \<Rightarrow>
   bytes \<times> (dag_error + unit)" where
  "write_items E cancelled inline t store [] = ([], Inr ())"
| "write_items E cancelled inline t store (c # cs) =
     (case write_one E cancelled inline t store c of
        (b, Inl e) \<Rightarrow> (b, Inl e)
      | (b, Inr _) \<Rightarrow> (let (bs, r) = write_items E cancelled inline t store cs in (b @ bs, r)))"

definition WriteSyncResponse ::
  "('o, 'x) dag_ops_scheme \<Rightarrow> (cid \<Rightarrow> bool) \<Rightarrow> sync_request \<Rightarrow> tables \<Rightarrow> blob_store \<Rightarrow>
   bytes \<times> (dag_error + unit)" where
  "WriteSyncResponse E cancelled req t store =
     (case traversalCIDs E (Traversal req) t of
        None \<Rightarrow> ([], Inl DagEmptyTraversal)
      | Some cids \<Rightarrow> write_items E cancelled (inlinePredicate (cid_type E) (Inline req)) t store cids)"

text \<open>
  One stream of the handler: \<open>reqBytes\<close> is what the peer sent, cut at one byte over the limit;
  nil tables or store are \<open>None\<close>.
\<close>

definition HandleStream ::
  "('o, 'x) dag_ops_scheme \<Rightarrow> (cid \<Rightarrow> bool) \<Rightarrow> tables option \<Rightarrow> blob_store option \<Rightarrow> bytes \<Rightarrow>
   bytes \<times> (dag_error + unit)" where
  "HandleStream E cancelled ts store sent =
     (case (ts, store) of
        (None, _) \<Rightarrow> ([], Inl DagNilTables)
      | (Some t, None) \<Rightarrow> ([], Inl DagNilBlobs)
      | (Some t, Some m) \<Rightarrow>
        (let reqBytes = take (maxRequestSize + 1) sent in
         if length reqBytes > maxRequestSize then ([], Inl DagRequestTooLarge)
         else case decodePostcard E reqBytes of
           None \<Rightarrow> ([], Inl DagDecode)
         | Some None \<Rightarrow> ([], Inl DagNonSync)
         | Some (Some req) \<Rightarrow> WriteSyncResponse E cancelled req t m))"

subsection \<open>The client\<close>

record 'o reader =
  r_tables :: tables
  r_out :: 'o
  r_in :: bytes

text \<open>
  \<^verbatim>\<open>io.ReadFull\<close> of a header: \<open>Inl True\<close> is the end of the stream, \<open>Inl False\<close> any other failure;
  bytes of a cut header are consumed.
\<close>

definition readHeader :: "('o, 'x) dag_ops_scheme \<Rightarrow> bytes \<Rightarrow> (bool + header) \<times> bytes" where
  "readHeader E s =
     (if s = [] then (Inl True, [])
      else if length s < 33 then (Inl False, [])
      else case decodeHeader E (take 33 s) of
        None \<Rightarrow> (Inl False, drop 33 s)
      | Some h \<Rightarrow> (Inr h, drop 33 s))"

definition readOneResponse ::
  "('o, 'x) dag_ops_scheme \<Rightarrow> (cid \<Rightarrow> bool) \<Rightarrow> cid \<Rightarrow> 'o reader \<Rightarrow> 'o reader \<times> (dag_error + unit)" where
  "readOneResponse E cancelled c r0 =
     (if cancelled c then (r0, Inl DagContext)
      else let (hdr, rest) = readHeader E (r_in r0); r = r0\<lparr>r_in := rest\<rparr> in
      case hdr of
        Inl True \<Rightarrow> (r, Inr ())
      | Inl False \<Rightarrow> (r, Inl DagUnexpectedEOF)
      | Inr h \<Rightarrow>
        (case h_Hash h of
           Some hash \<Rightarrow> (r\<lparr>r_tables := Tables_Put c hash [] (r_tables r)\<rparr>, Inr ())
         | None \<Rightarrow>
           (case h_Data h of
              None \<Rightarrow> (r, Inl DagHeader)
            | Some want \<Rightarrow>
              (case decode_blob E want (r_in r) of
                 None \<Rightarrow> (r, Inl DagBlobDecode)
               | Some (data, used) \<Rightarrow>
                 (let r = r\<lparr>r_in := drop used (r_in r)\<rparr> in
                  if \<not> cidMatchesData E c data then (r, Inl DagCidMismatch)
                  else case mem_add E (r_out r) data of
                    None \<Rightarrow> (r, Inl DagAdd)
                  | Some (out, hash) \<Rightarrow>
                    (let r = r\<lparr>r_out := out\<rparr> in
                     if hash \<noteq> want then (r, Inl DagImportMismatch)
                     else case ExtractLinks E c data of
                       None \<Rightarrow> (r, Inl DagLinks)
                     | Some ls \<Rightarrow> (r\<lparr>r_tables := Tables_Put c hash ls (r_tables r)\<rparr>, Inr ())))))))"

fun read_items ::
  "('o, 'x) dag_ops_scheme \<Rightarrow> (cid \<Rightarrow> bool) \<Rightarrow> cid list \<Rightarrow> 'o reader \<Rightarrow> 'o reader \<times> (dag_error + unit)" where
  "read_items E cancelled [] r = (r, Inr ())"
| "read_items E cancelled (c # cs) r =
     (case readOneResponse E cancelled c r of
        (r', Inl e) \<Rightarrow> (r', Inl e)
      | (r', Inr _) \<Rightarrow> read_items E cancelled cs r')"

text \<open>One item either consumes input or changes nothing, the end of the stream.\<close>

lemma readOne_progress:
  assumes "readOneResponse E cancelled c r = (r', Inr u)"
  shows "length (r_in r') < length (r_in r) \<or> r' = r"
proof (cases "r_in r")
  case Nil
  with assms show ?thesis by (auto simp: readOneResponse_def readHeader_def split: if_splits)
next
  case (Cons x xs)
  with assms show ?thesis
    by (auto simp: readOneResponse_def readHeader_def Let_def less_Suc_eq_le split: if_splits option.splits)
qed

text \<open>The loop of \<^verbatim>\<open>readFullSyncResponse\<close>, with the stack as in \<open>full_loop\<close>.\<close>

function read_loop ::
  "('o, 'x) dag_ops_scheme \<Rightarrow> (cid \<Rightarrow> bool) \<Rightarrow> filter_opts \<Rightarrow> cid list \<Rightarrow> cid list \<Rightarrow> 'o reader \<Rightarrow>
   'o reader \<times> (dag_error + unit)" where
  "read_loop E cancelled filt visited [] r = (r, Inr ())"
| "read_loop E cancelled filt visited (c # stack) r =
     (if c \<in> set visited then read_loop E cancelled filt visited stack r
      else
        (case (if includeCID (cid_type E) filt c then readOneResponse E cancelled c r else (r, Inr ())) of
           (r', Inl e) \<Rightarrow> (r', Inl e)
         | (r', Inr _) \<Rightarrow>
           if cid_type E c = cid_Raw then read_loop E cancelled filt (c # visited) stack r'
           else (case Links (r_tables r') c of
               None \<Rightarrow> read_loop E cancelled filt (c # visited) stack r'
             | Some links \<Rightarrow> read_loop E cancelled filt (c # visited) (links @ stack) r')))"
  by pat_completeness auto

lemma read_progress:
  assumes "(r', Inr u) = (if b then readOneResponse E cancelled c r else (r, Inr ()))"
  shows "length (r_in r') < length (r_in r) \<or> r' = r"
  using assms readOne_progress by (metis Pair_inject)

termination read_loop
proof (relation "measures [\<lambda>(E, x, f, v, s, r). length (r_in r),
    \<lambda>(E, x, f, v, s, r). card (fst ` set (t_links (r_tables r)) - set v),
    \<lambda>(E, x, f, v, s, r). length s]", goal_cases)
  case (3 E cancelled filt visited c stack r r' s u)
  then have "length (r_in r') < length (r_in r) \<or> r' = r" using read_progress by metis
  then show ?case using unvisited_le [of "r_tables r" c visited] by auto
next
  case (4 E cancelled filt visited c stack r r' s u)
  then have "length (r_in r') < length (r_in r) \<or> r' = r" using read_progress by metis
  then show ?case using unvisited_le [of "r_tables r" c visited] by auto
next
  case (5 E cancelled filt visited c stack r r' s u links)
  then have "length (r_in r') < length (r_in r) \<or> r' = r" using read_progress by metis
  then show ?case using 5 unvisited_less [of "r_tables r" c links visited] by auto
qed simp_all

definition readFullSyncResponse ::
  "('o, 'x) dag_ops_scheme \<Rightarrow> (cid \<Rightarrow> bool) \<Rightarrow> full_opts \<Rightarrow> 'o reader \<Rightarrow> 'o reader \<times> (dag_error + unit)" where
  "readFullSyncResponse E cancelled opts r =
     read_loop E cancelled (case Filter opts of None \<Rightarrow> all_filter | Some f \<Rightarrow> f) (Visited opts)
       [Root opts] r"

definition ReadSyncResponse ::
  "('o, 'x) dag_ops_scheme \<Rightarrow> (cid \<Rightarrow> bool) \<Rightarrow> traversal_opts \<Rightarrow> 'o reader \<Rightarrow> 'o reader \<times> (dag_error + unit)" where
  "ReadSyncResponse E cancelled tr r =
     (case Full tr of
        Some full \<Rightarrow> readFullSyncResponse E cancelled full r
      | None \<Rightarrow>
        (case traversalCIDs E tr (r_tables r) of
           None \<Rightarrow> (r, Inl DagEmptyTraversal)
         | Some cids \<Rightarrow> read_items E cancelled cids r))"

definition ImportBytes ::
  "('o, 'x) dag_ops_scheme \<Rightarrow> bool \<Rightarrow> cid \<Rightarrow> bytes \<Rightarrow> 'o option \<times> tables \<Rightarrow>
   ('o option \<times> tables) \<times> (dag_error + blob)" where
  "ImportBytes E ctx_done c data s =
     (case s of
        (None, t) \<Rightarrow> ((None, t), Inl DagNilBlobs)
      | (Some m, t) \<Rightarrow>
        (case mem_add E m data of
           None \<Rightarrow> ((Some m, t), Inl DagAdd)
         | Some (m', hash) \<Rightarrow>
           (case ExtractLinks E c data of
              None \<Rightarrow> ((Some m', t), Inl DagLinks)
            | Some links \<Rightarrow>
              ((Some m', Tables_Put c hash links t), if ctx_done then Inl DagContext else Inr hash))))"

declare read_loop.simps(2) [simp del]

subsection \<open>Lemmas: one item\<close>

text \<open>
  What a server's tables and store promise each other: the data stored for a CID hashes to the
  CID, and the links of the tables are those of the data.
\<close>

definition server_ok :: "('o, 'x) dag_ops_scheme \<Rightarrow> tables \<Rightarrow> blob_store \<Rightarrow> bool" where
  "server_ok E t store \<longleftrightarrow>
     (\<forall>c h entry data. BlobHash t c = Some h \<and> store h = Inr entry \<and> readEntry entry = Inr data \<longrightarrow>
        cidMatchesData E c data \<and> ExtractLinks E c data = Links t c)"

text \<open>Links are extracted for the data that a writer sent.\<close>

definition links_ok :: "('o, 'x) dag_ops_scheme \<Rightarrow> tables \<Rightarrow> bool" where
  "links_ok E t \<longleftrightarrow> (\<forall>c h. BlobHash t c = Some h \<longrightarrow> Links t c \<noteq> None)"

lemma write_one_ok:
  assumes "write_one E cancelled inline t store c = (b, Inr ())" and "inline c" and "dag_ok E"
  obtains h entry data enc where "BlobHash t c = Some h" "store h = Inr entry" "readEntry entry = Inr data"
    "encode_blob E data = Some (h, enc)" "b = pc_uint E 1 @ h @ enc" "length h = 32"
proof -
  from assms(1,2) obtain h hb entry data enc where w: "BlobHash t c = Some h"
    "writeHeader E (DataHeader h) = (hb, Inr ())" "store h = Inr entry" "readEntry entry = Inr data"
    "encode_blob E data = Some (h, enc)" "b = hb @ enc"
    by (auto simp: write_one_def split: if_splits option.splits prod.splits sum.splits)
  have len: "length h = 32" and P: "postcard_ok E" using assms(3) w(5) by (auto simp: dag_ok_def)
  from w(2) decodeHeader_Bytes(2) [OF P len] have "hb = pc_uint E 1 @ h" by (simp add: writeHeader_def)
  with w len show ?thesis by (intro that) simp_all
qed

lemma readOne_written:
  assumes "write_one E cancelled inline t store c = (b, Inr ())" and "inline c"
    and "dag_ok E" and "server_ok E t store" and "links_ok E t" and "r_in r = b @ rest"
  obtains h data ls out where "BlobHash t c = Some h" "Links t c = Some ls" "cidMatchesData E c data"
    "mem_add E (r_out r) data = Some (out, h)"
    "readOneResponse E (\<lambda>_. False) c r =
       (r\<lparr>r_tables := Tables_Put c h ls (r_tables r), r_out := out, r_in := rest\<rparr>, Inr ())"
proof -
  obtain h entry data enc where w: "BlobHash t c = Some h" "store h = Inr entry" "readEntry entry = Inr data"
    "encode_blob E data = Some (h, enc)" and b: "b = pc_uint E 1 @ h @ enc" and len: "length h = 32"
    by (rule write_one_ok [OF assms(1-3)])
  have P: "postcard_ok E" and dec: "\<And>r. decode_blob E h (enc @ r) = Some (data, length enc)"
    and "\<exists>s'. mem_add E (r_out r) data = Some (s', h)"
    using assms(3) w(4) unfolding dag_ok_def by blast+
  then obtain out where out: "mem_add E (r_out r) data = Some (out, h)" by blast
  obtain ls where ls: "Links t c = Some ls" using assms(5) w(1) by (auto simp: links_ok_def)
  have ok: "cidMatchesData E c data" "ExtractLinks E c data = Some ls"
    using assms(4) w ls unfolding server_ok_def by metis+
  have "length (pc_uint E 1) = 1" using P by (simp add: postcard_ok_def)
  then obtain x where one: "pc_uint E 1 = [x]" by (auto simp: length_Suc_conv)
  have "readHeader E (r_in r) = (Inr (DataHeader h), enc @ rest)"
    using assms(6) len decodeHeader_Bytes(4) [OF P len] unfolding b one by (simp add: readHeader_def)
  with dec ok out have "readOneResponse E (\<lambda>_. False) c r =
      (r\<lparr>r_tables := Tables_Put c h ls (r_tables r), r_out := out, r_in := rest\<rparr>, Inr ())"
    by (simp add: readOneResponse_def DataHeader_def)
  with w(1) ls ok(1) out show ?thesis by (rule that)
qed

subsection \<open>Lemmas: the two walks in step\<close>

text \<open>
  What a reader ends with when it has read the items of \<open>cids\<close> from the server: the rest of the
  stream, the server's rows for these CIDs and its own for the others, and every blob stored.
\<close>

definition synced ::
  "('o, 'x) dag_ops_scheme \<Rightarrow> tables \<Rightarrow> cid list \<Rightarrow> bytes \<Rightarrow> 'o reader \<Rightarrow> 'o reader \<Rightarrow> bool" where
  "synced E t cids rest r r' \<longleftrightarrow>
     r_in r' = rest \<and>
     (\<forall>c. BlobHash (r_tables r') c = (if c \<in> set cids then BlobHash t c else BlobHash (r_tables r) c)) \<and>
     (\<forall>c. Links (r_tables r') c = (if c \<in> set cids then Links t c else Links (r_tables r) c)) \<and>
     (\<forall>c \<in> set cids. \<exists>h data. BlobHash t c = Some h \<and> mem_get E (r_out r') h = Some data \<and>
        cidMatchesData E c data) \<and>
     (\<forall>h x. mem_get E (r_out r) h = Some x \<longrightarrow> mem_get E (r_out r') h = Some x)"

lemma synced_Nil: "r_in r = rest \<Longrightarrow> synced E t [] rest r r"
  by (simp add: synced_def)

lemma synced_Cons:
  assumes "dag_ok E" and "BlobHash t c = Some h" "Links t c = Some ls" "cidMatchesData E c data"
    and "mem_add E (r_out r) data = Some (out, h)"
    and "synced E t cids rest (r\<lparr>r_tables := Tables_Put c h ls (r_tables r), r_out := out, r_in := mid\<rparr>) r'"
  shows "synced E t (c # cids) rest r r'"
proof -
  let ?r1 = "r\<lparr>r_tables := Tables_Put c h ls (r_tables r), r_out := out, r_in := mid\<rparr>"
  have mem: "mem_get E out h = Some data" "\<And>h' x. mem_get E (r_out r) h' = Some x \<Longrightarrow> mem_get E out h' = Some x"
    using assms(1,5) unfolding dag_ok_def by blast+
  have keep: "\<And>h' x. mem_get E out h' = Some x \<Longrightarrow> mem_get E (r_out r') h' = Some x"
    using assms(6) by (simp add: synced_def)
  have "BlobHash (r_tables r') d = (if d \<in> set (c # cids) then BlobHash t d else BlobHash (r_tables r) d)" for d
    using assms(2,6) by (auto simp: synced_def blob_hashes.get_put)
  moreover have "Links (r_tables r') d = (if d \<in> set (c # cids) then Links t d else Links (r_tables r) d)" for d
    using assms(3,6) by (auto simp: synced_def links.get_put)
  moreover have "\<exists>h data. BlobHash t d = Some h \<and> mem_get E (r_out r') h = Some data \<and> cidMatchesData E d data"
    if "d \<in> set (c # cids)" for d
    using that assms(2,4,6) keep [OF mem(1)] by (auto simp: synced_def)
  moreover have "r_in r' = rest" using assms(6) by (simp add: synced_def)
  moreover have "mem_get E (r_out r') h' = Some x" if "mem_get E (r_out r) h' = Some x" for h' x
    by (rule keep [OF mem(2) [OF that]])
  ultimately show ?thesis unfolding synced_def by blast
qed

lemma write_items_Cons:
  assumes "write_items E cancelled inline t store (c # cs) = (bs, Inr ())"
  obtains b bs' where "write_one E cancelled inline t store c = (b, Inr ())"
    "write_items E cancelled inline t store cs = (bs', Inr ())" "bs = b @ bs'"
  using assms by (auto simp: Let_def split: prod.splits sum.splits)

lemma read_loop_synced:
  assumes "dag_ok E" "server_ok E t store" "links_ok E t"
    and "\<And>c. cid_type E c \<noteq> cid_Raw \<Longrightarrow> includeCID (cid_type E) filt c" and "\<And>c. inline c"
  shows "write_items E cancelled inline t store (full_loop E filt t visited stack) = (bs, Inr ()) \<Longrightarrow>
    r_in r = bs @ rest \<Longrightarrow>
    \<exists>r'. read_loop E (\<lambda>_. False) filt visited stack r = (r', Inr ()) \<and>
      synced E t (full_loop E filt t visited stack) rest r r'"
proof (induction E\<equiv>"E" filt\<equiv>"filt" t\<equiv>"t" visited stack arbitrary: bs r rule: full_loop.induct)
  case (1 visited)
  then show ?case by (simp add: synced_Nil)
next
  case (2 visited c stack)
  show ?case
  proof (cases "c \<in> set visited")
    case True
    with 2 show ?thesis by (simp add: full_loop.simps(2) read_loop.simps(2))
  next
    case new: False
    show ?thesis
    proof (cases "includeCID (cid_type E) filt c")
      case False
      then have raw: "cid_type E c = cid_Raw" using assms(4) by blast
      with 2 new False show ?thesis by (simp add: full_loop.simps(2) read_loop.simps(2))
    next
      case inc: True
      define nxt where "nxt = (if cid_type E c = cid_Raw then stack
          else case Links t c of None \<Rightarrow> stack | Some ls \<Rightarrow> ls @ stack)"
      have cids: "full_loop E filt t visited (c # stack) = c # full_loop E filt t (c # visited) nxt"
        using new inc by (simp add: full_loop.simps(2) nxt_def split: option.splits)
      have IH: "\<exists>r'. read_loop E (\<lambda>_. False) filt (c # visited) nxt r1 = (r', Inr ()) \<and>
          synced E t (full_loop E filt t (c # visited) nxt) rest r1 r'"
        if "write_items E cancelled inline t store (full_loop E filt t (c # visited) nxt) = (bs', Inr ())"
          "r_in r1 = bs' @ rest" for bs' r1
        using that "2.hyps" new unfolding nxt_def
        by (cases "cid_type E c = cid_Raw"; cases "Links t c") simp_all
      obtain b bs' where w: "write_one E cancelled inline t store c = (b, Inr ())"
        "write_items E cancelled inline t store (full_loop E filt t (c # visited) nxt) = (bs', Inr ())"
        "bs = b @ bs'"
        using "2.prems"(1) unfolding cids by (rule write_items_Cons)
      have "r_in r = b @ bs' @ rest" using "2.prems"(2) w(3) by simp
      then obtain h data ls out where one: "BlobHash t c = Some h" "Links t c = Some ls"
        "cidMatchesData E c data" "mem_add E (r_out r) data = Some (out, h)"
        and read: "readOneResponse E (\<lambda>_. False) c r = (r\<lparr>r_tables := Tables_Put c h ls (r_tables r),
            r_out := out, r_in := bs' @ rest\<rparr>, Inr ())"
        by (rule readOne_written [OF w(1) assms(5) assms(1-3)])
      let ?r1 = "r\<lparr>r_tables := Tables_Put c h ls (r_tables r), r_out := out, r_in := bs' @ rest\<rparr>"
      obtain r' where r': "read_loop E (\<lambda>_. False) filt (c # visited) nxt ?r1 = (r', Inr ())"
        "synced E t (full_loop E filt t (c # visited) nxt) rest ?r1 r'"
        using IH [OF w(2), of ?r1] by auto
      have "read_loop E (\<lambda>_. False) filt visited (c # stack) r = (r', Inr ())"
        using new inc read r'(1) one(2)
        by (simp add: read_loop.simps(2) nxt_def links.get_put split: if_splits)
      with synced_Cons [OF assms(1) one r'(2)] show ?thesis unfolding cids by blast
    qed
  qed
qed

lemma read_items_synced:
  assumes "dag_ok E" "server_ok E t store" "links_ok E t" and "\<And>c. inline c"
  shows "write_items E cancelled inline t store cids = (bs, Inr ()) \<Longrightarrow> r_in r = bs @ rest \<Longrightarrow>
    \<exists>r'. read_items E (\<lambda>_. False) cids r = (r', Inr ()) \<and> synced E t cids rest r r'"
proof (induction cids arbitrary: bs r)
  case Nil
  then show ?case by (simp add: synced_Nil)
next
  case (Cons c cids)
  obtain b bs' where w: "write_one E cancelled inline t store c = (b, Inr ())"
    "write_items E cancelled inline t store cids = (bs', Inr ())" "bs = b @ bs'"
    using Cons.prems(1) by (rule write_items_Cons)
  have "r_in r = b @ bs' @ rest" using Cons.prems(2) w(3) by simp
  then obtain h data ls out where one: "BlobHash t c = Some h" "Links t c = Some ls"
    "cidMatchesData E c data" "mem_add E (r_out r) data = Some (out, h)"
    and read: "readOneResponse E (\<lambda>_. False) c r = (r\<lparr>r_tables := Tables_Put c h ls (r_tables r),
        r_out := out, r_in := bs' @ rest\<rparr>, Inr ())"
    by (rule readOne_written [OF w(1) assms(4) assms(1-3)])
  let ?r1 = "r\<lparr>r_tables := Tables_Put c h ls (r_tables r), r_out := out, r_in := bs' @ rest\<rparr>"
  obtain r' where r': "read_items E (\<lambda>_. False) cids ?r1 = (r', Inr ())" "synced E t cids rest ?r1 r'"
    using Cons.IH [OF w(2), of ?r1] by auto
  with read synced_Cons [OF assms(1) one r'(2)] show ?case by simp
qed

subsection \<open>Lemmas: what a stream cannot forge\<close>

text \<open>The links a reader acts on are those of stored data that hashes to the CID.\<close>

definition links_backed :: "('o, 'x) dag_ops_scheme \<Rightarrow> 'o reader \<Rightarrow> bool" where
  "links_backed E r \<longleftrightarrow>
     (\<forall>c ls. Links (r_tables r) c = Some ls \<and> ls \<noteq> [] \<longrightarrow>
        (\<exists>h data. BlobHash (r_tables r) c = Some h \<and> mem_get E (r_out r) h = Some data \<and>
           cidMatchesData E c data \<and> ExtractLinks E c data = Some ls))"

lemma links_backed_in: "links_backed E (r\<lparr>r_in := s\<rparr>) = links_backed E r"
  by (simp add: links_backed_def)

lemma mem_added: "dag_ok E \<Longrightarrow> mem_add E m data = Some (out, h) \<Longrightarrow> mem_get E out h = Some data"
  unfolding dag_ok_def by blast

lemma mem_keep:
  assumes "dag_ok E" and "mem_add E m data = Some (out, h)" and "mem_get E m h' = Some x"
  shows "mem_get E out h' = Some x"
proof -
  have "\<forall>s d s' h. mem_add E s d = Some (s', h) \<longrightarrow>
      (\<forall>h' x. mem_get E s h' = Some x \<longrightarrow> mem_get E s' h' = Some x)"
    using assms(1) by (simp add: dag_ok_def)
  with assms(2,3) show ?thesis by blast
qed

lemma links_backed_add:
  "dag_ok E \<Longrightarrow> mem_add E (r_out r) data = Some (out, h) \<Longrightarrow> links_backed E r \<Longrightarrow>
   links_backed E (r\<lparr>r_out := out\<rparr>)"
  unfolding links_backed_def by simp (blast intro: mem_keep)

lemma links_backed_hash:
  "links_backed E r \<Longrightarrow> links_backed E (r\<lparr>r_tables := Tables_Put c h [] (r_tables r)\<rparr>)"
  by (auto simp: links_backed_def links.get_put blob_hashes.get_put)

lemma links_backed_data:
  assumes "links_backed E r" and "mem_get E (r_out r) h = Some data" and "cidMatchesData E c data"
    and "ExtractLinks E c data = Some ls"
  shows "links_backed E (r\<lparr>r_tables := Tables_Put c h ls (r_tables r)\<rparr>)"
  using assms by (auto simp: links_backed_def links.get_put blob_hashes.get_put)

lemma readOne_backed:
  assumes "dag_ok E" and "links_backed E r"
  shows "links_backed E (fst (readOneResponse E cancelled c r))"
proof -
  let ?r = "\<lambda>s. r\<lparr>r_in := s\<rparr>"
  have b: "links_backed E (?r s)" for s using assms(2) by (simp add: links_backed_in)
  have added: "links_backed E (?r s\<lparr>r_out := out\<rparr>)"
    if "mem_add E (r_out r) data = Some (out, h)" for s data out h
    by (rule links_backed_add [OF assms(1) _ b]) (simp, rule that)
  have put: "links_backed E (?r s\<lparr>r_out := out, r_tables := Tables_Put c h ls (r_tables r)\<rparr>)"
    if "mem_add E (r_out r) data = Some (out, h)" "cidMatchesData E c data"
      "ExtractLinks E c data = Some ls" for s data out h ls
    using links_backed_data [OF added [OF that(1)] _ that(2,3), of s h] mem_added [OF assms(1) that(1)]
    by simp
  show ?thesis
    using b [of "[]"] links_backed_hash [OF b]
    by (auto simp: readOneResponse_def Let_def assms(2) b dest: added put
        split: sum.splits bool.splits option.splits prod.splits)
qed

lemma read_loop_backed:
  "dag_ok E \<Longrightarrow> links_backed E r \<Longrightarrow> links_backed E (fst (read_loop E cancelled filt visited stack r))"
proof (induction E cancelled filt visited stack r rule: read_loop.induct)
  case (2 E cancelled filt visited c stack r)
  let ?one = "if includeCID (cid_type E) filt c then readOneResponse E cancelled c r else (r, Inr ())"
  have one: "links_backed E (fst ?one)"
    using readOne_backed [OF "2.prems"] "2.prems"(2) by simp
  show ?case
  proof (cases "c \<in> set visited")
    case True
    with 2 show ?thesis by (simp add: read_loop.simps(2))
  next
    case new: False
    obtain r' res where eq: "?one = (r', res)" by (cases ?one)
    show ?thesis
    proof (cases res)
      case (Inl e)
      with new eq one show ?thesis by (simp add: read_loop.simps(2))
    next
      case (Inr u)
      note step = new eq [symmetric] Inr
      show ?thesis
        using "2.IH"(2-4) [OF step] "2.prems"(1) one step eq
        by (auto simp: read_loop.simps(2) split: option.splits)
    qed
  qed
qed simp

lemma read_items_backed:
  "dag_ok E \<Longrightarrow> links_backed E r \<Longrightarrow> links_backed E (fst (read_items E cancelled cids r))"
proof (induction cids arbitrary: r)
  case (Cons c cids)
  obtain r' res where eq: "readOneResponse E cancelled c r = (r', res)"
    by (cases "readOneResponse E cancelled c r")
  with readOne_backed [OF Cons.prems, of cancelled c] have "links_backed E r'" by simp
  with Cons eq show ?case by (cases res) simp_all
qed simp

lemma read_loop_empty: "r_in r = [] \<Longrightarrow> read_loop E (\<lambda>_. False) filt visited stack r = (r, Inr ())"
proof (induction E "\<lambda>c :: cid. False" filt visited stack r rule: read_loop.induct)
  case (2 E filt visited c stack r)
  have one: "(if includeCID (cid_type E) filt c then readOneResponse E (\<lambda>_. False) c r
      else (r, Inr ())) = (r, Inr ())"
    using 2 by (simp add: readOneResponse_def readHeader_def)
  show ?case
    using "2.hyps"(1) "2.hyps"(2-4) [OF _ one [symmetric] refl] "2.prems"
    by (simp add: read_loop.simps(2) one split: option.splits)
qed simp

subsection \<open>Properties\<close>

text \<open>C10: A sync with all data inline transfers the traversed DAG: if the server's tables match its
  store and it answers without error, the client reads the answer without error, leaves the rest
  of the stream untouched, ends with the server's hash and links for every CID of the traversal
  and its own rows for all others, and holds the data, which hashes to the CID.\<close>

theorem sync_transfers_dag:
  assumes "dag_ok E" and "server_ok E t store" and "links_ok E t"
    and "\<forall>c. inlinePredicate (cid_type E) (Inline req) c"
    and "\<forall>full filt c. Full (Traversal req) = Some full \<and> Filter full = Some filt \<and> cid_type E c \<noteq> cid_Raw
      \<longrightarrow> includeCID (cid_type E) filt c"
    and "(Sequence (Traversal req) = None) \<noteq> (Full (Traversal req) = None)"
    and "WriteSyncResponse E cancelled req t store = (bs, Inr ())"
  shows "\<exists>cids r'. traversalCIDs E (Traversal req) t = Some cids \<and>
    ReadSyncResponse E (\<lambda>_. False) (Traversal req) \<lparr>r_tables = t0, r_out = out0, r_in = bs @ rest\<rparr>
      = (r', Inr ()) \<and>
    synced E t cids rest \<lparr>r_tables = t0, r_out = out0, r_in = bs @ rest\<rparr> r'"
proof -
  let ?tr = "Traversal req" and ?r = "\<lparr>r_tables = t0, r_out = out0, r_in = bs @ rest\<rparr>"
  let ?inline = "inlinePredicate (cid_type E) (Inline req)"
  from assms(7) obtain cids where cids: "traversalCIDs E ?tr t = Some cids"
    and w: "write_items E cancelled ?inline t store cids = (bs, Inr ())"
    by (auto simp: WriteSyncResponse_def split: option.splits)
  show ?thesis
  proof (cases "Full ?tr")
    case None
    with assms(6) cids have "Sequence ?tr = Some cids" by (auto simp: traversalCIDs_def)
    moreover obtain r' where "read_items E (\<lambda>_. False) cids ?r = (r', Inr ())" "synced E t cids rest ?r r'"
      using read_items_synced [OF assms(1-3) _ w, of ?r rest] assms(4) by auto
    ultimately show ?thesis using None cids by (auto simp: ReadSyncResponse_def traversalCIDs_def)
  next
    case (Some full)
    let ?f = "case Filter full of None \<Rightarrow> all_filter | Some f \<Rightarrow> f"
    have inc: "includeCID (cid_type E) ?f c" if "cid_type E c \<noteq> cid_Raw" for c
    proof (cases "Filter full")
      case None
      then show ?thesis by (simp add: includeCID_def all_filter_def)
    next
      case filt: (Some f)
      then show ?thesis using assms(5) Some that by simp
    qed
    from Some assms(6) cids have loop: "cids = full_loop E ?f t (Visited full) [Root full]"
      by (auto simp: traversalCIDs_def fullTraversal_def)
    obtain r' where "read_loop E (\<lambda>_. False) ?f (Visited full) [Root full] ?r = (r', Inr ())"
      "synced E t cids rest ?r r'"
      using read_loop_synced [OF assms(1-3) inc, of ?inline cancelled "Visited full" "[Root full]" bs ?r rest]
        assms(4) w unfolding loop by auto
    with Some cids show ?thesis by (auto simp: ReadSyncResponse_def readFullSyncResponse_def)
  qed
qed

text \<open>C11: A server cannot forge links: whatever bytes it sends, and whether the read fails or not,
  the non-empty links in the client's tables are those of data that the client holds and that
  hashes to the CID.\<close>

theorem sync_links_authentic:
  assumes "dag_ok E" and "links_backed E r"
  shows "links_backed E (fst (ReadSyncResponse E cancelled tr r))"
  using read_loop_backed [OF assms] read_items_backed [OF assms] assms(2)
  by (auto simp: ReadSyncResponse_def readFullSyncResponse_def split: option.splits)

text \<open>A hash-only header makes the client forget: whatever links its tables had for the CID, they
  are empty afterwards, so a full traversal whose root comes without data stops there with
  success, and the headers the server sent for the descendants stay unread.\<close>

theorem hash_header_stops_traversal:
  assumes "postcard_ok E" and "length h = 32"
  shows "ReadSyncResponse E (\<lambda>_. False) (FullTraversal root)
      \<lparr>r_tables = t, r_out = out, r_in = (pc_uint E 0 @ h) @ rest\<rparr> =
    (\<lparr>r_tables = Tables_Put root h [] t, r_out = out, r_in = rest\<rparr>, Inr ())"
proof -
  let ?r = "\<lparr>r_tables = t, r_out = out, r_in = (pc_uint E 0 @ h) @ rest\<rparr>"
  have "length (pc_uint E 0) = 1" using assms(1) by (simp add: postcard_ok_def)
  then obtain x where one: "pc_uint E 0 = [x]" by (auto simp: length_Suc_conv)
  have "readHeader E (r_in ?r) = (Inr (HashHeader h), rest)"
    using assms(2) decodeHeader_Bytes(3) [OF assms] unfolding one by (simp add: readHeader_def)
  then have "readOneResponse E (\<lambda>_. False) root ?r =
      (\<lparr>r_tables = Tables_Put root h [] t, r_out = out, r_in = rest\<rparr>, Inr ())"
    by (simp add: readOneResponse_def HashHeader_def)
  then show ?thesis
    by (simp add: ReadSyncResponse_def FullTraversal_def readFullSyncResponse_def read_loop.simps(2)
        includeCID_def all_filter_def links.get_put)
qed

text \<open>A response that ends early at an item boundary is taken as complete: on an empty stream the
  client reports success and has learned nothing.\<close>

theorem truncated_response_succeeds:
  assumes "Sequence tr \<noteq> None \<or> Full tr \<noteq> None"
  shows "ReadSyncResponse E (\<lambda>_. False) tr \<lparr>r_tables = t, r_out = out, r_in = []\<rparr> =
    (\<lparr>r_tables = t, r_out = out, r_in = []\<rparr>, Inr ())"
proof -
  let ?r = "\<lparr>r_tables = t, r_out = out, r_in = []\<rparr>"
  have "read_items E (\<lambda>_. False) cids ?r = (?r, Inr ())" for cids
    by (induction cids) (simp_all add: readOneResponse_def readHeader_def)
  with assms show ?thesis
    by (auto simp: ReadSyncResponse_def readFullSyncResponse_def traversalCIDs_def read_loop_empty
        split: option.splits)
qed

subsection \<open>A concrete instance\<close>

text \<open>
  Blobs of at most 31 bytes whose hash is the padded content with its length; a CID is a letter,
  \<^verbatim>\<open>q\<close> for dag-cbor, followed by the data it names; dag-cbor data is a list of one-letter CIDs.
\<close>

definition demo_hash :: "bytes \<Rightarrow> blob" where
  "demo_hash d = to_byte (length d) # d @ replicate (31 - length d) (CHR 0x00)"

definition demo_dag_ops :: "blob list dag_ops" where
  "demo_dag_ops = ipld_ops.extend (postcard.extend demo_postcard
     \<lparr>cid_type = (\<lambda>c. if prefix ''q'' c then cid_DagCBOR else cid_Raw), cid_hash = tl,
      cbor_decode = (\<lambda>d. Some (Node_List (map (\<lambda>x. Node_Link [x]) d))),
      mh_decode = (\<lambda>h. Some (0, 0)), mh_sum = (\<lambda>d code len. Some d)\<rparr>)
     \<lparr>encode_blob = (\<lambda>d. if length d \<le> 31 then Some (demo_hash d, length_prefixed d) else None),
      decode_blob = (\<lambda>h s. case uvarint_split s of None \<Rightarrow> None
        | Some (n, r) \<Rightarrow> Some (take n r, length (append_uvarint n) + n)),
      mem_add = (\<lambda>m d. if length d \<le> 31 then Some (demo_hash d # m, demo_hash d) else None),
      mem_get = (\<lambda>m h. if h \<in> set m then Some (take (byte_val (hd h)) (tl h)) else None)\<rparr>"

lemma demo_dag_simps:
  "cid_type demo_dag_ops c = (if prefix ''q'' c then cid_DagCBOR else cid_Raw)"
  "cid_hash demo_dag_ops = tl" "mh_decode demo_dag_ops h = Some (0, 0)"
  "cbor_decode demo_dag_ops d = Some (Node_List (map (\<lambda>x. Node_Link [x]) d))"
  "mh_sum demo_dag_ops d i j = Some d"
  "encode_blob demo_dag_ops d = (if length d \<le> 31 then Some (demo_hash d, length_prefixed d) else None)"
  "decode_blob demo_dag_ops h s = (case uvarint_split s of None \<Rightarrow> None
        | Some (n, r) \<Rightarrow> Some (take n r, length (append_uvarint n) + n))"
  "mem_add demo_dag_ops m d = (if length d \<le> 31 then Some (demo_hash d # m, demo_hash d) else None)"
  "mem_get demo_dag_ops m h = (if h \<in> set m then Some (take (byte_val (hd h)) (tl h)) else None)"
  "pc_uint demo_dag_ops = append_uvarint" "get_uint demo_dag_ops = uvarint_split"
  by (simp_all add: demo_dag_ops_def demo_postcard_def ipld_ops.defs postcard.defs)

lemma demo_dag_postcard: "postcard_ok demo_dag_ops"
  using demo_postcard_ok unfolding postcard_ok_def demo_dag_ops_def demo_postcard_def
  by (simp add: ipld_ops.defs postcard.defs)

lemma demo_dag_ok: "dag_ok demo_dag_ops"
  by (auto simp: dag_ok_def demo_dag_postcard demo_dag_simps demo_hash_def length_prefixed_def
      uvarint_split_append split: if_splits)

definition demo_tables :: tables where
  "demo_tables = Tables_Put ''qa'' (demo_hash ''a'') [''a''] (Tables_Put ''a'' (demo_hash []) [] NewTables)"

definition demo_store :: blob_store where
  "demo_store h = Inr \<lparr>be_complete = True, be_size = Some (byte_val (hd h)), be_data = tl h\<rparr>"

lemma demo_BlobHash:
  "BlobHash demo_tables c = (if c = ''qa'' then Some (demo_hash ''a'') else if c = ''a'' then Some (demo_hash [])
     else None)"
  "Links demo_tables c = (if c = ''qa'' then Some [''a''] else if c = ''a'' then Some [] else None)"
  by (simp_all add: demo_tables_def blob_hashes.get_put links.get_put)
    (simp_all add: NewTables_def BlobHash_def Links_def)

lemma demo_readEntry:
  "length d \<le> 31 \<Longrightarrow> (\<exists>entry. demo_store (demo_hash d) = Inr entry \<and> readEntry entry = Inr d)"
  by (simp add: demo_store_def readEntry_def demo_hash_def)

lemma demo_server_ok: "server_ok demo_dag_ops demo_tables demo_store"
  by (auto simp: server_ok_def demo_BlobHash demo_store_def readEntry_def demo_hash_def
      cidMatchesData_def demo_dag_simps ExtractLinks_def cid_Raw_def cid_DagCBOR_def nodeLinks_def
      split: if_splits)

lemma demo_links_ok: "links_ok demo_dag_ops demo_tables"
  by (auto simp: links_ok_def demo_BlobHash split: if_splits)

definition demo_sync :: sync_request where
  "demo_sync = \<lparr>Traversal = FullTraversal ''qa'', Inline = InlineAll\<rparr>"

lemma demo_traversal: "traversalCIDs demo_dag_ops (Traversal demo_sync) demo_tables = Some [''qa'', ''a'']"
  by (simp add: demo_sync_def FullTraversal_def traversalCIDs_def fullTraversal_def full_loop.simps(2)
      includeCID_def all_filter_def demo_dag_simps demo_BlobHash cid_Raw_def cid_DagCBOR_def)

lemma demo_write_one:
  assumes "BlobHash demo_tables c = Some (demo_hash d)" and "length d \<le> 31"
  shows "\<exists>b. write_one demo_dag_ops (\<lambda>_. False) (\<lambda>_. True) demo_tables demo_store c = (b, Inr ())"
proof -
  have "writeHeader demo_dag_ops (DataHeader (demo_hash d)) = (pc_uint demo_dag_ops 1 @ demo_hash d, Inr ())"
    using decodeHeader_Bytes(2) [OF demo_dag_postcard, of "demo_hash d"] assms(2)
    by (simp add: writeHeader_def demo_hash_def)
  with assms show ?thesis
    by (simp add: write_one_def demo_store_def readEntry_def demo_hash_def demo_dag_simps)
qed

lemma demo_write: "\<exists>bs. WriteSyncResponse demo_dag_ops (\<lambda>_. False) demo_sync demo_tables demo_store = (bs, Inr ())"
proof -
  have inline: "inlinePredicate (cid_type demo_dag_ops) (Inline demo_sync) = (\<lambda>_. True)"
    by (simp add: inlinePredicate_def demo_sync_def InlineAll_def fun_eq_iff)
  obtain b1 where "write_one demo_dag_ops (\<lambda>_. False) (\<lambda>_. True) demo_tables demo_store ''qa'' = (b1, Inr ())"
    using demo_write_one [of "''qa''" "''a''"] by (auto simp: demo_BlobHash)
  moreover obtain b2 where "write_one demo_dag_ops (\<lambda>_. False) (\<lambda>_. True) demo_tables demo_store ''a'' = (b2, Inr ())"
    using demo_write_one [of "''a''" "[]"] by (auto simp: demo_BlobHash)
  ultimately show ?thesis by (simp add: WriteSyncResponse_def demo_traversal inline)
qed

theorem sync_transfers_dag_witness:
  "\<exists>bs cids r'. traversalCIDs demo_dag_ops (Traversal demo_sync) demo_tables = Some cids \<and>
    ReadSyncResponse demo_dag_ops (\<lambda>_. False) (Traversal demo_sync)
      \<lparr>r_tables = NewTables, r_out = [], r_in = bs @ ''rest''\<rparr> = (r', Inr ()) \<and>
    synced demo_dag_ops demo_tables cids ''rest'' \<lparr>r_tables = NewTables, r_out = [], r_in = bs @ ''rest''\<rparr> r'"
proof -
  obtain bs where w: "WriteSyncResponse demo_dag_ops (\<lambda>_. False) demo_sync demo_tables demo_store = (bs, Inr ())"
    using demo_write by blast
  have 1: "\<forall>c. inlinePredicate (cid_type demo_dag_ops) (Inline demo_sync) c"
    by (simp add: inlinePredicate_def demo_sync_def InlineAll_def)
  have 2: "\<forall>full filt c. Full (Traversal demo_sync) = Some full \<and> Filter full = Some filt \<and>
      cid_type demo_dag_ops c \<noteq> cid_Raw \<longrightarrow> includeCID (cid_type demo_dag_ops) filt c"
    by (simp add: demo_sync_def FullTraversal_def includeCID_def all_filter_def)
  have 3: "(Sequence (Traversal demo_sync) = None) \<noteq> (Full (Traversal demo_sync) = None)"
    by (simp add: demo_sync_def FullTraversal_def)
  from sync_transfers_dag [OF demo_dag_ok demo_server_ok demo_links_ok 1 2 3 w, of NewTables "[]" "''rest''"]
  show ?thesis by blast
qed

theorem sync_links_authentic_witness:
  "links_backed demo_dag_ops (fst (ReadSyncResponse demo_dag_ops (\<lambda>_. False) (FullTraversal ''qa'')
     \<lparr>r_tables = NewTables, r_out = [], r_in = ''junk''\<rparr>))"
  by (rule sync_links_authentic [OF demo_dag_ok])
    (simp add: links_backed_def NewTables_def Links_def)

theorem hash_header_stops_traversal_witness:
  "ReadSyncResponse demo_dag_ops (\<lambda>_. False) (FullTraversal ''qa'')
     \<lparr>r_tables = demo_tables, r_out = [],
      r_in = (pc_uint demo_dag_ops 0 @ demo_hash ''a'') @ pc_uint demo_dag_ops 0 @ demo_hash []\<rparr> =
   (\<lparr>r_tables = Tables_Put ''qa'' (demo_hash ''a'') [] demo_tables, r_out = [],
     r_in = pc_uint demo_dag_ops 0 @ demo_hash []\<rparr>, Inr ())"
  by (rule hash_header_stops_traversal [OF demo_dag_postcard]) (simp add: demo_hash_def)

theorem truncated_response_succeeds_witness:
  "ReadSyncResponse demo_dag_ops (\<lambda>_. False) (FullTraversal ''qa'')
     \<lparr>r_tables = NewTables, r_out = [], r_in = []\<rparr> = (\<lparr>r_tables = NewTables, r_out = [], r_in = []\<rparr>, Inr ())"
  by (rule truncated_response_succeeds) (simp add: FullTraversal_def)

end
