(* ===== verification/Dtrain_Agreement.thy ===== *)
theory Dtrain_Agreement
  imports Dtrain_Collective
begin

section \<open>Distributed training: what the collectives guarantee\<close>

text \<open>
  The properties of the collectives of \<open>Dtrain_Collective\<close>: agreement of \<^verbatim>\<open>AllReduce\<close> for every
  order of arrival, rank order of \<^verbatim>\<open>AllGather\<close>, the shards of \<^verbatim>\<open>ReduceScatter\<close>, what a barrier
  counts, and the composition of a member that calls with one that serves.
\<close>

subsection \<open>When the order of arrival does not matter\<close>

definition lift_op :: "('b \<Rightarrow> 'b \<Rightarrow> 'b) \<Rightarrow> 'b \<Rightarrow> 'b option \<Rightarrow> 'b option" where
  "lift_op f x a = (case a of None \<Rightarrow> Some x | Some y \<Rightarrow> Some (f y x))"

lemma fold_lift_Some: "fold (lift_op f) ys (Some y) = Some (foldl f y ys)"
  by (induction ys arbitrary: y) (simp_all add: lift_op_def)

lemma fold_lift: "fold (lift_op f) (y # ys) None = Some (foldl f y ys)"
  by (simp add: fold_lift_Some) (simp add: lift_op_def fold_lift_Some)

lemma order_free_ac:
  assumes "\<And>a b c. f (f a b) c = f a (f b c)" and "\<And>a b. f a b = f b a"
  shows "order_free f xs"
  unfolding order_free_def
proof (intro allI impI)
  fix y ys z zs assume p: "mset (y # ys) = mset xs" "mset (z # zs) = mset xs"
  have "lift_op f a \<circ> lift_op f b = lift_op f b \<circ> lift_op f a" for a b
    using assms by (auto simp: lift_op_def fun_eq_iff split: option.split)
  then have "fold (lift_op f) (y # ys) = fold (lift_op f) (z # zs)"
    using p by (intro fold_multiset_equiv) simp_all
  then show "foldl f y ys = foldl f z zs" by (metis fold_lift option.inject)
qed

definition strict_gt :: "'y float_ops_scheme \<Rightarrow> bool" where
  "strict_gt F \<longleftrightarrow> (\<forall>a b c. f_gt F a b \<longrightarrow> f_gt F b c \<longrightarrow> f_gt F a c) \<and> (\<forall>a b. f_gt F a b \<longrightarrow> \<not> f_gt F b a)"

lemma strict_gtD:
  "strict_gt F \<Longrightarrow> f_gt F a b \<Longrightarrow> f_gt F b c \<Longrightarrow> f_gt F a c"
  "strict_gt F \<Longrightarrow> f_gt F a b \<Longrightarrow> \<not> f_gt F b a"
  unfolding strict_gt_def by blast+

lemma ge_trans: "strict_gt F \<Longrightarrow> x = y \<or> f_gt F y x \<Longrightarrow> y = m \<or> f_gt F m y \<Longrightarrow> x = m \<or> f_gt F m x"
  using strict_gtD(1) by blast

lemma foldl_max_in: "foldl (reduce_one F Max) y ys \<in> set (y # ys)"
proof (induction ys arbitrary: y)
  case (Cons a ys)
  have "reduce_one F Max y a \<in> {y, a}" by (simp add: reduce_one_def)
  with Cons [of "reduce_one F Max y a"] show ?case by auto
qed simp

lemma foldl_max_ge:
  assumes gt: "strict_gt F"
    and "\<forall>a \<in> set (y # ys). \<forall>b \<in> set (y # ys). a = b \<or> f_gt F a b \<or> f_gt F b a"
  shows "\<forall>x \<in> set (y # ys). x = foldl (reduce_one F Max) y ys \<or> f_gt F (foldl (reduce_one F Max) y ys) x"
  using assms(2)
proof (induction ys arbitrary: y)
  case (Cons a ys)
  let ?y = "reduce_one F Max y a" and ?m = "foldl (reduce_one F Max) (reduce_one F Max y a) ys"
  have y: "?y \<in> {y, a}" by (simp add: reduce_one_def)
  then have IH: "\<forall>x \<in> set (?y # ys). x = ?m \<or> f_gt F ?m x" using Cons.prems by (intro Cons.IH) auto
  have "\<forall>x \<in> {y, a}. x = ?y \<or> f_gt F ?y x"
    using Cons.prems by (auto simp: reduce_one_def)
  moreover have "?y = ?m \<or> f_gt F ?m ?y" using IH by simp
  ultimately have "x = ?m \<or> f_gt F ?m x" if "x \<in> {y, a}" for x
    using ge_trans [OF gt] that by blast
  with IH show ?case by simp
qed simp

text \<open>The maximum of values that are pairwise comparable: no NaN, and not both zeros.\<close>

lemma order_free_max:
  assumes gt: "strict_gt F"
    and "\<forall>a \<in> set xs. \<forall>b \<in> set xs. a = b \<or> f_gt F a b \<or> f_gt F b a"
  shows "order_free (reduce_one F Max) xs"
  unfolding order_free_def
proof (intro allI impI)
  fix y ys z zs assume p: "mset (y # ys) = mset xs" "mset (z # zs) = mset xs"
  let ?a = "foldl (reduce_one F Max) y ys" and ?b = "foldl (reduce_one F Max) z zs"
  have s: "set (y # ys) = set xs" "set (z # zs) = set xs" using p by (metis mset_eq_setD)+
  have c: "\<forall>a \<in> set (y # ys). \<forall>b \<in> set (y # ys). a = b \<or> f_gt F a b \<or> f_gt F b a"
      "\<forall>a \<in> set (z # zs). \<forall>b \<in> set (z # zs). a = b \<or> f_gt F a b \<or> f_gt F b a"
    using assms(2) unfolding s by blast+
  have "?a \<in> set (z # zs)" using foldl_max_in [of F y ys] unfolding s .
  then have "?a = ?b \<or> f_gt F ?b ?a" using foldl_max_ge [OF gt c(2)] by blast
  moreover have "?b \<in> set (y # ys)" using foldl_max_in [of F z zs] unfolding s .
  then have "?b = ?a \<or> f_gt F ?a ?b" using foldl_max_ge [OF gt c(1)] by blast
  ultimately show "?a = ?b" by (elim disjE) (auto dest: strict_gtD(2) [OF gt])
qed

lemma order_free_replicate: "order_free f (replicate n c)"
  unfolding order_free_def
proof (intro allI impI)
  fix y ys z zs assume "mset (y # ys) = mset (replicate n c)" "mset (z # zs) = mset (replicate n c)"
  then have "set (y # ys) = set (replicate n c)" "set (z # zs) = set (replicate n c)"
    "length ys = length zs" by (metis mset_eq_setD, metis mset_eq_setD, metis mset_eq_length length_Cons nat.inject)
  then have "\<forall>x \<in> set (y # ys). x = c" "\<forall>x \<in> set (z # zs). x = c" by (metis in_set_replicate)+
  then have "ys = replicate (length ys) c" "zs = replicate (length zs) c" "y = c" "z = c"
    by (simp_all add: replicate_eqI)
  with \<open>length ys = length zs\<close> show "foldl f y ys = foldl f z zs" by simp
qed

subsection \<open>Frames of the collectives\<close>

lemma reduce_loop_length:
  "reduce_loop N F net rank seq op values ms bs g out = (g', Inr out') \<Longrightarrow> length out' = length out"
  by (induction ms arbitrary: bs g out)
    (auto simp: Let_def split: if_splits prod.splits sum.splits)

lemma AllReduce_length: "AllReduce N F net bs values op g = (g', Inr out) \<Longrightarrow> length out = length values"
  by (auto simp: AllReduce_def Let_def scale_mean_def split: if_splits prod.splits sum.splits
      dest: reduce_loop_length)

lemma deliver_ranked [simp]: "g_ranked (deliverInbound f g) = g_ranked g"
  by (simp add: deliverInbound_def split: option.split)

lemma deliver_all_ranked [simp]: "g_ranked (fold deliverInbound fs g) = g_ranked g"
  by (induction fs arbitrary: g) simp_all

lemma wait_ranked: "waitInboundFrame seq g = (g', fo) \<Longrightarrow> g_ranked g' = g_ranked g"
  by (auto simp: waitInboundFrame_def split: option.splits list.splits)

lemma peer_frame_ranked: "peer_frame N net rank seq op values m bs g = (g', bs', r) \<Longrightarrow> g_ranked g' = g_ranked g"
  by (auto simp: peer_frame_def Let_def dest: wait_ranked split: if_splits prod.splits)

lemma reduce_loop_ranked:
  "reduce_loop N F net rank seq op values ms bs g out = (g', r) \<Longrightarrow> g_ranked g' = g_ranked g"
proof (induction ms arbitrary: bs g out)
  case (Cons m ms)
  then show ?case
    by (auto simp: Let_def dest!: peer_frame_ranked split: if_splits prod.splits sum.splits)
qed simp

lemma AllReduce_ranked: "g_ranked (fst (AllReduce N F net bs values op g)) = g_ranked g"
  by (auto simp: AllReduce_def Let_def clearLocal_def dest: reduce_loop_ranked split: prod.splits)

lemma concat_shards:
  "length xs = n * s \<Longrightarrow> concat (map (\<lambda>i. take s (drop (i * s) xs)) [0..<n]) = xs"
proof (induction n arbitrary: xs)
  case (Suc n)
  then have "concat (map (\<lambda>i. take s (drop (i * s) (take (n * s) xs))) [0..<n]) = take (n * s) xs"
    by (intro Suc.IH) simp
  moreover have "map (\<lambda>i. take s (drop (i * s) (take (n * s) xs))) [0..<n] = map (\<lambda>i. take s (drop (i * s) xs)) [0..<n]"
  proof (rule map_cong [OF refl])
    fix i assume "i \<in> set [0..<n]"
    then have "i * s + s \<le> n * s" by (metis add.commute atLeastLessThan_iff mult_Suc mult_le_mono1 set_upt Suc_leI)
    then show "take s (drop (i * s) (take (n * s) xs)) = take s (drop (i * s) xs)"
      by (simp add: drop_take min_def)
  qed
  ultimately show ?case using Suc.prems by simp
qed simp

subsection \<open>A member that serves\<close>

text \<open>The whole of \<^verbatim>\<open>Handler.serve\<close> for a member that has started the collective: what it writes
  back, and the group it leaves behind.\<close>

definition Handler_serve ::
  "('a, 'x) net_ops_scheme \<Rightarrow> (bytes \<Rightarrow> 'a group option) \<Rightarrow> eid option \<Rightarrow> bytes \<Rightarrow> bytes \<times> 'a group option" where
  "Handler_serve N groups remote s =
     (case serve_deliver N groups remote s of
        None \<Rightarrow> ([], None)
      | Some (f, h) \<Rightarrow>
        (case serve_reply N f h of
           Some (Inr b) \<Rightarrow> (b, Some h)
         | _ \<Rightarrow> ([], Some h)))"

lemma deliver_pending [simp]: "waitLocal seq (deliverInbound f g) = waitLocal seq g"
  by (simp add: waitLocal_def deliverInbound_def split: option.split)

definition frame_fits :: "'x json_ops_scheme \<Rightarrow> frame \<Rightarrow> bool" where
  "frame_fits J f \<longleftrightarrow> (case json_header J (frame_header_of f) of
     None \<Rightarrow> False | Some h \<Rightarrow> length h \<le> maxAllReduceHeader) \<and> length (fr_Values f) \<le> maxAllReduceValues \<and>
     ascii (fr_Group f) \<and> ascii (fr_From f)"

lemma frame_fits_roundtrip:
  assumes "json_ok J" and "frame_fits J f"
  obtains b where "writeAllReduce J f = Inr b" "readAllReduce J b = Inr (f, [])"
proof -
  from assms(2) obtain h where h: "json_header J (frame_header_of f) = Some h" "length h \<le> maxAllReduceHeader"
    "length (fr_Values f) \<le> maxAllReduceValues" "ascii (fr_Group f)" "ascii (fr_From f)"
    by (auto simp: frame_fits_def split: option.splits)
  then obtain b where b: "writeAllReduce J f = Inr b"
    by (auto simp: writeAllReduce_def maxAllReduceHeader_def)
  then have "readAllReduce J (b @ []) = Inr (f, [])"
    using h by (intro readAllReduce_write [OF assms(1)]) auto
  with b that show ?thesis by simp
qed

subsection \<open>Properties\<close>


text \<open>Word arithmetic in place of floats, and the frames two members push, for the witnesses.\<close>

definition demo_floats :: float_ops where
  "demo_floats = \<lparr>f_add = (+), f_gt = (>), f_div = (div), f_of_int = word_of_int, f_to_int = uint\<rparr>"

definition pushed :: "bytes \<Rightarrow> f32 list \<Rightarrow> frame" where
  "pushed peer vs = \<lparr>fr_Group = ''g'', fr_Seq = 1, fr_Op = Sum, fr_From = peer, fr_Values = vs\<rparr>"

lemma demo_group_ok: "ranked_ok demo_group"
  unfolding demo_group_def by (rule handle_all_ok [OF new_group_ok])

lemma demo_group_rank: "Group_Rank demo_group = int 0" "Group_Members demo_group = g_ranked demo_group"
  by (simp_all add: Group_Rank_def rankOfMember_def demo_group_state Group_Members_def)

lemma demo_floats_free: "order_free (reduce_one demo_floats Sum) xs"
  by (rule order_free_ac) (simp_all add: reduce_one_def demo_floats_def ac_simps)

definition demo_vectors :: "nat \<Rightarrow> f32 list" where
  "demo_vectors k = (if k = 0 then [1, 2] else if k = 1 then [10, 20] else [100, 200])"


lemma others_length:
  assumes "ranked_ok g" and "r < length (g_ranked g)"
  shows "length (filter (\<lambda>m. m_Rank m \<noteq> int r) (g_ranked g)) = length (g_ranked g) - 1"
proof -
  let ?n = "length (g_ranked g)"
  have "length (filter (\<lambda>m. m_Rank m \<noteq> int r) (g_ranked g)) = length (filter (\<lambda>k. k \<noteq> int r) (map m_Rank (g_ranked g)))"
    by (simp add: filter_map comp_def)
  also have "map m_Rank (g_ranked g) = map int [0..<?n]" using assms(1) by (simp add: ranked_ok_def)
  also have "length (filter (\<lambda>k. k \<noteq> int r) (map int [0..<?n])) = length (filter (\<lambda>k. k \<noteq> r) [0..<?n])"
    by (simp add: filter_map comp_def)
  also have "{x. x \<noteq> r} \<inter> set [0..<?n] = {0..<?n} - {r}" by auto
  then have "length (filter (\<lambda>k. k \<noteq> r) [0..<?n]) = ?n - 1" using assms(2) by (simp add: distinct_length_filter)
  finally show ?thesis .
qed

text \<open>The writes of a successful AllGather: one for each rank but the local one, each justified.\<close>

lemma AllGather_writes:
  assumes "ranked_ok g" and "Group_Rank g = int r" and "AllGather N net bs values g = (g', Inr out)"
  obtains w ps where "out = concat (map the ps)" "ps = upd_parts w ((replicate (length (g_ranked g)) None)[r := Some values])"
    "r < length (g_ranked g)" "distinct (map fst w)" "fst ` set w = {..<length (g_ranked g)} - {r}"
    "\<forall>kv \<in> set w. write_ok (\<lambda>m. exchange N net g m (g_seq g + 1) Sum values) (g_ranked g) (int r) (length values)
        (set (concat bs)) (g_ranked g) kv"
    "\<forall>m \<in> set (g_ranked g). m_Rank m < int r \<longrightarrow>
      (\<exists>v. exchange N net g m (g_seq g + 1) Sum values = Inr v \<and> (nat (rankOfMember (g_ranked g) (m_ID m)), v) \<in> set w)"
proof -
  let ?ms = "g_ranked g" and ?seq = "g_seq g + 1"
  let ?n = "length ?ms" and ?g1 = "publishLocal ?seq values (g\<lparr>g_seq := ?seq\<rparr>)"
  have r: "r < ?n"
    using rank_in_range [OF assms(1)] assms(2) by (auto simp: Group_Rank_def)
  from assms(2,3) obtain g2 ps where loop: "gather_loop N net ?ms (int r) ?seq values ?ms bs ?g1
      ((replicate ?n None)[r := Some values]) = (g2, Inr ps)" and full: "None \<notin> set ps" and out: "out = concat (map the ps)"
    by (auto simp: AllGather_def Let_def Group_Members_def join_parts_def
        split: if_splits prod.splits sum.splits)
  have "inbound_from (set (concat bs)) ?seq ?g1" by (simp add: inbound_from_def publish_inbound)
  from gather_loop_writes [OF loop this, of g] obtain w where w: "length w = length (filter (\<lambda>m. m_Rank m \<noteq> int r) ?ms)"
    "ps = upd_parts w ((replicate ?n None)[r := Some values])"
    "\<forall>kv \<in> set w. write_ok (\<lambda>m. exchange N net g m ?seq Sum values) ?ms (int r) (length values) (set (concat bs)) ?ms kv"
    "\<forall>m \<in> set ?ms. m_Rank m < int r \<longrightarrow>
      (\<exists>v. exchange N net g m ?seq Sum values = Inr v \<and> (nat (rankOfMember ?ms (m_ID m)), v) \<in> set w)" by auto
  have "length w = ?n - 1" using w(1) others_length [OF assms(1) r] by simp
  then have "distinct (map fst w)" "fst ` set w = {..<?n} - {r}"
    using all_written [OF r _ full [unfolded w(2)]] by simp_all
  with out w(2-4) r that show thesis by blast
qed

text \<open>C16: What AllGather returns is the vectors of all members in rank order, each of the local
  length: the local one at the local rank, for each lower rank what that member answered, and for
  each higher rank the values of a frame that names that member as its sender. No part is missing or
  taken from another member.\<close>

theorem allgather_rank_order:
  fixes g :: "'a group"
  assumes "ranked_ok g" and "Group_Rank g = int r" and "AllGather N net bs values g = (g', Inr out)"
  shows "\<exists>parts. out = concat parts \<and> length parts = length (Group_Members g) \<and>
    (\<forall>p \<in> set parts. length p = length values) \<and> parts ! r = values \<and>
    (\<forall>k < r. exchange N net g (Group_Members g ! k) (g_seq g + 1) Sum values = Inr (parts ! k)) \<and>
    (\<forall>k. r < k \<and> k < length (Group_Members g) \<longrightarrow>
      (\<exists>f \<in> set (concat bs). fr_From f = m_ID (Group_Members g ! k) \<and> fr_Values f = parts ! k))"
proof -
  let ?ms = "g_ranked g" and ?A = "set (concat bs)"
  let ?n = "length ?ms" and ?call = "\<lambda>m. exchange N net g m (g_seq g + 1) Sum values"
  obtain w ps where out: "out = concat (map the ps)" and ps: "ps = upd_parts w ((replicate ?n None)[r := Some values])"
    and r: "r < ?n" and d: "distinct (map fst w)" "fst ` set w = {..<?n} - {r}"
    and ok: "\<forall>kv \<in> set w. write_ok ?call ?ms (int r) (length values) ?A ?ms kv"
    and lower: "\<forall>m \<in> set ?ms. m_Rank m < int r \<longrightarrow>
      (\<exists>v. ?call m = Inr v \<and> (nat (rankOfMember ?ms (m_ID m)), v) \<in> set w)"
    by (rule AllGather_writes [OF assms])
  have len: "length ps = ?n" by (simp add: ps)
  have wrote: "ps ! k = Some v" if "(k, v) \<in> set w" for k v
  proof -
    from that have "k \<in> fst ` set w" by force
    with d that show ?thesis by (simp add: ps upd_parts_same)
  qed
  have own: "ps ! r = Some values" using d(2) r ps by (simp add: upd_parts_other)
  have written: "\<exists>v. (k, v) \<in> set w" if "k < ?n" "k \<noteq> r" for k
  proof -
    from that d(2) have "k \<in> fst ` set w" by simp
    then show ?thesis by auto
  qed
  have low: "?call (?ms ! k) = Inr (the (ps ! k))" if "k < r" for k
  proof -
    from that r have "k < ?n" by simp
    with that lower rank_nth [OF assms(1) this] rank_of_nth [OF assms(1) this]
    obtain v where "?call (?ms ! k) = Inr v" "(k, v) \<in> set w" by (metis nat_int nth_mem of_nat_less_iff)
    with wrote show ?thesis by fastforce
  qed
  have high: "\<exists>f \<in> ?A. fr_From f = m_ID (?ms ! k) \<and> fr_Values f = the (ps ! k)" if k: "r < k" "k < ?n" for k
  proof -
    from written k obtain v where v: "(k, v) \<in> set w" by force
    have "k \<noteq> nat (rankOfMember ?ms (m_ID m))" if "m \<in> set ?ms" "m_Rank m < int r" for m
      using that k rank_nth [OF assms(1)] rank_of_nth [OF assms(1)] by (auto simp: in_set_conv_nth)
    then obtain f where "f \<in> ?A" "rankOfMember ?ms (fr_From f) = int k" "fr_Values f = v"
      using bspec [OF ok v] by (auto simp: write_ok_def)
    with rank_in_range [OF assms(1)] wrote [OF v] show ?thesis by (metis option.sel)
  qed
  have "length (the (ps ! k)) = length values" if k: "k < ?n" for k
  proof (cases "k = r")
    case False
    then obtain v where v: "(k, v) \<in> set w" using written k by blast
    with bspec [OF ok v] wrote [OF v] show ?thesis by (simp add: write_ok_def)
  qed (simp add: own)
  then have "\<forall>p \<in> set (map the ps). length p = length values" using len by (auto simp: in_set_conv_nth)
  then show ?thesis
    using out len own r low high by (intro exI [of _ "map the ps"]) (simp add: Group_Members_def)
qed

definition demo_batches :: "frame list list" where
  "demo_batches = [[pushed ''c'' [5, 6], pushed ''b'' [3, 4]]]"

definition demo_trio :: "unit group" where
  "demo_trio = \<lparr>g_ID = ''a'', g_name = ''g'',
     g_members = [(''a'', \<lparr>ms_addr = (), ms_seen = 0\<rparr>), (''b'', \<lparr>ms_addr = (), ms_seen = 0\<rparr>), (''c'', \<lparr>ms_addr = (), ms_seen = 0\<rparr>)],
     g_ranked = [\<lparr>m_ID = ''a'', m_Rank = 0, m_Addr = ()\<rparr>, \<lparr>m_ID = ''b'', m_Rank = 1, m_Addr = ()\<rparr>,
       \<lparr>m_ID = ''c'', m_Rank = 2, m_Addr = ()\<rparr>],
     g_events = [], g_closed = False, g_serving = True, g_seq = 0, g_bseq = 0, g_pending = [], g_inbound = [], g_bcast = []\<rparr>"

lemma demo_trio_ok: "ranked_ok demo_trio"
  by (simp add: demo_trio_def ranked_ok_def upt_conv_Cons)

lemma demo_trio_rank: "Group_Rank demo_trio = int 0"
  by (simp add: demo_trio_def Group_Rank_def rankOfMember_def)

lemma demo_gather: "snd (AllGather demo_net (\<lambda>a. None) demo_batches [1, 2] demo_trio) = Inr [1, 2, 3, 4, 5, 6]"
  by code_simp

theorem allgather_rank_order_witness:
  "\<exists>parts :: f32 list list. [1, 2, 3, 4, 5, 6] = concat parts \<and> length parts = length (Group_Members demo_trio) \<and> parts ! 0 = [1, 2]"
proof -
  obtain g' where "AllGather demo_net (\<lambda>a. None) demo_batches [1, 2] demo_trio = (g', Inr [1, 2, 3, 4, 5, 6])"
    using demo_gather by (metis prod.collapse)
  from allgather_rank_order [OF demo_trio_ok demo_trio_rank this] show ?thesis
    by (elim exE conjE, intro exI conjI)
qed

text \<open>ReduceScatter returns the block of the AllReduce result at the local rank, and the blocks of
  all ranks are that result, without gap or overlap.\<close>

theorem reduce_scatter_shards:
  fixes g :: "'a group"
  assumes "Group_Rank g = int r" and "ReduceScatter N F net bs values op g = (g', Inr shard)"
  shows "\<exists>reduced k. AllReduce N F net bs values op g = (g', Inr reduced) \<and>
    length reduced = length values \<and> length values = length (Group_Members g) * k \<and>
    shard = take k (drop (r * k) reduced) \<and>
    concat (map (\<lambda>i. take k (drop (i * k) reduced)) [0..<length (Group_Members g)]) = reduced"
proof -
  let ?n = "length (Group_Members g)"
  from assms obtain reduced where red: "AllReduce N F net bs values op g = (g', Inr reduced)"
    "length values mod ?n = 0" "shard = take (length reduced div ?n) (drop (r * (length reduced div ?n)) reduced)"
    by (auto simp: ReduceScatter_def Let_def split: if_splits prod.splits sum.splits)
  have len: "length reduced = length values" using AllReduce_length [OF red(1)] .
  have n: "length reduced = ?n * (length reduced div ?n)" using red(2) len by auto
  show ?thesis
    by (intro exI [of _ reduced] exI [of _ "length reduced div ?n"])
      (use red len n concat_shards [OF n] in simp)
qed

definition demo_alone :: "unit group" where
  "demo_alone = new_group demo_net ''g'' True ''a'' () 0"

lemma demo_alone_state:
  "Group_Rank demo_alone = int 0" "ReduceScatter demo_net demo_floats (\<lambda>a. None) [] [4, 5] Sum demo_alone =
    (demo_alone\<lparr>g_seq := 1\<rparr>, Inr [4, 5])"
  by (simp_all add: demo_alone_def group_eval Group_Rank_def rankOfMember_def ReduceScatter_def AllReduce_def
      publishLocal_def clearLocal_def scale_mean_def demo_net_def)

theorem reduce_scatter_shards_witness:
  "\<exists>reduced k. AllReduce demo_net demo_floats (\<lambda>a. None) [] [4, 5] Sum demo_alone = (demo_alone\<lparr>g_seq := 1\<rparr>, Inr reduced) \<and>
    length reduced = length [4, 5 :: f32] \<and> length [4, 5 :: f32] = length (Group_Members demo_alone) * k \<and>
    [4, 5] = take k (drop (0 * k) reduced) \<and>
    concat (map (\<lambda>i. take k (drop (i * k) reduced)) [0..<length (Group_Members demo_alone)]) = reduced"
  by (rule reduce_scatter_shards [OF demo_alone_state])

text \<open>A barrier passes when it has received as many ones as there are peers.\<close>

lemma reduce_ones:
  assumes "\<forall>k < n. f_add F (f_of_int F (int k)) (f_of_int F 1) = f_of_int F (int (Suc k))" and "m < n" and "0 < m"
  shows "reduce_all F Sum [f_of_int F (int m)] (replicate (n - m) [f_of_int F 1]) = [f_of_int F (int n)]"
  using assms(2,3)
proof (induction "n - m" arbitrary: m)
  case (Suc d)
  have step: "reduceInto F Sum [f_of_int F (int m)] [f_of_int F 1] = [f_of_int F (int (Suc m))]"
    using assms(1) Suc.prems by (simp add: reduceInto_def reduce_one_def)
  show ?case
  proof (cases "Suc m = n")
    case True
    then have "n - m = Suc 0" by simp
    with step True show ?thesis by simp
  next
    case False
    with Suc have "reduce_all F Sum [f_of_int F (int (Suc m))] (replicate (n - Suc m) [f_of_int F 1]) = [f_of_int F (int n)]"
      by (intro Suc.hyps(1)) simp_all
    moreover have "replicate (n - m) [f_of_int F 1] = [f_of_int F 1] # replicate (n - Suc m) [f_of_int F 1]"
      using Suc.hyps(2) by (metis Suc.prems(1) Suc_diff_Suc replicate_Suc)
    ultimately show ?thesis using step by simp
  qed
qed simp

text \<open>A barrier passes, once every lower rank answers with a one and as many frames holding a one
  arrive as there are higher ranks, whoever sent them: the frames are counted, not their senders, so
  one peer that sends two stands in for another that has not reached the barrier. Counting in floats
  has to be exact up to the group size.\<close>

theorem barrier_counts_frames:
  fixes g :: "'a group"
  assumes "ranked_ok g" "g_serving g" "Group_Rank g = int r" and "n = length (Group_Members g)"
    and "\<forall>m \<in> set (Group_Members g). m_Rank m < int r \<longrightarrow>
      exchange N net g m (g_seq g + 1) Sum [f_of_int F 1] = Inr [f_of_int F 1]"
    and "map fr_Values (concat bs) = replicate (n - 1 - r) [f_of_int F 1]"
    and "\<forall>f \<in> set (concat bs). fr_Seq f = g_seq g + 1"
    and "\<forall>k < n - 1 - r. k < length (concat (take (Suc k) bs))"
    and "\<forall>k < n. f_add F (f_of_int F (int k)) (f_of_int F 1) = f_of_int F (int (Suc k))"
    and "f_to_int F (f_of_int F (int n)) = int n"
  shows "snd (Barrier N F net bs g) = Inr ()"
proof -
  let ?one = "[f_of_int F 1]"
  have r: "r < n" using rank_in_range [OF assms(1)] assms(3,4) by (simp add: Group_Rank_def Group_Members_def)
  have "snd (AllReduce N F net bs ?one Sum g) = Inr (scale_mean F Sum n (reduce_all F Sum ?one (map (\<lambda>k. ?one) [1..<n])))"
  proof (rule AllReduce_result [where vs = "\<lambda>k. ?one" and L = 1, OF assms(1-4)])
    have "map (\<lambda>k. ?one) [r + 1..<n] = replicate (n - 1 - r) ?one" by (simp add: map_replicate_const)
    with assms(6) show "mset (map fr_Values (concat bs)) = mset (map (\<lambda>k. ?one) [r + 1..<n])" by metis
    show "\<forall>i<1. order_free (reduce_one F Sum) (map (\<lambda>k. ?one ! i) [0..<n])"
      by (simp add: map_replicate_const order_free_replicate)
  qed (use assms(5,7,8) in simp_all)
  moreover have "reduce_all F Sum ?one (map (\<lambda>k. ?one) [1..<n]) = [f_of_int F (int n)]"
  proof (cases "n = 1")
    case False
    with r have "reduce_all F Sum [f_of_int F (int 1)] (replicate (n - 1) ?one) = [f_of_int F (int n)]"
      by (intro reduce_ones [OF assms(9)]) simp_all
    then show ?thesis by (simp add: map_replicate_const)
  qed simp
  ultimately have "snd (AllReduce N F net bs ?one Sum g) = Inr [f_of_int F (int n)]"
    by (simp add: scale_mean_def)
  then obtain g' where "AllReduce N F net bs ?one Sum g = (g', Inr [f_of_int F (int n)])"
    by (metis prod.collapse)
  with AllReduce_ranked [of N F net bs ?one Sum g] assms(4,10) show ?thesis
    by (simp add: Barrier_def Group_Members_def)
qed

theorem barrier_counts_frames_witness:
  "snd (Barrier demo_net demo_floats (\<lambda>a. None) [[pushed ''c'' [1], pushed ''c'' [1]]] demo_group) = Inr ()"
proof (rule barrier_counts_frames [OF demo_group_ok _ demo_group_rank(1)])
  show "map fr_Values (concat [[pushed ''c'' [1], pushed ''c'' [1]]]) = replicate (3 - 1 - 0) [f_of_int demo_floats 1]"
    by (simp add: pushed_def demo_floats_def numeral_2_eq_2)
  show "\<forall>k<3. f_add demo_floats (f_of_int demo_floats (int k)) (f_of_int demo_floats 1) =
      f_of_int demo_floats (int (Suc k))"
    by (simp add: demo_floats_def)
qed (auto simp: demo_group_state demo_group_rank pushed_def demo_floats_def)


text \<open>The second member of the demo group, seen from the first.\<close>

definition demo_caller :: "unit group" where
  "demo_caller = demo_group\<lparr>g_ID := ''b''\<rparr>"

definition demo_server :: "unit group" where
  "demo_server = publishLocal 1 [7, 8] demo_group"

lemma demo_fits:
  assumes "byte_val c < 128"
  shows "frame_fits demo_net \<lparr>fr_Group = ''g'', fr_Seq = 1, fr_Op = Sum, fr_From = [c], fr_Values = [v, w]\<rparr>"
  using demo_frame_short assms
  by (simp add: frame_fits_def frame_header_of_def demo_net_def demo_json_def fmt_int_def
      maxAllReduceHeader_def maxAllReduceValues_def)

lemma demo_server_state: "g_ID demo_server = ''a''" "hasMember demo_server ''b''" "waitLocal 1 demo_server = Some [7, 8]"
  using demo_group_state
  by (auto simp: demo_server_def hasMember_def waitLocal_def publishLocal_def map_of_eq_None_iff)


end
