(* ===== verification/Enclave_Claim.thy ===== *)
theory Enclave_Claim
  imports GoText
begin

section \<open>Attestation: claims, policies and known peers (enclaveiroh)\<close>

text \<open>
  \<^verbatim>\<open>claim.go\<close>, \<^verbatim>\<open>codeidentity.go\<close> and \<^verbatim>\<open>knownpeers.go\<close>: the signed claim of the attestation
  handshake, its checks, the verifier's policy and the trust-on-first-use store that a policy may
  consult. ECDSA, the curve, SHA-256, the JSON codec and the file system are parameters.
\<close>

unbundle bit_operations_syntax

subsection \<open>Parameters\<close>

record crypto_ops =
  p256_valid :: "bytes \<Rightarrow> bool"
  ecdsa_verify :: "nat \<times> nat \<Rightarrow> bytes \<Rightarrow> bytes \<Rightarrow> bool"
  sha256 :: "bytes \<Rightarrow> bytes"

subsection \<open>Code identity (codeidentity.go)\<close>

definition CSValid :: u32 where "CSValid = 0x00000001"
definition CSGetTaskAllow :: u32 where "CSGetTaskAllow = 0x00000004"
definition CSHard :: u32 where "CSHard = 0x00000100"
definition CSKill :: u32 where "CSKill = 0x00000200"
definition CSEnforcement :: u32 where "CSEnforcement = 0x00001000"
definition CSRequireLV :: u32 where "CSRequireLV = 0x00002000"
definition CSRuntime :: u32 where "CSRuntime = 0x00010000"
definition CSDebugged :: u32 where "CSDebugged = 0x10000000"

record code_identity =
  ci_CDHash :: bytes
  ci_TeamID :: bytes
  ci_SigningID :: bytes
  ci_Flags :: u32

definition MaximalFlags :: "u32 \<Rightarrow> bool" where
  "MaximalFlags flags \<longleftrightarrow>
     (let want = CSValid OR CSRuntime OR CSHard OR CSKill OR CSEnforcement OR CSRequireLV;
          forbid = CSGetTaskAllow OR CSDebugged in
      flags AND want = want \<and> flags AND forbid = 0)"

subsection \<open>Claims (claim.go)\<close>

definition ClaimContext :: bytes where
  "ClaimContext = ''enclaveiroh-attest/2''"

definition RoleDial :: bytes where
  "RoleDial = ''dial''"

definition RoleServe :: bytes where
  "RoleServe = ''serve''"

record claim =
  cl_Context :: bytes
  cl_Role :: bytes
  cl_LocalEndpoint :: bytes
  cl_RemoteEndpoint :: bytes
  cl_ALPN :: bytes
  cl_NonceSelf :: bytes
  cl_NoncePeer :: bytes
  cl_CDHash :: bytes
  cl_TeamID :: bytes
  cl_CSFlags :: u32
  cl_Bundled :: bool
  cl_EphemeralKey :: bool
  cl_AttestKey :: bytes
  cl_Time :: bytes
  cl_ClaimVersion :: u64

definition boolByte :: "bool \<Rightarrow> char" where
  "boolByte v = (if v then CHR 0x01 else CHR 0x00)"

definition SigningBytes :: "claim \<Rightarrow> bytes" where
  "SigningBytes c =
     concat (map length_prefixed [cl_Context c, cl_Role c, cl_LocalEndpoint c, cl_RemoteEndpoint c,
       cl_ALPN c, cl_NonceSelf c, cl_NoncePeer c, cl_CDHash c, cl_TeamID c]) @
     be_bytes 4 (unat (cl_CSFlags c)) @ [boolByte (cl_Bundled c), boolByte (cl_EphemeralKey c)] @
     concat (map length_prefixed [cl_AttestKey c, cl_Time c]) @
     append_uvarint (unat (cl_ClaimVersion c))"

datatype claim_error =
    DecodeAttestKey | InvalidPublicKey | SignatureMismatch
  | WrongContext | WrongRole | WrongLocal | WrongRemote | WrongALPN | NonceDecode | NonceMismatch
  | NotMaximal | NotBundled | KeyEphemeral | VersionTooLow | TeamNotAllowed | CDHashNotAllowed | KeyNotPinned
  | PinRejected

definition parseP256PublicKey :: "'x crypto_ops_scheme \<Rightarrow> bytes \<Rightarrow> (nat \<times> nat) option" where
  "parseP256PublicKey K b =
     (if p256_valid K b then Some (be_val (take 32 (drop 1 b)), be_val (take 32 (drop 33 b))) else None)"

definition VerifyClaimSignature :: "'x crypto_ops_scheme \<Rightarrow> claim \<Rightarrow> bytes \<Rightarrow> claim_error + unit" where
  "VerifyClaimSignature K c sig =
     (case hex_decode (cl_AttestKey c) of
        None \<Rightarrow> Inl DecodeAttestKey
      | Some pubBytes \<Rightarrow>
        (case parseP256PublicKey K pubBytes of
           None \<Rightarrow> Inl InvalidPublicKey
         | Some pub \<Rightarrow>
           if ecdsa_verify K pub (sha256 K (SigningBytes c)) sig then Inr () else Inl SignatureMismatch))"

definition nonceEqual :: "bytes \<Rightarrow> bytes \<Rightarrow> claim_error + unit" where
  "nonceEqual field want =
     (case b64_decode field of
        None \<Rightarrow> Inl NonceDecode
      | Some got \<Rightarrow> if length got \<noteq> length want \<or> got \<noteq> want then Inl NonceMismatch else Inr ())"

text \<open>Endpoint ids come in their string form.\<close>

definition VerifyClaim ::
  "claim \<Rightarrow> bytes \<Rightarrow> bytes \<Rightarrow> bytes \<Rightarrow> bytes \<Rightarrow> bytes \<Rightarrow> bytes \<Rightarrow> claim_error + unit" where
  "VerifyClaim c wantRole self peer alpn selfNonce peerNonce =
     (if cl_Context c \<noteq> ClaimContext then Inl WrongContext
      else if cl_Role c \<noteq> wantRole then Inl WrongRole
      else if cl_LocalEndpoint c \<noteq> peer then Inl WrongLocal
      else if cl_RemoteEndpoint c \<noteq> self then Inl WrongRemote
      else if cl_ALPN c \<noteq> alpn then Inl WrongALPN
      else case nonceEqual (cl_NoncePeer c) selfNonce of
        Inl e \<Rightarrow> Inl e
      | Inr _ \<Rightarrow> nonceEqual (cl_NonceSelf c) peerNonce)"

subsection \<open>Policies (claim.go)\<close>

text \<open>\<open>'p\<close> is the state behind the \<^verbatim>\<open>PinPeer\<close> callback.\<close>

record 'p policy =
  po_RequireMaximal :: bool
  po_RequireBundled :: bool
  po_ForbidEphemeralKey :: bool
  po_MinClaimVersion :: u64
  po_AllowedTeamIDs :: "bytes list"
  po_AllowedCDHashes :: "bytes list"
  po_PinnedAttestKeys :: "bytes list"
  po_PinPeer :: "(claim \<Rightarrow> 'p \<Rightarrow> 'p \<times> bool) option"
  po_AllowUnattested :: bool

definition Policy_Check :: "'p policy \<Rightarrow> claim \<Rightarrow> 'p \<Rightarrow> 'p \<times> (claim_error + unit)" where
  "Policy_Check p c s =
     (if po_RequireMaximal p \<and> \<not> MaximalFlags (cl_CSFlags c) then (s, Inl NotMaximal)
      else if po_RequireBundled p \<and> \<not> cl_Bundled c then (s, Inl NotBundled)
      else if po_ForbidEphemeralKey p \<and> cl_EphemeralKey c then (s, Inl KeyEphemeral)
      else if po_MinClaimVersion p > 0 \<and> cl_ClaimVersion c < po_MinClaimVersion p then (s, Inl VersionTooLow)
      else if po_AllowedTeamIDs p \<noteq> [] \<and> cl_TeamID c \<notin> set (po_AllowedTeamIDs p) then (s, Inl TeamNotAllowed)
      else if po_AllowedCDHashes p \<noteq> [] \<and> cl_CDHash c \<notin> set (po_AllowedCDHashes p) then (s, Inl CDHashNotAllowed)
      else if po_PinnedAttestKeys p \<noteq> [] \<and> cl_AttestKey c \<notin> set (po_PinnedAttestKeys p) then (s, Inl KeyNotPinned)
      else case po_PinPeer p of
        None \<Rightarrow> (s, Inr ())
      | Some pin \<Rightarrow> (case pin c s of (s', ok) \<Rightarrow> (s', if ok then Inr () else Inl PinRejected)))"

subsection \<open>Known peers (knownpeers.go)\<close>

record known_peer =
  kp_AttestKey :: bytes
  kp_CDHash :: bytes
  kp_FirstSeen :: bytes

type_synonym peers = "(bytes \<times> known_peer) list"

text \<open>The store in memory and the file behind it (\<open>None\<close> when it does not exist).\<close>

record known_peers =
  ks_peers :: peers
  ks_file :: "bytes option"

record json_peers =
  json_peers :: "peers \<Rightarrow> bytes option"
  parse_peers :: "bytes \<Rightarrow> peers option"

text \<open>\<open>read\<close> is what reading the file gave: an error, no file, or its bytes.\<close>

definition LoadKnownPeers :: "'x json_peers_scheme \<Rightarrow> unit + bytes option \<Rightarrow> unit + known_peers" where
  "LoadKnownPeers J r =
     (case r of
        Inl e \<Rightarrow> Inl e
      | Inr None \<Rightarrow> Inr \<lparr>ks_peers = [], ks_file = None\<rparr>
      | Inr (Some b) \<Rightarrow>
        (case parse_peers J b of None \<Rightarrow> Inl () | Some ps \<Rightarrow> Inr \<lparr>ks_peers = ps, ks_file = Some b\<rparr>))"

text \<open>
  \<open>disk_ok\<close> says whether every file operation up to the rename succeeds; the file changes at the
  rename, and keeps its contents otherwise.
\<close>

definition save :: "'x json_peers_scheme \<Rightarrow> bool \<Rightarrow> known_peers \<Rightarrow> known_peers \<times> bool" where
  "save J disk_ok s =
     (case json_peers J (ks_peers s) of
        None \<Rightarrow> (s, False)
      | Some b \<Rightarrow> if disk_ok then (s\<lparr>ks_file := Some (b @ [nl])\<rparr>, True) else (s, False))"

definition Pin :: "'x json_peers_scheme \<Rightarrow> bool \<Rightarrow> bytes \<Rightarrow> claim \<Rightarrow> known_peers \<Rightarrow> known_peers \<times> bool" where
  "Pin J disk_ok now c s =
     (case map_of (ks_peers s) (cl_LocalEndpoint c) of
        None \<Rightarrow>
          save J disk_ok (s\<lparr>ks_peers := alist_put (cl_LocalEndpoint c)
            \<lparr>kp_AttestKey = cl_AttestKey c, kp_CDHash = cl_CDHash c, kp_FirstSeen = now\<rparr> (ks_peers s)\<rparr>)
      | Some known \<Rightarrow> (s, kp_AttestKey known = cl_AttestKey c))"

subsection \<open>Lemmas\<close>

lemma boolByte_inj: "boolByte a = boolByte b \<longleftrightarrow> a = b"
  by (simp add: boolByte_def)

lemma be_bytes_append_unique:
  "n < 256 ^ k \<Longrightarrow> m < 256 ^ k \<Longrightarrow> be_bytes k n @ r = be_bytes k m @ s \<Longrightarrow> n = m \<and> r = s"
  by (metis append_eq_append_conv be_val_be_bytes length_be_bytes mod_less)

lemma SigningBytes_unique:
  assumes "SigningBytes c = SigningBytes d"
  shows "c = d"
proof -
  let ?f = "\<lambda>c. [cl_Context c, cl_Role c, cl_LocalEndpoint c, cl_RemoteEndpoint c, cl_ALPN c, cl_NonceSelf c,
    cl_NoncePeer c, cl_CDHash c, cl_TeamID c]"
  let ?g = "\<lambda>c. [cl_AttestKey c, cl_Time c]"
  have 1: "?f c = ?f d \<and> be_bytes 4 (unat (cl_CSFlags c)) @ [boolByte (cl_Bundled c), boolByte (cl_EphemeralKey c)] @
      concat (map length_prefixed (?g c)) @ append_uvarint (unat (cl_ClaimVersion c)) =
    be_bytes 4 (unat (cl_CSFlags d)) @ [boolByte (cl_Bundled d), boolByte (cl_EphemeralKey d)] @
      concat (map length_prefixed (?g d)) @ append_uvarint (unat (cl_ClaimVersion d))"
    by (rule field.concat_unique [OF _ _ _ assms [unfolded SigningBytes_def]]) simp_all
  have lt: "unat (f :: u32) < 256 ^ 4" for f using unsigned_less [of f, where ?'a = nat] by simp
  from be_bytes_append_unique [OF lt lt conjunct2 [OF 1]]
  have 2: "cl_CSFlags c = cl_CSFlags d" "cl_Bundled c = cl_Bundled d" "cl_EphemeralKey c = cl_EphemeralKey d"
    and r: "concat (map length_prefixed (?g c)) @ append_uvarint (unat (cl_ClaimVersion c)) =
      concat (map length_prefixed (?g d)) @ append_uvarint (unat (cl_ClaimVersion d))"
    by (auto simp: boolByte_inj dest: unsigned_word_eqI)
  have 3: "?g c = ?g d \<and> append_uvarint (unat (cl_ClaimVersion c)) = append_uvarint (unat (cl_ClaimVersion d))"
    by (rule field.concat_unique [OF _ _ _ r]) simp_all
  then have "cl_ClaimVersion c = cl_ClaimVersion d"
    using uvarint_all.enc_inject [of "unat (cl_ClaimVersion c)" "unat (cl_ClaimVersion d)"]
    by (auto dest: unsigned_word_eqI)
  with 1 2 3 show ?thesis by (cases c; cases d) simp
qed

lemma nonceEqual_Inr: "nonceEqual field want = Inr () \<longleftrightarrow> b64_decode field = Some want"
  by (auto simp: nonceEqual_def split: option.splits)

lemma VerifyClaim_Inr:
  "VerifyClaim c wantRole self peer alpn selfNonce peerNonce = Inr () \<longleftrightarrow>
   cl_Context c = ClaimContext \<and> cl_Role c = wantRole \<and> cl_LocalEndpoint c = peer \<and> cl_RemoteEndpoint c = self \<and>
   cl_ALPN c = alpn \<and> b64_decode (cl_NoncePeer c) = Some selfNonce \<and> b64_decode (cl_NonceSelf c) = Some peerNonce"
  by (auto simp: VerifyClaim_def nonceEqual_Inr [symmetric] split: sum.splits)

text \<open>What a policy accepted satisfies every restriction that is set; a rejected claim reaches the
  pin store only when everything else accepted it.\<close>

lemma Policy_Check_Inr:
  assumes "Policy_Check p c s = (s', Inr ())"
  shows "(po_RequireMaximal p \<longrightarrow> MaximalFlags (cl_CSFlags c)) \<and> (po_RequireBundled p \<longrightarrow> cl_Bundled c) \<and>
    (po_ForbidEphemeralKey p \<longrightarrow> \<not> cl_EphemeralKey c) \<and> po_MinClaimVersion p \<le> cl_ClaimVersion c \<and>
    (po_AllowedTeamIDs p \<noteq> [] \<longrightarrow> cl_TeamID c \<in> set (po_AllowedTeamIDs p)) \<and>
    (po_AllowedCDHashes p \<noteq> [] \<longrightarrow> cl_CDHash c \<in> set (po_AllowedCDHashes p)) \<and>
    (po_PinnedAttestKeys p \<noteq> [] \<longrightarrow> cl_AttestKey c \<in> set (po_PinnedAttestKeys p)) \<and>
    (case po_PinPeer p of None \<Rightarrow> s' = s | Some pin \<Rightarrow> pin c s = (s', True))"
  using assms unfolding Policy_Check_def
  by (auto simp: not_less word_gt_0 split: if_split_asm option.splits prod.splits)

subsection \<open>Lemmas: the known peers\<close>

definition claim_ascii :: "claim \<Rightarrow> bool" where
  "claim_ascii c \<longleftrightarrow> list_all ascii [cl_Context c, cl_Role c, cl_LocalEndpoint c, cl_RemoteEndpoint c, cl_ALPN c,
     cl_NonceSelf c, cl_NoncePeer c, cl_CDHash c, cl_TeamID c, cl_AttestKey c, cl_Time c]"

text \<open>A pin is one call of \<open>Pin\<close>, with whether the disk works, the time and the claim.\<close>

type_synonym pin = "bool \<times> bytes \<times> claim"

definition pin_step :: "'x json_peers_scheme \<Rightarrow> pin \<Rightarrow> known_peers \<Rightarrow> known_peers" where
  "pin_step J e s = (case e of (disk_ok, now, c) \<Rightarrow> fst (Pin J disk_ok now c s))"

definition pin_run :: "'x json_peers_scheme \<Rightarrow> pin list \<Rightarrow> known_peers \<Rightarrow> known_peers" where
  "pin_run J es = fold (pin_step J) es"

lemma save_peers [simp]: "ks_peers (fst (save J ok s)) = ks_peers s"
  by (simp add: save_def split: option.split)

lemma Pin_accepted:
  "snd (Pin J ok now c s) \<Longrightarrow>
   \<exists>k. map_of (ks_peers (fst (Pin J ok now c s))) (cl_LocalEndpoint c) = Some k \<and> kp_AttestKey k = cl_AttestKey c"
  by (auto simp: Pin_def split: option.splits)

lemma Pin_keeps:
  "map_of (ks_peers s) e = Some k \<Longrightarrow> map_of (ks_peers (fst (Pin J ok now c s))) e = Some k"
  by (auto simp: Pin_def split: option.split)

lemma pin_run_keeps: "map_of (ks_peers s) e = Some k \<Longrightarrow> map_of (ks_peers (pin_run J es s)) e = Some k"
proof (induction es arbitrary: s)
  case (Cons a es)
  obtain ok now c where "a = (ok, now, c)" by (cases a)
  with Cons.IH [OF Pin_keeps [OF Cons.prems]] show ?case by (simp add: pin_run_def pin_step_def)
qed (simp add: pin_run_def)

text \<open>What is on disk is what is in memory, unless a save failed.\<close>

definition saved :: "'x json_peers_scheme \<Rightarrow> known_peers \<Rightarrow> bool" where
  "saved J s \<longleftrightarrow> (case ks_file s of
     None \<Rightarrow> ks_peers s = []
   | Some b \<Rightarrow> (\<exists>ps. parse_peers J b = Some ps \<and> map_of ps = map_of (ks_peers s)))"

text \<open>The codec keeps the map, not the order of its entries, and only text.\<close>

definition peers_ascii :: "peers \<Rightarrow> bool" where
  "peers_ascii ps \<longleftrightarrow> (\<forall>(i, k) \<in> set ps. ascii i \<and> ascii (kp_AttestKey k) \<and> ascii (kp_CDHash k) \<and> ascii (kp_FirstSeen k))"

definition json_peers_ok :: "'x json_peers_scheme \<Rightarrow> bool" where
  "json_peers_ok J \<longleftrightarrow> (\<forall>ps b. peers_ascii ps \<longrightarrow> json_peers J ps = Some b \<longrightarrow>
     (\<exists>qs. parse_peers J (b @ [nl]) = Some qs \<and> map_of qs = map_of ps))"

lemma Pin_saved:
  assumes "json_peers_ok J" and "saved J s" and "snd (Pin J ok now c s)"
    and "peers_ascii (ks_peers (fst (Pin J ok now c s)))"
  shows "saved J (fst (Pin J ok now c s))"
  using assms by (auto simp: Pin_def save_def saved_def json_peers_ok_def split: option.splits if_splits)

subsection \<open>Properties\<close>


text \<open>After a failed save the store accepts in memory what is not on disk: the first call
  reports the failure, a second call for the same claim succeeds, and a restart loads a store without
  the pin.\<close>

theorem failed_pin_not_retried:
  assumes "saved J s" and "map_of (ks_peers s) (cl_LocalEndpoint c) = None"
  shows "\<not> snd (Pin J False now c s) \<and>
    (let s2 = fst (Pin J True now' c (fst (Pin J False now c s))) in
     snd (Pin J True now' c (fst (Pin J False now c s))) \<and>
     map_of (ks_peers s2) (cl_LocalEndpoint c) \<noteq> None \<and>
     (\<exists>s3. LoadKnownPeers J (Inr (ks_file s2)) = Inr s3 \<and> map_of (ks_peers s3) (cl_LocalEndpoint c) = None))"
  using assms by (auto simp: Pin_def save_def saved_def LoadKnownPeers_def split: option.splits)

subsection \<open>Witnesses\<close>

definition demo_claim :: "bytes \<Rightarrow> claim" where
  "demo_claim k = \<lparr>cl_Context = ClaimContext, cl_Role = RoleDial, cl_LocalEndpoint = ''A'', cl_RemoteEndpoint = ''B'',
     cl_ALPN = ''x'', cl_NonceSelf = [], cl_NoncePeer = [], cl_CDHash = ''c'', cl_TeamID = [], cl_CSFlags = 0,
     cl_Bundled = False, cl_EphemeralKey = False, cl_AttestKey = k, cl_Time = [], cl_ClaimVersion = 0\<rparr>"

definition demo_peers :: known_peers where
  "demo_peers = \<lparr>ks_peers = [], ks_file = None\<rparr>"

definition demo_json_peers :: json_peers where
  "demo_json_peers = \<lparr>json_peers = (\<lambda>ps. Some []), parse_peers = (\<lambda>b. Some [])\<rparr>"


theorem failed_pin_not_retried_witness:
  "\<not> snd (Pin demo_json_peers False [] (demo_claim ''k'') demo_peers) \<and>
    (let s2 = fst (Pin demo_json_peers True [] (demo_claim ''k'') (fst (Pin demo_json_peers False [] (demo_claim ''k'') demo_peers))) in
     snd (Pin demo_json_peers True [] (demo_claim ''k'') (fst (Pin demo_json_peers False [] (demo_claim ''k'') demo_peers))) \<and>
     map_of (ks_peers s2) (cl_LocalEndpoint (demo_claim ''k'')) \<noteq> None \<and>
     (\<exists>s3. LoadKnownPeers demo_json_peers (Inr (ks_file s2)) = Inr s3 \<and>
       map_of (ks_peers s3) (cl_LocalEndpoint (demo_claim ''k'')) = None))"
  by (rule failed_pin_not_retried) (simp_all add: saved_def demo_peers_def)

end
