(* ===== verification/Enclave_Handshake.thy ===== *)
theory Enclave_Handshake
  imports Enclave_Claim
begin

section \<open>Attestation: the handshake (enclaveiroh/handshake.go)\<close>

text \<open>
  One side of the handshake is a function of what the peer writes on the stream: the state holds
  the bytes not yet read and the bytes written. The transport takes every byte written; the random
  nonce, the clock, the signer and the JSON codec are parameters, and the peer id and the ALPN are
  those of the authenticated connection.
\<close>

subsection \<open>Parameters\<close>

datatype mode = ModeMutual | ModeProve | ModeVerify

record hello =
  he_V :: int
  he_Nonce :: bytes
  he_Mode :: bytes

record wire_claim =
  wc_Claim :: claim
  wc_Signature :: bytes

record result =
  rs_OK :: bool
  rs_Reason :: bytes

record wire_ops = crypto_ops +
  json_hello :: "hello \<Rightarrow> bytes option"
  parse_hello :: "bytes \<Rightarrow> hello option"
  json_claim :: "wire_claim \<Rightarrow> bytes option"
  parse_claim :: "bytes \<Rightarrow> wire_claim option"
  json_result :: "result \<Rightarrow> bytes option"
  parse_result :: "bytes \<Rightarrow> result option"

text \<open>The signer: its public key, and a signature of a message; \<open>None\<close> is an error.\<close>

record signer =
  sg_PublicKey :: "bytes option"
  sg_Sign :: "bytes \<Rightarrow> bytes option"

definition attests :: "mode \<Rightarrow> bool" where
  "attests m \<longleftrightarrow> m = ModeMutual \<or> m = ModeProve"

definition verifies :: "mode \<Rightarrow> bool" where
  "verifies m \<longleftrightarrow> m = ModeMutual \<or> m = ModeVerify"

definition Mode_String :: "mode \<Rightarrow> bytes" where
  "Mode_String m = (case m of ModeMutual \<Rightarrow> ''mutual'' | ModeProve \<Rightarrow> ''prove'' | ModeVerify \<Rightarrow> ''verify'')"

definition parseMode :: "bytes \<Rightarrow> mode option" where
  "parseMode s =
     (if s = ''mutual'' then Some ModeMutual
      else if s = ''prove'' then Some ModeProve
      else if s = ''verify'' then Some ModeVerify
      else None)"

definition helloVersion :: int where
  "helloVersion = 1"

definition nonceSize :: nat where
  "nonceSize = 32"

definition maxFrameSize :: nat where
  "maxFrameSize = 65536"

subsection \<open>Frames\<close>

datatype hs_error =
    NoSigner | FrameEncode | FrameTooLarge | FrameEOF | FrameDecode
  | PeerVersion int | PeerMode bytes | PeerNonce
  | ExportKey | SignClaim | DecodeSignature | Unattested mode | BadClaim claim_error | RandError

definition writeFrame :: "bytes option \<Rightarrow> bytes \<Rightarrow> hs_error + bytes" where
  "writeFrame v out =
     (case v of
        None \<Rightarrow> Inl FrameEncode
      | Some b \<Rightarrow>
        if length b > maxFrameSize then Inl FrameTooLarge
        else Inr (out @ be_bytes 4 (length b) @ b))"

definition readFrame :: "(bytes \<Rightarrow> 'v option) \<Rightarrow> bytes \<Rightarrow> hs_error + ('v \<times> bytes)" where
  "readFrame decode inp =
     (case read_be 4 inp of
        None \<Rightarrow> Inl FrameEOF
      | Some (n, r) \<Rightarrow>
        if n > maxFrameSize then Inl FrameTooLarge
        else if length r < n then Inl FrameEOF
        else case decode (take n r) of None \<Rightarrow> Inl FrameDecode | Some v \<Rightarrow> Inr (v, drop n r))"

subsection \<open>One side of the handshake\<close>

record 'p handshake_config =
  hc_SelfID :: bytes
  hc_Mode :: mode
  hc_Signer :: "signer option"
  hc_Identity :: code_identity
  hc_Bundled :: bool
  hc_EphemeralKey :: bool
  hc_ClaimVersion :: u64
  hc_Policy :: "'p policy"

record peer_attestation =
  pa_Attested :: bool
  pa_Claim :: "claim option"

text \<open>What the connection and the process provide.\<close>

record session =
  se_dialer :: bool
  se_peer :: bytes
  se_alpn :: bytes
  se_nonce :: "bytes option"
  se_time :: bytes

record 'p hs_state =
  hs_in :: bytes
  hs_out :: bytes
  hs_pins :: 'p
  hs_hello :: "hello option"
  hs_att :: "peer_attestation option"
  hs_verifyErr :: "hs_error option"

type_synonym 'p phase = "'p hs_state \<Rightarrow> 'p hs_state \<times> hs_error option"

text \<open>\<^verbatim>\<open>exchange\<close>: the dialer sends first, the server receives first.\<close>

definition exchange :: "bool \<Rightarrow> 'p phase \<Rightarrow> 'p phase \<Rightarrow> 'p phase" where
  "exchange dialer send recv st =
     (let (first, last) = (if dialer then (send, recv) else (recv, send)) in
      case first st of (st', Some e) \<Rightarrow> (st', Some e) | (st', None) \<Rightarrow> last st')"

definition put_frame :: "bytes option \<Rightarrow> 'p phase" where
  "put_frame v st = (case writeFrame v (hs_out st) of Inl e \<Rightarrow> (st, Some e) | Inr out \<Rightarrow> (st\<lparr>hs_out := out\<rparr>, None))"

definition get_hello :: "'x wire_ops_scheme \<Rightarrow> 'p phase" where
  "get_hello K st =
     (case readFrame (parse_hello K) (hs_in st) of
        Inl e \<Rightarrow> (st, Some e)
      | Inr (h, r) \<Rightarrow> (st\<lparr>hs_in := r, hs_hello := Some h\<rparr>, None))"

definition buildClaim :: "bytes \<Rightarrow> 'p handshake_config \<Rightarrow> session \<Rightarrow> signer \<Rightarrow> bytes \<Rightarrow> bytes \<Rightarrow> claim option" where
  "buildClaim role cfg se sg myNonce peerNonce =
     (case sg_PublicKey sg of
        None \<Rightarrow> None
      | Some pub \<Rightarrow> Some \<lparr>cl_Context = ClaimContext, cl_Role = role, cl_LocalEndpoint = hc_SelfID cfg,
          cl_RemoteEndpoint = se_peer se, cl_ALPN = se_alpn se, cl_NonceSelf = b64_encode myNonce,
          cl_NoncePeer = b64_encode peerNonce, cl_CDHash = hex_encode (ci_CDHash (hc_Identity cfg)),
          cl_TeamID = ci_TeamID (hc_Identity cfg), cl_CSFlags = ci_Flags (hc_Identity cfg),
          cl_Bundled = hc_Bundled cfg, cl_EphemeralKey = hc_EphemeralKey cfg, cl_AttestKey = hex_encode pub,
          cl_Time = se_time se, cl_ClaimVersion = hc_ClaimVersion cfg\<rparr>)"

definition verifyPeerClaim ::
  "'x wire_ops_scheme \<Rightarrow> wire_claim \<Rightarrow> bytes \<Rightarrow> 'p handshake_config \<Rightarrow> session \<Rightarrow> bytes \<Rightarrow> bytes \<Rightarrow> 'p \<Rightarrow>
   'p \<times> hs_error option" where
  "verifyPeerClaim K wc myRole cfg se myNonce peerNonce pins =
     (case hex_decode (wc_Signature wc) of
        None \<Rightarrow> (pins, Some DecodeSignature)
      | Some sig \<Rightarrow>
        (case VerifyClaimSignature K (wc_Claim wc) sig of
           Inl e \<Rightarrow> (pins, Some (BadClaim e))
         | Inr _ \<Rightarrow>
           (case VerifyClaim (wc_Claim wc) (if myRole = RoleDial then RoleServe else RoleDial)
               (hc_SelfID cfg) (se_peer se) (se_alpn se) myNonce peerNonce of
              Inl e \<Rightarrow> (pins, Some (BadClaim e))
            | Inr _ \<Rightarrow>
              (case Policy_Check (hc_Policy cfg) (wc_Claim wc) pins of
                 (pins', Inl e) \<Rightarrow> (pins', Some (BadClaim e))
               | (pins', Inr _) \<Rightarrow> (pins', None)))))"

definition my_role :: "session \<Rightarrow> bytes" where
  "my_role se = (if se_dialer se then RoleDial else RoleServe)"

definition send_claim :: "'x wire_ops_scheme \<Rightarrow> 'p handshake_config \<Rightarrow> session \<Rightarrow> bytes \<Rightarrow> bytes \<Rightarrow> 'p phase" where
  "send_claim K cfg se myNonce peerNonce st =
     (if \<not> attests (hc_Mode cfg) then (st, None)
      else case hc_Signer cfg of
        None \<Rightarrow> (st, Some NoSigner)
      | Some sg \<Rightarrow>
        (case buildClaim (my_role se) cfg se sg myNonce peerNonce of
           None \<Rightarrow> (st, Some ExportKey)
         | Some claim \<Rightarrow>
           (case sg_Sign sg (SigningBytes claim) of
              None \<Rightarrow> (st, Some SignClaim)
            | Some sig \<Rightarrow> put_frame (json_claim K \<lparr>wc_Claim = claim, wc_Signature = hex_encode sig\<rparr>) st)))"

definition recv_claim :: "'x wire_ops_scheme \<Rightarrow> 'p handshake_config \<Rightarrow> session \<Rightarrow> mode \<Rightarrow> bytes \<Rightarrow> bytes \<Rightarrow> 'p phase" where
  "recv_claim K cfg se peerMode myNonce peerNonce st =
     (if \<not> verifies (hc_Mode cfg) then (st, None)
      else if \<not> attests peerMode then
        (if \<not> po_AllowUnattested (hc_Policy cfg) then (st\<lparr>hs_verifyErr := Some (Unattested peerMode)\<rparr>, None)
         else (st\<lparr>hs_att := Some \<lparr>pa_Attested = False, pa_Claim = None\<rparr>\<rparr>, None))
      else case readFrame (parse_claim K) (hs_in st) of
        Inl e \<Rightarrow> (st, Some e)
      | Inr (wc, r) \<Rightarrow>
        (case verifyPeerClaim K wc (my_role se) cfg se myNonce peerNonce (hs_pins st) of
           (pins, Some e) \<Rightarrow> (st\<lparr>hs_in := r, hs_pins := pins, hs_verifyErr := Some e\<rparr>, None)
         | (pins, None) \<Rightarrow> (st\<lparr>hs_in := r, hs_pins := pins,
             hs_att := Some \<lparr>pa_Attested = True, pa_Claim = Some (wc_Claim wc)\<rparr>\<rparr>, None)))"

definition get_result :: "'x wire_ops_scheme \<Rightarrow> 'p phase" where
  "get_result K st =
     (case readFrame (parse_result K) (hs_in st) of
        Inl e \<Rightarrow> (st, Some e)
      | Inr (_, r) \<Rightarrow> (st\<lparr>hs_in := r\<rparr>, None))"

text \<open>
  \<^verbatim>\<open>runHandshake\<close> from the bytes the peer writes; \<open>reason\<close> is the text of an error. The result
  is the error, or the peer's attestation (\<open>None\<close> in prove mode).
\<close>

definition runHandshake ::
  "'x wire_ops_scheme \<Rightarrow> (hs_error \<Rightarrow> bytes) \<Rightarrow> 'p handshake_config \<Rightarrow> session \<Rightarrow> bytes \<Rightarrow> 'p \<Rightarrow>
   'p hs_state \<times> (hs_error + peer_attestation option)" where
  "runHandshake K reason cfg se inp pins =
     (let st0 = \<lparr>hs_in = inp, hs_out = [], hs_pins = pins, hs_hello = None, hs_att = None, hs_verifyErr = None\<rparr> in
      if attests (hc_Mode cfg) \<and> hc_Signer cfg = None then (st0, Inl NoSigner)
      else case se_nonce se of
        None \<Rightarrow> (st0, Inl RandError)
      | Some myNonce \<Rightarrow>
        (case exchange (se_dialer se)
            (put_frame (json_hello K \<lparr>he_V = helloVersion, he_Nonce = b64_encode myNonce, he_Mode = Mode_String (hc_Mode cfg)\<rparr>))
            (get_hello K) st0 of
           (st1, Some e) \<Rightarrow> (st1, Inl e)
         | (st1, None) \<Rightarrow>
           (case hs_hello st1 of
              None \<Rightarrow> (st1, Inl FrameEOF)
            | Some h \<Rightarrow>
              if he_V h \<noteq> helloVersion then (st1, Inl (PeerVersion (he_V h)))
              else (case parseMode (he_Mode h) of
                 None \<Rightarrow> (st1, Inl (PeerMode (he_Mode h)))
               | Some peerMode \<Rightarrow>
                 (case b64_decode (he_Nonce h) of
                    None \<Rightarrow> (st1, Inl PeerNonce)
                  | Some peerNonce \<Rightarrow>
                    if length peerNonce \<noteq> nonceSize then (st1, Inl PeerNonce)
                    else (case exchange (se_dialer se)
                        (send_claim K cfg se myNonce peerNonce)
                        (recv_claim K cfg se peerMode myNonce peerNonce) st1 of
                       (st2, Some e) \<Rightarrow> (st2, Inl e)
                     | (st2, None) \<Rightarrow>
                       let myResult = \<lparr>rs_OK = (hs_verifyErr st2 = None),
                             rs_Reason = (case hs_verifyErr st2 of None \<Rightarrow> [] | Some e \<Rightarrow> reason e)\<rparr>;
                           st3 = fst (exchange (se_dialer se) (put_frame (json_result K myResult)) (get_result K) st2) in
                       (st3, case hs_verifyErr st2 of Some e \<Rightarrow> Inl e | None \<Rightarrow> Inr (hs_att st2))))))))"

subsection \<open>Lemmas: frames\<close>

definition fits :: "bytes option \<Rightarrow> bool" where
  "fits v \<longleftrightarrow> (case v of None \<Rightarrow> False | Some b \<Rightarrow> length b \<le> maxFrameSize)"

definition frame_of :: "bytes option \<Rightarrow> bytes" where
  "frame_of v = (case v of None \<Rightarrow> [] | Some b \<Rightarrow> be_bytes 4 (length b) @ b)"

lemma put_frame_fits: "fits v \<Longrightarrow> put_frame v st = (st\<lparr>hs_out := hs_out st @ frame_of v\<rparr>, None)"
  by (auto simp: fits_def put_frame_def writeFrame_def frame_of_def split: option.splits)

lemma readFrame_frame_of:
  assumes "fits v" and "\<And>b. v = Some b \<Longrightarrow> decode b = Some x"
  shows "readFrame decode (frame_of v @ t) = Inr (x, t)"
proof -
  from assms(1) obtain b where b: "v = Some b" "length b \<le> maxFrameSize" by (auto simp: fits_def split: option.splits)
  then have "length b < 2 ^ 32" by (simp add: maxFrameSize_def)
  with b assms(2) [OF b(1)] show ?thesis by (simp add: readFrame_def frame_of_def be32.dec_enc)
qed

lemma put_frame_keeps:
  "put_frame v st = (st', r) \<Longrightarrow> hs_in st' = hs_in st \<and> hs_pins st' = hs_pins st \<and> hs_hello st' = hs_hello st \<and>
   hs_att st' = hs_att st \<and> hs_verifyErr st' = hs_verifyErr st"
  by (auto simp: put_frame_def split: sum.splits)

lemma send_claim_keeps:
  "send_claim K cfg se n pn st = (st', r) \<Longrightarrow> hs_in st' = hs_in st \<and> hs_pins st' = hs_pins st \<and>
   hs_att st' = hs_att st \<and> hs_verifyErr st' = hs_verifyErr st"
  by (auto simp: send_claim_def dest: put_frame_keeps split: if_splits option.splits)

lemma get_hello_keeps:
  "get_hello K st = (st', r) \<Longrightarrow> hs_pins st' = hs_pins st \<and> hs_att st' = hs_att st \<and> hs_verifyErr st' = hs_verifyErr st"
  by (auto simp: get_hello_def split: sum.splits prod.splits)

lemma parseMode_String [simp]: "parseMode (Mode_String m) = Some m"
  by (cases m) (simp_all add: parseMode_def Mode_String_def)

subsection \<open>Lemmas: what a verified peer is\<close>

text \<open>The whole check of one claim on one connection.\<close>

definition claim_verified ::
  "'x wire_ops_scheme \<Rightarrow> 'p handshake_config \<Rightarrow> session \<Rightarrow> bytes \<Rightarrow> bytes \<Rightarrow> 'p \<Rightarrow> claim \<Rightarrow> bool" where
  "claim_verified K cfg se myNonce peerNonce pins c \<longleftrightarrow>
     (\<exists>sig. VerifyClaimSignature K c sig = Inr ()) \<and>
     cl_Context c = ClaimContext \<and> cl_Role c = (if se_dialer se then RoleServe else RoleDial) \<and>
     cl_LocalEndpoint c = se_peer se \<and> cl_RemoteEndpoint c = hc_SelfID cfg \<and> cl_ALPN c = se_alpn se \<and>
     b64_decode (cl_NoncePeer c) = Some myNonce \<and> b64_decode (cl_NonceSelf c) = Some peerNonce \<and>
     snd (Policy_Check (hc_Policy cfg) c pins) = Inr ()"

lemma verifyPeerClaim_None:
  assumes "verifyPeerClaim K wc (my_role se) cfg se n pn pins = (pins', None)"
  shows "claim_verified K cfg se n pn pins (wc_Claim wc)"
proof -
  have role: "(if my_role se = RoleDial then RoleServe else RoleDial) = (if se_dialer se then RoleServe else RoleDial)"
    by (simp add: my_role_def RoleDial_def RoleServe_def)
  from assms obtain sig where
    "VerifyClaimSignature K (wc_Claim wc) sig = Inr ()"
    "VerifyClaim (wc_Claim wc) (if se_dialer se then RoleServe else RoleDial) (hc_SelfID cfg) (se_peer se) (se_alpn se) n pn = Inr ()"
    "snd (Policy_Check (hc_Policy cfg) (wc_Claim wc) pins) = Inr ()"
    unfolding verifyPeerClaim_def role by (auto split: option.splits sum.splits prod.splits)
  then show ?thesis by (auto simp: claim_verified_def VerifyClaim_Inr)
qed

text \<open>What the outcome of a side says of its peer: nothing in prove mode, otherwise an allowed
  unattested peer or a verified claim.\<close>

definition att_ok ::
  "'x wire_ops_scheme \<Rightarrow> 'p handshake_config \<Rightarrow> session \<Rightarrow> mode \<Rightarrow> bytes \<Rightarrow> bytes \<Rightarrow> 'p \<Rightarrow> peer_attestation option \<Rightarrow> bool" where
  "att_ok K cfg se pm myNonce peerNonce pins att \<longleftrightarrow> (case att of
      None \<Rightarrow> \<not> verifies (hc_Mode cfg)
    | Some a \<Rightarrow> verifies (hc_Mode cfg) \<and>
        (case pa_Claim a of
           None \<Rightarrow> \<not> pa_Attested a \<and> po_AllowUnattested (hc_Policy cfg) \<and> \<not> attests pm
         | Some c \<Rightarrow> pa_Attested a \<and> claim_verified K cfg se myNonce peerNonce pins c))"

lemma recv_claim_att:
  assumes "recv_claim K cfg se pm n pn st = (st', None)" and "hs_att st = None" and "hs_verifyErr st = None"
    and "hs_verifyErr st' = None"
  shows "att_ok K cfg se pm n pn (hs_pins st) (hs_att st')"
  using assms unfolding recv_claim_def att_ok_def
  by (auto split: if_splits sum.splits prod.splits option.splits) (erule verifyPeerClaim_None)

lemma phase2_att:
  assumes "exchange d (send_claim K cfg se n pn) (recv_claim K cfg se pm n pn) st = (st', None)"
    and "hs_att st = None" and "hs_verifyErr st = None" and "hs_verifyErr st' = None"
  shows "att_ok K cfg se pm n pn (hs_pins st) (hs_att st')"
proof (cases d)
  case True
  with assms(1) obtain st1 where s: "send_claim K cfg se n pn st = (st1, None)"
    "recv_claim K cfg se pm n pn st1 = (st', None)"
    by (auto simp: exchange_def split: prod.splits option.splits)
  note k = send_claim_keeps [OF s(1)]
  have "hs_att st1 = None" "hs_verifyErr st1 = None" "hs_pins st1 = hs_pins st" using k assms(2,3) by simp_all
  with recv_claim_att [OF s(2) this(1,2) assms(4)] show ?thesis by simp
next
  case False
  with assms(1) obtain st1 where s: "recv_claim K cfg se pm n pn st = (st1, None)"
    "send_claim K cfg se n pn st1 = (st', None)"
    by (auto simp: exchange_def split: prod.splits option.splits)
  note k = send_claim_keeps [OF s(2)]
  have "hs_verifyErr st1 = None" "hs_att st1 = hs_att st'" using k assms(4) by simp_all
  with recv_claim_att [OF s(1) assms(2,3)] show ?thesis by simp
qed

lemma phase1_state:
  assumes "exchange d (put_frame v) (get_hello K) st = (st', None)"
  shows "hs_pins st' = hs_pins st \<and> hs_att st' = hs_att st \<and> hs_verifyErr st' = hs_verifyErr st"
  using assms by (cases d) (auto simp: exchange_def dest!: put_frame_keeps get_hello_keeps split: prod.splits option.splits)

lemma runHandshake_Inr:
  assumes "runHandshake K reason cfg se inp pins = (st, Inr att)"
  obtains n pn pm st1 st2 where "se_nonce se = Some n" "length pn = nonceSize"
    "hs_att st1 = None" "hs_verifyErr st1 = None" "hs_pins st1 = pins"
    "exchange (se_dialer se) (send_claim K cfg se n pn) (recv_claim K cfg se pm n pn) st1 = (st2, None)"
    "hs_verifyErr st2 = None" "att = hs_att st2"
proof -
  let ?st0 = "\<lparr>hs_in = inp, hs_out = [], hs_pins = pins, hs_hello = None, hs_att = None, hs_verifyErr = None\<rparr>"
  from assms obtain n st1 h pm pn st2 where r: "se_nonce se = Some n"
    "exchange (se_dialer se) (put_frame (json_hello K \<lparr>he_V = helloVersion, he_Nonce = b64_encode n,
        he_Mode = Mode_String (hc_Mode cfg)\<rparr>)) (get_hello K) ?st0 = (st1, None)"
    "length pn = nonceSize"
    "exchange (se_dialer se) (send_claim K cfg se n pn) (recv_claim K cfg se pm n pn) st1 = (st2, None)"
    "hs_verifyErr st2 = None" "att = hs_att st2"
    unfolding runHandshake_def Let_def
    by (auto split: if_split_asm option.split_asm prod.split_asm)
  from phase1_state [OF r(2)] have "hs_att st1 = None" "hs_verifyErr st1 = None" "hs_pins st1 = pins" by simp_all
  with r that show ?thesis by blast
qed

subsection \<open>Lemmas: two honest sides\<close>

definition hello_of :: "'p handshake_config \<Rightarrow> bytes \<Rightarrow> hello" where
  "hello_of cfg n = \<lparr>he_V = helloVersion, he_Nonce = b64_encode n, he_Mode = Mode_String (hc_Mode cfg)\<rparr>"

text \<open>The signed claim a side sends, if its mode attests.\<close>

definition signed_claim :: "'p handshake_config \<Rightarrow> session \<Rightarrow> bytes \<Rightarrow> bytes \<Rightarrow> wire_claim option" where
  "signed_claim cfg se n pn =
     (case hc_Signer cfg of
        None \<Rightarrow> None
      | Some sg \<Rightarrow>
        (case buildClaim (my_role se) cfg se sg n pn of
           None \<Rightarrow> None
         | Some c \<Rightarrow> map_option (\<lambda>sig. \<lparr>wc_Claim = c, wc_Signature = hex_encode sig\<rparr>) (sg_Sign sg (SigningBytes c))))"

definition claim_part :: "'x wire_ops_scheme \<Rightarrow> 'p handshake_config \<Rightarrow> session \<Rightarrow> bytes \<Rightarrow> bytes \<Rightarrow> bytes" where
  "claim_part K cfg se n pn =
     (if attests (hc_Mode cfg) then frame_of (json_claim K (the (signed_claim cfg se n pn))) else [])"

definition ok_result :: result where
  "ok_result = \<lparr>rs_OK = True, rs_Reason = []\<rparr>"

text \<open>Laws of the JSON codec, and of a signer whose signatures verify.\<close>

definition wire_ok :: "'x wire_ops_scheme \<Rightarrow> bool" where
  "wire_ok K \<longleftrightarrow>
     (\<forall>h b. ascii (he_Nonce h) \<longrightarrow> ascii (he_Mode h) \<longrightarrow> json_hello K h = Some b \<longrightarrow> parse_hello K b = Some h) \<and>
     (\<forall>c b. claim_ascii (wc_Claim c) \<longrightarrow> ascii (wc_Signature c) \<longrightarrow> json_claim K c = Some b \<longrightarrow> parse_claim K b = Some c) \<and> fits (json_result K ok_result)"

definition signer_ok :: "'x wire_ops_scheme \<Rightarrow> signer \<Rightarrow> bool" where
  "signer_ok K sg \<longleftrightarrow> (\<exists>pub q. sg_PublicKey sg = Some pub \<and> parseP256PublicKey K pub = Some q \<and>
     (\<forall>m. \<exists>sig. sg_Sign sg m = Some sig \<and> ecdsa_verify K q (sha256 K m) sig))"

text \<open>A side that is set up: a nonce, a working signer where it attests, messages that fit a frame.\<close>

definition side_ready :: "'x wire_ops_scheme \<Rightarrow> 'p handshake_config \<Rightarrow> session \<Rightarrow> bytes \<Rightarrow> bytes \<Rightarrow> bool" where
  "side_ready K cfg se n pn \<longleftrightarrow> se_nonce se = Some n \<and> length n = nonceSize \<and>
     fits (json_hello K (hello_of cfg n)) \<and>
     (attests (hc_Mode cfg) \<longrightarrow> (\<exists>sg. hc_Signer cfg = Some sg \<and> signer_ok K sg) \<and>
       fits (json_claim K (the (signed_claim cfg se n pn))) \<and> claim_ascii (wc_Claim (the (signed_claim cfg se n pn))))"

lemma hello_of_ascii [simp]: "ascii (he_Nonce (hello_of cfg n))" "ascii (he_Mode (hello_of cfg n))"
  by (simp_all add: hello_of_def Mode_String_def split: mode.split)

lemma signed_claim_ascii: "signed_claim cfg se n pn = Some wc \<Longrightarrow> ascii (wc_Signature wc)"
  by (auto simp: signed_claim_def split: option.splits)

lemma signed_claim_ready:
  assumes "side_ready K cfg se n pn" and "attests (hc_Mode cfg)"
  obtains wc sig where "signed_claim cfg se n pn = Some wc" "hex_decode (wc_Signature wc) = Some sig"
    "VerifyClaimSignature K (wc_Claim wc) sig = Inr ()"
    "VerifyClaim (wc_Claim wc) (my_role se) (se_peer se) (hc_SelfID cfg) (se_alpn se) pn n = Inr ()"
proof -
  from assms obtain sg where sg: "hc_Signer cfg = Some sg" "signer_ok K sg" by (auto simp: side_ready_def)
  then obtain pub q where q: "sg_PublicKey sg = Some pub" "parseP256PublicKey K pub = Some q"
    "\<forall>m. \<exists>sig. sg_Sign sg m = Some sig \<and> ecdsa_verify K q (sha256 K m) sig" by (auto simp: signer_ok_def)
  obtain c where c: "buildClaim (my_role se) cfg se sg n pn = Some c" "cl_AttestKey c = hex_encode pub"
    "VerifyClaim c (my_role se) (se_peer se) (hc_SelfID cfg) (se_alpn se) pn n = Inr ()"
    using q(1) by (simp add: buildClaim_def VerifyClaim_Inr)
  obtain sig where sig: "sg_Sign sg (SigningBytes c) = Some sig" "ecdsa_verify K q (sha256 K (SigningBytes c)) sig"
    using q(3) by blast
  show ?thesis
  proof (rule that [of "\<lparr>wc_Claim = c, wc_Signature = hex_encode sig\<rparr>" sig])
    show "signed_claim cfg se n pn = Some \<lparr>wc_Claim = c, wc_Signature = hex_encode sig\<rparr>"
      using sg c(1) sig(1) by (simp add: signed_claim_def)
    show "VerifyClaimSignature K (wc_Claim \<lparr>wc_Claim = c, wc_Signature = hex_encode sig\<rparr>) sig = Inr ()"
      using c(2) q(2) sig(2) by (simp add: VerifyClaimSignature_def)
  qed (use c(3) in simp_all)
qed

lemma send_claim_ready:
  assumes "side_ready K cfg se n pn"
  shows "send_claim K cfg se n pn st = (st\<lparr>hs_out := hs_out st @ claim_part K cfg se n pn\<rparr>, None)"
proof (cases "attests (hc_Mode cfg)")
  case True
  obtain wc sig where wc: "signed_claim cfg se n pn = Some wc" using signed_claim_ready [OF assms True] .
  with assms True have f: "fits (json_claim K wc)" by (simp add: side_ready_def)
  from wc True have "send_claim K cfg se n pn st = put_frame (json_claim K wc) st"
    by (auto simp: send_claim_def signed_claim_def split: option.splits)
  with put_frame_fits [OF f] wc True show ?thesis by (simp add: claim_part_def)
qed (simp add: send_claim_def claim_part_def)

text \<open>What a side makes of an honest peer whose claim its policy accepts.\<close>

definition expected :: "'p handshake_config \<Rightarrow> mode \<Rightarrow> claim \<Rightarrow> peer_attestation option" where
  "expected cfg pm c =
     (if \<not> verifies (hc_Mode cfg) then None
      else if attests pm then Some \<lparr>pa_Attested = True, pa_Claim = Some c\<rparr>
      else Some \<lparr>pa_Attested = False, pa_Claim = None\<rparr>)"

definition policy_accepts :: "'p handshake_config \<Rightarrow> mode \<Rightarrow> claim \<Rightarrow> 'p \<Rightarrow> bool" where
  "policy_accepts cfg pm c pins \<longleftrightarrow> (verifies (hc_Mode cfg) \<longrightarrow>
     (if attests pm then snd (Policy_Check (hc_Policy cfg) c pins) = Inr () else po_AllowUnattested (hc_Policy cfg)))"

text \<open>The two sides of one connection.\<close>

definition connected :: "'p handshake_config \<Rightarrow> session \<Rightarrow> 'q handshake_config \<Rightarrow> session \<Rightarrow> bool" where
  "connected cfg se cfg' se' \<longleftrightarrow> se_dialer se \<noteq> se_dialer se' \<and> se_peer se = hc_SelfID cfg' \<and>
     se_peer se' = hc_SelfID cfg \<and> se_alpn se = se_alpn se'"

definition peer_claim :: "'p handshake_config \<Rightarrow> session \<Rightarrow> bytes \<Rightarrow> bytes \<Rightarrow> claim" where
  "peer_claim cfg se n pn = wc_Claim (the (signed_claim cfg se n pn))"

lemma recv_claim_honest:
  assumes wire: "wire_ok K" and peer: "side_ready K cfg' se' n' n" and conn: "connected cfg se cfg' se'"
    and pol: "policy_accepts cfg (hc_Mode cfg') (peer_claim cfg' se' n' n) (hs_pins st)"
    and inp: "hs_in st = claim_part K cfg' se' n' n @ t"
    and att: "hs_att st = None" and err: "hs_verifyErr st = None"
  shows "\<exists>st'. recv_claim K cfg se (hc_Mode cfg') n n' st = (st', None) \<and> hs_out st' = hs_out st \<and>
    hs_att st' = expected cfg (hc_Mode cfg') (peer_claim cfg' se' n' n) \<and> hs_verifyErr st' = None"
proof (cases "verifies (hc_Mode cfg) \<and> attests (hc_Mode cfg')")
  case False
  then show ?thesis using pol att err by (auto simp: recv_claim_def expected_def policy_accepts_def)
next
  case True
  obtain wc sig where wc: "signed_claim cfg' se' n' n = Some wc" "hex_decode (wc_Signature wc) = Some sig"
    "VerifyClaimSignature K (wc_Claim wc) sig = Inr ()"
    "VerifyClaim (wc_Claim wc) (my_role se') (se_peer se') (hc_SelfID cfg') (se_alpn se') n n' = Inr ()"
    using signed_claim_ready [OF peer] True by blast
  have fits: "fits (json_claim K wc)" and plain: "claim_ascii (wc_Claim wc)"
    using peer True wc(1) by (simp_all add: side_ready_def)
  have frame: "readFrame (parse_claim K) (hs_in st) = Inr (wc, t)"
    unfolding inp using True wc(1)
    by (simp add: claim_part_def)
      (rule readFrame_frame_of [OF fits], use wire plain signed_claim_ascii [OF wc(1)] in \<open>simp add: wire_ok_def\<close>)
  have role: "(if my_role se = RoleDial then RoleServe else RoleDial) = my_role se'"
    using conn by (simp add: connected_def my_role_def RoleDial_def RoleServe_def)
  have ver: "VerifyClaim (wc_Claim wc) (my_role se') (hc_SelfID cfg) (se_peer se) (se_alpn se) n n' = Inr ()"
    using wc(4) conn by (simp add: connected_def)
  obtain pins where pins: "Policy_Check (hc_Policy cfg) (wc_Claim wc) (hs_pins st) = (pins, Inr ())"
    using pol True wc(1) by (simp add: policy_accepts_def peer_claim_def prod_eq_iff)
  have "verifyPeerClaim K wc (my_role se) cfg se n n' (hs_pins st) = (pins, None)"
    unfolding verifyPeerClaim_def role using wc(2,3) ver pins by simp
  with True frame wc(1) err show ?thesis by (simp add: recv_claim_def expected_def peer_claim_def)
qed

lemma phase2_honest:
  assumes "wire_ok K" "side_ready K cfg se n n'" "side_ready K cfg' se' n' n" "connected cfg se cfg' se'"
    "policy_accepts cfg (hc_Mode cfg') (peer_claim cfg' se' n' n) (hs_pins st)"
    "hs_in st = claim_part K cfg' se' n' n @ t" "hs_att st = None" "hs_verifyErr st = None"
  shows "\<exists>st'. exchange d (send_claim K cfg se n n') (recv_claim K cfg se (hc_Mode cfg') n n') st = (st', None) \<and>
    hs_out st' = hs_out st @ claim_part K cfg se n n' \<and>
    hs_att st' = expected cfg (hc_Mode cfg') (peer_claim cfg' se' n' n) \<and> hs_verifyErr st' = None"
proof (cases d)
  case True
  let ?st1 = "st\<lparr>hs_out := hs_out st @ claim_part K cfg se n n'\<rparr>"
  have "\<exists>st'. recv_claim K cfg se (hc_Mode cfg') n n' ?st1 = (st', None) \<and> hs_out st' = hs_out ?st1 \<and>
    hs_att st' = expected cfg (hc_Mode cfg') (peer_claim cfg' se' n' n) \<and> hs_verifyErr st' = None"
    by (rule recv_claim_honest [OF assms(1,3,4)]) (use assms in simp_all)
  with True show ?thesis by (auto simp: exchange_def send_claim_ready [OF assms(2)])
next
  case False
  from recv_claim_honest [OF assms(1,3,4,5,6,7,8)] False show ?thesis
    by (auto simp: exchange_def send_claim_ready [OF assms(2)])
qed

lemma phase1_honest:
  assumes "wire_ok K" "fits (json_hello K (hello_of cfg n))" "fits (json_hello K (hello_of cfg' n'))"
    "hs_in st = frame_of (json_hello K (hello_of cfg' n')) @ r"
  shows "exchange d (put_frame (json_hello K (hello_of cfg n))) (get_hello K) st =
    (st\<lparr>hs_in := r, hs_out := hs_out st @ frame_of (json_hello K (hello_of cfg n)), hs_hello := Some (hello_of cfg' n')\<rparr>, None)"
proof -
  have "readFrame (parse_hello K) (frame_of (json_hello K (hello_of cfg' n')) @ r) = Inr (hello_of cfg' n', r)"
    by (rule readFrame_frame_of [OF assms(3)]) (use assms(1) in \<open>simp add: wire_ok_def\<close>)
  then show ?thesis
    using assms(4) by (simp add: exchange_def put_frame_fits [OF assms(2)] get_hello_def)
qed

lemma get_result_eq: "get_result K st = (st', r) \<Longrightarrow> hs_out st' = hs_out st"
  by (auto simp: get_result_def split: sum.splits)

lemma get_result_out [simp]: "hs_out (fst (get_result K st)) = hs_out st"
  by (metis get_result_eq prod.collapse)

text \<open>One side against the hello and the claim of the other, whatever follows.\<close>

lemma side_run:
  assumes wire: "wire_ok K" and me: "side_ready K cfg se n n'" and peer: "side_ready K cfg' se' n' n"
    and conn: "connected cfg se cfg' se'"
    and pol: "policy_accepts cfg (hc_Mode cfg') (peer_claim cfg' se' n' n) pins"
  shows "\<exists>st u. runHandshake K reason cfg se
      (frame_of (json_hello K (hello_of cfg' n')) @ claim_part K cfg' se' n' n @ t) pins =
      (st, Inr (expected cfg (hc_Mode cfg') (peer_claim cfg' se' n' n))) \<and>
    hs_out st = frame_of (json_hello K (hello_of cfg n)) @ claim_part K cfg se n n' @ u \<and>
    (se_dialer se \<longrightarrow> u = frame_of (json_result K ok_result))"
proof -
  let ?inp = "frame_of (json_hello K (hello_of cfg' n')) @ claim_part K cfg' se' n' n @ t"
  let ?st0 = "\<lparr>hs_in = ?inp, hs_out = [], hs_pins = pins, hs_hello = None, hs_att = None, hs_verifyErr = None\<rparr>"
  let ?st1 = "?st0\<lparr>hs_in := claim_part K cfg' se' n' n @ t, hs_out := frame_of (json_hello K (hello_of cfg n)),
    hs_hello := Some (hello_of cfg' n')\<rparr>"
  have p1: "exchange (se_dialer se) (put_frame (json_hello K (hello_of cfg n))) (get_hello K) ?st0 = (?st1, None)"
    using me peer by (subst phase1_honest [OF wire]) (simp_all add: side_ready_def)
  have "\<exists>st'. exchange (se_dialer se) (send_claim K cfg se n n') (recv_claim K cfg se (hc_Mode cfg') n n') ?st1 = (st', None) \<and>
    hs_out st' = hs_out ?st1 @ claim_part K cfg se n n' \<and>
    hs_att st' = expected cfg (hc_Mode cfg') (peer_claim cfg' se' n' n) \<and> hs_verifyErr st' = None"
    by (rule phase2_honest [OF wire me peer conn]) (use pol in simp_all)
  then obtain st2 where p2: "exchange (se_dialer se) (send_claim K cfg se n n') (recv_claim K cfg se (hc_Mode cfg') n n') ?st1 = (st2, None)"
    "hs_out st2 = frame_of (json_hello K (hello_of cfg n)) @ claim_part K cfg se n n'"
    "hs_att st2 = expected cfg (hc_Mode cfg') (peer_claim cfg' se' n' n)" "hs_verifyErr st2 = None" by auto
  define st3 where "st3 = fst (exchange (se_dialer se) (put_frame (json_result K ok_result)) (get_result K) st2)"
  have fr: "fits (json_result K ok_result)" using wire by (simp add: wire_ok_def)
  have "hs_out st3 = hs_out st2 @ frame_of (json_result K ok_result) \<or> \<not> se_dialer se \<and> hs_out st3 = hs_out st2"
    by (auto simp: st3_def exchange_def put_frame_fits [OF fr] dest!: get_result_eq split: prod.splits option.splits)
  then obtain u where u: "hs_out st3 = hs_out st2 @ u" "se_dialer se \<longrightarrow> u = frame_of (json_result K ok_result)" by auto
  have nonces: "se_nonce se = Some n" "length n' = nonceSize" using me peer by (simp_all add: side_ready_def)
  have signer: "\<not> (attests (hc_Mode cfg) \<and> hc_Signer cfg = None)" using me by (auto simp: side_ready_def)
  have "runHandshake K reason cfg se ?inp pins = (st3, Inr (expected cfg (hc_Mode cfg') (peer_claim cfg' se' n' n)))"
    using signer nonces p1 [unfolded hello_of_def] p2 (1,3,4)
    by (simp add: runHandshake_def hello_of_def helloVersion_def st3_def ok_result_def Let_def)
  with u p2(2) show ?thesis by auto
qed

subsection \<open>Properties\<close>



subsection \<open>Witnesses\<close>

definition demo_policy :: "unit policy" where
  "demo_policy = \<lparr>po_RequireMaximal = False, po_RequireBundled = False, po_ForbidEphemeralKey = True, po_MinClaimVersion = 2,
     po_AllowedTeamIDs = [''t''], po_AllowedCDHashes = [], po_PinnedAttestKeys = [], po_PinPeer = None,
     po_AllowUnattested = False\<rparr>"

definition demo_signer :: signer where
  "demo_signer = \<lparr>sg_PublicKey = Some ''k'', sg_Sign = (\<lambda>m. Some ''s'')\<rparr>"

definition demo_config :: "bytes \<Rightarrow> unit handshake_config" where
  "demo_config self = \<lparr>hc_SelfID = self, hc_Mode = ModeMutual, hc_Signer = Some demo_signer,
     hc_Identity = \<lparr>ci_CDHash = ''c'', ci_TeamID = ''t'', ci_SigningID = [], ci_Flags = 0\<rparr>, hc_Bundled = False,
     hc_EphemeralKey = False, hc_ClaimVersion = 3, hc_Policy = demo_policy\<rparr>"

definition demo_nonce :: "char \<Rightarrow> bytes" where
  "demo_nonce c = replicate 32 c"

definition demo_session :: "bool \<Rightarrow> bytes \<Rightarrow> char \<Rightarrow> session" where
  "demo_session d peer c = \<lparr>se_dialer = d, se_peer = peer, se_alpn = ''x'', se_nonce = Some (demo_nonce c), se_time = ''T''\<rparr>"

abbreviation demo_dialer :: "unit handshake_config" where "demo_dialer \<equiv> demo_config ''A''"
abbreviation demo_server :: "unit handshake_config" where "demo_server \<equiv> demo_config ''B''"
abbreviation dial_session :: session where "dial_session \<equiv> demo_session True ''B'' CHR ''1''"
abbreviation serve_session :: session where "serve_session \<equiv> demo_session False ''A'' CHR ''2''"
abbreviation dial_nonce :: bytes where "dial_nonce \<equiv> demo_nonce CHR ''1''"
abbreviation serve_nonce :: bytes where "serve_nonce \<equiv> demo_nonce CHR ''2''"

definition dial_wire :: wire_claim where
  "dial_wire = the (signed_claim demo_dialer dial_session dial_nonce serve_nonce)"

definition serve_wire :: wire_claim where
  "serve_wire = the (signed_claim demo_server serve_session serve_nonce dial_nonce)"

text \<open>A codec for two values.\<close>

definition two_codec :: "'v \<Rightarrow> 'v \<Rightarrow> ('v \<Rightarrow> bytes option) \<times> (bytes \<Rightarrow> 'v option)" where
  "two_codec a b = (\<lambda>v. if v = a then Some ''a'' else if v = b then Some ''b'' else None,
     \<lambda>s. if s = ''a'' then Some a else if s = ''b'' then Some b else None)"

lemma two_codec_inverse: "fst (two_codec a b) v = Some s \<Longrightarrow> snd (two_codec a b) s = Some v"
  by (auto simp: two_codec_def split: if_splits)

lemma two_codec_fits: "fits (fst (two_codec a b) a)" "fits (fst (two_codec a b) b)"
  by (simp_all add: two_codec_def fits_def maxFrameSize_def)

definition demo_wire :: wire_ops where
  "demo_wire = \<lparr>p256_valid = (\<lambda>b. True), ecdsa_verify = (\<lambda>q d s. s = ''s''), sha256 = (\<lambda>m. m),
     json_hello = fst (two_codec (hello_of demo_dialer dial_nonce) (hello_of demo_server serve_nonce)),
     parse_hello = snd (two_codec (hello_of demo_dialer dial_nonce) (hello_of demo_server serve_nonce)),
     json_claim = fst (two_codec dial_wire serve_wire), parse_claim = snd (two_codec dial_wire serve_wire),
     json_result = fst (two_codec ok_result ok_result), parse_result = snd (two_codec ok_result ok_result)\<rparr>"

lemma demo_wire_ok: "wire_ok demo_wire"
  by (simp add: wire_ok_def demo_wire_def two_codec_inverse two_codec_fits)

lemma demo_signer_ok: "signer_ok demo_wire demo_signer"
  by (simp add: signer_ok_def demo_signer_def demo_wire_def parseP256PublicKey_def)

lemma demo_hello_fits:
  "fits (json_hello demo_wire (hello_of demo_dialer dial_nonce))"
  "fits (json_hello demo_wire (hello_of demo_server serve_nonce))"
  using two_codec_fits by (simp_all add: demo_wire_def)

lemma demo_claim_fits:
  "fits (json_claim demo_wire (the (signed_claim demo_dialer dial_session dial_nonce serve_nonce)))"
  "fits (json_claim demo_wire (the (signed_claim demo_server serve_session serve_nonce dial_nonce)))"
  unfolding dial_wire_def [symmetric] serve_wire_def [symmetric]
  using two_codec_fits by (simp_all add: demo_wire_def)

lemma demo_config_simps [simp]:
  "hc_Signer (demo_config i) = Some demo_signer" "hc_Mode (demo_config i) = ModeMutual"
  "hc_SelfID (demo_config i) = i" "hc_Policy (demo_config i) = demo_policy"
  by (simp_all add: demo_config_def)

lemma demo_session_simps [simp]:
  "se_nonce (demo_session d p c) = Some (demo_nonce c)" "se_dialer (demo_session d p c) = d"
  "se_peer (demo_session d p c) = p" "se_alpn (demo_session d p c) = ''x''" "length (demo_nonce c) = nonceSize"
  by (simp_all add: demo_session_def demo_nonce_def nonceSize_def)

lemma demo_claim_ascii: "claim_ascii (wc_Claim (the (signed_claim (demo_config i) (demo_session d p c) n n')))" if "ascii i" "ascii p"
  using that by (simp add: signed_claim_def buildClaim_def demo_signer_def demo_config_def demo_session_def claim_ascii_def
      my_role_def RoleDial_def RoleServe_def ClaimContext_def hex_char_ascii)

lemma demo_ready:
  "side_ready demo_wire demo_dialer dial_session dial_nonce serve_nonce"
  "side_ready demo_wire demo_server serve_session serve_nonce dial_nonce"
  using demo_signer_ok demo_hello_fits demo_claim_fits by (simp_all add: side_ready_def demo_claim_ascii)

lemma demo_hs_accepts:
  "policy_accepts (demo_config i) m (peer_claim (demo_config j) se n n') ()"
  if "attests m"
  using that by (simp add: policy_accepts_def verifies_def peer_claim_def signed_claim_def buildClaim_def demo_signer_def
      demo_config_def demo_policy_def Policy_Check_def)

lemma demo_connected: "connected demo_dialer dial_session demo_server serve_session"
  by (simp add: connected_def)



end
