(* ===== verification/Enclave_Custody.thy ===== *)
theory Enclave_Custody
  imports GoText
begin

section \<open>Key custody (enclaveiroh)\<close>

text \<open>
  \<^verbatim>\<open>enclaveiroh.go\<close>, \<^verbatim>\<open>custody_darwin.go\<close>, \<^verbatim>\<open>keychain_darwin.go\<close> and the key lookup of
  \<^verbatim>\<open>enclave_darwin.go\<close>: the endpoint seed wrapped by an Enclave key and kept in the keychain. The
  Security framework is a parameter that acts on a state of type \<open>'w\<close>, with keys of type \<open>'k\<close>; the
  random seed and the randomness of an encryption are inputs.
\<close>

unbundle bit_operations_syntax

subsection \<open>Parameters\<close>

datatype custody_error =
    TagRequired | MissingEntitlement | DuplicateItem | MalformedQuery | OSStatus int | AccessControl
  | CreateKey | NilKey | RandomError | WrapSeed | UnwrapSeed | RoundTrip | SeedLength nat
  | LoadSeed custody_error | PersistSeed custody_error | BadSeed

text \<open>
  Statuses are those of the framework. A matching query gives a status and the data or the key it
  found, and a key whose public half cannot be copied is \<open>None\<close>.
\<close>

record ('w, 'k) security =
  item_add :: "bytes \<Rightarrow> bytes \<Rightarrow> bytes \<Rightarrow> 'w \<Rightarrow> 'w \<times> int"
  item_copy :: "bytes \<Rightarrow> bytes \<Rightarrow> 'w \<Rightarrow> int \<times> bytes"
  item_delete :: "bytes \<Rightarrow> bytes \<Rightarrow> 'w \<Rightarrow> 'w \<times> int"
  access_control :: "'w \<Rightarrow> bool"
  key_copy :: "bytes \<Rightarrow> 'w \<Rightarrow> int \<times> 'k option"
  key_create :: "bytes \<Rightarrow> bytes \<Rightarrow> bool \<Rightarrow> 'w \<Rightarrow> 'w \<times> (custody_error + 'k)"
  key_encrypt :: "'k \<Rightarrow> bytes \<Rightarrow> bytes \<Rightarrow> bytes option"
  key_decrypt :: "'k \<Rightarrow> bytes \<Rightarrow> bytes option"

subsection \<open>The keychain (keychain_darwin.go)\<close>

definition errSecSuccess :: int where "errSecSuccess = 0"
definition errSecItemNotFound :: int where "errSecItemNotFound = -25300"
definition errSecDuplicateItem :: int where "errSecDuplicateItem = -25299"
definition errSecMissingEntitlement :: int where "errSecMissingEntitlement = -34018"
definition errSecParam :: int where "errSecParam = -50"

definition secStatus :: "int \<Rightarrow> custody_error + unit" where
  "secStatus status =
     (if status = errSecSuccess then Inr ()
      else if status = errSecMissingEntitlement then Inl MissingEntitlement
      else if status = errSecDuplicateItem then Inl DuplicateItem
      else if status = errSecParam then Inl MalformedQuery
      else Inl (OSStatus status))"

definition deleteSecret :: "('w, 'k, 'x) security_scheme \<Rightarrow> bytes \<Rightarrow> bytes \<Rightarrow> 'w \<Rightarrow> 'w \<times> (custody_error + unit)" where
  "deleteSecret K service account w =
     (case item_delete K service account w of
        (w', status) \<Rightarrow> (w', if status = errSecItemNotFound then Inr () else secStatus status))"

definition storeSecret ::
  "('w, 'k, 'x) security_scheme \<Rightarrow> bytes \<Rightarrow> bytes \<Rightarrow> bytes \<Rightarrow> 'w \<Rightarrow> 'w \<times> (custody_error + unit)" where
  "storeSecret K service account secret w =
     (let w1 = fst (deleteSecret K service account w) in
      if \<not> access_control K w1 then (w1, Inl AccessControl)
      else (case item_add K service account secret w1 of (w2, status) \<Rightarrow> (w2, secStatus status)))"

definition loadSecret :: "('w, 'k, 'x) security_scheme \<Rightarrow> bytes \<Rightarrow> bytes \<Rightarrow> 'w \<Rightarrow> custody_error + bytes option" where
  "loadSecret K service account w =
     (case item_copy K service account w of
        (status, data) \<Rightarrow>
          if status = errSecItemNotFound then Inr None
          else if status = errSecSuccess then Inr (Some data)
          else (case secStatus status of Inl e \<Rightarrow> Inl e | Inr _ \<Rightarrow> Inr None))"

subsection \<open>Enclave keys (enclave_darwin.go)\<close>

definition findEnclaveKey :: "('w, 'k, 'x) security_scheme \<Rightarrow> bytes \<Rightarrow> 'w \<Rightarrow> custody_error + 'k option" where
  "findEnclaveKey K tag w =
     (case key_copy K tag w of
        (status, found) \<Rightarrow>
          if status = errSecItemNotFound then Inr None
          else if status = errSecSuccess then (case found of None \<Rightarrow> Inl NilKey | Some k \<Rightarrow> Inr (Some k))
          else (case secStatus status of Inl e \<Rightarrow> Inl e | Inr _ \<Rightarrow> Inr None))"

definition generateEnclaveKey ::
  "('w, 'k, 'x) security_scheme \<Rightarrow> bytes \<Rightarrow> bytes \<Rightarrow> bool \<Rightarrow> 'w \<Rightarrow> 'w \<times> (custody_error + 'k)" where
  "generateEnclaveKey K label tag permanent w =
     (if \<not> access_control K w then (w, Inl AccessControl) else key_create K label tag permanent w)"

subsection \<open>The key store (enclaveiroh.go, custody_darwin.go)\<close>

definition seedSize :: nat where
  "seedSize = 32"

record key_store =
  ks_Tag :: bytes
  ks_Service :: bytes
  ks_Account :: bytes
  ks_Ephemeral :: bool

definition service :: "key_store \<Rightarrow> bytes" where
  "service ks = (if ks_Service ks \<noteq> [] then ks_Service ks else ks_Tag ks)"

definition account_name :: "key_store \<Rightarrow> bytes" where
  "account_name ks = (if ks_Account ks \<noteq> [] then ks_Account ks else ''iroh-endpoint-seed'')"

definition wrappingKeyLabel :: bytes where
  "wrappingKeyLabel = ''enclaveiroh endpoint wrapping key''"

definition wrappingKey :: "('w, 'k, 'x) security_scheme \<Rightarrow> key_store \<Rightarrow> 'w \<Rightarrow> 'w \<times> (custody_error + 'k)" where
  "wrappingKey K ks w =
     (if ks_Ephemeral ks then generateEnclaveKey K wrappingKeyLabel (ks_Tag ks) False w
      else case findEnclaveKey K (ks_Tag ks) w of
        Inl e \<Rightarrow> (w, Inl e)
      | Inr (Some k) \<Rightarrow> (w, Inr k)
      | Inr None \<Rightarrow> generateEnclaveKey K wrappingKeyLabel (ks_Tag ks) True w)"

text \<open>The comparison accumulates the differences of the bytes.\<close>

definition differences :: "bytes \<Rightarrow> bytes \<Rightarrow> u8" where
  "differences a b = foldl (\<lambda>v (x, y). v OR (of_nat (byte_val x) XOR of_nat (byte_val y))) 0 (zip a b)"

definition equal_bytes :: "bytes \<Rightarrow> bytes \<Rightarrow> bool" where
  "equal_bytes a b = (if length a \<noteq> length b then False else differences a b = 0)"

definition sealVerified :: "('w, 'k, 'x) security_scheme \<Rightarrow> bytes \<Rightarrow> 'k \<Rightarrow> bytes \<Rightarrow> custody_error + bytes" where
  "sealVerified K rnd wrap seed =
     (case key_encrypt K wrap rnd seed of
        None \<Rightarrow> Inl WrapSeed
      | Some ciphertext \<Rightarrow>
        (case key_decrypt K wrap ciphertext of
           None \<Rightarrow> Inl UnwrapSeed
         | Some got \<Rightarrow>
           if length got \<noteq> seedSize \<or> \<not> equal_bytes got seed then Inl RoundTrip else Inr ciphertext))"

text \<open>\<open>fresh\<close> is the random seed, \<open>None\<close> when the generator fails.\<close>

definition obtainSeed ::
  "('w, 'k, 'x) security_scheme \<Rightarrow> bytes option \<Rightarrow> bytes \<Rightarrow> key_store \<Rightarrow> 'w \<Rightarrow> 'w \<times> (custody_error + bytes)" where
  "obtainSeed K fresh rnd ks w0 =
     (case wrappingKey K ks w0 of
        (w, Inl e) \<Rightarrow> (w, Inl e)
      | (w, Inr wrap) \<Rightarrow>
        if ks_Ephemeral ks then
          (case fresh of
             None \<Rightarrow> (w, Inl RandomError)
           | Some seed \<Rightarrow> (case sealVerified K rnd wrap seed of Inl e \<Rightarrow> (w, Inl e) | Inr _ \<Rightarrow> (w, Inr seed)))
        else
          (case loadSecret K (service ks) (account_name ks) w of
             Inl e \<Rightarrow> (w, Inl (LoadSeed e))
           | Inr (Some ciphertext) \<Rightarrow>
             (case key_decrypt K wrap ciphertext of
                None \<Rightarrow> (w, Inl UnwrapSeed)
              | Some seed \<Rightarrow> if length seed \<noteq> seedSize then (w, Inl (SeedLength (length seed))) else (w, Inr seed))
           | Inr None \<Rightarrow>
             (case fresh of
                None \<Rightarrow> (w, Inl RandomError)
              | Some seed \<Rightarrow>
                (case sealVerified K rnd wrap seed of
                   Inl e \<Rightarrow> (w, Inl e)
                 | Inr ciphertext \<Rightarrow>
                   (case storeSecret K (service ks) (account_name ks) ciphertext w of
                      (w', Inl e) \<Rightarrow> (w', Inl (PersistSeed e))
                    | (w', Inr _) \<Rightarrow> (w', Inr seed))))))"

definition SecretKey ::
  "('w, 'k, 'x) security_scheme \<Rightarrow> (bytes \<Rightarrow> 's option) \<Rightarrow> bytes option \<Rightarrow> bytes \<Rightarrow> key_store \<Rightarrow> 'w \<Rightarrow>
   'w \<times> (custody_error + 's)" where
  "SecretKey K from_slice fresh rnd ks w =
     (if ks_Tag ks = [] then (w, Inl TagRequired)
      else case obtainSeed K fresh rnd ks w of
        (w', Inl e) \<Rightarrow> (w', Inl e)
      | (w', Inr seed) \<Rightarrow> (w', of_option BadSeed (from_slice seed)))"

definition newSigner ::
  "('w, 'k, 'x) security_scheme \<Rightarrow> bytes \<Rightarrow> bool \<Rightarrow> 'w \<Rightarrow> 'w \<times> (custody_error + 'k)" where
  "newSigner K tag permanent w =
     (if permanent then
        (case findEnclaveKey K tag w of
           Inl e \<Rightarrow> (w, Inl e)
         | Inr (Some k) \<Rightarrow> (w, Inr k)
         | Inr None \<Rightarrow> generateEnclaveKey K ''enclaveiroh attestation key'' tag True w)
      else generateEnclaveKey K ''enclaveiroh attestation key'' tag False w)"

subsection \<open>Laws of the framework\<close>

text \<open>
  What the framework documents: an item that was added is found, changing items does not change
  keys, and a permanent key is found under its tag.
\<close>

definition security_ok :: "('w, 'k, 'x) security_scheme \<Rightarrow> bool" where
  "security_ok K \<longleftrightarrow>
     (\<forall>s a d w w'. item_add K s a d w = (w', errSecSuccess) \<longrightarrow> item_copy K s a w' = (errSecSuccess, d)) \<and>
     (\<forall>s a d w tag. key_copy K tag (fst (item_add K s a d w)) = key_copy K tag w) \<and>
     (\<forall>s a w tag. key_copy K tag (fst (item_delete K s a w)) = key_copy K tag w) \<and>
     (\<forall>l tag w w' k. key_create K l tag True w = (w', Inr k) \<longrightarrow> key_copy K tag w' = (errSecSuccess, Some k))"

subsection \<open>Lemmas\<close>

lemma byte_xor_zero: "(of_nat (byte_val x) XOR of_nat (byte_val y) :: u8) = 0 \<longleftrightarrow> x = y"
proof -
  have "(of_nat (byte_val x) :: u8) = of_nat (byte_val y) \<longleftrightarrow> byte_val x = byte_val y"
    using nat_of_char_less_256 [of x] nat_of_char_less_256 [of y]
    by (simp add: word_of_nat_eq_iff take_bit_nat_eq_self)
  moreover have "a XOR b = 0 \<longleftrightarrow> a = b" for a b :: u8
  proof
    assume "a XOR b = 0"
    moreover have "(a XOR b) XOR b = a" by (simp add: xor.assoc)
    ultimately show "a = b" by simp
  qed simp
  ultimately show ?thesis by simp
qed

lemma differences_acc:
  "length a = length b \<Longrightarrow>
   (foldl (\<lambda>v (x, y). v OR (of_nat (byte_val x) XOR of_nat (byte_val y) :: u8)) v (zip a b) = 0) \<longleftrightarrow> v = 0 \<and> a = b"
proof (induction a b arbitrary: v rule: list_induct2)
  case (Cons x xs y ys)
  then show ?case by (auto simp: or_eq_0_iff byte_xor_zero)
qed simp

lemma equal_bytes_iff: "equal_bytes a b \<longleftrightarrow> a = b"
  by (auto simp: equal_bytes_def differences_def differences_acc)

lemma sealVerified_opens: "sealVerified K rnd k seed = Inr c \<Longrightarrow> key_decrypt K k c = Some seed \<and> length seed = seedSize"
  by (auto simp: sealVerified_def equal_bytes_iff split: option.splits if_splits)

lemma secStatus_Inr: "secStatus st = Inr u \<longleftrightarrow> st = errSecSuccess"
  by (auto simp: secStatus_def)

lemma storeSecret_keeps_keys:
  assumes "security_ok K"
  shows "key_copy K tag (fst (storeSecret K s a c w)) = key_copy K tag w"
  using assms by (simp add: storeSecret_def deleteSecret_def Let_def security_ok_def split: prod.split)
    (metis fst_conv)

lemma storeSecret_found:
  assumes "security_ok K" and "storeSecret K s a c w = (w', Inr u)"
  shows "loadSecret K s a w' = Inr (Some c)"
proof -
  from assms(2) obtain w1 where "item_add K s a c w1 = (w', errSecSuccess)"
    by (auto simp: storeSecret_def Let_def secStatus_Inr split: if_splits prod.splits)
  with assms(1) have "item_copy K s a w' = (errSecSuccess, c)" unfolding security_ok_def by blast
  then show ?thesis by (simp add: loadSecret_def errSecSuccess_def errSecItemNotFound_def)
qed

lemma findEnclaveKey_copy:
  "findEnclaveKey K tag w = Inr (Some k) \<longleftrightarrow> key_copy K tag w = (errSecSuccess, Some k)"
  by (auto simp: findEnclaveKey_def secStatus_Inr errSecSuccess_def errSecItemNotFound_def split: prod.split option.split sum.split)

text \<open>A key that was obtained once is found from then on.\<close>

lemma wrappingKey_found:
  assumes "security_ok K" and "\<not> ks_Ephemeral ks" and "wrappingKey K ks w = (w', Inr k)"
  shows "findEnclaveKey K (ks_Tag ks) w' = Inr (Some k)"
  using assms unfolding wrappingKey_def generateEnclaveKey_def findEnclaveKey_copy security_ok_def
  by (auto split: sum.splits option.splits if_splits simp: findEnclaveKey_copy)

text \<open>After a persistent seed was obtained, the keychain holds it, sealed to the key under the tag.\<close>

definition holds_seed :: "('w, 'k, 'x) security_scheme \<Rightarrow> key_store \<Rightarrow> bytes \<Rightarrow> 'w \<Rightarrow> bool" where
  "holds_seed K ks seed w \<longleftrightarrow> (\<exists>k c. findEnclaveKey K (ks_Tag ks) w = Inr (Some k) \<and>
     loadSecret K (service ks) (account_name ks) w = Inr (Some c) \<and> key_decrypt K k c = Some seed \<and> length seed = seedSize)"

lemma obtainSeed_holds:
  assumes "security_ok K" and "\<not> ks_Ephemeral ks" and "obtainSeed K fresh rnd ks w0 = (w, Inr seed)"
  shows "holds_seed K ks seed w"
proof -
  obtain w1 r where wk: "wrappingKey K ks w0 = (w1, r)" by fastforce
  with assms(3) obtain k where r: "r = Inr k" by (auto simp: obtainSeed_def split: sum.splits)
  note found = wrappingKey_found [OF assms(1,2) wk [unfolded r]]
  show ?thesis
  proof (cases "loadSecret K (service ks) (account_name ks) w1")
    case (Inl e)
    with assms(2,3) wk r show ?thesis by (simp add: obtainSeed_def)
  next
    case (Inr l)
    show ?thesis
    proof (cases l)
      case (Some c)
      with assms(2,3) wk r Inr show ?thesis
        using found by (auto simp: obtainSeed_def holds_seed_def split: option.splits if_splits)
    next
      case None
      with assms(2,3) wk r Inr obtain c u where c: "sealVerified K rnd k seed = Inr c"
        "storeSecret K (service ks) (account_name ks) c w1 = (w, Inr u)"
        by (auto simp: obtainSeed_def split: option.splits sum.splits prod.splits)
      have "findEnclaveKey K (ks_Tag ks) w = Inr (Some k)"
        using found storeSecret_keeps_keys [OF assms(1), of "ks_Tag ks" "service ks" "account_name ks" c w1] c(2)
        by (simp add: findEnclaveKey_copy)
      with storeSecret_found [OF assms(1) c(2)] sealVerified_opens [OF c(1)] show ?thesis
        by (auto simp: holds_seed_def)
    qed
  qed
qed

lemma obtainSeed_held:
  "holds_seed K ks seed w \<Longrightarrow> \<not> ks_Ephemeral ks \<Longrightarrow> obtainSeed K fresh rnd ks w = (w, Inr seed)"
  by (auto simp: holds_seed_def obtainSeed_def wrappingKey_def)

subsection \<open>Properties\<close>


subsection \<open>Witnesses\<close>

text \<open>A keychain of association lists; a key is its label, and encryption prefixes it.\<close>

record demo_keychain =
  dk_items :: "((bytes \<times> bytes) \<times> bytes) list"
  dk_keys :: "(bytes \<times> bytes) list"

definition demo_security :: "(demo_keychain, bytes) security" where
  "demo_security =
     \<lparr>item_add = (\<lambda>s a d w. if map_of (dk_items w) (s, a) \<noteq> None then (w, errSecDuplicateItem)
        else (w\<lparr>dk_items := alist_put (s, a) d (dk_items w)\<rparr>, errSecSuccess)),
      item_copy = (\<lambda>s a w. case map_of (dk_items w) (s, a) of None \<Rightarrow> (errSecItemNotFound, []) | Some d \<Rightarrow> (errSecSuccess, d)),
      item_delete = (\<lambda>s a w. (w\<lparr>dk_items := alist_del (s, a) (dk_items w)\<rparr>, errSecSuccess)),
      access_control = (\<lambda>w. True),
      key_copy = (\<lambda>tag w. case map_of (dk_keys w) tag of None \<Rightarrow> (errSecItemNotFound, None) | Some k \<Rightarrow> (errSecSuccess, Some k)),
      key_create = (\<lambda>l tag permanent w. (if permanent then w\<lparr>dk_keys := alist_put tag l (dk_keys w)\<rparr> else w, Inr l)),
      key_encrypt = (\<lambda>k rnd m. Some (k @ m)),
      key_decrypt = (\<lambda>k c. if prefix k c then Some (drop (length k) c) else None)\<rparr>"

lemma demo_security_ok: "security_ok demo_security"
  by (auto simp: security_ok_def demo_security_def errSecSuccess_def errSecDuplicateItem_def split: if_splits)

definition demo_key_store :: key_store where
  "demo_key_store = \<lparr>ks_Tag = ''tag'', ks_Service = [], ks_Account = [], ks_Ephemeral = False\<rparr>"

definition demo_seed :: bytes where
  "demo_seed = replicate 32 CHR ''s''"

lemma demo_SecretKey:
  "SecretKey demo_security Some (Some demo_seed) [] demo_key_store \<lparr>dk_items = [], dk_keys = []\<rparr> =
   (\<lparr>dk_items = [((''tag'', ''iroh-endpoint-seed''), wrappingKeyLabel @ demo_seed)], dk_keys = [(''tag'', wrappingKeyLabel)]\<rparr>,
    Inr demo_seed)"
  by code_simp


end
