(* ===== verification/Enclave_Attest.thy ===== *)
theory Enclave_Attest
  imports Enclave_Handshake Enclave_Custody
begin

section \<open>The endpoint command (enclaveiroh/cmd/enclave-iroh)\<close>

text \<open>
  \<^verbatim>\<open>attest.go\<close>, \<^verbatim>\<open>harden_darwin.go\<close>, \<^verbatim>\<open>harden_other.go\<close> and the set-up of \<^verbatim>\<open>main.go\<close>: how the process
  hardens itself before it unwraps the endpoint key, how the flags become the policy of the
  handshake, and how a session record is signed and checked. What the kernel reports, the Security
  framework and the JSON codec are parameters.
\<close>

unbundle bit_operations_syntax

subsection \<open>Code-signing status (attest.go, harden_darwin.go)\<close>

record codeSigning =
  cs_Flags :: u32
  cs_Valid :: bool
  cs_HardenedRT :: bool
  cs_Hard :: bool
  cs_Kill :: bool
  cs_Enforcement :: bool
  cs_LibraryValid :: bool
  cs_GetTaskAllow :: bool
  cs_Debugged :: bool

definition no_codeSigning :: codeSigning where
  "no_codeSigning = \<lparr>cs_Flags = 0, cs_Valid = False, cs_HardenedRT = False, cs_Hard = False, cs_Kill = False,
     cs_Enforcement = False, cs_LibraryValid = False, cs_GetTaskAllow = False, cs_Debugged = False\<rparr>"

definition add_name :: "bytes \<times> bytes \<Rightarrow> bytes \<times> bool \<Rightarrow> bytes \<times> bytes" where
  "add_name = (\<lambda>(s, sep) (name, on). if on then (s @ sep @ name, '' '') else (s, sep))"

definition codeSigning_String :: "codeSigning \<Rightarrow> bytes" where
  "codeSigning_String c =
     fst (foldl add_name (''flags=0x'' @ fmt_08x (cs_Flags c) @ '' ['', [])
       [(''valid'', cs_Valid c), (''hardened-runtime'', cs_HardenedRT c), (''hard'', cs_Hard c), (''kill'', cs_Kill c),
        (''enforcement'', cs_Enforcement c), (''library-validation'', cs_LibraryValid c),
        (''GET_TASK_ALLOW(!)'', cs_GetTaskAllow c), (''DEBUGGED(!)'', cs_Debugged c)]) @ '']''"

definition Maximal :: "codeSigning \<Rightarrow> bool" where
  "Maximal c \<longleftrightarrow> cs_Valid c \<and> cs_HardenedRT c \<and> cs_Kill c \<and> cs_Enforcement c \<and> cs_LibraryValid c \<and>
     \<not> cs_GetTaskAllow c \<and> \<not> cs_Debugged c"

text \<open>\<open>None\<close> is a failing system call.\<close>

definition codeSigningStatus :: "u32 option \<Rightarrow> codeSigning option" where
  "codeSigningStatus status =
     (case status of
        None \<Rightarrow> None
      | Some flags \<Rightarrow> Some \<lparr>cs_Flags = flags, cs_Valid = (flags AND CSValid \<noteq> 0), cs_HardenedRT = (flags AND CSRuntime \<noteq> 0),
          cs_Hard = (flags AND CSHard \<noteq> 0), cs_Kill = (flags AND CSKill \<noteq> 0), cs_Enforcement = (flags AND CSEnforcement \<noteq> 0),
          cs_LibraryValid = (flags AND CSRequireLV \<noteq> 0), cs_GetTaskAllow = (flags AND CSGetTaskAllow \<noteq> 0),
          cs_Debugged = (flags AND CSDebugged \<noteq> 0)\<rparr>)"

subsection \<open>Hardening\<close>

record hardenedConfig =
  hg_DenyAttach :: bool
  hg_RequireMaximal :: bool
  hg_TracePoll :: int
  hg_Attest :: bool
  hg_AttestOut :: bytes

record hardeningReport =
  hr_CodeSigning :: codeSigning
  hr_DeniedAttach :: bool
  hr_Bundled :: bool
  hr_TracePoll :: bytes

datatype command_error =
    StatusError | NotHardened bytes | TraceCheck | DebuggerAttached | DenyDebugger | HardeningUnavailable
  | BundleError | EndpointKey custody_error | AttestationKey custody_error
  | AttestMode bytes | LocalIdentity | BadClaimVersion bytes | LoadPeers
  | ExportPublicKey | EncodeAttestation | SignAttestation | SelfVerifyError | SelfVerifyFailed | WriteAttestation
  | ReadAttestation | ParseAttestation | NoSignature | BadSignatureHex | BadPublicKeyHex | BadPublicKey | Unverified
  | SlicePanic

text \<open>
  What the kernel answers: the status flags, whether the process is traced and whether it denies
  attaching. \<open>duration\<close> prints a \<^verbatim>\<open>time.Duration\<close>. The result carries the report lines.
\<close>

record kernel =
  kn_status :: "u32 option"
  kn_traced :: "bool option"
  kn_deny :: bool

definition isTraced :: "kernel \<Rightarrow> bool option" where
  "isTraced kn = kn_traced kn"

definition denyDebugger :: "kernel \<Rightarrow> bool" where
  "denyDebugger kn = kn_deny kn"

definition debuggable_warning :: bytes where
  "debuggable_warning = ''hardening: warning: CS_GET_TASK_ALLOW is set '' @ [CHR 0xE2, CHR 0x80, CHR 0x94] @
     '' this process is debuggable''"

definition hardenProcess ::
  "kernel \<Rightarrow> (int \<Rightarrow> bytes) \<Rightarrow> hardenedConfig \<Rightarrow> bool \<Rightarrow> bytes list \<times> hardeningReport \<times> (command_error + unit)" where
  "hardenProcess kn duration hcfg bundled =
     (let hr = \<lparr>hr_CodeSigning = no_codeSigning, hr_DeniedAttach = False, hr_Bundled = bundled, hr_TracePoll = []\<rparr> in
      case codeSigningStatus (kn_status kn) of
        None \<Rightarrow> ([], hr, Inl StatusError)
      | Some cs \<Rightarrow>
        let hr = hr\<lparr>hr_CodeSigning := cs\<rparr>;
            out = [''hardening: code-signing '' @ codeSigning_String cs] @
              (if cs_GetTaskAllow cs then [debuggable_warning] else []) in
        if hg_RequireMaximal hcfg \<and> \<not> Maximal cs then (out, hr, Inl (NotHardened (codeSigning_String cs)))
        else (case isTraced kn of
           None \<Rightarrow> (out, hr, Inl TraceCheck)
         | Some True \<Rightarrow> (out, hr, Inl DebuggerAttached)
         | Some False \<Rightarrow>
           if hg_DenyAttach hcfg \<and> \<not> denyDebugger kn then (out, hr, Inl DenyDebugger)
           else
             let hr = (if hg_DenyAttach hcfg then hr\<lparr>hr_DeniedAttach := True\<rparr> else hr);
                 out = out @ (if hg_DenyAttach hcfg then [''hardening: PT_DENY_ATTACH applied; debugger attach refused for process lifetime''] else []);
                 hr = (if hg_TracePoll hcfg > 0 then hr\<lparr>hr_TracePoll := duration (hg_TracePoll hcfg)\<rparr> else hr) in
             (out, hr, Inr ())))"

text \<open>The version for other platforms.\<close>

definition hardenProcess_other ::
  "hardenedConfig \<Rightarrow> bool \<Rightarrow> bytes list \<times> hardeningReport \<times> (command_error + unit)" where
  "hardenProcess_other hcfg bundled =
     (let hr = \<lparr>hr_CodeSigning = no_codeSigning, hr_DeniedAttach = False, hr_Bundled = bundled, hr_TracePoll = []\<rparr>;
          out = [''hardening: unavailable on this platform (macOS only); no anti-debug protections applied''] in
      if hg_RequireMaximal hcfg then (out, hr, Inl HardeningUnavailable) else (out, hr, Inr ()))"

text \<open>
  One tick of the watchdog: whether it stops the process. \<open>prepare\<close> hardens, starts the watchdog
  and only then unwraps the key; \<open>bundled\<close> is the result of \<^verbatim>\<open>maybeBundle\<close>.
\<close>

definition watchdog_tick :: "kernel \<Rightarrow> bool" where
  "watchdog_tick kn = (isTraced kn = Some True)"

definition keyStore :: "bytes \<Rightarrow> bool \<Rightarrow> key_store" where
  "keyStore tag ephemeral = \<lparr>ks_Tag = tag, ks_Service = [], ks_Account = [], ks_Ephemeral = ephemeral\<rparr>"

definition prepare ::
  "('w, 'k, 'x) security_scheme \<Rightarrow> (bytes \<Rightarrow> 's option) \<Rightarrow> kernel \<Rightarrow> (int \<Rightarrow> bytes) \<Rightarrow> bool option \<Rightarrow> bytes option \<Rightarrow> bytes \<Rightarrow>
   hardenedConfig \<Rightarrow> bytes \<Rightarrow> bool \<Rightarrow> 'w \<Rightarrow> 'w \<times> (command_error + 's \<times> hardeningReport)" where
  "prepare K from_slice kn duration bundled fresh rnd hcfg tag ephemeral w =
     (case bundled of
        None \<Rightarrow> (w, Inl BundleError)
      | Some b \<Rightarrow>
        (case hardenProcess kn duration hcfg b of
           (_, _, Inl e) \<Rightarrow> (w, Inl e)
         | (_, hr, Inr _) \<Rightarrow>
           (case SecretKey K from_slice fresh rnd (keyStore tag ephemeral) w of
              (w', Inl e) \<Rightarrow> (w', Inl (EndpointKey e))
            | (w', Inr sk) \<Rightarrow> (w', Inr (sk, hr)))))"

subsection \<open>Flags and the handshake configuration (main.go)\<close>

record peerConfig =
  pc_Enable :: bool
  pc_Mode :: bytes
  pc_RequireMaximal :: bool
  pc_AllowUnattested :: bool
  pc_MinPeerVersion :: u64
  pc_PinCDHash :: bytes
  pc_PinTeam :: bytes
  pc_PinAttestKey :: bytes
  pc_PinFile :: bytes

definition peer_mode :: "peerConfig \<Rightarrow> command_error + mode" where
  "peer_mode pc =
     (if pc_Mode pc = ''mutual'' then Inr ModeMutual
      else if pc_Mode pc = ''prove'' then Inr ModeProve
      else if pc_Mode pc = ''verify'' then Inr ModeVerify
      else Inl (AttestMode (pc_Mode pc)))"

definition peer_policy :: "peerConfig \<Rightarrow> 'p policy" where
  "peer_policy pc =
     \<lparr>po_RequireMaximal = pc_RequireMaximal pc, po_RequireBundled = False, po_ForbidEphemeralKey = False,
      po_MinClaimVersion = pc_MinPeerVersion pc,
      po_AllowedTeamIDs = (if pc_PinTeam pc \<noteq> [] then [pc_PinTeam pc] else []),
      po_AllowedCDHashes = (if pc_PinCDHash pc \<noteq> [] then [pc_PinCDHash pc] else []),
      po_PinnedAttestKeys = (if pc_PinAttestKey pc \<noteq> [] then [pc_PinAttestKey pc] else []),
      po_PinPeer = None, po_AllowUnattested = pc_AllowUnattested pc\<rparr>"

definition inertPolicyFlags :: "peerConfig \<Rightarrow> bytes list" where
  "inertPolicyFlags pc =
     (if pc_RequireMaximal pc then [''-require-peer-maximal''] else []) @
     (if pc_AllowUnattested pc then [''-allow-unattested''] else []) @
     (if pc_MinPeerVersion pc > 0 then [''-min-peer-version''] else []) @
     (if pc_PinCDHash pc \<noteq> [] then [''-pin-cdhash''] else []) @
     (if pc_PinTeam pc \<noteq> [] then [''-pin-team''] else []) @
     (if pc_PinAttestKey pc \<noteq> [] then [''-pin-attest-key''] else []) @
     (if pc_PinFile pc \<noteq> [] then [''-pin-file''] else [])"

definition parseClaimVersion :: "bytes \<Rightarrow> command_error + u64" where
  "parseClaimVersion claimVersion =
     (if claimVersion = [] then Inr 0
      else case parse_uint64 claimVersion of None \<Rightarrow> Inl (BadClaimVersion claimVersion) | Some v \<Rightarrow> Inr (of_nat v))"

text \<open>
  \<open>pins_read\<close> is what reading the pin file gives, \<open>now\<close> and \<open>disk_ok\<close> what the pin store meets
  later, \<open>identity\<close> the answer of \<^verbatim>\<open>LocalCodeIdentity\<close>. With the configuration comes the store the
  handshake consults.
\<close>

definition newHandshakeConfig ::
  "'x json_peers_scheme \<Rightarrow> unit + bytes option \<Rightarrow> bytes \<Rightarrow> bool \<Rightarrow> bytes \<Rightarrow> code_identity option \<Rightarrow>
   peerConfig \<Rightarrow> bytes \<Rightarrow> signer option \<Rightarrow> hardeningReport \<Rightarrow> bool \<Rightarrow>
   command_error + (known_peers handshake_config \<times> known_peers) option" where
  "newHandshakeConfig J pins_read now disk_ok claimVersion identity pc selfID sg hr ephemeral =
     (if \<not> pc_Enable pc then Inr None
      else case peer_mode pc of
        Inl e \<Rightarrow> Inl e
      | Inr m \<Rightarrow>
        (case (if m \<noteq> ModeVerify then identity
               else Some \<lparr>ci_CDHash = [], ci_TeamID = [], ci_SigningID = [], ci_Flags = 0\<rparr>) of
           None \<Rightarrow> Inl LocalIdentity
         | Some ident \<Rightarrow>
           (case parseClaimVersion claimVersion of
              Inl e \<Rightarrow> Inl e
            | Inr ver \<Rightarrow>
              let policy = peer_policy pc;
                  cfg = (\<lambda>p. \<lparr>hc_SelfID = selfID, hc_Mode = m, hc_Signer = sg, hc_Identity = ident,
                    hc_Bundled = hr_Bundled hr, hc_EphemeralKey = ephemeral, hc_ClaimVersion = ver, hc_Policy = p\<rparr>) in
              if pc_PinFile pc \<noteq> [] \<and> m \<noteq> ModeProve then
                (case LoadKnownPeers J pins_read of
                   Inl _ \<Rightarrow> Inl LoadPeers
                 | Inr kp \<Rightarrow> Inr (Some (cfg (policy\<lparr>po_PinPeer := Some (Pin J disk_ok now)\<rparr>), kp)))
              else Inr (Some (cfg policy, \<lparr>ks_peers = [], ks_file = None\<rparr>)))))"

definition runSigner ::
  "('w, 'k, 'x) security_scheme \<Rightarrow> hardenedConfig \<Rightarrow> peerConfig \<Rightarrow> bytes \<Rightarrow> bool \<Rightarrow> 'w \<Rightarrow>
   'w \<times> (command_error + 'k option \<times> bytes)" where
  "runSigner K hcfg pc tag ephemeral w =
     (let needRecord = hg_Attest hcfg; needPeer = pc_Enable pc \<and> pc_Mode pc \<noteq> ''verify'' in
      if \<not> needRecord \<and> \<not> needPeer then (w, Inr (None, []))
      else
        let keyTag = tag @ ''.attest'' in
        (case newSigner K keyTag (\<not> ephemeral) w of
           (w', Inl e) \<Rightarrow> (w', Inl (AttestationKey e))
         | (w', Inr k) \<Rightarrow> (w', Inr (Some k, keyTag))))"

subsection \<open>Session records (attest.go)\<close>

record attestation =
  at_Version :: int
  at_Tool :: bytes
  at_Role :: bytes
  at_EndpointID :: bytes
  at_Peer :: bytes
  at_Ephemeral :: bool
  at_Start :: bytes
  at_End :: bytes
  at_Hardening :: hardeningReport
  at_KeyTag :: bytes
  at_PublicKey :: bytes
  at_PeerAttested :: "bool option"
  at_PeerClaim :: "claim option"
  at_Signature :: bytes

record json_attestation =
  json_compact :: "attestation \<Rightarrow> bytes option"
  json_indent :: "attestation \<Rightarrow> bytes option"
  parse_attestation :: "bytes \<Rightarrow> attestation option"

text \<open>\<open>None\<close> is an error; \<^verbatim>\<open>Verify\<close> may also say no.\<close>

record record_signer = signer +
  sg_Verify :: "bytes \<Rightarrow> bytes \<Rightarrow> bool option"

definition newAttestation ::
  "bytes \<Rightarrow> bytes \<Rightarrow> bytes \<Rightarrow> bool \<Rightarrow> bytes \<Rightarrow> bytes \<Rightarrow> hardeningReport \<Rightarrow> attestation" where
  "newAttestation role endpointID peer ephemeral start now hr =
     \<lparr>at_Version = 1, at_Tool = ''enclave-iroh'', at_Role = role, at_EndpointID = endpointID, at_Peer = peer,
      at_Ephemeral = ephemeral, at_Start = start, at_End = now, at_Hardening = hr, at_KeyTag = [], at_PublicKey = [],
      at_PeerAttested = None, at_PeerClaim = None, at_Signature = []\<rparr>"

text \<open>What the dialer adds of its peer; \<open>outcome\<close> is the result of the handshake, if one ran.\<close>

definition dial_attestation :: "attestation \<Rightarrow> peer_attestation option option \<Rightarrow> attestation" where
  "dial_attestation att outcome =
     (case outcome of
        None \<Rightarrow> att
      | Some peerAtt \<Rightarrow>
        let attested = (case peerAtt of None \<Rightarrow> False | Some a \<Rightarrow> pa_Attested a) in
        att\<lparr>at_PeerAttested := Some attested,
            at_PeerClaim := (if attested then (case peerAtt of None \<Rightarrow> None | Some a \<Rightarrow> pa_Claim a) else None)\<rparr>)"

definition payload :: "'x json_attestation_scheme \<Rightarrow> attestation \<Rightarrow> bytes option" where
  "payload J a = json_compact J (a\<lparr>at_Signature := []\<rparr>)"

definition signAttestation ::
  "'x json_attestation_scheme \<Rightarrow> 'y record_signer_scheme \<Rightarrow> attestation \<Rightarrow> attestation \<times> (command_error + unit)" where
  "signAttestation J sg att =
     (case sg_PublicKey sg of
        None \<Rightarrow> (att, Inl ExportPublicKey)
      | Some pub \<Rightarrow>
        let att = att\<lparr>at_PublicKey := hex_encode pub\<rparr> in
        (case payload J att of
           None \<Rightarrow> (att, Inl EncodeAttestation)
         | Some m \<Rightarrow>
           (case sg_Sign sg m of
              None \<Rightarrow> (att, Inl SignAttestation)
            | Some sig \<Rightarrow>
              (case sg_Verify sg m sig of
                 None \<Rightarrow> (att, Inl SelfVerifyError)
               | Some False \<Rightarrow> (att, Inl SelfVerifyFailed)
               | Some True \<Rightarrow> (att\<lparr>at_Signature := hex_encode sig\<rparr>, Inr ())))))"

text \<open>The emitted bytes, to the file of that path or, for the empty path, to the report.\<close>

definition emitAttestation ::
  "'x json_attestation_scheme \<Rightarrow> bool \<Rightarrow> attestation \<Rightarrow> bytes \<Rightarrow> command_error + bytes" where
  "emitAttestation J write_ok att path =
     (case json_indent J att of
        None \<Rightarrow> Inl EncodeAttestation
      | Some data \<Rightarrow> if write_ok then Inr (data @ [nl]) else Inl WriteAttestation)"

definition attest ::
  "'x json_attestation_scheme \<Rightarrow> 'y record_signer_scheme \<Rightarrow> bool \<Rightarrow> bytes \<Rightarrow> bytes \<Rightarrow> attestation \<Rightarrow>
   attestation \<times> (command_error + bytes)" where
  "attest J sg write_ok keyTag path att =
     (case signAttestation J sg (att\<lparr>at_KeyTag := keyTag\<rparr>) of
        (att', Inl e) \<Rightarrow> (att', Inl e)
      | (att', Inr _) \<Rightarrow> (att', emitAttestation J write_ok att' path))"

text \<open>What is printed of an accepted record: its role, its endpoint and the start of its key.\<close>

definition verifyAttestationFile ::
  "'x crypto_ops_scheme \<Rightarrow> 'y json_attestation_scheme \<Rightarrow> bytes option \<Rightarrow> command_error + (bytes \<times> bytes \<times> bytes)" where
  "verifyAttestationFile K J contents =
     (case contents of
        None \<Rightarrow> Inl ReadAttestation
      | Some data \<Rightarrow>
        (case parse_attestation J data of
           None \<Rightarrow> Inl ParseAttestation
         | Some att \<Rightarrow>
           if at_Signature att = [] then Inl NoSignature
           else case hex_decode (at_Signature att) of
             None \<Rightarrow> Inl BadSignatureHex
           | Some sig \<Rightarrow>
             (case hex_decode (at_PublicKey att) of
                None \<Rightarrow> Inl BadPublicKeyHex
              | Some pubBytes \<Rightarrow>
                (case parseP256PublicKey K pubBytes of
                   None \<Rightarrow> Inl BadPublicKey
                 | Some pub \<Rightarrow>
                   (case payload J att of
                      None \<Rightarrow> Inl EncodeAttestation
                    | Some m \<Rightarrow>
                      if \<not> ecdsa_verify K pub (sha256 K m) sig then Inl Unverified
                      else if length (at_PublicKey att) < 16 then Inl SlicePanic
                      else Inr (at_Role att, at_EndpointID att, take 16 (at_PublicKey att)))))))"

subsection \<open>Lemmas: flags\<close>

lemma and_or_want: "f AND (a OR b) = a OR b \<longleftrightarrow> f AND a = a \<and> f AND b = b" for f a b :: "'w::len word"
  by (auto simp: bit_eq_iff bit_and_iff bit_or_iff)

lemma and_or_forbid: "f AND (a OR b) = 0 \<longleftrightarrow> f AND a = 0 \<and> f AND b = 0" for f a b :: "'w::len word"
  by (auto simp: bit_eq_iff bit_and_iff bit_or_iff)

lemma and_exp: "f AND 2 ^ k = 2 ^ k \<longleftrightarrow> f AND 2 ^ k \<noteq> 0" if "k < LENGTH('w)" for f :: "'w::len word"
proof (cases "bit f k")
  case True
  then have "f AND 2 ^ k = 2 ^ k" by (auto simp: bit_and_iff bit_exp_iff intro!: bit_word_eqI)
  moreover have "(2 ^ k :: 'w word) \<noteq> 0" using that by simp
  ultimately show ?thesis by simp
next
  case False
  then have "f AND 2 ^ k = 0" by (auto simp: bit_and_iff bit_exp_iff intro!: bit_word_eqI)
  moreover have "(2 ^ k :: 'w word) \<noteq> 0" using that by simp
  ultimately show ?thesis by simp
qed

text \<open>The flags are distinct single bits.\<close>

lemma flag_exps:
  "CSValid = 2 ^ 0" "CSGetTaskAllow = 2 ^ 2" "CSHard = 2 ^ 8" "CSKill = 2 ^ 9" "CSEnforcement = 2 ^ 12"
  "CSRequireLV = 2 ^ 13" "CSRuntime = 2 ^ 16" "CSDebugged = 2 ^ 28"
  by (simp_all add: CSValid_def CSGetTaskAllow_def CSHard_def CSKill_def CSEnforcement_def CSRequireLV_def
      CSRuntime_def CSDebugged_def)

lemma flag_want:
  "f AND CSValid = CSValid \<longleftrightarrow> f AND CSValid \<noteq> 0" "f AND CSHard = CSHard \<longleftrightarrow> f AND CSHard \<noteq> 0"
  "f AND CSKill = CSKill \<longleftrightarrow> f AND CSKill \<noteq> 0" "f AND CSEnforcement = CSEnforcement \<longleftrightarrow> f AND CSEnforcement \<noteq> 0"
  "f AND CSRequireLV = CSRequireLV \<longleftrightarrow> f AND CSRequireLV \<noteq> 0" "f AND CSRuntime = CSRuntime \<longleftrightarrow> f AND CSRuntime \<noteq> 0"
  by (simp_all only: flag_exps and_exp len_num1 len_bit0 len_bit1 mult_2 if_True)

lemma MaximalFlags_bits:
  "MaximalFlags f \<longleftrightarrow> f AND CSValid \<noteq> 0 \<and> f AND CSRuntime \<noteq> 0 \<and> f AND CSHard \<noteq> 0 \<and> f AND CSKill \<noteq> 0 \<and>
     f AND CSEnforcement \<noteq> 0 \<and> f AND CSRequireLV \<noteq> 0 \<and> f AND CSGetTaskAllow = 0 \<and> f AND CSDebugged = 0"
  by (auto simp: MaximalFlags_def Let_def and_or_want and_or_forbid flag_want)

lemma or_hard:
  "(f OR CSHard) AND CSHard \<noteq> 0" "(f OR CSHard) AND CSValid = f AND CSValid" "(f OR CSHard) AND CSRuntime = f AND CSRuntime"
  "(f OR CSHard) AND CSKill = f AND CSKill" "(f OR CSHard) AND CSEnforcement = f AND CSEnforcement"
  "(f OR CSHard) AND CSRequireLV = f AND CSRequireLV" "(f OR CSHard) AND CSGetTaskAllow = f AND CSGetTaskAllow"
  "(f OR CSHard) AND CSDebugged = f AND CSDebugged"
  by (simp_all add: bit.conj_disj_distrib2 CSValid_def CSGetTaskAllow_def CSHard_def CSKill_def CSEnforcement_def
      CSRequireLV_def CSRuntime_def CSDebugged_def or_eq_0_iff)

lemma CSHard_nonzero: "CSHard \<noteq> 0"
  by (simp add: CSHard_def)

lemma Maximal_status: "codeSigningStatus (Some f) = Some cs \<Longrightarrow> Maximal cs \<longleftrightarrow> MaximalFlags (f OR CSHard)"
  by (auto simp: codeSigningStatus_def Maximal_def MaximalFlags_bits or_hard CSHard_nonzero)

subsection \<open>Lemmas: the handshake of the command\<close>

text \<open>Every flag that is set holds of a claim the policy of the flags accepted.\<close>

definition flags_hold :: "peerConfig \<Rightarrow> claim \<Rightarrow> bool" where
  "flags_hold pc c \<longleftrightarrow>
     (pc_RequireMaximal pc \<longrightarrow> MaximalFlags (cl_CSFlags c)) \<and> pc_MinPeerVersion pc \<le> cl_ClaimVersion c \<and>
     (pc_PinCDHash pc \<noteq> [] \<longrightarrow> cl_CDHash c = pc_PinCDHash pc) \<and> (pc_PinTeam pc \<noteq> [] \<longrightarrow> cl_TeamID c = pc_PinTeam pc) \<and>
     (pc_PinAttestKey pc \<noteq> [] \<longrightarrow> cl_AttestKey c = pc_PinAttestKey pc)"

lemma peer_policy_flags:
  assumes "Policy_Check ((peer_policy pc)\<lparr>po_PinPeer := pin\<rparr>) c s = (s', Inr ())"
  shows "flags_hold pc c \<and> (case pin of None \<Rightarrow> s' = s | Some f \<Rightarrow> f c s = (s', True))"
  using Policy_Check_Inr [OF assms] by (auto simp: flags_hold_def peer_policy_def split: if_splits)

lemma newHandshakeConfig_Some:
  assumes "newHandshakeConfig J r now ok ver ident pc self sg hr eph = Inr (Some (cfg, kp))"
  shows "\<exists>pin. hc_Policy cfg = (peer_policy pc)\<lparr>po_PinPeer := pin\<rparr> \<and>
    (if pc_PinFile pc \<noteq> [] \<and> hc_Mode cfg \<noteq> ModeProve then pin = Some (Pin J ok now) \<and> LoadKnownPeers J r = Inr kp
     else pin = None) \<and> hc_SelfID cfg = self \<and> peer_mode pc = Inr (hc_Mode cfg)"
  using assms unfolding newHandshakeConfig_def Let_def
  by (auto split: if_split_asm sum.split_asm option.split_asm prod.split_asm simp: peer_policy_def)

text \<open>What a finished handshake says of an attested peer, in terms of the policy.\<close>

lemma attested_peer_checked:
  assumes "runHandshake K reason cfg se inp pins = (st, Inr (Some a))" and "pa_Attested a"
  shows "\<exists>c s'. pa_Claim a = Some c \<and> cl_LocalEndpoint c = se_peer se \<and> cl_RemoteEndpoint c = hc_SelfID cfg \<and>
    Policy_Check (hc_Policy cfg) c pins = (s', Inr ())"
proof -
  from runHandshake_Inr [OF assms(1)] obtain n pn pm where
    "att_ok K cfg se pm n pn pins (Some a)" using phase2_att by metis
  with assms(2) obtain c where c: "pa_Claim a = Some c" "claim_verified K cfg se n pn pins c"
    by (auto simp: att_ok_def split: option.splits)
  then have "snd (Policy_Check (hc_Policy cfg) c pins) = Inr ()" by (simp add: claim_verified_def)
  then have "Policy_Check (hc_Policy cfg) c pins = (fst (Policy_Check (hc_Policy cfg) c pins), Inr ())"
    by (metis prod.collapse)
  with c show ?thesis by (auto simp: claim_verified_def)
qed

lemma Pin_known:
  "Pin J ok now c s = (s', True) \<Longrightarrow> map_of (ks_peers s) (cl_LocalEndpoint c) = Some known \<Longrightarrow> cl_AttestKey c = kp_AttestKey known"
  by (simp add: Pin_def)

subsection \<open>Properties\<close>

text \<open>The flags of the command are what the handshake enforces: a peer that comes out attested
  satisfies every policy flag that was set, and with a pin file its attestation key is the one the
  file records for that endpoint, if it records one.\<close>

theorem command_flags_enforced:
  assumes "newHandshakeConfig J r now ok ver ident pc self sg hr eph = Inr (Some (cfg, kp))"
    and "runHandshake K reason cfg se inp kp = (st, Inr (Some a))" and "pa_Attested a"
  shows "\<exists>c. pa_Claim a = Some c \<and> cl_LocalEndpoint c = se_peer se \<and> cl_RemoteEndpoint c = self \<and> flags_hold pc c \<and>
    (pc_PinFile pc \<noteq> [] \<longrightarrow> hc_Mode cfg = ModeProve \<or>
      (\<forall>known. map_of (ks_peers kp) (se_peer se) = Some known \<longrightarrow> cl_AttestKey c = kp_AttestKey known))"
proof -
  from attested_peer_checked [OF assms(2,3)] obtain c s' where c: "pa_Claim a = Some c" "cl_LocalEndpoint c = se_peer se"
    "cl_RemoteEndpoint c = hc_SelfID cfg" "Policy_Check (hc_Policy cfg) c kp = (s', Inr ())" by blast
  from newHandshakeConfig_Some [OF assms(1)] obtain pin where pin: "hc_Policy cfg = (peer_policy pc)\<lparr>po_PinPeer := pin\<rparr>"
    "pc_PinFile pc \<noteq> [] \<Longrightarrow> hc_Mode cfg \<noteq> ModeProve \<Longrightarrow> pin = Some (Pin J ok now)" "hc_SelfID cfg = self"
    by (auto split: if_splits)
  from peer_policy_flags [OF c(4) [unfolded pin(1)]]
  have f: "flags_hold pc c" "\<And>f. pin = Some f \<Longrightarrow> f c kp = (s', True)" by auto
  have "cl_AttestKey c = kp_AttestKey known"
    if "pc_PinFile pc \<noteq> []" "hc_Mode cfg \<noteq> ModeProve" "map_of (ks_peers kp) (se_peer se) = Some known" for known
    using Pin_known [OF f(2) [OF pin(2) [OF that(1,2)]]] c(2) that(3) by simp
  with c(1-3) pin(3) f(1) show ?thesis by auto
qed

text \<open>A key is handed out only by a process that passed the gates the flags ask for: it was not
  traced, it denies attaching where that was wanted, and its status word is maximal (up to the bit
  for invalid pages) where that was required; the hardening report says so. A start that is refused
  earlier leaves the keychain as it was.\<close>

theorem key_only_after_hardening:
  assumes "prepare K from_slice kn duration bundled fresh rnd hcfg tag ephemeral w = (w', res)"
  shows "case res of
      Inl e \<Rightarrow> w' = w \<or> (\<exists>ce. e = EndpointKey ce)
    | Inr (sk, hr) \<Rightarrow> kn_traced kn = Some False \<and> bundled = Some (hr_Bundled hr) \<and>
        hr_DeniedAttach hr = hg_DenyAttach hcfg \<and> (hg_DenyAttach hcfg \<longrightarrow> kn_deny kn) \<and>
        kn_status kn = Some (cs_Flags (hr_CodeSigning hr)) \<and>
        (hg_RequireMaximal hcfg \<longrightarrow> MaximalFlags (cs_Flags (hr_CodeSigning hr) OR CSHard))"
proof (cases bundled)
  case None
  with assms show ?thesis by (auto simp: prepare_def)
next
  case (Some b)
  obtain out hr r where h: "hardenProcess kn duration hcfg b = (out, hr, r)" by (metis prod_cases3)
  show ?thesis
  proof (cases r)
    case (Inl e)
    with assms Some h show ?thesis by (auto simp: prepare_def)
  next
    case (Inr u)
    then obtain f cs where f: "kn_status kn = Some f" "codeSigningStatus (Some f) = Some cs" "cs_Flags cs = f"
      using h by (auto simp: hardenProcess_def codeSigningStatus_def split: option.splits)
    with h Inr have "hg_RequireMaximal hcfg \<longrightarrow> Maximal cs" "kn_traced kn = Some False" "hr_CodeSigning hr = cs"
      "hr_Bundled hr = b" "hr_DeniedAttach hr = hg_DenyAttach hcfg" "hg_DenyAttach hcfg \<longrightarrow> kn_deny kn"
      by (auto simp: hardenProcess_def Let_def isTraced_def denyDebugger_def split: if_split_asm option.split_asm bool.split_asm)
    with assms Some h Inr f show ?thesis
      by (auto simp: prepare_def Maximal_status [OF f(2)] split: prod.splits sum.splits)
  qed
qed

text \<open>With maximal hardening required, the command starts exactly on the status words that a
  verifier's gate accepts once the bit for invalid pages is added: the two gates differ in that bit,
  which the command never asks for, so a process may start that every strict peer rejects.\<close>

theorem hardening_gate_ignores_hard:
  assumes "kn_status kn = Some f" and "hg_RequireMaximal hcfg"
  shows "((\<exists>s. snd (snd (hardenProcess kn duration hcfg b)) = Inl (NotHardened s)) \<longleftrightarrow> \<not> MaximalFlags (f OR CSHard)) \<and>
    (MaximalFlags f \<longleftrightarrow> MaximalFlags (f OR CSHard) \<and> f AND CSHard \<noteq> 0)"
proof -
  obtain cs where cs: "codeSigningStatus (Some f) = Some cs" by (simp add: codeSigningStatus_def)
  with assms have "(\<exists>s. snd (snd (hardenProcess kn duration hcfg b)) = Inl (NotHardened s)) \<longleftrightarrow> \<not> Maximal cs"
    by (auto simp: hardenProcess_def Let_def split: if_split_asm option.split_asm bool.split_asm)
  then have "(\<exists>s. snd (snd (hardenProcess kn duration hcfg b)) = Inl (NotHardened s)) \<longleftrightarrow> \<not> MaximalFlags (f OR CSHard)"
    by (simp add: Maximal_status [OF cs])
  moreover have "MaximalFlags f \<longleftrightarrow> MaximalFlags (f OR CSHard) \<and> f AND CSHard \<noteq> 0"
    by (auto simp: MaximalFlags_bits or_hard CSHard_nonzero)
  ultimately show ?thesis by blast
qed

subsection \<open>Laws for session records\<close>

text \<open>
  The JSON codec is one for text: a string that is not valid UTF-8 does not survive it. Records of
  ASCII text do, indented or not. The signer verifies against its public key, which is a curve point
  of 65 bytes, and a signature is not empty.
\<close>

definition record_ascii :: "attestation \<Rightarrow> bool" where
  "record_ascii a \<longleftrightarrow> list_all ascii [at_Tool a, at_Role a, at_EndpointID a, at_Peer a, at_Start a, at_End a,
     hr_TracePoll (at_Hardening a), at_KeyTag a, at_PublicKey a, at_Signature a] \<and>
     (case at_PeerClaim a of None \<Rightarrow> True | Some c \<Rightarrow> claim_ascii c)"

definition attestation_codec_ok :: "'x json_attestation_scheme \<Rightarrow> bool" where
  "attestation_codec_ok J \<longleftrightarrow>
     (\<forall>a data. record_ascii a \<longrightarrow> json_indent J a = Some data \<longrightarrow> parse_attestation J (data @ [nl]) = Some a)"

definition record_signer_ok :: "'x crypto_ops_scheme \<Rightarrow> 'y record_signer_scheme \<Rightarrow> bool" where
  "record_signer_ok K sg \<longleftrightarrow>
     (\<forall>pub. sg_PublicKey sg = Some pub \<longrightarrow> length pub = 65 \<and> (\<exists>q. parseP256PublicKey K pub = Some q \<and>
        (\<forall>m sig. sg_Verify sg m sig = Some True \<longrightarrow> ecdsa_verify K q (sha256 K m) sig \<and> sig \<noteq> [])))"

lemma signAttestation_Inr:
  assumes "signAttestation J sg att = (att', Inr u)"
  shows "\<exists>pub m sig. sg_PublicKey sg = Some pub \<and> sg_Verify sg m sig = Some True \<and> payload J att' = Some m \<and>
    att' = att\<lparr>at_PublicKey := hex_encode pub, at_Signature := hex_encode sig\<rparr>"
  using assms by (auto simp: signAttestation_def Let_def payload_def split: option.split_asm bool.split_asm)

subsection \<open>Properties of session records\<close>

text \<open>A session record the command signs and writes is accepted by its verifier, which reads
  back the role and the endpoint and the first digits of the signer's key.\<close>

theorem session_record_verifies:
  assumes "attestation_codec_ok J" and "record_signer_ok K sg"
    and "record_ascii (att\<lparr>at_KeyTag := keyTag, at_PublicKey := [], at_Signature := []\<rparr>)"
    and "attest J sg write_ok keyTag path att = (att', Inr data)"
  shows "\<exists>pub. sg_PublicKey sg = Some pub \<and>
    verifyAttestationFile K J (Some data) = Inr (at_Role att, at_EndpointID att, take 16 (hex_encode pub))"
proof -
  from assms(4) obtain b where s: "signAttestation J sg (att\<lparr>at_KeyTag := keyTag\<rparr>) = (att', Inr ())"
    "json_indent J att' = Some b" "data = b @ [nl]"
    by (auto simp: attest_def emitAttestation_def split: prod.splits sum.splits option.splits if_splits)
  from signAttestation_Inr [OF s(1)] obtain pub m sig where a: "sg_PublicKey sg = Some pub"
    "sg_Verify sg m sig = Some True" "payload J att' = Some m"
    "att' = att\<lparr>at_KeyTag := keyTag, at_PublicKey := hex_encode pub, at_Signature := hex_encode sig\<rparr>" by auto
  from assms(2) a(1,2) obtain q where q: "length pub = 65" "parseP256PublicKey K pub = Some q"
    "ecdsa_verify K q (sha256 K m) sig" "sig \<noteq> []" unfolding record_signer_ok_def by blast
  have "record_ascii att'" using assms(3) by (simp add: a(4) record_ascii_def)
  with assms(1) s(2,3) have "parse_attestation J data = Some att'" by (simp add: attestation_codec_ok_def)
  moreover have "hex_encode sig \<noteq> []" using q(4) by (cases sig) simp_all
  ultimately have "verifyAttestationFile K J (Some data) = Inr (at_Role att', at_EndpointID att', take 16 (at_PublicKey att'))"
    using a(3) q by (simp add: verifyAttestationFile_def a(4))
  with a(1) show ?thesis by (simp add: a(4))
qed

subsection \<open>Witnesses\<close>

text \<open>A verifying dialer with a pinned team and required maximal flags, and a peer that answers.\<close>

definition demo_flags :: peerConfig where
  "demo_flags = \<lparr>pc_Enable = True, pc_Mode = ''verify'', pc_RequireMaximal = True, pc_AllowUnattested = False,
     pc_MinPeerVersion = 2, pc_PinCDHash = [], pc_PinTeam = ''team'', pc_PinAttestKey = [], pc_PinFile = ''pins''\<rparr>"

definition demo_report :: hardeningReport where
  "demo_report = \<lparr>hr_CodeSigning = no_codeSigning, hr_DeniedAttach = False, hr_Bundled = False, hr_TracePoll = []\<rparr>"

definition demo_peer_claim :: claim where
  "demo_peer_claim = \<lparr>cl_Context = ClaimContext, cl_Role = RoleServe, cl_LocalEndpoint = ''B'', cl_RemoteEndpoint = ''A'',
     cl_ALPN = ''x'', cl_NonceSelf = b64_encode (demo_nonce CHR ''2''), cl_NoncePeer = b64_encode (demo_nonce CHR ''1''),
     cl_CDHash = ''c'', cl_TeamID = ''team'', cl_CSFlags = 0x13301, cl_Bundled = False, cl_EphemeralKey = False,
     cl_AttestKey = ''00'', cl_Time = [], cl_ClaimVersion = 3\<rparr>"

definition demo_answers :: wire_ops where
  "demo_answers = \<lparr>p256_valid = (\<lambda>b. True), ecdsa_verify = (\<lambda>q d s. True), sha256 = (\<lambda>m. m),
     json_hello = (\<lambda>h. Some []),
     parse_hello = (\<lambda>b. Some \<lparr>he_V = 1, he_Nonce = b64_encode (demo_nonce CHR ''2''), he_Mode = ''mutual''\<rparr>),
     json_claim = (\<lambda>c. Some []), parse_claim = (\<lambda>b. Some \<lparr>wc_Claim = demo_peer_claim, wc_Signature = ''00''\<rparr>),
     json_result = (\<lambda>r. Some []), parse_result = (\<lambda>b. Some \<lparr>rs_OK = True, rs_Reason = []\<rparr>)\<rparr>"

definition demo_handshake_config :: "known_peers handshake_config" where
  "demo_handshake_config = \<lparr>hc_SelfID = ''A'', hc_Mode = ModeVerify, hc_Signer = None,
     hc_Identity = \<lparr>ci_CDHash = [], ci_TeamID = [], ci_SigningID = [], ci_Flags = 0\<rparr>, hc_Bundled = False,
     hc_EphemeralKey = True, hc_ClaimVersion = 0, hc_Policy = (peer_policy demo_flags)\<lparr>po_PinPeer := Some (Pin demo_json_peers True [])\<rparr>\<rparr>"

lemma demo_newHandshakeConfig:
  "newHandshakeConfig demo_json_peers (Inr None) [] True [] None demo_flags ''A'' None demo_report True =
   Inr (Some (demo_handshake_config, demo_peers))"
  by (simp add: newHandshakeConfig_def demo_flags_def peer_mode_def parseClaimVersion_def LoadKnownPeers_def
      demo_handshake_config_def demo_report_def demo_peers_def)

lemma demo_peer_claim_accepted:
  "verifyPeerClaim demo_answers \<lparr>wc_Claim = demo_peer_claim, wc_Signature = ''00''\<rparr> RoleDial demo_handshake_config dial_session
     dial_nonce serve_nonce demo_peers =
   (fst (Pin demo_json_peers True [] demo_peer_claim demo_peers), None)"
proof -
  have hex: "hex_decode ''00'' = Some [CHR 0x00]" by code_simp
  then have "VerifyClaimSignature demo_answers demo_peer_claim [CHR 0x00] = Inr ()"
    by (simp add: VerifyClaimSignature_def demo_peer_claim_def demo_answers_def parseP256PublicKey_def)
  moreover have "VerifyClaim demo_peer_claim RoleServe ''A'' ''B'' ''x'' dial_nonce serve_nonce = Inr ()"
    by (simp add: VerifyClaim_Inr demo_peer_claim_def)
  moreover have "Policy_Check (hc_Policy demo_handshake_config) demo_peer_claim demo_peers =
      (fst (Pin demo_json_peers True [] demo_peer_claim demo_peers), Inr ())"
  proof -
    have "MaximalFlags 0x13301" by code_simp
    then show ?thesis
      by (simp add: Policy_Check_def demo_handshake_config_def peer_policy_def demo_flags_def demo_peer_claim_def
          Pin_def save_def demo_peers_def demo_json_peers_def)
  qed
  ultimately show ?thesis using hex
    by (simp add: verifyPeerClaim_def demo_handshake_config_def)
qed

text \<open>The peer writes three empty frames.\<close>

definition demo_frame :: bytes where
  "demo_frame = be_bytes 4 0"

lemma readFrame_demo_frame: "d [] = Some v \<Longrightarrow> readFrame d (demo_frame @ r) = Inr (v, r)"
  using be32.dec_enc [of 0 r] by (simp add: readFrame_def demo_frame_def)

text \<open>A side that only verifies, and a peer that attests and writes a hello and a claim that verifies.\<close>

lemma verifying_side:
  assumes "hc_Mode cfg = ModeVerify" and "se_nonce se = Some n" and "fits (json_hello K (hello_of cfg n))"
    and "readFrame (parse_hello K) inp = Inr (h, r1)" and "he_V h = helloVersion" and "parseMode (he_Mode h) = Some pm"
    and "attests pm" and "b64_decode (he_Nonce h) = Some pn" and "length pn = nonceSize"
    and "readFrame (parse_claim K) r1 = Inr (wc, r2)"
    and "verifyPeerClaim K wc (my_role se) cfg se n pn pins = (pins', None)"
  shows "snd (runHandshake K reason cfg se inp pins) = Inr (Some \<lparr>pa_Attested = True, pa_Claim = Some (wc_Claim wc)\<rparr>)"
proof -
  have hello: "\<exists>out. Enclave_Handshake.exchange (se_dialer se) (put_frame (json_hello K (hello_of cfg n))) (get_hello K)
      \<lparr>hs_in = inp, hs_out = [], hs_pins = pins, hs_hello = None, hs_att = None, hs_verifyErr = None\<rparr> =
    (\<lparr>hs_in = r1, hs_out = out, hs_pins = pins, hs_hello = Some h, hs_att = None, hs_verifyErr = None\<rparr>, None)"
    by (cases "se_dialer se") (simp_all add: exchange_def put_frame_fits [OF assms(3)] get_hello_def assms(4))
  have claim: "\<exists>s. Enclave_Handshake.exchange (se_dialer se) (send_claim K cfg se n pn) (recv_claim K cfg se pm n pn) st = (s, None) \<and>
      hs_verifyErr s = None \<and> hs_att s = Some \<lparr>pa_Attested = True, pa_Claim = Some (wc_Claim wc)\<rparr>"
    if "hs_in st = r1" "hs_pins st = pins" "hs_verifyErr st = None" for st
    using that assms(1,7,10,11) by (cases "se_dialer se")
      (simp_all add: exchange_def send_claim_def recv_claim_def attests_def verifies_def)
  from hello obtain out where h: "Enclave_Handshake.exchange (se_dialer se) (put_frame (json_hello K (hello_of cfg n))) (get_hello K)
      \<lparr>hs_in = inp, hs_out = [], hs_pins = pins, hs_hello = None, hs_att = None, hs_verifyErr = None\<rparr> =
    (\<lparr>hs_in = r1, hs_out = out, hs_pins = pins, hs_hello = Some h, hs_att = None, hs_verifyErr = None\<rparr>, None)" by blast
  obtain s where c: "Enclave_Handshake.exchange (se_dialer se) (send_claim K cfg se n pn) (recv_claim K cfg se pm n pn)
      \<lparr>hs_in = r1, hs_out = out, hs_pins = pins, hs_hello = Some h, hs_att = None, hs_verifyErr = None\<rparr> = (s, None)"
    "hs_verifyErr s = None" "hs_att s = Some \<lparr>pa_Attested = True, pa_Claim = Some (wc_Claim wc)\<rparr>"
    using claim [where st = "\<lparr>hs_in = r1, hs_out = out, hs_pins = pins, hs_hello = Some h, hs_att = None, hs_verifyErr = None\<rparr>"] by auto
  show ?thesis using assms(1,2,5,6,8,9) h [unfolded hello_of_def] c
    by (simp add: runHandshake_def attests_def)
qed

lemma demo_attested:
  "snd (runHandshake demo_answers (\<lambda>e. []) demo_handshake_config dial_session (demo_frame @ demo_frame @ demo_frame) demo_peers) =
   Inr (Some \<lparr>pa_Attested = True, pa_Claim = Some demo_peer_claim\<rparr>)"
proof -
  have "snd (runHandshake demo_answers (\<lambda>e. []) demo_handshake_config dial_session (demo_frame @ demo_frame @ demo_frame) demo_peers) =
      Inr (Some \<lparr>pa_Attested = True, pa_Claim = Some (wc_Claim \<lparr>wc_Claim = demo_peer_claim, wc_Signature = ''00''\<rparr>)\<rparr>)"
  proof (rule verifying_side [where n = dial_nonce and pn = serve_nonce])
    show "readFrame (parse_hello demo_answers) (demo_frame @ demo_frame @ demo_frame) =
        Inr (\<lparr>he_V = 1, he_Nonce = b64_encode serve_nonce, he_Mode = ''mutual''\<rparr>, demo_frame @ demo_frame)"
      by (rule readFrame_demo_frame) (simp add: demo_answers_def)
    show "readFrame (parse_claim demo_answers) (demo_frame @ demo_frame) =
        Inr (\<lparr>wc_Claim = demo_peer_claim, wc_Signature = ''00''\<rparr>, demo_frame)"
      by (rule readFrame_demo_frame) (simp add: demo_answers_def)
    show "verifyPeerClaim demo_answers \<lparr>wc_Claim = demo_peer_claim, wc_Signature = ''00''\<rparr> (my_role dial_session) demo_handshake_config
        dial_session dial_nonce serve_nonce demo_peers = (fst (Pin demo_json_peers True [] demo_peer_claim demo_peers), None)"
      using demo_peer_claim_accepted by (simp add: my_role_def)
    show "fits (json_hello demo_answers (hello_of demo_handshake_config dial_nonce))" by (simp add: fits_def demo_answers_def)
    show "attests ModeMutual" by (simp add: attests_def)
  qed (simp_all add: demo_handshake_config_def helloVersion_def parseMode_def nonceSize_def demo_nonce_def)
  then show ?thesis by simp
qed

theorem command_flags_enforced_witness:
  "flags_hold demo_flags demo_peer_claim"
proof -
  let ?a = "\<lparr>pa_Attested = True, pa_Claim = Some demo_peer_claim\<rparr>"
  obtain st where "runHandshake demo_answers (\<lambda>e. []) demo_handshake_config dial_session (demo_frame @ demo_frame @ demo_frame) demo_peers =
      (st, Inr (Some ?a))" using demo_attested by (metis prod.collapse)
  from command_flags_enforced [OF demo_newHandshakeConfig this] show ?thesis by simp
qed

definition demo_kernel :: kernel where
  "demo_kernel = \<lparr>kn_status = Some 0x13201, kn_traced = Some False, kn_deny = True\<rparr>"

definition demo_hardened :: hardenedConfig where
  "demo_hardened = \<lparr>hg_DenyAttach = True, hg_RequireMaximal = True, hg_TracePoll = 0, hg_Attest = True, hg_AttestOut = []\<rparr>"

lemma demo_prepared:
  "prepare demo_security Some demo_kernel (\<lambda>d. []) (Some False) (Some demo_seed) [] demo_hardened ''tag'' False
     \<lparr>dk_items = [], dk_keys = []\<rparr> =
   (\<lparr>dk_items = [((''tag'', ''iroh-endpoint-seed''), wrappingKeyLabel @ demo_seed)], dk_keys = [(''tag'', wrappingKeyLabel)]\<rparr>,
    Inr (demo_seed, \<lparr>hr_CodeSigning = the (codeSigningStatus (Some 0x13201)), hr_DeniedAttach = True, hr_Bundled = False,
     hr_TracePoll = []\<rparr>))"
proof -
  obtain out hr r where h: "hardenProcess demo_kernel (\<lambda>d. []) demo_hardened False = (out, hr, r)" by (metis prod_cases3)
  have "Maximal (the (codeSigningStatus (Some 0x13201)))" by code_simp
  then have "snd (hardenProcess demo_kernel (\<lambda>d. []) demo_hardened False) =
      (\<lparr>hr_CodeSigning = the (codeSigningStatus (Some 0x13201)), hr_DeniedAttach = True, hr_Bundled = False, hr_TracePoll = []\<rparr>, Inr ())"
    by (simp add: hardenProcess_def demo_kernel_def demo_hardened_def isTraced_def denyDebugger_def codeSigningStatus_def)
  moreover have "keyStore ''tag'' False = demo_key_store" by (simp add: keyStore_def demo_key_store_def)
  ultimately show ?thesis using h by (simp add: prepare_def demo_SecretKey)
qed

theorem key_only_after_hardening_witness:
  "MaximalFlags (0x13201 OR CSHard)"
  using key_only_after_hardening [OF demo_prepared] by (simp add: codeSigningStatus_def demo_hardened_def)

theorem hardening_gate_ignores_hard_witness:
  "snd (snd (hardenProcess demo_kernel (\<lambda>d. []) demo_hardened False)) \<noteq> Inl (NotHardened ''x'') \<and> \<not> MaximalFlags 0x13201"
proof -
  have h: "kn_status demo_kernel = Some 0x13201" "hg_RequireMaximal demo_hardened"
    by (simp_all add: demo_kernel_def demo_hardened_def)
  have "MaximalFlags (0x13201 OR CSHard)" by code_simp
  moreover have "(0x13201 AND CSHard) = (0 :: u32)" by code_simp
  ultimately show ?thesis using hardening_gate_ignores_hard [OF h, of "\<lambda>d. []" False] by auto
qed

definition demo_record :: attestation where
  "demo_record = (newAttestation ''serve'' ''B'' [] False ''T1'' ''T2'' demo_report)
     \<lparr>at_KeyTag := ''k'', at_PublicKey := hex_encode (replicate 65 CHR ''p''), at_Signature := hex_encode ''sig''\<rparr>"

definition demo_record_codec :: json_attestation where
  "demo_record_codec = \<lparr>json_compact = (\<lambda>a. Some ''record''), json_indent = (\<lambda>a. if a = demo_record then Some ''{}'' else None),
     parse_attestation = (\<lambda>b. if b = ''{}'' @ [nl] then Some demo_record else None)\<rparr>"

definition demo_record_signer :: record_signer where
  "demo_record_signer = \<lparr>sg_PublicKey = Some (replicate 65 CHR ''p''), sg_Sign = (\<lambda>m. Some ''sig''),
     sg_Verify = (\<lambda>m s. Some (s = ''sig''))\<rparr>"

theorem session_record_verifies_witness:
  "\<exists>pub. sg_PublicKey demo_record_signer = Some pub \<and>
    verifyAttestationFile demo_answers demo_record_codec (Some (''{}'' @ [nl])) =
      Inr (''serve'', ''B'', take 16 (hex_encode pub))"
proof -
  have "attestation_codec_ok demo_record_codec"
    by (simp add: attestation_codec_ok_def demo_record_codec_def)
  moreover have "record_signer_ok demo_answers demo_record_signer"
    by (simp add: record_signer_ok_def demo_record_signer_def demo_answers_def parseP256PublicKey_def)
  moreover have "record_ascii ((newAttestation ''serve'' ''B'' [] False ''T1'' ''T2'' demo_report)
      \<lparr>at_KeyTag := ''k'', at_PublicKey := [], at_Signature := []\<rparr>)" by code_simp
  moreover have "attest demo_record_codec demo_record_signer True ''k'' [] (newAttestation ''serve'' ''B'' [] False ''T1'' ''T2'' demo_report) =
      (demo_record, Inr (''{}'' @ [nl]))"
    by (simp add: attest_def signAttestation_def Let_def payload_def emitAttestation_def demo_record_codec_def
        demo_record_signer_def demo_record_def)
  ultimately show ?thesis
    using session_record_verifies [where J = demo_record_codec and K = demo_answers and sg = demo_record_signer
        and att = "newAttestation ''serve'' ''B'' [] False ''T1'' ''T2'' demo_report" and keyTag = "''k''"
        and write_ok = True and path = "[]" and att' = demo_record and data = "''{}'' @ [nl]"]
    by (simp add: newAttestation_def)
qed

end
