(* ===== verification/Enclave_Keys.thy ===== *)
theory Enclave_Keys
  imports Enclave_Attest
begin

section \<open>Enclave keys and the local code identity (enclaveiroh)\<close>

text \<open>
  \<^verbatim>\<open>enclave_darwin.go\<close>, the conversions of \<^verbatim>\<open>cf_darwin.go\<close> and \<^verbatim>\<open>codeidentity_darwin.go\<close>: what the
  package makes of the answers of the Security framework and of the kernel. A call of the framework
  gives a result or not, and an error or not; the package checks both.
\<close>

subsection \<open>CoreFoundation values (cf_darwin.go)\<close>

record cf_error =
  ce_code :: int
  ce_description :: "bytes option"

datatype key_error =
    CFError bytes bytes | UnknownCFError bytes | NilResult bytes | AlgorithmUnavailable | ConstUnavailable bytes

definition cfErr :: "cf_error option \<Rightarrow> bytes \<Rightarrow> key_error option" where
  "cfErr err action =
     (case err of
        None \<Rightarrow> None
      | Some e \<Rightarrow>
        (case ce_description e of None \<Rightarrow> Some (UnknownCFError action) | Some desc \<Rightarrow> Some (CFError action desc)))"

text \<open>
  A CoreFoundation string has a length in UTF-16 units; \<open>get_c\<close> is \<^verbatim>\<open>CFStringGetCString\<close>: the buffer
  of the given size after a call that succeeds.
\<close>

definition cfString :: "nat \<Rightarrow> (nat \<Rightarrow> bytes option) \<Rightarrow> bytes" where
  "cfString n get_c =
     (if n = 0 then []
      else case get_c (n * 4 + 1) of
        None \<Rightarrow> []
      | Some buf \<Rightarrow> takeWhile (\<lambda>b. b \<noteq> CHR 0x00) buf)"

definition requireConsts :: "(bytes \<times> bytes) list \<Rightarrow> key_error option" where
  "requireConsts named =
     (case find (\<lambda>(name, val). val = []) named of None \<Rightarrow> None | Some (name, _) \<Rightarrow> Some (ConstUnavailable name))"

subsection \<open>Keys (enclave_darwin.go)\<close>

record 'r enclave_key =
  privRef :: "'r option"
  pubRef :: "'r option"

text \<open>The functions of the framework on key references; \<open>rnd\<close> is the randomness of an encryption.\<close>

record 'r sec_keys =
  create_encrypted :: "'r option \<Rightarrow> bytes \<Rightarrow> bytes \<Rightarrow> bytes option \<times> cf_error option"
  create_decrypted :: "'r option \<Rightarrow> bytes \<Rightarrow> bytes option \<times> cf_error option"
  copy_external :: "'r option \<Rightarrow> bytes option \<times> cf_error option"
  create_signature :: "'r option \<Rightarrow> bytes \<Rightarrow> bytes option \<times> cf_error option"
  verify_signature :: "'r option \<Rightarrow> bytes \<Rightarrow> bytes \<Rightarrow> bool \<times> cf_error option"
  signature_algorithm :: bool

definition data_result :: "bytes \<Rightarrow> bytes option \<times> cf_error option \<Rightarrow> key_error + bytes" where
  "data_result action r =
     (case cfErr (snd r) action of
        Some e \<Rightarrow> Inl e
      | None \<Rightarrow> (case fst r of None \<Rightarrow> Inl (NilResult action) | Some d \<Rightarrow> Inr d))"

definition Seal :: "('r, 'x) sec_keys_scheme \<Rightarrow> bytes \<Rightarrow> 'r enclave_key \<Rightarrow> bytes \<Rightarrow> key_error + bytes" where
  "Seal S rnd k plaintext = data_result ''SecKeyCreateEncryptedData'' (create_encrypted S (pubRef k) rnd plaintext)"

definition key_Open :: "('r, 'x) sec_keys_scheme \<Rightarrow> 'r enclave_key \<Rightarrow> bytes \<Rightarrow> key_error + bytes" where
  "key_Open S k ciphertext = data_result ''SecKeyCreateDecryptedData'' (create_decrypted S (privRef k) ciphertext)"

definition PublicKey :: "('r, 'x) sec_keys_scheme \<Rightarrow> 'r enclave_key \<Rightarrow> key_error + bytes" where
  "PublicKey S k = data_result ''SecKeyCopyExternalRepresentation'' (copy_external S (pubRef k))"

definition Sign :: "('r, 'x) sec_keys_scheme \<Rightarrow> 'r enclave_key \<Rightarrow> bytes \<Rightarrow> key_error + bytes" where
  "Sign S k message =
     (if \<not> signature_algorithm S then Inl AlgorithmUnavailable
      else data_result ''SecKeyCreateSignature'' (create_signature S (privRef k) message))"

definition errSecVerifyFailed :: int where
  "errSecVerifyFailed = -67808"

definition Verify :: "('r, 'x) sec_keys_scheme \<Rightarrow> 'r enclave_key \<Rightarrow> bytes \<Rightarrow> bytes \<Rightarrow> key_error + bool" where
  "Verify S k message signature =
     (case verify_signature S (pubRef k) message signature of
        (True, _) \<Rightarrow> Inr True
      | (False, None) \<Rightarrow> Inr False
      | (False, Some e) \<Rightarrow>
        if ce_code e \<noteq> errSecVerifyFailed then
          (case cfErr (Some e) ''SecKeyVerifySignature'' of Some x \<Rightarrow> Inl x | None \<Rightarrow> Inr False)
        else Inr False)"

text \<open>\<open>Release\<close> gives the references it frees; \<open>None\<close> is the nil key.\<close>

definition Release :: "'r enclave_key option \<Rightarrow> 'r enclave_key option \<times> 'r list" where
  "Release k =
     (case k of
        None \<Rightarrow> (None, [])
      | Some key \<Rightarrow>
        let freed = (case pubRef key of None \<Rightarrow> [] | Some r \<Rightarrow> [r]) @ (case privRef key of None \<Rightarrow> [] | Some r \<Rightarrow> [r]) in
        (Some (key\<lparr>pubRef := None, privRef := None\<rparr>), freed))"

subsection \<open>The local code identity (codeidentity_darwin.go)\<close>

text \<open>What \<^verbatim>\<open>csops\<close> answers for a buffer of a size: an error number, or the buffer.\<close>

datatype csops_answer = ENOENT | ERANGE | Errno int | Filled bytes

datatype identity_error = CsopsError bytes csops_answer | BlobLength nat | BlobTooLarge

definition cdHashLen :: nat where
  "cdHashLen = 20"

definition trim_right_nul :: "bytes \<Rightarrow> bytes" where
  "trim_right_nul s = rev (dropWhile (\<lambda>c. c = CHR 0x00) (rev s))"

text \<open>The loop doubles the buffer while the kernel asks for more; \<open>None\<close> would be a loop without end.\<close>

definition blob_string :: "bytes \<Rightarrow> identity_error + bytes" where
  "blob_string buf =
     (let total = be_val (take 4 (drop 4 buf)) in
      if total < 8 \<or> total > length buf then Inl (BlobLength total)
      else Inr (trim_right_nul (take (total - 8) (drop 8 buf))))"

partial_function (option) blob_loop ::
  "bytes \<Rightarrow> (nat \<Rightarrow> csops_answer) \<Rightarrow> nat \<Rightarrow> (identity_error + bytes) option" where
  "blob_loop op call sz =
     (if sz > 4096 then Some (Inl BlobTooLarge)
      else case call sz of
        ENOENT \<Rightarrow> Some (Inr [])
      | ERANGE \<Rightarrow> blob_loop op call (2 * sz)
      | Errno e \<Rightarrow> Some (Inl (CsopsError op (Errno e)))
      | Filled buf \<Rightarrow> Some (blob_string buf))"

definition csopsBlobString :: "bytes \<Rightarrow> (nat \<Rightarrow> csops_answer) \<Rightarrow> (identity_error + bytes) option" where
  "csopsBlobString op call = blob_loop op call 128"

record csops_kernel =
  cs_status_word :: "csops_answer + u32"
  cs_cdhash :: "csops_answer + bytes"
  cs_team :: "nat \<Rightarrow> csops_answer"
  cs_identity :: "nat \<Rightarrow> csops_answer"

definition LocalCodeIdentity :: "csops_kernel \<Rightarrow> (identity_error + code_identity) option" where
  "LocalCodeIdentity kn =
     (case cs_status_word kn of
        Inl e \<Rightarrow> Some (Inl (CsopsError ''CS_OPS_STATUS'' e))
      | Inr flags \<Rightarrow>
        (case cs_cdhash kn of
           Inl e \<Rightarrow> Some (Inl (CsopsError ''CS_OPS_CDHASH'' e))
         | Inr cd \<Rightarrow>
           (case csopsBlobString ''CS_OPS_TEAMID'' (cs_team kn) of
              None \<Rightarrow> None
            | Some (Inl e) \<Rightarrow> Some (Inl e)
            | Some (Inr team) \<Rightarrow>
              (case csopsBlobString ''CS_OPS_IDENTITY'' (cs_identity kn) of
                 None \<Rightarrow> None
               | Some (Inl e) \<Rightarrow> Some (Inl e)
               | Some (Inr signing) \<Rightarrow>
                 Some (Inr \<lparr>ci_CDHash = cd, ci_TeamID = team, ci_SigningID = signing, ci_Flags = flags\<rparr>)))))"

subsection \<open>Lemmas\<close>

lemma data_result_Inr: "data_result action r = Inr d \<longleftrightarrow> r = (Some d, None)"
  by (cases r) (auto simp: data_result_def cfErr_def split: option.splits)

lemma Verify_True: "Verify S k m s = Inr True \<longleftrightarrow> fst (verify_signature S (pubRef k) m s)"
  by (auto simp: Verify_def cfErr_def split: prod.split bool.split option.splits if_splits)

text \<open>Every error but a rejected signature surfaces as one.\<close>

lemma Verify_False:
  "Verify S k m s = Inr False \<longleftrightarrow>
     (case verify_signature S (pubRef k) m s of (b, err) \<Rightarrow> \<not> b \<and> (\<forall>e. err = Some e \<longrightarrow> ce_code e = errSecVerifyFailed))"
  by (auto simp: Verify_def cfErr_def split: prod.split bool.split option.splits if_splits)

lemma Release_twice: "snd (Release (fst (Release k))) = []"
  by (simp add: Release_def Let_def split: option.split)

lemma blob_loop_ends: "0 < sz \<Longrightarrow> \<exists>r. blob_loop op call sz = Some r"
proof (induction sz rule: measure_induct_rule [of "\<lambda>sz. 4097 - sz"])
  case (less sz)
  show ?case
  proof (cases "sz > 4096")
    case False
    then have "\<exists>r. blob_loop op call (2 * sz) = Some r" using less by simp
    then show ?thesis by (subst blob_loop.simps) (simp split: csops_answer.split)
  qed (simp add: blob_loop.simps)
qed

text \<open>
  What the kernel documents of a blob with the value \<open>v\<close>: a buffer that is too small is refused, any
  other is filled with the type, the total length, the value and what was there before.
\<close>

definition reports_blob :: "(nat \<Rightarrow> csops_answer) \<Rightarrow> bytes \<Rightarrow> bool" where
  "reports_blob call v \<longleftrightarrow> (\<forall>sz. if sz < 8 + length v then call sz = ERANGE
     else \<exists>ty pad. length ty = 4 \<and> call sz = Filled (ty @ be_bytes 4 (8 + length v) @ v @ pad))"

lemma blob_string_reports:
  assumes "8 + length v < 2 ^ 32" and "length ty = 4"
  shows "blob_string (ty @ be_bytes 4 (8 + length v) @ v @ pad) = Inr (trim_right_nul v)"
  using assms by (simp add: blob_string_def Let_def be_val_be_bytes)

lemma blob_loop_reads:
  assumes "reports_blob call v" and "8 + length v \<le> 4096" and "j \<le> 12"
  shows "blob_loop op call (2 ^ (12 - j)) = Some (Inr (trim_right_nul v))"
  using assms(3)
proof (induction j)
  case 0
  have "blob_string (ty @ be_bytes 4 (8 + length v) @ v @ pad) = Inr (trim_right_nul v)" if "length ty = 4" for ty pad
    using assms(2) that by (intro blob_string_reports) simp_all
  moreover obtain ty pad where "length ty = 4" "call 4096 = Filled (ty @ be_bytes 4 (8 + length v) @ v @ pad)"
    using assms(1,2) by (auto simp: reports_blob_def dest!: spec [of _ 4096])
  ultimately show ?case by (simp add: blob_loop.simps)
next
  case (Suc j)
  let ?s = "2 ^ (12 - Suc j) :: nat"
  have twice: "2 * ?s = 2 ^ (12 - j)" using Suc.prems by (simp flip: power_Suc add: Suc_diff_Suc)
  moreover have "(2 :: nat) ^ (12 - j) \<le> 2 ^ 12" by (rule power_increasing) simp_all
  ultimately have small: "\<not> ?s > 4096" by simp
  show ?case
  proof (cases "?s < 8 + length v")
    case True
    with assms(1) have "call ?s = ERANGE" by (simp add: reports_blob_def)
    with small twice Suc show ?thesis by (subst blob_loop.simps) simp
  next
    case False
    with assms(1) obtain ty pad where "length ty = 4" "call ?s = Filled (ty @ be_bytes 4 (8 + length v) @ v @ pad)"
      unfolding reports_blob_def by metis
    moreover have "8 + length v < 2 ^ 32" using assms(2) by simp
    ultimately show ?thesis using small by (subst blob_loop.simps) (simp add: blob_string_reports)
  qed
qed

text \<open>The kernel keeps asking for more than the loop offers.\<close>

lemma blob_loop_too_large:
  assumes "\<And>sz. sz \<le> 4096 \<Longrightarrow> call sz = ERANGE" and "0 < sz"
  shows "blob_loop op call sz = Some (Inl BlobTooLarge)"
  using assms(2)
proof (induction sz rule: measure_induct_rule [of "\<lambda>sz. 4097 - sz"])
  case (less sz)
  then show ?case using assms(1) [of sz] by (subst blob_loop.simps) simp
qed

text \<open>
  What the framework documents of a key: its public half is exported as a curve point of 65 bytes,
  and a signature it accepts is one for that point.
\<close>

definition sec_key_ok :: "'x crypto_ops_scheme \<Rightarrow> ('r, 'y) sec_keys_scheme \<Rightarrow> 'r enclave_key \<Rightarrow> bool" where
  "sec_key_ok K S k \<longleftrightarrow>
     (\<forall>pub. copy_external S (pubRef k) = (Some pub, None) \<longrightarrow> length pub = 65 \<and> (\<exists>q. parseP256PublicKey K pub = Some q \<and>
        (\<forall>m sig. fst (verify_signature S (pubRef k) m sig) \<longrightarrow> ecdsa_verify K q (sha256 K m) sig \<and> sig \<noteq> [])))"

definition result_option :: "'e + 'a \<Rightarrow> 'a option" where
  "result_option r = (case r of Inl _ \<Rightarrow> None | Inr v \<Rightarrow> Some v)"

lemma result_option_Some [simp]: "result_option r = Some v \<longleftrightarrow> r = Inr v"
  by (cases r) (simp_all add: result_option_def)

text \<open>The key as the signer of the command: an error is an error.\<close>

definition enclave_signer :: "('r, 'y) sec_keys_scheme \<Rightarrow> 'r enclave_key \<Rightarrow> record_signer" where
  "enclave_signer S k = \<lparr>sg_PublicKey = result_option (PublicKey S k), sg_Sign = (\<lambda>m. result_option (Sign S k m)),
     sg_Verify = (\<lambda>m s. result_option (Verify S k m s))\<rparr>"

lemma enclave_signer_ok: "sec_key_ok K S k \<Longrightarrow> record_signer_ok K (enclave_signer S k)"
  by (auto simp: sec_key_ok_def record_signer_ok_def enclave_signer_def PublicKey_def data_result_Inr Verify_True)

subsection \<open>Properties\<close>

text \<open>C34: Reading a field of the code identity ends whatever the kernel answers, even if it asks for a
  larger buffer for ever; and from a kernel that reports the field as documented, the value is read
  without its trailing zeros, for every value that fits the largest buffer, and refused beyond.\<close>

theorem blob_string_ends:
  "\<exists>r. csopsBlobString op call = Some r \<and>
    (reports_blob call v \<longrightarrow> r = (if 8 + length v \<le> 4096 then Inr (trim_right_nul v) else Inl BlobTooLarge))"
proof (cases "reports_blob call v")
  case False
  then show ?thesis using blob_loop_ends [where sz = 128 and op = op and call = call] by (auto simp: csopsBlobString_def)
next
  case True
  show ?thesis
  proof (cases "8 + length v \<le> 4096")
    case fits: True
    from blob_loop_reads [OF True this, where j = 5 and op = op] fits show ?thesis by (simp add: csopsBlobString_def)
  next
    case False
    with True have "call sz = ERANGE" if "sz \<le> 4096" for sz using that by (auto simp: reports_blob_def dest!: spec [of _ sz])
    from blob_loop_too_large [where call = call and sz = 128 and op = op, OF this] False show ?thesis by (simp add: csopsBlobString_def)
  qed
qed

text \<open>C35: A session record signed by an Enclave key is accepted by the verifier of the command, which
  names that key: what the framework documents of a key is what signing a record relies on.\<close>

theorem enclave_record_verifies:
  assumes "attestation_codec_ok J" and "sec_key_ok K S k"
    and "record_ascii (att\<lparr>at_KeyTag := keyTag, at_PublicKey := [], at_Signature := []\<rparr>)"
    and "attest J (enclave_signer S k) write_ok keyTag path att = (att', Inr data)"
  shows "\<exists>pub. PublicKey S k = Inr pub \<and>
    verifyAttestationFile K J (Some data) = Inr (at_Role att, at_EndpointID att, take 16 (hex_encode pub))"
  using session_record_verifies [OF assms(1) enclave_signer_ok [OF assms(2)] assms(3,4)]
  by (simp add: enclave_signer_def)

subsection \<open>Witnesses\<close>

definition demo_blob :: "nat \<Rightarrow> csops_answer" where
  "demo_blob sz = (if sz < 13 then ERANGE else Filled (''TYPE'' @ be_bytes 4 13 @ ''team'' @ [CHR 0x00]))"

lemma demo_blob_reports: "reports_blob demo_blob (''team'' @ [CHR 0x00])"
proof -
  have "demo_blob sz = Filled (''TYPE'' @ be_bytes 4 (8 + length (''team'' @ [CHR 0x00])) @ (''team'' @ [CHR 0x00]) @ [])"
    if "\<not> sz < 13" for sz using that by (simp add: demo_blob_def)
  moreover have "length ''TYPE'' = 4" by simp
  moreover have "demo_blob sz = ERANGE" if "sz < 13" for sz using that by (simp add: demo_blob_def)
  moreover have "8 + length (''team'' @ [CHR 0x00]) = 13" by simp
  ultimately show ?thesis unfolding reports_blob_def by (metis (no_types))
qed

theorem blob_string_ends_witness:
  "csopsBlobString ''TEAM'' demo_blob = Some (Inr ''team'')"
  using blob_string_ends [of "''TEAM''" demo_blob "''team'' @ [CHR 0x00]"] demo_blob_reports
  by (auto simp: trim_right_nul_def)

definition demo_key :: "nat enclave_key" where
  "demo_key = \<lparr>privRef = Some 1, pubRef = Some 2\<rparr>"

definition demo_sec_keys :: "nat sec_keys" where
  "demo_sec_keys = \<lparr>create_encrypted = (\<lambda>r rnd m. (Some m, None)), create_decrypted = (\<lambda>r m. (Some m, None)),
     copy_external = (\<lambda>r. (Some (replicate 65 CHR ''p''), None)), create_signature = (\<lambda>r m. (Some ''sig'', None)),
     verify_signature = (\<lambda>r m s. (s = ''sig'', None)), signature_algorithm = True\<rparr>"

lemma demo_key_ok: "sec_key_ok demo_answers demo_sec_keys demo_key"
  by (simp add: sec_key_ok_def demo_sec_keys_def demo_answers_def parseP256PublicKey_def)

theorem enclave_record_verifies_witness:
  "\<exists>pub. PublicKey demo_sec_keys demo_key = Inr pub \<and>
    verifyAttestationFile demo_answers demo_record_codec (Some (''{}'' @ [nl])) =
      Inr (''serve'', ''B'', take 16 (hex_encode pub))"
proof -
  have "attestation_codec_ok demo_record_codec"
    by (simp add: attestation_codec_ok_def demo_record_codec_def)
  moreover have "record_ascii ((newAttestation ''serve'' ''B'' [] False ''T1'' ''T2'' demo_report)
      \<lparr>at_KeyTag := ''k'', at_PublicKey := [], at_Signature := []\<rparr>)" by code_simp
  moreover have "attest demo_record_codec (enclave_signer demo_sec_keys demo_key) True ''k'' []
      (newAttestation ''serve'' ''B'' [] False ''T1'' ''T2'' demo_report) = (demo_record, Inr (''{}'' @ [nl]))"
    by (simp add: attest_def signAttestation_def Let_def payload_def emitAttestation_def demo_record_codec_def
        demo_record_def enclave_signer_def PublicKey_def Sign_def Verify_def data_result_def cfErr_def
        result_option_def demo_sec_keys_def)
  ultimately show ?thesis
    using enclave_record_verifies [where J = demo_record_codec and K = demo_answers and S = demo_sec_keys and k = demo_key
        and att = "newAttestation ''serve'' ''B'' [] False ''T1'' ''T2'' demo_report" and keyTag = "''k''"
        and write_ok = True and path = "[]" and att' = demo_record and data = "''{}'' @ [nl]"] demo_key_ok
    by (simp add: newAttestation_def)
qed

end
