(* ===== verification/Enclave_Command.thy ===== *)
theory Enclave_Command
  imports Enclave_Keys
begin

section \<open>The roles of the endpoint command (enclaveiroh/cmd/enclave-iroh)\<close>

text \<open>
  \<^verbatim>\<open>demo.go\<close> and the roles \<^verbatim>\<open>serve\<close> and \<^verbatim>\<open>dial\<close> of \<^verbatim>\<open>main.go\<close>: the order of hardening, key, signer, endpoint,
  handshake, echo and session record, and the echo itself. Streams are the bytes that the peer writes on them
  until they end, with the number of writes that succeed.
\<close>

subsection \<open>Lines (bufio.Scanner)\<close>

datatype scanned = Line bytes bytes | Ended | TooLong

definition max_token :: nat where
  "max_token = 64 * 1024"

definition drop_cr :: "bytes \<Rightarrow> bytes" where
  "drop_cr l = (if l \<noteq> [] \<and> last l = CHR 0x0D then butlast l else l)"

definition Scan :: "bytes \<Rightarrow> scanned" where
  "Scan inp =
     (let line = takeWhile (\<lambda>b. b \<noteq> nl) inp in
      if max_token \<le> length line then TooLong
      else if inp = [] then Ended
      else Line (drop_cr line) (drop (length line + 1) inp))"

subsection \<open>The echo (demo.go)\<close>

definition upper :: "char \<Rightarrow> char" where
  "upper b = (if byte_val CHR ''a'' \<le> byte_val b \<and> byte_val b \<le> byte_val CHR ''z''
     then to_byte (byte_val b - (byte_val CHR ''a'' - byte_val CHR ''A'')) else b)"

text \<open>What \<^verbatim>\<open>handleEcho\<close> writes on a stream of which \<open>n\<close> writes succeed.\<close>

function handleEcho :: "bytes \<Rightarrow> nat \<Rightarrow> bytes" where
  "handleEcho inp n =
     (case Scan inp of
        Line line rest \<Rightarrow> if n = 0 then [] else map upper line @ [nl] @ handleEcho rest (n - 1)
      | _ \<Rightarrow> [])"
  by pat_completeness auto
termination
  by (relation "measure (\<lambda>(inp, n). length inp)") (auto simp: Scan_def Let_def split: if_split_asm)

declare handleEcho.simps [simp del]

datatype role_error =
    Command command_error | ServerRequired | DecodeTicket | ParseBindFlag | BindEndpoint | ConnectPeer
  | HandshakeStream | PeerAttestation hs_error | OpenStream | EchoWrite | EchoRead | EchoUnexpectedEOF | AcceptFailed
  | NilSigner

text \<open>
  The rounds of \<^verbatim>\<open>echoOverConn\<close>: what was written, the replies and the error, when \<open>n\<close> writes succeed and the stream
  carries \<open>inp\<close> and then ends, with an error or not.
\<close>

fun echo_rounds :: "bytes list \<Rightarrow> nat \<Rightarrow> bool \<Rightarrow> bytes \<Rightarrow> bytes \<times> bytes list \<times> role_error option" where
  "echo_rounds [] n err inp = ([], [], None)"
| "echo_rounds (m # ms) n err inp =
     (if n = 0 then ([], [], Some EchoWrite)
      else case Scan inp of
        Line r rest \<Rightarrow> (let (out, rs, e) = echo_rounds ms (n - 1) err rest in (m @ [nl] @ out, r # rs, e))
      | Ended \<Rightarrow> (m @ [nl], [], Some (if err then EchoRead else EchoUnexpectedEOF))
      | TooLong \<Rightarrow> (m @ [nl], [], Some EchoRead))"

text \<open>The stream is \<open>None\<close> when it cannot be opened.\<close>

definition echoOverConn :: "bytes list \<Rightarrow> (nat \<times> bool \<times> bytes) option \<Rightarrow> bytes \<times> bytes list \<times> role_error option" where
  "echoOverConn messages stream =
     (case stream of None \<Rightarrow> ([], [], Some OpenStream) | Some (n, err, inp) \<Rightarrow> echo_rounds messages n err inp)"

subsection \<open>Connections\<close>

text \<open>\<^verbatim>\<open>Handshake\<close>: the stream is opened by the dialer and accepted by the server.\<close>

definition Handshake ::
  "'x wire_ops_scheme \<Rightarrow> (hs_error \<Rightarrow> bytes) \<Rightarrow> 'p handshake_config \<Rightarrow> session \<Rightarrow> bytes option \<Rightarrow> 'p \<Rightarrow>
   'p \<times> bytes \<times> (role_error + peer_attestation option)" where
  "Handshake K reason cfg se stream pins =
     (if attests (hc_Mode cfg) \<and> hc_Signer cfg = None then (pins, [], Inl (PeerAttestation NoSigner))
      else case stream of
        None \<Rightarrow> (pins, [], Inl HandshakeStream)
      | Some inp \<Rightarrow>
        (let (st, r) = runHandshake K reason cfg se inp pins in
         (hs_pins st, hs_out st, case r of Inl e \<Rightarrow> Inl (PeerAttestation e) | Inr att \<Rightarrow> Inr att)))"

datatype report_line =
    ConnPeer bytes bytes | RejectedPeer bytes role_error | ProvedOnly bytes | AcceptedUnattested bytes
  | VerifiedPeer bytes bytes bytes bool

text \<open>The first bytes of a hash, and an ellipsis (in UTF-8) when it is cut.\<close>

definition shortHash :: "bytes \<Rightarrow> bytes" where
  "shortHash h = (if length h > 16 then take 16 h @ [CHR 0xE2, CHR 0x80, CHR 0xA6] else if h = [] then ''(none)'' else h)"

text \<open>An attested peer always comes with its claim.\<close>

definition logPeerAttestation :: "bytes \<Rightarrow> peer_attestation option \<Rightarrow> report_line list" where
  "logPeerAttestation peer att =
     (case att of
        None \<Rightarrow> [ProvedOnly peer]
      | Some a \<Rightarrow>
        if \<not> pa_Attested a then [AcceptedUnattested peer]
        else (case pa_Claim a of
                None \<Rightarrow> []
              | Some c \<Rightarrow> [VerifiedPeer peer (shortHash (cl_CDHash c)) (cl_TeamID c) (MaximalFlags (cl_CSFlags c))]))"

text \<open>A connection brings the streams its peer opens, in the order in which they are accepted.\<close>

record connection =
  cn_session :: session
  cn_streams :: "(bytes \<times> nat) list"

record conn_run =
  cr_peer :: bytes
  cr_attested :: "peer_attestation option option"
  cr_report :: "report_line list"
  cr_handshake :: bytes
  cr_echoed :: "bytes list"

definition handleConn ::
  "'x wire_ops_scheme \<Rightarrow> (hs_error \<Rightarrow> bytes) \<Rightarrow> 'p handshake_config option \<Rightarrow> connection \<Rightarrow> 'p \<Rightarrow> 'p \<times> conn_run" where
  "handleConn K reason hsCfg cn pins =
     (let se = cn_session cn; peer = se_peer se; hello = ConnPeer peer (se_alpn se);
          serve = map (\<lambda>(inp, n). handleEcho inp n) in
      case hsCfg of
        None \<Rightarrow> (pins, \<lparr>cr_peer = peer, cr_attested = None, cr_report = [hello], cr_handshake = [], cr_echoed = serve (cn_streams cn)\<rparr>)
      | Some cfg \<Rightarrow>
        (case Handshake K reason cfg se (case cn_streams cn of [] \<Rightarrow> None | (inp, n) # _ \<Rightarrow> Some inp) pins of
           (pins', out, Inl e) \<Rightarrow>
             (pins', \<lparr>cr_peer = peer, cr_attested = None, cr_report = [hello, RejectedPeer peer e], cr_handshake = out, cr_echoed = []\<rparr>)
         | (pins', out, Inr att) \<Rightarrow>
             (pins', \<lparr>cr_peer = peer, cr_attested = Some att, cr_report = hello # logPeerAttestation peer att,
                cr_handshake = out, cr_echoed = serve (drop 1 (cn_streams cn))\<rparr>)))"

text \<open>
  \<^verbatim>\<open>serveEcho\<close> handles every connection on its own; they share the pins, which a handshake consults once,
  under the lock of the store. The connections come in the order in which they do that.
\<close>

fun serveEcho ::
  "'x wire_ops_scheme \<Rightarrow> (hs_error \<Rightarrow> bytes) \<Rightarrow> 'p handshake_config option \<Rightarrow> connection list \<Rightarrow> 'p \<Rightarrow> 'p \<times> conn_run list" where
  "serveEcho K reason hsCfg [] pins = (pins, [])"
| "serveEcho K reason hsCfg (cn # cns) pins =
     (let (pins1, run) = handleConn K reason hsCfg cn pins; (pins2, runs) = serveEcho K reason hsCfg cns pins1
      in (pins2, run # runs))"

subsection \<open>The roles (main.go)\<close>

text \<open>The packages the command calls, and what it finds in its environment.\<close>

record ('w, 'k, 's) role_ops =
  ro_security :: "('w, 'k) security"
  ro_secret :: "bytes \<Rightarrow> 's option"
  ro_id :: "'s \<Rightarrow> bytes"
  ro_signer :: "'k \<Rightarrow> record_signer"
  ro_addrport :: "bytes \<Rightarrow> bool"
  ro_ticket :: "bytes \<Rightarrow> bytes option"
  ro_wire :: wire_ops
  ro_reason :: "hs_error \<Rightarrow> bytes"
  ro_peers :: json_peers
  ro_records :: json_attestation
  ro_duration :: "int \<Rightarrow> bytes"

record role_env =
  re_kernel :: kernel
  re_bundled :: "bool option"
  re_fresh :: "bytes option"
  re_random :: bytes
  re_bind :: bool
  re_pins :: "unit + bytes option"
  re_disk :: bool
  re_now :: bytes
  re_version :: bytes
  re_identity :: "code_identity option"
  re_start :: bytes
  re_end :: bytes
  re_output :: bool

definition bindEndpoint :: "('w, 'k, 's) role_ops \<Rightarrow> role_env \<Rightarrow> 's \<Rightarrow> bytes \<Rightarrow> role_error + bytes" where
  "bindEndpoint R v sk addr =
     (if \<not> ro_addrport R addr then Inl ParseBindFlag else if re_bind v then Inr (ro_id R sk) else Inl BindEndpoint)"

text \<open>What both roles do before they talk to a peer: the endpoint's id, the report, the signer and the handshake.\<close>

record role_ready =
  rr_id :: bytes
  rr_report :: hardeningReport
  rr_signer :: "record_signer option"
  rr_keyTag :: bytes
  rr_handshake :: "(known_peers handshake_config \<times> known_peers) option"

definition role_setup ::
  "('w, 'k, 's) role_ops \<Rightarrow> role_env \<Rightarrow> hardenedConfig \<Rightarrow> peerConfig \<Rightarrow> bytes \<Rightarrow> bool \<Rightarrow> bytes \<Rightarrow> 'w \<Rightarrow> 'w \<times> (role_error + role_ready)" where
  "role_setup R v hcfg pc tag ephemeral bind w =
     (case prepare (ro_security R) (ro_secret R) (re_kernel v) (ro_duration R) (re_bundled v) (re_fresh v) (re_random v)
         hcfg tag ephemeral w of
        (w1, Inl e) \<Rightarrow> (w1, Inl (Command e))
      | (w1, Inr (sk, hr)) \<Rightarrow>
        (case runSigner (ro_security R) hcfg pc tag ephemeral w1 of
           (w2, Inl e) \<Rightarrow> (w2, Inl (Command e))
         | (w2, Inr (k, keyTag)) \<Rightarrow>
           (case bindEndpoint R v sk bind of
              Inl e \<Rightarrow> (w2, Inl e)
            | Inr self \<Rightarrow>
              (let sg = map_option (ro_signer R) k in
               case newHandshakeConfig (ro_peers R) (re_pins v) (re_now v) (re_disk v) (re_version v) (re_identity v) pc self
                   (map_option signer.truncate sg) hr ephemeral of
                 Inl e \<Rightarrow> (w2, Inl (Command e))
               | Inr hs \<Rightarrow> (w2, Inr \<lparr>rr_id = self, rr_report = hr, rr_signer = sg, rr_keyTag = keyTag, rr_handshake = hs\<rparr>)))))"

text \<open>The record of a run: written when the flag asks for it.\<close>

definition role_record ::
  "('w, 'k, 's) role_ops \<Rightarrow> role_env \<Rightarrow> hardenedConfig \<Rightarrow> role_ready \<Rightarrow> attestation \<Rightarrow>
   attestation option \<times> (role_error + bytes option)" where
  "role_record R v hcfg rr att =
     (if \<not> hg_Attest hcfg then (None, Inr None)
      else case rr_signer rr of
        None \<Rightarrow> (None, Inl NilSigner)
      | Some sg \<Rightarrow>
        (case attest (ro_records R) sg (re_output v) (rr_keyTag rr) (hg_AttestOut hcfg) att of
           (_, Inl e) \<Rightarrow> (None, Inl (Command e))
         | (att', Inr data) \<Rightarrow> (Some att', Inr (Some data))))"

record serve_run =
  sv_id :: bytes
  sv_pins :: "known_peers option"
  sv_conns :: "conn_run list"
  sv_record :: "attestation option"

definition no_serve_run :: serve_run where
  "no_serve_run = \<lparr>sv_id = [], sv_pins = None, sv_conns = [], sv_record = None\<rparr>"

text \<open>The server runs until it is interrupted, or until no more connections can be accepted, which is an error.\<close>

definition runServe ::
  "('w, 'k, 's) role_ops \<Rightarrow> role_env \<Rightarrow> hardenedConfig \<Rightarrow> peerConfig \<Rightarrow> bytes \<Rightarrow> bool \<Rightarrow> bytes \<Rightarrow> connection list \<Rightarrow> bool \<Rightarrow>
   'w \<Rightarrow> 'w \<times> serve_run \<times> (role_error + bytes option)" where
  "runServe R v hcfg pc tag ephemeral bind cns interrupted w =
     (case role_setup R v hcfg pc tag ephemeral bind w of
        (w', Inl e) \<Rightarrow> (w', no_serve_run, Inl e)
      | (w', Inr rr) \<Rightarrow>
        (let (pins, runs) = serveEcho (ro_wire R) (ro_reason R) (map_option fst (rr_handshake rr)) cns
               (case rr_handshake rr of None \<Rightarrow> \<lparr>ks_peers = [], ks_file = None\<rparr> | Some (_, kp) \<Rightarrow> kp);
             sv = \<lparr>sv_id = rr_id rr, sv_pins = map_option (\<lambda>_. pins) (rr_handshake rr), sv_conns = runs, sv_record = None\<rparr> in
         if \<not> interrupted then (w', sv, Inl AcceptFailed)
         else
           (let att = newAttestation ''serve'' (rr_id rr) [] ephemeral (re_start v) (re_end v) (rr_report rr);
                (rec, r) = role_record R v hcfg rr att in
            (w', sv\<lparr>sv_record := rec\<rparr>, r))))"

text \<open>
  The connection of the dialer: the streams of the handshake and of the echo, and what the peer writes on them.
\<close>

record dialed =
  di_session :: session
  di_handshake :: "bytes option"
  di_echo :: "(nat \<times> bool \<times> bytes) option"

record dial_run =
  dr_id :: bytes
  dr_pins :: "known_peers option"
  dr_attested :: "peer_attestation option option"
  dr_report :: "report_line list"
  dr_handshake :: bytes
  dr_sent :: bytes
  dr_printed :: "(bytes \<times> bytes) list"
  dr_record :: "attestation option"

definition no_dial_run :: dial_run where
  "no_dial_run = \<lparr>dr_id = [], dr_pins = None, dr_attested = None, dr_report = [], dr_handshake = [], dr_sent = [],
     dr_printed = [], dr_record = None\<rparr>"

definition dial_echo ::
  "('w, 'k, 's) role_ops \<Rightarrow> role_env \<Rightarrow> hardenedConfig \<Rightarrow> bool \<Rightarrow> bytes \<Rightarrow> bytes list \<Rightarrow> role_ready \<Rightarrow> dialed \<Rightarrow> dial_run \<Rightarrow>
   dial_run \<times> (role_error + bytes option)" where
  "dial_echo R v hcfg ephemeral peer messages rr di d =
     (let (sent, replies, e) = echoOverConn messages (di_echo di);
          d = d\<lparr>dr_sent := sent, dr_printed := zip messages replies\<rparr> in
      case e of
        Some e \<Rightarrow> (d, Inl e)
      | None \<Rightarrow>
        (let att = dial_attestation
               (newAttestation ''dial'' (rr_id rr) peer ephemeral (re_start v) (re_end v) (rr_report rr)) (dr_attested d);
             (rec, r) = role_record R v hcfg rr att in
         (d\<lparr>dr_record := rec\<rparr>, r)))"

definition runDial ::
  "('w, 'k, 's) role_ops \<Rightarrow> role_env \<Rightarrow> hardenedConfig \<Rightarrow> peerConfig \<Rightarrow> bytes \<Rightarrow> bytes \<Rightarrow> bool \<Rightarrow> bytes \<Rightarrow> bytes list \<Rightarrow> dialed option \<Rightarrow>
   'w \<Rightarrow> 'w \<times> dial_run \<times> (role_error + bytes option)" where
  "runDial R v hcfg pc ticket tag ephemeral bind args conn w =
     (if ticket = [] then (w, no_dial_run, Inl ServerRequired)
      else
        (let messages = (if args = [] then [''hello from the enclave''] else args) in
         case ro_ticket R ticket of
           None \<Rightarrow> (w, no_dial_run, Inl DecodeTicket)
         | Some peer \<Rightarrow>
           (case role_setup R v hcfg pc tag ephemeral bind w of
              (w', Inl e) \<Rightarrow> (w', no_dial_run, Inl e)
            | (w', Inr rr) \<Rightarrow>
              (let d0 = no_dial_run\<lparr>dr_id := rr_id rr\<rparr> in
               case conn of
                 None \<Rightarrow> (w', d0, Inl ConnectPeer)
               | Some di \<Rightarrow>
                 (case rr_handshake rr of
                    None \<Rightarrow> (w', dial_echo R v hcfg ephemeral peer messages rr di d0)
                  | Some (cfg, kp) \<Rightarrow>
                    (case Handshake (ro_wire R) (ro_reason R) cfg (di_session di) (di_handshake di) kp of
                       (pins, out, Inl e) \<Rightarrow> (w', d0\<lparr>dr_pins := Some pins, dr_handshake := out\<rparr>, Inl e)
                     | (pins, out, Inr att) \<Rightarrow>
                       (w', dial_echo R v hcfg ephemeral peer messages rr di
                          (d0\<lparr>dr_pins := Some pins, dr_handshake := out, dr_attested := Some att,
                             dr_report := logPeerAttestation (se_peer (di_session di)) att\<rparr>))))))))"

subsection \<open>Lemmas: the echo\<close>

definition line_ok :: "bytes \<Rightarrow> bool" where
  "line_ok m \<longleftrightarrow> nl \<notin> set m \<and> (m = [] \<or> last m \<noteq> CHR 0x0D) \<and> length m < max_token"

abbreviation as_line :: "bytes \<Rightarrow> bytes" where
  "as_line m \<equiv> m @ [nl]"

lemma Scan_line: "line_ok m \<Longrightarrow> Scan (m @ nl # r) = Line m r"
  by (auto simp: line_ok_def Scan_def drop_cr_def Let_def takeWhile_append not_le intro: takeWhile_eq_all_conv [THEN iffD2])

lemma upper_control: "byte_val c < 32 \<Longrightarrow> upper b = c \<longleftrightarrow> b = c"
proof -
  assume c: "byte_val c < 32"
  have "byte_val (upper b) = byte_val b - 32" "64 < byte_val (upper b)" if "97 \<le> byte_val b" "byte_val b \<le> 122"
    using that by (simp_all add: upper_def)
  then have "97 \<le> byte_val b \<Longrightarrow> byte_val b \<le> 122 \<Longrightarrow> upper b \<noteq> c" using c by force
  moreover have "upper b = b" if "\<not> (97 \<le> byte_val b \<and> byte_val b \<le> 122)" using that by (auto simp: upper_def)
  ultimately show ?thesis using c by (cases "97 \<le> byte_val b \<and> byte_val b \<le> 122") auto
qed

lemma line_ok_upper [simp]: "line_ok m \<Longrightarrow> line_ok (map upper m)"
  using upper_control [of nl] upper_control [of "CHR 0x0D"]
  by (cases m rule: rev_cases) (auto simp: line_ok_def image_iff eq_commute [of nl])

lemma handleEcho_lines:
  "list_all line_ok ms \<Longrightarrow> handleEcho (concat (map as_line ms) @ r) (length ms + n) =
     concat (map (\<lambda>m. as_line (map upper m)) ms) @ handleEcho r n"
proof (induction ms)
  case (Cons m ms)
  then have "Scan (m @ nl # concat (map as_line ms) @ r) = Line m (concat (map as_line ms) @ r)" by (simp add: Scan_line)
  with Cons show ?case by (subst handleEcho.simps) simp
qed simp

lemma handleEcho_end [simp]: "handleEcho [] n = []"
  by (subst handleEcho.simps) (simp add: Scan_def max_token_def)

lemma echo_rounds_lines:
  "list_all line_ok rs \<Longrightarrow> length ms = length rs \<Longrightarrow> length ms \<le> n \<Longrightarrow>
   echo_rounds ms n err (concat (map as_line rs)) = (concat (map as_line ms), rs, None)"
proof (induction ms arbitrary: rs n)
  case (Cons m ms)
  then obtain r rs' where rs: "rs = r # rs'" by (cases rs) auto
  with Cons.prems have "Scan (r @ nl # concat (map as_line rs')) = Line r (concat (map as_line rs'))" by (simp add: Scan_line)
  moreover from rs Cons.prems have "echo_rounds ms (n - 1) err (concat (map as_line rs')) = (concat (map as_line ms), rs', None)"
    by (intro Cons.IH) auto
  moreover have "n \<noteq> 0" using Cons.prems by auto
  ultimately show ?case using rs by simp
qed simp

text \<open>The replies are the messages in upper case, in order, and no side waits for the other: the reply to each message
  is on its way when only the messages up to it have been written.\<close>

lemma echo_completes:
  assumes "list_all line_ok ms" and "length ms \<le> n" and "length ms \<le> k"
  shows "echoOverConn ms (Some (n, err, handleEcho (concat (map as_line ms)) k)) =
      (concat (map as_line ms), map (map upper) ms, None)"
    and "j \<le> length ms \<Longrightarrow> handleEcho (concat (map as_line (take j ms))) k = concat (map as_line (take j (map (map upper) ms)))"
proof -
  have echo: "handleEcho (concat (map as_line xs)) k = concat (map as_line (map (map upper) xs))"
    if "list_all line_ok xs" "length xs \<le> k" for xs
    using handleEcho_lines [OF that(1), of "[]" "k - length xs"] that(2) by (simp add: comp_def)
  have "list_all line_ok (map (map upper) ms)" using assms(1) by (auto simp: list_all_iff)
  from echo_rounds_lines [OF this, of ms n err] assms(2) echo [OF assms(1,3)]
  show "echoOverConn ms (Some (n, err, handleEcho (concat (map as_line ms)) k)) =
      (concat (map as_line ms), map (map upper) ms, None)" by (simp add: echoOverConn_def)
  show "handleEcho (concat (map as_line (take j ms))) k = concat (map as_line (take j (map (map upper) ms)))" if "j \<le> length ms"
    using echo [of "take j ms"] that assms(1,3) by (simp add: take_map list_all_iff) (metis in_set_takeD)
qed

text \<open>A message with a newline is two lines for the server and one for the client, whose replies lag behind from then on.\<close>

lemma newline_shifts_replies:
  "echoOverConn [''a'' @ nl # ''b'', ''c''] (Some (2, False, handleEcho (''a'' @ nl # ''b'' @ nl # ''c'' @ [nl]) 3)) =
     (''a'' @ nl # ''b'' @ nl # ''c'' @ [nl], [''A'', ''B''], None)"
proof -
  have ok: "list_all line_ok [''a'', ''b'', ''c'']" "list_all line_ok [''A'', ''B'', ''C'']" by (simp_all add: line_ok_def max_token_def)
  have up: "map upper ''a'' = ''A''" "map upper ''b'' = ''B''" "map upper ''c'' = ''C''" by code_simp+
  have "handleEcho (''a'' @ nl # ''b'' @ nl # ''c'' @ [nl]) 3 = ''A'' @ nl # ''B'' @ nl # ''C'' @ [nl]"
    using handleEcho_lines [OF ok(1), of "[]" 0] up by (simp add: eval_nat_numeral)
  then show ?thesis
    using Scan_line [of "''A''" "''B'' @ nl # ''C'' @ [nl]"] Scan_line [of "''B''" "''C'' @ [nl]"] ok(2)
    by (simp add: echoOverConn_def eval_nat_numeral)
qed

subsection \<open>Lemmas: the pins of a handshake\<close>

text \<open>What all phases of a handshake keep, the handshake keeps.\<close>

definition keeps :: "('p hs_state \<Rightarrow> bool) \<Rightarrow> 'p phase \<Rightarrow> bool" where
  "keeps Q f \<longleftrightarrow> (\<forall>st. Q st \<longrightarrow> Q (fst (f st)))"

lemma exchange_keeps:
  assumes "keeps Q send" and "keeps Q recv"
  shows "keeps Q (Enclave_Handshake.exchange d send recv)"
  unfolding keeps_def
proof (intro allI impI)
  fix st assume st: "Q st"
  have two: "Q (fst (case f st of (st', Some e) \<Rightarrow> (st', Some e) | (st', None) \<Rightarrow> g st'))" if "keeps Q f" "keeps Q g" for f g
  proof -
    obtain st' e where f: "f st = (st', e)" by fastforce
    with that(1) st have "Q st'" unfolding keeps_def by (metis fst_conv)
    with that(2) f show ?thesis unfolding keeps_def by (cases e) simp_all
  qed
  from two [OF assms] two [OF assms(2,1)] show "Q (fst (Enclave_Handshake.exchange d send recv st))"
    by (cases d) (simp_all add: Enclave_Handshake.exchange_def)
qed

lemma runHandshake_keeps:
  assumes frames: "\<And>v. keeps Q (put_frame v)" "keeps Q (get_hello K)" "keeps Q (get_result K)"
    and claims: "\<And>n pn. keeps Q (send_claim K cfg se n pn)" "\<And>pm n pn. keeps Q (recv_claim K cfg se pm n pn)"
    and start: "Q \<lparr>hs_in = inp, hs_out = [], hs_pins = pins, hs_hello = None, hs_att = None, hs_verifyErr = None\<rparr>"
  shows "Q (fst (runHandshake K reason cfg se inp pins))"
proof -
  have p1: "Q (fst (Enclave_Handshake.exchange d (put_frame v) (get_hello K) st))" if "Q st" for d v st
    using exchange_keeps [OF frames(1,2)] that by (simp add: keeps_def)
  have p2: "Q (fst (Enclave_Handshake.exchange d (send_claim K cfg se n pn) (recv_claim K cfg se pm n pn) st))" if "Q st" for d n pn pm st
    using exchange_keeps [OF claims] that by (simp add: keeps_def)
  have p3: "Q (fst (Enclave_Handshake.exchange d (put_frame v) (get_result K) st))" if "Q st" for d v st
    using exchange_keeps [OF frames(1,3)] that by (simp add: keeps_def)
  have p1': "Q st'" if "Enclave_Handshake.exchange d (put_frame v) (get_hello K)
      \<lparr>hs_in = inp, hs_out = [], hs_pins = pins, hs_hello = None, hs_att = None, hs_verifyErr = None\<rparr> = (st', e)" for d v st' e
    using p1 [OF start] that by (metis fst_conv)
  have p2': "Q st''" if "Enclave_Handshake.exchange d (send_claim K cfg se n pn) (recv_claim K cfg se pm n pn) st = (st'', e)" "Q st"
    for d n pn pm st st'' e using p2 that by (metis fst_conv)
  show ?thesis
    unfolding runHandshake_def Let_def
    by (auto simp: start split: option.split prod.split dest: p1' intro!: p3 intro: p2')
qed

lemma phases_keep:
  assumes "\<And>st x. Q (st\<lparr>hs_out := x\<rparr>) = Q st" and "\<And>st x. Q (st\<lparr>hs_in := x\<rparr>) = Q st"
    and "\<And>st x. Q (st\<lparr>hs_hello := x\<rparr>) = Q st"
  shows "keeps Q (put_frame v)" and "keeps Q (get_hello K)" and "keeps Q (get_result K)" and "keeps Q (send_claim K cfg se n pn)"
  using assms by (auto simp: keeps_def put_frame_def get_hello_def get_result_def send_claim_def split: sum.split option.split)

lemma runHandshake_att: "runHandshake K reason cfg se inp pins = (st, Inr att) \<Longrightarrow> hs_att st = att"
proof -
  have r: "hs_att (fst (Enclave_Handshake.exchange d (put_frame v) (get_result K) st)) = hs_att st" for d v st
  proof -
    have "keeps (\<lambda>s. hs_att s = hs_att st) (Enclave_Handshake.exchange d (put_frame v) (get_result K))"
      by (intro exchange_keeps phases_keep) simp_all
    then show ?thesis unfolding keeps_def by blast
  qed
  show "hs_att st = att" if "runHandshake K reason cfg se inp pins = (st, Inr att)"
    using that unfolding runHandshake_def Let_def
    by (auto simp: r split: if_split_asm option.split_asm prod.split_asm)
qed

text \<open>A claim whose key the store holds for its endpoint.\<close>

definition pinned :: "claim \<Rightarrow> known_peers \<Rightarrow> bool" where
  "pinned c s \<longleftrightarrow> (\<exists>k. map_of (ks_peers s) (cl_LocalEndpoint c) = Some k \<and> kp_AttestKey k = cl_AttestKey c)"

lemma Policy_Check_pinned:
  assumes "po_PinPeer p = Some (Pin J ok now)"
  shows "pinned c' s \<Longrightarrow> pinned c' (fst (Policy_Check p c s))"
    and "snd (Policy_Check p c s) = Inr () \<Longrightarrow> pinned c (fst (Policy_Check p c s))"
proof -
  have step: "fst (Policy_Check p c s) = s \<or> fst (Policy_Check p c s) = fst (Pin J ok now c s)"
    using assms by (simp add: Policy_Check_def split: prod.split)
  then show "pinned c' s \<Longrightarrow> pinned c' (fst (Policy_Check p c s))"
    using Pin_keeps by (metis pinned_def)
  show "pinned c (fst (Policy_Check p c s))" if "snd (Policy_Check p c s) = Inr ()"
  proof -
    have "Policy_Check p c s = (fst (Policy_Check p c s), Inr ())" using that by (metis prod.collapse)
    from Policy_Check_Inr [OF this] assms have "Pin J ok now c s = (fst (Policy_Check p c s), True)" by simp
    with Pin_accepted [of J ok now c s] show ?thesis by (simp add: pinned_def)
  qed
qed

lemma verifyPeerClaim_pinned:
  assumes "po_PinPeer (hc_Policy cfg) = Some (Pin J ok now)" and "verifyPeerClaim K wc r cfg se n pn pins = (pins', e)"
  shows "pinned c pins \<Longrightarrow> pinned c pins'" and "e = None \<Longrightarrow> pinned (wc_Claim wc) pins'"
  using assms(2) Policy_Check_pinned(1) [OF assms(1), where s = pins and c = "wc_Claim wc" and c' = c]
    Policy_Check_pinned(2) [OF assms(1), where s = pins and c = "wc_Claim wc"]
  by (auto simp: verifyPeerClaim_def split: option.splits sum.splits prod.splits)

definition att_pinned :: "known_peers hs_state \<Rightarrow> bool" where
  "att_pinned st \<longleftrightarrow> (case hs_att st of None \<Rightarrow> True | Some a \<Rightarrow> (case pa_Claim a of None \<Rightarrow> True | Some c \<Rightarrow> pinned c (hs_pins st)))"

lemma recv_claim_pinned:
  assumes "po_PinPeer (hc_Policy cfg) = Some (Pin J ok now)"
  shows "keeps (\<lambda>st. pinned c (hs_pins st)) (recv_claim K cfg se pm n pn)" and "keeps att_pinned (recv_claim K cfg se pm n pn)"
  by (auto simp: keeps_def recv_claim_def att_pinned_def split: sum.split option.split prod.split
      dest: verifyPeerClaim_pinned [OF assms])

text \<open>A handshake never unpins, and an attested peer leaves it pinned.\<close>

lemma Handshake_pinned:
  assumes "po_PinPeer (hc_Policy cfg) = Some (Pin J ok now)" and "Handshake K reason cfg se stream pins = (pins', out, r)"
  shows "pinned c pins \<Longrightarrow> pinned c pins'" and "r = Inr (Some a) \<Longrightarrow> pa_Claim a = Some c \<Longrightarrow> pinned c pins'"
proof -
  show "pinned c pins'" if "pinned c pins"
  proof (cases stream)
    case (Some inp)
    have "pinned c (hs_pins (fst (runHandshake K reason cfg se inp pins)))"
      by (rule runHandshake_keeps [where Q = "\<lambda>st. pinned c (hs_pins st)"])
        (simp_all add: phases_keep recv_claim_pinned(1) [OF assms(1)] that)
    with assms(2) Some that show ?thesis by (auto simp: Handshake_def split: if_split_asm prod.splits)
  qed (use assms(2) that in \<open>auto simp: Handshake_def split: if_split_asm\<close>)
  show "pinned c pins'" if r: "r = Inr (Some a)" "pa_Claim a = Some c"
  proof -
    from assms(2) r(1) obtain inp st where run: "runHandshake K reason cfg se inp pins = (st, Inr (Some a))" "pins' = hs_pins st"
      by (auto simp: Handshake_def split: if_split_asm option.split_asm prod.splits sum.split_asm)
    have "att_pinned (fst (runHandshake K reason cfg se inp pins))"
    proof (rule runHandshake_keeps)
      show "keeps att_pinned (put_frame v)" "keeps att_pinned (get_hello K)" "keeps att_pinned (get_result K)"
        "keeps att_pinned (send_claim K cfg se n pn)" for v n pn
        by (rule phases_keep; simp add: att_pinned_def split: option.split)+
      show "keeps att_pinned (recv_claim K cfg se pm n pn)" for pm n pn by (rule recv_claim_pinned(2) [OF assms(1)])
    qed (simp add: att_pinned_def)
    with runHandshake_att [OF run(1)] r(2) run show ?thesis by (simp add: att_pinned_def)
  qed
qed

subsection \<open>Lemmas: who is served\<close>

text \<open>What the command knows of a peer that it accepted: a claim signed with its key, that names both ends and
  meets the flags.\<close>

definition peer_verified :: "'x wire_ops_scheme \<Rightarrow> peerConfig \<Rightarrow> bytes \<Rightarrow> bytes \<Rightarrow> claim \<Rightarrow> bool" where
  "peer_verified K pc self peer c \<longleftrightarrow> (\<exists>sig. VerifyClaimSignature K c sig = Inr ()) \<and> cl_LocalEndpoint c = peer \<and>
     cl_RemoteEndpoint c = self \<and> flags_hold pc c"

abbreviation attested_by :: "claim \<Rightarrow> peer_attestation option" where
  "attested_by c \<equiv> Some \<lparr>pa_Attested = True, pa_Claim = Some c\<rparr>"

text \<open>The flags that make a run insist on an attested peer, and a configuration made from them.\<close>

definition insists :: "peerConfig \<Rightarrow> bool" where
  "insists pc \<longleftrightarrow> pc_Enable pc \<and> (pc_Mode pc = ''mutual'' \<or> pc_Mode pc = ''verify'') \<and> \<not> pc_AllowUnattested pc"

definition configured :: "peerConfig \<Rightarrow> bytes \<Rightarrow> known_peers handshake_config \<Rightarrow> bool" where
  "configured pc self cfg \<longleftrightarrow> hc_SelfID cfg = self \<and> verifies (hc_Mode cfg) \<and>
     (\<exists>pin. hc_Policy cfg = (peer_policy pc)\<lparr>po_PinPeer := pin\<rparr> \<and>
       (pc_PinFile pc \<noteq> [] \<longrightarrow> (\<exists>J ok now. pin = Some (Pin (J :: json_peers) ok now))))"

lemma newHandshakeConfig_configured:
  assumes "newHandshakeConfig (J :: json_peers) r now ok ver ident pc self sg hr eph = Inr hs" and "insists pc"
  shows "\<exists>cfg kp. hs = Some (cfg, kp) \<and> configured pc self cfg"
proof -
  from assms obtain cfg kp where hs: "hs = Some (cfg, kp)"
    by (auto simp: newHandshakeConfig_def insists_def Let_def split: if_split_asm sum.split_asm option.split_asm)
  from newHandshakeConfig_Some [OF assms(1) [unfolded hs]] obtain pin where pin:
    "hc_Policy cfg = (peer_policy pc)\<lparr>po_PinPeer := pin\<rparr>" "hc_SelfID cfg = self" "peer_mode pc = Inr (hc_Mode cfg)"
    "pc_PinFile pc \<noteq> [] \<Longrightarrow> hc_Mode cfg \<noteq> ModeProve \<Longrightarrow> pin = Some (Pin J ok now)"
    by (auto split: if_splits)
  have "hc_Mode cfg \<noteq> ModeProve" using pin(3) assms(2) by (auto simp: peer_mode_def insists_def split: if_split_asm)
  with pin hs show ?thesis unfolding configured_def verifies_def by (cases "hc_Mode cfg") auto
qed

lemma Handshake_verified:
  assumes "configured pc self cfg" and "\<not> pc_AllowUnattested pc"
    and "Handshake K reason cfg se stream pins = (pins', out, Inr att)"
  shows "\<exists>c. att = attested_by c \<and> peer_verified K pc self (se_peer se) c \<and> (pc_PinFile pc \<noteq> [] \<longrightarrow> pinned c pins')"
proof -
  from assms(3) obtain inp st where run: "runHandshake K reason cfg se inp pins = (st, Inr att)"
    by (auto simp: Handshake_def split: if_split_asm option.split_asm prod.splits sum.split_asm)
  from runHandshake_Inr [OF run] obtain n pn pm where ok: "att_ok K cfg se pm n pn pins att" using phase2_att by metis
  from assms(1) obtain pin where pin: "hc_Policy cfg = (peer_policy pc)\<lparr>po_PinPeer := pin\<rparr>" "verifies (hc_Mode cfg)"
    "hc_SelfID cfg = self" "pc_PinFile pc \<noteq> [] \<Longrightarrow> \<exists>J ok now. pin = Some (Pin (J :: json_peers) ok now)"
    by (auto simp: configured_def)
  have "\<not> po_AllowUnattested (hc_Policy cfg)" using pin(1) assms(2) by (simp add: peer_policy_def)
  with ok pin(2) obtain a c where a: "att = Some a" "pa_Claim a = Some c" "pa_Attested a" "claim_verified K cfg se n pn pins c"
    by (auto simp: att_ok_def split: option.splits)
  have "Policy_Check (hc_Policy cfg) c pins = (fst (Policy_Check (hc_Policy cfg) c pins), Inr ())"
    using a(4) by (metis claim_verified_def prod.collapse)
  from peer_policy_flags [OF this [unfolded pin(1)]] a(4) pin(3) have "peer_verified K pc self (se_peer se) c"
    by (auto simp: peer_verified_def claim_verified_def)
  moreover have "pinned c pins'" if pf: "pc_PinFile pc \<noteq> []"
  proof -
    from pin(4) [OF pf] obtain J ok now where "po_PinPeer (hc_Policy cfg) = Some (Pin (J :: json_peers) ok now)"
      using pin(1) by auto
    from Handshake_pinned(2) [OF this assms(3)] a show ?thesis by simp
  qed
  moreover have "att = attested_by c" using a by (cases a) simp
  ultimately show ?thesis by blast
qed

lemma serveEcho_verified:
  assumes "configured pc self cfg" and "\<not> pc_AllowUnattested pc"
  shows "serveEcho K reason (Some cfg) cns pins = (pins', runs) \<Longrightarrow>
    (pc_PinFile pc \<noteq> [] \<longrightarrow> (\<forall>c. pinned c pins \<longrightarrow> pinned c pins')) \<and>
    (\<forall>run \<in> set runs. cr_echoed run \<noteq> [] \<longrightarrow> (\<exists>c. cr_attested run = Some (attested_by c) \<and>
       peer_verified K pc self (cr_peer run) c \<and> (pc_PinFile pc \<noteq> [] \<longrightarrow> pinned c pins')))"
proof (induction cns arbitrary: pins runs)
  case (Cons cn cns)
  obtain pins1 run where conn: "handleConn K reason (Some cfg) cn pins = (pins1, run)" by fastforce
  obtain runs' where rest: "serveEcho K reason (Some cfg) cns pins1 = (pins', runs')" and runs: "runs = run # runs'"
    using Cons.prems conn by (auto split: prod.splits)
  note IH = Cons.IH [OF rest]
  obtain stream pins2 out r where h: "Handshake K reason cfg (cn_session cn) stream pins = (pins2, out, r)"
    "pins1 = pins2" "cr_peer run = se_peer (cn_session cn)"
    "r = Inr att \<Longrightarrow> cr_attested run = Some att" "\<forall>att. r \<noteq> Inr att \<Longrightarrow> cr_echoed run = []" for att
  proof -
    obtain pins2 out r where h: "Handshake K reason cfg (cn_session cn)
        (case cn_streams cn of [] \<Rightarrow> None | (inp, n) # _ \<Rightarrow> Some inp) pins = (pins2, out, r)" by (metis prod_cases3)
    from that [OF h] conn h show thesis by (cases r) (auto simp: handleConn_def Let_def)
  qed
  have keep: "pinned c pins1" if "pc_PinFile pc \<noteq> []" "pinned c pins" for c
  proof -
    from assms(1) that(1) obtain J ok now where "po_PinPeer (hc_Policy cfg) = Some (Pin (J :: json_peers) ok now)"
      by (auto simp: configured_def)
    from Handshake_pinned(1) [OF this h(1) that(2)] h(2) show ?thesis by simp
  qed
  have "\<exists>c. cr_attested run = Some (attested_by c) \<and> peer_verified K pc self (cr_peer run) c \<and> (pc_PinFile pc \<noteq> [] \<longrightarrow> pinned c pins1)"
    if "cr_echoed run \<noteq> []"
  proof -
    from h(5) that obtain att where att: "r = Inr att" by blast
    from Handshake_verified [OF assms h(1) [unfolded att]] h(2,3) h(4) [OF att] show ?thesis by auto
  qed
  with IH keep runs show ?case by auto
qed simp

lemma role_setup_configured:
  assumes "role_setup R v hcfg pc tag ephemeral bind w = (w', Inr rr)" and "insists pc"
  shows "\<exists>cfg kp. rr_handshake rr = Some (cfg, kp) \<and> configured pc (rr_id rr) cfg"
proof -
  from assms(1) obtain sg hr hs self where hs: "newHandshakeConfig (ro_peers R) (re_pins v) (re_now v) (re_disk v) (re_version v)
      (re_identity v) pc self sg hr ephemeral = Inr hs" "rr_handshake rr = hs" "rr_id rr = self"
    unfolding role_setup_def Let_def
    by (auto split: prod.split_asm sum.split_asm)
  from newHandshakeConfig_configured [OF hs(1) assms(2)] hs(2,3) show ?thesis by simp
qed

subsection \<open>Lemmas: the record of a dialer\<close>

lemma attest_keeps:
  "attest J sg ok keyTag path att = (att', r) \<Longrightarrow> at_PeerAttested att' = at_PeerAttested att \<and> at_PeerClaim att' = at_PeerClaim att \<and>
    at_Role att' = at_Role att \<and> at_EndpointID att' = at_EndpointID att \<and> at_Peer att' = at_Peer att"
  by (auto simp: attest_def signAttestation_def Let_def split: option.split_asm prod.split_asm sum.split_asm bool.split_asm)

lemma dial_echo_keeps:
  "dial_echo R v hcfg ephemeral peer messages rr di d = (d', r) \<Longrightarrow>
    dr_attested d' = dr_attested d \<and> dr_id d' = dr_id d \<and> dr_report d' = dr_report d"
  by (auto simp: dial_echo_def Let_def split: prod.split_asm option.split_asm)

lemma dial_echo_record:
  assumes "dial_echo R v hcfg ephemeral peer messages rr di d = (d', r)" and "dr_attested d = Some (attested_by c)"
    and "dr_record d = None"
  shows "case dr_record d' of
      None \<Rightarrow> (\<exists>e. r = Inl e) \<or> \<not> hg_Attest hcfg
    | Some att \<Rightarrow> at_PeerAttested att = Some True \<and> at_PeerClaim att = Some c \<and> at_Role att = ''dial'' \<and>
        at_EndpointID att = rr_id rr \<and> at_Peer att = peer"
  using assms unfolding dial_echo_def role_record_def dial_attestation_def newAttestation_def Let_def
  by (auto split: prod.split_asm option.split_asm sum.split_asm if_split_asm dest!: attest_keeps)

subsection \<open>Properties\<close>

text \<open>C38: A server that was told to insist on attested peers echoes not a byte to any other: every connection of a run
  on which a stream was served finished the handshake with a claim that is signed with the key it carries, names
  the peer and this endpoint, and meets every flag; and with a pin file the key is the one that the store ends
  with for that endpoint, so all served connections of one endpoint in a run have the same key.\<close>

theorem echo_only_to_attested:
  assumes "runServe R v hcfg pc tag ephemeral bind cns interrupted w = (w', sv, r)" and "insists pc"
    and "run \<in> set (sv_conns sv)" and "cr_echoed run \<noteq> []"
  shows "\<exists>c. cr_attested run = Some (attested_by c) \<and> peer_verified (ro_wire R) pc (sv_id sv) (cr_peer run) c \<and>
    (pc_PinFile pc \<noteq> [] \<longrightarrow> (\<exists>kp. sv_pins sv = Some kp \<and> pinned c kp))"
proof -
  from assms(1,3) obtain rr where rr: "role_setup R v hcfg pc tag ephemeral bind w = (w', Inr rr)"
    by (auto simp: runServe_def no_serve_run_def Let_def split: prod.split_asm sum.split_asm if_split_asm)
  from role_setup_configured [OF rr assms(2)] obtain cfg kp where cfg: "rr_handshake rr = Some (cfg, kp)"
    "configured pc (rr_id rr) cfg" by blast
  obtain pins runs where serve: "serveEcho (ro_wire R) (ro_reason R) (Some cfg) cns kp = (pins, runs)" by fastforce
  have "sv_id sv = rr_id rr" "sv_conns sv = runs" "sv_pins sv = Some pins"
    using assms(1) serve by (auto simp: runServe_def rr cfg(1) Let_def split: prod.split_asm if_split_asm)
  with serveEcho_verified [OF cfg(2) _ serve] assms(2-4) show ?thesis by (auto simp: insists_def)
qed


subsection \<open>Witnesses\<close>

text \<open>A server that is told to verify its clients, with required maximal flags, a pinned team and a pin file, and a client
  whose three frames are a hello, a claim and a result, and that then sends a line.\<close>

definition demo_client_claim :: claim where
  "demo_client_claim = demo_peer_claim\<lparr>cl_Role := RoleDial, cl_LocalEndpoint := ''A'', cl_RemoteEndpoint := ''B'',
     cl_NonceSelf := b64_encode dial_nonce, cl_NoncePeer := b64_encode serve_nonce\<rparr>"

definition client_wire :: wire_ops where
  "client_wire = demo_answers\<lparr>parse_hello := (\<lambda>b. Some \<lparr>he_V = 1, he_Nonce = b64_encode dial_nonce, he_Mode = ''mutual''\<rparr>),
     parse_claim := (\<lambda>b. Some \<lparr>wc_Claim = demo_client_claim, wc_Signature = ''00''\<rparr>)\<rparr>"

definition demo_role_ops :: "wire_ops \<Rightarrow> bytes \<Rightarrow> (demo_keychain, bytes, bytes) role_ops" where
  "demo_role_ops W self = \<lparr>ro_security = demo_security, ro_secret = Some, ro_id = (\<lambda>sk. self), ro_signer = (\<lambda>k. demo_record_signer),
     ro_addrport = (\<lambda>a. True), ro_ticket = (\<lambda>t. Some ''B''), ro_wire = W, ro_reason = (\<lambda>e. []), ro_peers = demo_json_peers,
     
     ro_records = \<lparr>json_compact = (\<lambda>a. Some []), json_indent = (\<lambda>a. Some ''{}''), parse_attestation = (\<lambda>b. None)\<rparr>, ro_duration = (\<lambda>d. [])\<rparr>"

definition demo_role_env :: role_env where
  "demo_role_env = \<lparr>re_kernel = demo_kernel, re_bundled = Some False, re_fresh = Some demo_seed, re_random = [], re_bind = True,
     re_pins = Inr None, re_disk = True, re_now = [], re_version = [], re_identity = None, re_start = [], re_end = [],
     re_output = True\<rparr>"

definition demo_role_config :: "bytes \<Rightarrow> known_peers handshake_config" where
  "demo_role_config self = demo_handshake_config\<lparr>hc_SelfID := self, hc_Signer := Some (signer.truncate demo_record_signer),
     hc_EphemeralKey := False\<rparr>"

lemma demo_newSigner:
  "snd (newSigner demo_security ''tag.attest'' True
     \<lparr>dk_items = [((''tag'', ''iroh-endpoint-seed''), wrappingKeyLabel @ demo_seed)], dk_keys = [(''tag'', wrappingKeyLabel)]\<rparr>) =
   Inr ''enclaveiroh attestation key''"
  by code_simp

lemma demo_role_setup:
  obtains w' rr where "role_setup (demo_role_ops W self) demo_role_env demo_hardened demo_flags ''tag'' False [] \<lparr>dk_items = [], dk_keys = []\<rparr> =
      (w', Inr rr)" "rr_id rr = self" "rr_handshake rr = Some (demo_role_config self, demo_peers)" "rr_signer rr = Some demo_record_signer"
proof -
  obtain w' where "newSigner demo_security ''tag.attest'' True
      \<lparr>dk_items = [((''tag'', ''iroh-endpoint-seed''), wrappingKeyLabel @ demo_seed)], dk_keys = [(''tag'', wrappingKeyLabel)]\<rparr> =
      (w', Inr ''enclaveiroh attestation key'')" using demo_newSigner by (metis prod.collapse)
  then have "runSigner demo_security demo_hardened demo_flags ''tag'' False
      \<lparr>dk_items = [((''tag'', ''iroh-endpoint-seed''), wrappingKeyLabel @ demo_seed)], dk_keys = [(''tag'', wrappingKeyLabel)]\<rparr> =
      (w', Inr (Some ''enclaveiroh attestation key'', ''tag.attest''))" by (simp add: runSigner_def demo_hardened_def)
  moreover have "newHandshakeConfig demo_json_peers (Inr None) [] True [] None demo_flags self (Some (signer.truncate demo_record_signer))
      \<lparr>hr_CodeSigning = cs, hr_DeniedAttach = True, hr_Bundled = False, hr_TracePoll = []\<rparr> False =
      Inr (Some (demo_role_config self, demo_peers))" for cs
    by (simp add: newHandshakeConfig_def demo_flags_def peer_mode_def parseClaimVersion_def LoadKnownPeers_def
        demo_handshake_config_def demo_role_config_def demo_peers_def)
  ultimately show thesis
    using that by (simp add: role_setup_def demo_role_ops_def demo_role_env_def demo_prepared bindEndpoint_def)
qed

text \<open>Both demo claims verify: \<open>c\<close> is the claim, \<open>n\<close> the nonce of the verifying side.\<close>

lemma demo_claim_verifies:
  assumes "cl_CSFlags c = 0x13301" and "cl_TeamID c = ''team''" and "cl_ClaimVersion c = 3" and "cl_AttestKey c = ''00''"
    and "VerifyClaim c (if se_dialer se then RoleServe else RoleDial) self (se_peer se) (se_alpn se) n pn = Inr ()"
    and "p256_valid W = (\<lambda>b. True)" and "ecdsa_verify W = (\<lambda>q d s. True)"
  shows "\<exists>pins. verifyPeerClaim (W :: wire_ops) \<lparr>wc_Claim = c, wc_Signature = ''00''\<rparr> (my_role se) (demo_role_config self) se n pn demo_peers = (pins, None)"
proof -
  have hex: "hex_decode ''00'' = Some [CHR 0x00]" by code_simp
  then have "VerifyClaimSignature W c [CHR 0x00] = Inr ()"
    using assms(4,6,7) by (simp add: VerifyClaimSignature_def parseP256PublicKey_def)
  moreover have "MaximalFlags 0x13301" by code_simp
  then have "Policy_Check (hc_Policy (demo_role_config self)) c demo_peers =
      (fst (Pin demo_json_peers True [] c demo_peers), Inr ())"
    using assms(1-4) by (simp add: Policy_Check_def demo_role_config_def demo_handshake_config_def peer_policy_def demo_flags_def
          Pin_def save_def demo_peers_def demo_json_peers_def)
  moreover have "(if my_role se = RoleDial then RoleServe else RoleDial) = (if se_dialer se then RoleServe else RoleDial)"
    by (simp add: my_role_def RoleDial_def RoleServe_def)
  ultimately show ?thesis using hex assms(5) by (simp add: verifyPeerClaim_def demo_role_config_def)
qed

lemma demo_role_handshake:
  assumes "verifyPeerClaim W \<lparr>wc_Claim = c, wc_Signature = ''00''\<rparr> (my_role se) (demo_role_config self) se n pn demo_peers = (pins, None)"
    and "se_nonce se = Some n" and "length pn = nonceSize" and "json_hello W = (\<lambda>h. Some [])"
    and "parse_hello W = (\<lambda>b. Some \<lparr>he_V = 1, he_Nonce = b64_encode pn, he_Mode = ''mutual''\<rparr>)"
    and "parse_claim W = (\<lambda>b. Some \<lparr>wc_Claim = c, wc_Signature = ''00''\<rparr>)"
  obtains kp out where "Handshake W r (demo_role_config self) se (Some (demo_frame @ demo_frame @ demo_frame)) demo_peers =
    (kp, out, Inr (attested_by c))"
proof -
  have "snd (runHandshake W r (demo_role_config self) se (demo_frame @ demo_frame @ demo_frame) demo_peers) =
      Inr (attested_by (wc_Claim \<lparr>wc_Claim = c, wc_Signature = ''00''\<rparr>))"
  proof (rule verifying_side [where n = n and pn = pn])
    show "readFrame (parse_hello W) (demo_frame @ demo_frame @ demo_frame) =
        Inr (\<lparr>he_V = 1, he_Nonce = b64_encode pn, he_Mode = ''mutual''\<rparr>, demo_frame @ demo_frame)"
      by (rule readFrame_demo_frame) (simp add: assms(5))
    show "readFrame (parse_claim W) (demo_frame @ demo_frame) = Inr (\<lparr>wc_Claim = c, wc_Signature = ''00''\<rparr>, demo_frame)"
      by (rule readFrame_demo_frame) (simp add: assms(6))
    show "fits (json_hello W (hello_of (demo_role_config self) n))" by (simp add: fits_def assms(4))
    show "attests ModeMutual" by (simp add: attests_def)
    show "verifyPeerClaim W \<lparr>wc_Claim = c, wc_Signature = ''00''\<rparr> (my_role se) (demo_role_config self) se n pn demo_peers = (pins, None)"
      by (rule assms(1))
  qed (simp_all add: assms(2,3) demo_role_config_def demo_handshake_config_def helloVersion_def parseMode_def)
  then obtain st where "runHandshake W r (demo_role_config self) se (demo_frame @ demo_frame @ demo_frame) demo_peers =
      (st, Inr (attested_by c))" by (metis prod.collapse wire_claim.select_convs(1))
  then have "Handshake W r (demo_role_config self) se (Some (demo_frame @ demo_frame @ demo_frame)) demo_peers =
      (hs_pins st, hs_out st, Inr (attested_by c))"
    by (simp add: Handshake_def demo_role_config_def demo_handshake_config_def attests_def)
  with that show thesis by blast
qed

abbreviation empty_keychain :: demo_keychain where
  "empty_keychain \<equiv> \<lparr>dk_items = [], dk_keys = []\<rparr>"

text \<open>The server echoes a line to its attested client.\<close>

definition demo_client :: connection where
  "demo_client = \<lparr>cn_session = serve_session, cn_streams = [(demo_frame @ demo_frame @ demo_frame, 3), (as_line ''hi'', 1)]\<rparr>"

lemma demo_echo_hi: "handleEcho (as_line ''hi'') 1 = as_line ''HI''"
proof -
  have "map upper ''hi'' = ''HI''" by code_simp
  moreover have "list_all line_ok [''hi'']" by (simp add: line_ok_def max_token_def)
  ultimately show ?thesis using handleEcho_lines [of "[''hi'']" "[]" 0] by simp
qed

theorem echo_only_to_attested_witness:
  "\<exists>w' sv r run c. runServe (demo_role_ops client_wire ''B'') demo_role_env demo_hardened demo_flags ''tag'' False [] [demo_client] False
      empty_keychain = (w', sv, r) \<and> sv_conns sv = [run] \<and> cr_echoed run = [as_line ''HI''] \<and>
    cr_attested run = Some (attested_by c) \<and> peer_verified client_wire demo_flags (sv_id sv) ''A'' c"
proof -
  let ?W = "client_wire"
  obtain w' rr where rr: "role_setup (demo_role_ops ?W ''B'') demo_role_env demo_hardened demo_flags ''tag'' False [] empty_keychain =
      (w', Inr rr)" "rr_id rr = ''B''" "rr_handshake rr = Some (demo_role_config ''B'', demo_peers)" by (rule demo_role_setup)
  have "VerifyClaim demo_client_claim RoleDial ''B'' ''A'' ''x'' serve_nonce dial_nonce = Inr ()"
    by (simp add: VerifyClaim_Inr demo_client_claim_def demo_peer_claim_def)
  then have "\<exists>pins. verifyPeerClaim ?W \<lparr>wc_Claim = demo_client_claim, wc_Signature = ''00''\<rparr> (my_role serve_session)
      (demo_role_config ''B'') serve_session serve_nonce dial_nonce demo_peers = (pins, None)"
    by (intro demo_claim_verifies) (simp_all add: demo_client_claim_def demo_peer_claim_def client_wire_def demo_answers_def)
  then obtain pins where v: "verifyPeerClaim ?W \<lparr>wc_Claim = demo_client_claim, wc_Signature = ''00''\<rparr> (my_role serve_session)
      (demo_role_config ''B'') serve_session serve_nonce dial_nonce demo_peers = (pins, None)" by blast
  obtain kp out where h: "Handshake ?W (\<lambda>e. []) (demo_role_config ''B'') serve_session (Some (demo_frame @ demo_frame @ demo_frame))
      demo_peers = (kp, out, Inr (attested_by demo_client_claim))"
    by (rule demo_role_handshake [OF v]) (simp_all add: client_wire_def demo_answers_def nonceSize_def demo_nonce_def)
  let ?run = "\<lparr>cr_peer = ''A'', cr_attested = Some (attested_by demo_client_claim),
    cr_report = ConnPeer ''A'' ''x'' # logPeerAttestation ''A'' (attested_by demo_client_claim), cr_handshake = out,
    cr_echoed = [as_line ''HI'']\<rparr>"
  have conn: "handleConn ?W (\<lambda>e. []) (Some (demo_role_config ''B'')) demo_client demo_peers = (kp, ?run)"
    using h demo_echo_hi by (simp add: handleConn_def demo_client_def Let_def)
  let ?sv = "\<lparr>sv_id = ''B'', sv_pins = Some kp, sv_conns = [?run], sv_record = None\<rparr>"
  have ops: "ro_wire (demo_role_ops ?W ''B'') = ?W" "ro_reason (demo_role_ops ?W ''B'') = (\<lambda>e. [])"
    by (simp_all add: demo_role_ops_def)
  have run: "runServe (demo_role_ops ?W ''B'') demo_role_env demo_hardened demo_flags ''tag'' False [] [demo_client] False empty_keychain =
      (w', ?sv, Inl AcceptFailed)"
    using conn by (simp add: runServe_def rr ops)
  have "\<exists>c. cr_attested ?run = Some (attested_by c) \<and> peer_verified (ro_wire (demo_role_ops ?W ''B'')) demo_flags (sv_id ?sv) (cr_peer ?run) c \<and>
      (pc_PinFile demo_flags \<noteq> [] \<longrightarrow> (\<exists>kp. sv_pins ?sv = Some kp \<and> pinned c kp))"
    by (rule echo_only_to_attested [OF run]) (simp_all add: insists_def demo_flags_def)
  with run ops show ?thesis by auto
qed

text \<open>The dialer sends a line to its attested server, and the record names the server's claim.\<close>

definition demo_server_conn :: dialed where
  "demo_server_conn = \<lparr>di_session = dial_session, di_handshake = Some (demo_frame @ demo_frame @ demo_frame),
     di_echo = Some (1, False, as_line ''HI'')\<rparr>"


end
