(* ===== verification/Content_Protocol.thy ===== *)
theory Content_Protocol
  imports Dag_Protocol "HOL-Library.List_Lexorder" "HOL-Library.Char_ord"
begin

section \<open>Content discovery: messages (contentdiscovery/protocol.go)\<close>

text \<open>
  The announcements, queries and responses of the \<^verbatim>\<open>n0/tracker/1\<close> protocol and their postcard
  form, over the primitives of \<open>Dag_Protocol\<close>: a struct without methods of its own is the
  concatenation of its fields, a byte array its raw bytes. Content hashes, keys and signatures
  belong to third-party packages; a host is the 32 bytes of its key.
\<close>

subsection \<open>Parameters\<close>

record content =
  ct_Hash :: bytes
  ct_Format :: nat

record 's content_ops = postcard +
  pc_bool :: "bool \<Rightarrow> bytes"
  get_bool :: "bytes \<Rightarrow> (bool \<times> bytes) option"
  pc_content :: "content \<Rightarrow> bytes option"
  get_content :: "bytes \<Rightarrow> (content \<times> bytes) option"
  pk_valid :: "bytes \<Rightarrow> bool"
  pk_verify :: "bytes \<Rightarrow> bytes \<Rightarrow> bytes \<Rightarrow> bool"
  sk_public :: "'s \<Rightarrow> bytes"
  sk_sign :: "'s \<Rightarrow> bytes \<Rightarrow> bytes"

definition PublicKeySize :: nat where
  "PublicKeySize = 32"

definition SignatureSize :: nat where
  "SignatureSize = 64"

text \<open>What the packages document: codecs read back, signatures verify and have their size.\<close>

definition content_ok :: "('s, 'x) content_ops_scheme \<Rightarrow> bool" where
  "content_ok E \<longleftrightarrow> postcard_ok E \<and>
     (\<forall>b r. get_bool E (pc_bool E b @ r) = Some (b, r)) \<and>
     (\<forall>c b r. pc_content E c = Some b \<longrightarrow> get_content E (b @ r) = Some (c, r)) \<and>
     (\<forall>s m. pk_verify E (sk_public E s) m (sk_sign E s m) \<and> length (sk_sign E s m) = SignatureSize) \<and>
     (\<forall>s. pk_valid E (sk_public E s) \<and> length (sk_public E s) = PublicKeySize)"

subsection \<open>Data\<close>

definition AnnouncePartial :: u32 where
  "AnnouncePartial = 0"

definition AnnounceComplete :: u32 where
  "AnnounceComplete = 1"

record announce =
  an_Host :: bytes
  an_Content :: content
  an_Kind :: u32
  an_Timestamp :: u64

record signed_announce =
  sa_Announce :: announce
  sa_Signature :: bytes

record query =
  q_Content :: content
  q_Complete :: bool
  q_Verified :: bool

datatype request = Req_Announce signed_announce | Req_Query query

text \<open>A response has one variant, the hosts of a query.\<close>

type_synonym response = "signed_announce list"

definition RequestSizeLimit :: nat where
  "RequestSizeLimit = 16384"

subsection \<open>Postcard\<close>

definition Announce_Encode :: "('s, 'x) content_ops_scheme \<Rightarrow> announce \<Rightarrow> bytes option" where
  "Announce_Encode E a =
     (case pc_content E (an_Content a) of
        None \<Rightarrow> None
      | Some c \<Rightarrow> Some (an_Host a @ c @ pc_uint E (unat (an_Kind a)) @ pc_uint E (unat (an_Timestamp a))))"

definition get_raw :: "nat \<Rightarrow> bytes \<Rightarrow> (bytes \<times> bytes) option" where
  "get_raw n s = (if length s < n then None else Some (take n s, drop n s))"

text \<open>The kind is read as 64 bits and stored in 32, as the code's conversion does.\<close>

definition Announce_Decode :: "('s, 'x) content_ops_scheme \<Rightarrow> bytes \<Rightarrow> (announce \<times> bytes) option" where
  "Announce_Decode E s =
     (case get_raw PublicKeySize s of
        None \<Rightarrow> None
      | Some (host, s1) \<Rightarrow>
        if \<not> pk_valid E host then None
        else case get_content E s1 of
          None \<Rightarrow> None
        | Some (c, s2) \<Rightarrow>
          (case get_uint E s2 of
             None \<Rightarrow> None
           | Some (kind, s3) \<Rightarrow>
             (case get_uint E s3 of
                None \<Rightarrow> None
              | Some (ts, s4) \<Rightarrow> Some (\<lparr>an_Host = host, an_Content = c, an_Kind = of_nat kind,
                  an_Timestamp = of_nat ts\<rparr>, s4))))"

definition Signed_Encode :: "('s, 'x) content_ops_scheme \<Rightarrow> signed_announce \<Rightarrow> bytes option" where
  "Signed_Encode E sa =
     (case Announce_Encode E (sa_Announce sa) of None \<Rightarrow> None | Some b \<Rightarrow> Some (b @ sa_Signature sa))"

definition Signed_Decode :: "('s, 'x) content_ops_scheme \<Rightarrow> bytes \<Rightarrow> (signed_announce \<times> bytes) option" where
  "Signed_Decode E s =
     (case Announce_Decode E s of
        None \<Rightarrow> None
      | Some (a, r) \<Rightarrow>
        (case get_raw SignatureSize r of
           None \<Rightarrow> None
         | Some (sig, r') \<Rightarrow> Some (\<lparr>sa_Announce = a, sa_Signature = sig\<rparr>, r')))"

definition Query_Encode :: "('s, 'x) content_ops_scheme \<Rightarrow> query \<Rightarrow> bytes option" where
  "Query_Encode E q =
     (case pc_content E (q_Content q) of
        None \<Rightarrow> None
      | Some c \<Rightarrow> Some (c @ pc_bool E (q_Complete q) @ pc_bool E (q_Verified q)))"

definition Query_Decode :: "('s, 'x) content_ops_scheme \<Rightarrow> bytes \<Rightarrow> (query \<times> bytes) option" where
  "Query_Decode E s =
     (case get_content E s of
        None \<Rightarrow> None
      | Some (c, s1) \<Rightarrow>
        (case get_bool E s1 of
           None \<Rightarrow> None
         | Some (complete, s2) \<Rightarrow>
           (case get_bool E s2 of
              None \<Rightarrow> None
            | Some (verified, s3) \<Rightarrow> Some (\<lparr>q_Content = c, q_Complete = complete, q_Verified = verified\<rparr>, s3))))"

definition Req_Encode :: "('s, 'x) content_ops_scheme \<Rightarrow> request \<Rightarrow> bytes option" where
  "Req_Encode E r =
     (case r of
        Req_Announce sa \<Rightarrow> map_option (\<lambda>b. pc_uint E 0 @ b) (Signed_Encode E sa)
      | Req_Query q \<Rightarrow> map_option (\<lambda>b. pc_uint E 1 @ b) (Query_Encode E q))"

definition Req_Decode :: "('s, 'x) content_ops_scheme \<Rightarrow> bytes \<Rightarrow> (request \<times> bytes) option" where
  "Req_Decode E s =
     (case get_uint E s of
        None \<Rightarrow> None
      | Some (kind, r) \<Rightarrow>
        if kind = 0 then map_option (\<lambda>(sa, r'). (Req_Announce sa, r')) (Signed_Decode E r)
        else if kind = 1 then map_option (\<lambda>(q, r'). (Req_Query q, r')) (Query_Decode E r)
        else None)"

fun encode_all :: "('a \<Rightarrow> bytes option) \<Rightarrow> 'a list \<Rightarrow> bytes option" where
  "encode_all enc [] = Some []"
| "encode_all enc (x # xs) =
     (case enc x of None \<Rightarrow> None
      | Some b \<Rightarrow> (case encode_all enc xs of None \<Rightarrow> None | Some bs \<Rightarrow> Some (b @ bs)))"

definition Resp_Encode :: "('s, 'x) content_ops_scheme \<Rightarrow> response \<Rightarrow> bytes option" where
  "Resp_Encode E hosts =
     map_option (\<lambda>b. pc_uint E 0 @ pc_len E (length hosts) @ b) (encode_all (Signed_Encode E) hosts)"

definition Resp_Decode :: "('s, 'x) content_ops_scheme \<Rightarrow> bytes \<Rightarrow> (response \<times> bytes) option" where
  "Resp_Decode E s =
     (case get_uint E s of
        None \<Rightarrow> None
      | Some (kind, r) \<Rightarrow> if kind = 0 then get_slice E (Signed_Decode E) r else None)"

text \<open>\<^verbatim>\<open>postcard.Unmarshal\<close>.\<close>

definition unmarshal :: "('s, 'x) content_ops_scheme \<Rightarrow> (bytes \<Rightarrow> ('a \<times> bytes) option) \<Rightarrow> bytes \<Rightarrow> 'a option" where
  "unmarshal E dec b =
     (case dec b of None \<Rightarrow> None | Some (v, r) \<Rightarrow> if r = [] \<or> pc_trailing E then Some v else None)"

subsection \<open>Lemmas: round trips\<close>

lemma content_okD:
  assumes "content_ok E"
  shows "postcard_ok E" "get_bool E (pc_bool E b @ r) = Some (b, r)"
    "pc_content E c = Some cb \<Longrightarrow> get_content E (cb @ r) = Some (c, r)"
    "pk_verify E (sk_public E s) m (sk_sign E s m)" "length (sk_sign E s m) = SignatureSize"
    "pk_valid E (sk_public E s)" "length (sk_public E s) = PublicKeySize"
  using assms by (auto simp: content_ok_def)

text \<open>A host that is a key and a signature of the right size.\<close>

definition announce_ok :: "('s, 'x) content_ops_scheme \<Rightarrow> announce \<Rightarrow> bool" where
  "announce_ok E a \<longleftrightarrow> length (an_Host a) = PublicKeySize \<and> pk_valid E (an_Host a)"

definition signed_ok :: "('s, 'x) content_ops_scheme \<Rightarrow> signed_announce \<Rightarrow> bool" where
  "signed_ok E sa \<longleftrightarrow> announce_ok E (sa_Announce sa) \<and> length (sa_Signature sa) = SignatureSize"

lemma get_raw_append: "length b = n \<Longrightarrow> get_raw n (b @ r) = Some (b, r)"
  by (simp add: get_raw_def)

lemma uint_word_back:
  fixes w :: "'a :: len word"
  assumes "postcard_ok P" and "LENGTH('a) \<le> 64"
  shows "get_uint P (pc_uint P (unat w) @ r) = Some (unat w, r)"
proof -
  have "unat w < 2 ^ LENGTH('a)" by (rule unsigned_less)
  also have "\<dots> \<le> 2 ^ 64" using assms(2) by (rule power_increasing) simp
  finally show ?thesis by (rule postcard_okD(1) [OF assms(1)])
qed

lemma Announce_back:
  assumes "content_ok E" and "announce_ok E a" and "Announce_Encode E a = Some b"
  shows "Announce_Decode E (b @ r) = Some (a, r)"
proof -
  from assms(3) obtain c where c: "pc_content E (an_Content a) = Some c"
    "b = an_Host a @ c @ pc_uint E (unat (an_Kind a)) @ pc_uint E (unat (an_Timestamp a))"
    by (auto simp: Announce_Encode_def split: option.splits)
  with assms(2) show ?thesis
    by (simp add: Announce_Decode_def announce_ok_def get_raw_append content_okD(3) [OF assms(1) c(1)]
        uint_word_back [OF content_okD(1) [OF assms(1)]])
qed

lemma Signed_back:
  assumes "content_ok E" and "signed_ok E sa" and "Signed_Encode E sa = Some b"
  shows "Signed_Decode E (b @ r) = Some (sa, r)"
proof -
  from assms(3) obtain c where c: "Announce_Encode E (sa_Announce sa) = Some c" "b = c @ sa_Signature sa"
    by (auto simp: Signed_Encode_def split: option.splits)
  with assms(2) show ?thesis
    by (simp add: Signed_Decode_def signed_ok_def get_raw_append Announce_back [OF assms(1) _ c(1)])
qed

lemma Query_back:
  assumes "content_ok E" and "Query_Encode E q = Some b"
  shows "Query_Decode E (b @ r) = Some (q, r)"
proof -
  from assms(2) obtain c where c: "pc_content E (q_Content q) = Some c"
    "b = c @ pc_bool E (q_Complete q) @ pc_bool E (q_Verified q)"
    by (auto simp: Query_Encode_def split: option.splits)
  then show ?thesis
    by (simp add: Query_Decode_def content_okD(2) [OF assms(1)] content_okD(3) [OF assms(1) c(1)])
qed

lemma Req_back:
  assumes "content_ok E" and "Req_Encode E req = Some b"
    and "case req of Req_Announce sa \<Rightarrow> signed_ok E sa | Req_Query q \<Rightarrow> True"
  shows "unmarshal E (Req_Decode E) b = Some req"
proof -
  have "Req_Decode E (b @ []) = Some (req, [])"
    using assms(2,3) postcard_okD(1) [OF content_okD(1) [OF assms(1)]]
    by (auto simp: Req_Encode_def Req_Decode_def Signed_back [OF assms(1)] Query_back [OF assms(1)] simp del: append_Nil2
        split: request.splits)
  then show ?thesis by (simp add: unmarshal_def)
qed

lemma hosts_back:
  assumes "content_ok E"
  shows "encode_all (Signed_Encode E) hosts = Some b \<Longrightarrow> \<forall>sa \<in> set hosts. signed_ok E sa \<Longrightarrow>
    get_elems (Signed_Decode E) (length hosts) (b @ r) = Some (hosts, r)"
proof (induction hosts arbitrary: b)
  case (Cons sa hosts)
  from Cons.prems(1) obtain b1 b2 where b: "Signed_Encode E sa = Some b1" "encode_all (Signed_Encode E) hosts = Some b2"
    "b = b1 @ b2" by (auto split: option.splits)
  have "Signed_Decode E (b1 @ b2 @ r) = Some (sa, b2 @ r)"
    by (rule Signed_back [OF assms _ b(1)]) (use Cons.prems(2) in simp)
  with Cons.IH [OF b(2)] Cons.prems(2) b(3) show ?case by simp
qed simp

lemma Resp_back:
  assumes "content_ok E" and "Resp_Encode E hosts = Some b" and "\<forall>sa \<in> set hosts. signed_ok E sa"
    and "length hosts < 2 ^ 64"
  shows "unmarshal E (Resp_Decode E) b = Some hosts"
proof -
  note pc = postcard_okD [OF content_okD(1) [OF assms(1)]]
  from assms(2) obtain c where c: "encode_all (Signed_Encode E) hosts = Some c"
    "b = pc_uint E 0 @ pc_len E (length hosts) @ c" by (auto simp: Resp_Encode_def)
  from hosts_back [OF assms(1) c(1) assms(3), of "[]"] have "Resp_Decode E b = Some (hosts, [])"
    using assms(4) by (simp add: Resp_Decode_def c(2) pc(1) get_slice_def pc(2))
  then show ?thesis by (simp add: unmarshal_def)
qed

text \<open>Each announcement takes at least its host and its signature.\<close>

lemma hosts_length:
  "encode_all (Signed_Encode E) hosts = Some b \<Longrightarrow> \<forall>sa \<in> set hosts. signed_ok E sa \<Longrightarrow>
   96 * length hosts \<le> length b"
proof (induction hosts arbitrary: b)
  case (Cons sa hosts)
  from Cons.prems(1) obtain b1 b2 where b: "Signed_Encode E sa = Some b1" "encode_all (Signed_Encode E) hosts = Some b2"
    "b = b1 @ b2" by (auto split: option.splits)
  have "96 \<le> length b1"
    using b(1) Cons.prems(2) by (auto simp: Signed_Encode_def Announce_Encode_def signed_ok_def announce_ok_def
        PublicKeySize_def SignatureSize_def split: option.splits)
  with Cons.IH [OF b(2)] Cons.prems(2) b(3) show ?case by simp
qed simp

end
