(* ===== verification/Content_Tracker.thy ===== *)
theory Content_Tracker
  imports Content_Protocol
begin

section \<open>Content discovery: store, tracker and client (contentdiscovery)\<close>

text \<open>
  \<^verbatim>\<open>store.go\<close>, \<^verbatim>\<open>tracker.go\<close> and \<^verbatim>\<open>client.go\<close>: the announcements a tracker keeps, the requests it
  answers and the client that sends them. The store is an association list in the order the map
  is iterated; the connection is a function from the request bytes to the bytes read back.
\<close>

subsection \<open>Store (store.go)\<close>

record store_key =
  sk_hash :: bytes
  sk_format :: nat
  sk_kind :: nat
  sk_host :: bytes

record store =
  st_announce :: "(store_key \<times> signed_announce) list"
  st_expiry :: int

datatype content_error =
    BadFormat | BadKind | HostMismatch | EncodeFailed | TooLarge | DecodeFailed | BadSignature | NoConnection

definition NewStore :: "int \<Rightarrow> store" where
  "NewStore expiry = \<lparr>st_announce = [], st_expiry = expiry\<rparr>"

definition makeStoreKey :: "content \<Rightarrow> u32 \<Rightarrow> bytes \<Rightarrow> content_error + store_key" where
  "makeStoreKey c kind host =
     (if ct_Format c > 255 then Inl BadFormat
      else if kind > 255 then Inl BadKind
      else Inr \<lparr>sk_hash = ct_Hash c, sk_format = ct_Format c, sk_kind = unat kind, sk_host = host\<rparr>)"

definition storeKey_bytes :: "store_key \<Rightarrow> bytes" where
  "storeKey_bytes k = sk_hash k @ [to_byte (sk_format k), to_byte (sk_kind k)] @ sk_host k"

definition key_of :: "signed_announce \<Rightarrow> content_error + store_key" where
  "key_of sa = makeStoreKey (an_Content (sa_Announce sa)) (an_Kind (sa_Announce sa)) (an_Host (sa_Announce sa))"

definition PutAnnounce :: "signed_announce \<Rightarrow> store \<Rightarrow> store \<times> (content_error + unit)" where
  "PutAnnounce sa s =
     (case key_of sa of
        Inl e \<Rightarrow> (s, Inl e)
      | Inr k \<Rightarrow> (s\<lparr>st_announce := alist_put k sa (st_announce s)\<rparr>, Inr ()))"

definition VerifySignedAnnounce :: "('s, 'x) content_ops_scheme \<Rightarrow> signed_announce \<Rightarrow> bool" where
  "VerifySignedAnnounce E sa =
     (case Announce_Encode E (sa_Announce sa) of
        None \<Rightarrow> False
      | Some b \<Rightarrow> pk_verify E (an_Host (sa_Announce sa)) b (sa_Signature sa))"

definition SignAnnounce :: "('s, 'x) content_ops_scheme \<Rightarrow> 's \<Rightarrow> announce \<Rightarrow> content_error + signed_announce" where
  "SignAnnounce E sk a =
     (if an_Host a \<noteq> sk_public E sk then Inl HostMismatch
      else case Announce_Encode E a of
        None \<Rightarrow> Inl EncodeFailed
      | Some b \<Rightarrow> Inr \<lparr>sa_Announce = a, sa_Signature = sk_sign E sk b\<rparr>)"

definition query_matches :: "('s, 'x) content_ops_scheme \<Rightarrow> query \<Rightarrow> store_key \<times> signed_announce \<Rightarrow> bool" where
  "query_matches E q e =
     (if sk_hash (fst e) \<noteq> ct_Hash (q_Content q) then False
      else if an_Content (sa_Announce (snd e)) \<noteq> q_Content q then False
      else if q_Complete q \<and> an_Kind (sa_Announce (snd e)) \<noteq> AnnounceComplete then False
      else if q_Verified q \<and> \<not> VerifySignedAnnounce E (snd e) then False
      else True)"

definition Store_Query :: "('s, 'x) content_ops_scheme \<Rightarrow> query \<Rightarrow> store \<Rightarrow> signed_announce list" where
  "Store_Query E q s =
     sort_key (\<lambda>sa. an_Host (sa_Announce sa)) (map snd (filter (query_matches E q) (st_announce s)))"

text \<open>The cutoff is computed in 64 bits and set to 0 when it would wrap.\<close>

definition gc_cutoff :: "u64 \<Rightarrow> int \<Rightarrow> u64" where
  "gc_cutoff now expiry =
     (let age = of_int (expiry div 1000) in if now < age then 0 else now - age)"

definition GC :: "u64 \<Rightarrow> store \<Rightarrow> store" where
  "GC now s =
     (if st_expiry s \<le> 0 then s
      else s\<lparr>st_announce := filter (\<lambda>(k, sa). \<not> an_Timestamp (sa_Announce sa) < gc_cutoff now (st_expiry s)) (st_announce s)\<rparr>)"

subsection \<open>Tracker (tracker.go)\<close>

definition HandleRequest :: "('s, 'x) content_ops_scheme \<Rightarrow> bytes \<Rightarrow> store \<Rightarrow> store \<times> (content_error + bytes)" where
  "HandleRequest E data s =
     (if length data > RequestSizeLimit then (s, Inl TooLarge)
      else case unmarshal E (Req_Decode E) data of
        None \<Rightarrow> (s, Inl DecodeFailed)
      | Some (Req_Announce sa) \<Rightarrow>
          if \<not> VerifySignedAnnounce E sa then (s, Inl BadSignature)
          else (case PutAnnounce sa s of
             (s', Inl e) \<Rightarrow> (s', Inl e)
           | (s', Inr _) \<Rightarrow> (s', of_option EncodeFailed (Resp_Encode E [])))
      | Some (Req_Query q) \<Rightarrow> (s, of_option EncodeFailed (Resp_Encode E (Store_Query E q s))))"

text \<open>\<open>sent\<close> is all the peer writes before it closes its side.\<close>

definition readLimited :: "bytes \<Rightarrow> nat \<Rightarrow> content_error + bytes" where
  "readLimited sent limit =
     (let b = take (limit + 1) sent in if length b > limit then Inl TooLarge else Inr b)"

definition handleStream :: "('s, 'x) content_ops_scheme \<Rightarrow> bytes \<Rightarrow> store \<Rightarrow> store \<times> (content_error + bytes)" where
  "handleStream E sent s =
     (case readLimited sent RequestSizeLimit of Inl e \<Rightarrow> (s, Inl e) | Inr data \<Rightarrow> HandleRequest E data s)"

subsection \<open>Client (client.go)\<close>

definition client_send :: "('s, 'x) content_ops_scheme \<Rightarrow> (bytes \<Rightarrow> bytes option) \<Rightarrow> request \<Rightarrow> content_error + response" where
  "client_send E net req =
     (case Req_Encode E req of
        None \<Rightarrow> Inl EncodeFailed
      | Some b \<Rightarrow>
        if length b > RequestSizeLimit then Inl TooLarge
        else case net b of
          None \<Rightarrow> Inl NoConnection
        | Some sent \<Rightarrow>
          (case readLimited sent RequestSizeLimit of
             Inl e \<Rightarrow> Inl e
           | Inr resp \<Rightarrow> of_option DecodeFailed (unmarshal E (Resp_Decode E) resp)))"

definition Client_Announce ::
  "('s, 'x) content_ops_scheme \<Rightarrow> (bytes \<Rightarrow> bytes option) \<Rightarrow> 's \<Rightarrow> u64 \<Rightarrow> content \<Rightarrow> u32 \<Rightarrow> content_error + unit" where
  "Client_Announce E net sk now c kind =
     (case SignAnnounce E sk \<lparr>an_Host = sk_public E sk, an_Content = c, an_Kind = kind, an_Timestamp = now\<rparr> of
        Inl e \<Rightarrow> Inl e
      | Inr sa \<Rightarrow> (case client_send E net (Req_Announce sa) of Inl e \<Rightarrow> Inl e | Inr _ \<Rightarrow> Inr ()))"

definition Client_Query ::
  "('s, 'x) content_ops_scheme \<Rightarrow> (bytes \<Rightarrow> bytes option) \<Rightarrow> content \<Rightarrow> bool \<Rightarrow> bool \<Rightarrow> content_error + response" where
  "Client_Query E net c complete verified =
     client_send E net (Req_Query \<lparr>q_Content = c, q_Complete = complete, q_Verified = verified\<rparr>)"

text \<open>The results of the trackers in the order they come in; the first error ends the wait.\<close>

fun eachTracker :: "('e + 'a) list \<Rightarrow> 'e + 'a list" where
  "eachTracker [] = Inr []"
| "eachTracker (r # rs) =
     (case r of Inl e \<Rightarrow> Inl e
      | Inr v \<Rightarrow> (case eachTracker rs of Inl e \<Rightarrow> Inl e | Inr vs \<Rightarrow> Inr (v # vs)))"

definition AnnounceAll ::
  "('s, 'x) content_ops_scheme \<Rightarrow> (bytes \<Rightarrow> bytes option) list \<Rightarrow> 's \<Rightarrow> u64 \<Rightarrow> content \<Rightarrow> u32 \<Rightarrow> content_error + unit list" where
  "AnnounceAll E nets sk now c kind = eachTracker (map (\<lambda>net. Client_Announce E net sk now c kind) nets)"

definition QueryAll ::
  "('s, 'x) content_ops_scheme \<Rightarrow> (bytes \<Rightarrow> bytes option) list \<Rightarrow> content \<Rightarrow> bool \<Rightarrow> bool \<Rightarrow> content_error + response" where
  "QueryAll E nets c complete verified =
     (case eachTracker (map (\<lambda>net. Client_Query E net c complete verified) nets) of
        Inl e \<Rightarrow> Inl e | Inr hs \<Rightarrow> Inr (concat hs))"

subsection \<open>Lemmas: the store\<close>

text \<open>
  The invariant of a tracker's store: keys are distinct, every announcement is stored under its
  own key and its signature verifies.
\<close>

definition store_ok :: "('s, 'x) content_ops_scheme \<Rightarrow> store \<Rightarrow> bool" where
  "store_ok E s \<longleftrightarrow> distinct (map fst (st_announce s)) \<and>
     (\<forall>(k, sa) \<in> set (st_announce s). key_of sa = Inr k \<and> signed_ok E sa \<and> VerifySignedAnnounce E sa)"

lemma set_alist_put: "distinct (map fst m) \<Longrightarrow> set (alist_put k v m) = insert (k, v) {e \<in> set m. fst e \<noteq> k}"
  by (induction k v m rule: alist_put.induct) (auto simp: image_iff)

lemma PutAnnounce_ok:
  assumes "store_ok E s" and "VerifySignedAnnounce E sa" and "signed_ok E sa"
  shows "store_ok E (fst (PutAnnounce sa s))"
proof (cases "key_of sa")
  case (Inr k)
  have "set (alist_put k sa (st_announce s)) = insert (k, sa) {e \<in> set (st_announce s). fst e \<noteq> k}"
    using assms(1) by (intro set_alist_put) (simp add: store_ok_def)
  with Inr assms show ?thesis by (auto simp: PutAnnounce_def store_ok_def)
qed (use assms in \<open>simp add: PutAnnounce_def\<close>)

lemma GC_ok: "store_ok E s \<Longrightarrow> store_ok E (GC now s)"
  by (auto simp: GC_def store_ok_def distinct_map_filter)

lemma Req_Decode_signed:
  assumes "unmarshal E (Req_Decode E) data = Some (Req_Announce sa)"
  shows "signed_ok E sa"
  using assms
  by (auto simp: unmarshal_def Req_Decode_def Signed_Decode_def Announce_Decode_def get_raw_def signed_ok_def
      announce_ok_def split: option.splits if_splits)

lemma HandleRequest_ok: "store_ok E s \<Longrightarrow> store_ok E (fst (HandleRequest E data s))"
  by (auto simp: HandleRequest_def split: option.split request.split prod.split sum.split)
    (metis PutAnnounce_ok Req_Decode_signed fst_conv)+

datatype tracker_step = Serve bytes | Collect u64

definition tracker_step :: "('s, 'x) content_ops_scheme \<Rightarrow> tracker_step \<Rightarrow> store \<Rightarrow> store" where
  "tracker_step E e s = (case e of Serve sent \<Rightarrow> fst (handleStream E sent s) | Collect now \<Rightarrow> GC now s)"

definition tracker_run :: "('s, 'x) content_ops_scheme \<Rightarrow> tracker_step list \<Rightarrow> store \<Rightarrow> store" where
  "tracker_run E es s = fold (tracker_step E) es s"

lemma tracker_run_ok: "store_ok E s \<Longrightarrow> store_ok E (tracker_run E es s)"
proof (induction es arbitrary: s)
  case (Cons e es)
  have "store_ok E (tracker_step E e s)"
    using Cons.prems by (auto simp: tracker_step_def handleStream_def HandleRequest_ok GC_ok split: tracker_step.split sum.split)
  with Cons.IH show ?case by (simp add: tracker_run_def)
qed (simp add: tracker_run_def)

lemma NewStore_ok: "store_ok E (NewStore expiry)"
  by (simp add: store_ok_def NewStore_def)

lemma set_Store_Query: "set (Store_Query E q s) = snd ` {e \<in> set (st_announce s). query_matches E q e}"
  by (auto simp: Store_Query_def)

text \<open>On a valid store the hash and the signature tests of a query change nothing.\<close>

definition query_selects :: "query \<Rightarrow> store_key \<times> signed_announce \<Rightarrow> bool" where
  "query_selects q e \<longleftrightarrow> an_Content (sa_Announce (snd e)) = q_Content q \<and>
     (q_Complete q \<longrightarrow> an_Kind (sa_Announce (snd e)) = AnnounceComplete)"

lemma query_matches_stored:
  assumes "store_ok E s" and "e \<in> set (st_announce s)"
  shows "query_matches E q e \<longleftrightarrow> query_selects q e"
proof -
  from assms have "key_of (snd e) = Inr (fst e)" "VerifySignedAnnounce E (snd e)"
    by (auto simp: store_ok_def)
  then have "sk_hash (fst e) = ct_Hash (an_Content (sa_Announce (snd e)))" "VerifySignedAnnounce E (snd e)"
    by (auto simp: key_of_def makeStoreKey_def split: if_splits dest: sym)
  then show ?thesis by (auto simp: query_matches_def query_selects_def)
qed

lemma handleStream_announce:
  assumes "content_ok E" and "signed_ok E sa" and "VerifySignedAnnounce E sa"
    and "Req_Encode E (Req_Announce sa) = Some b" and "length b \<le> RequestSizeLimit" and "key_of sa = Inr k"
  shows "fst (handleStream E b s) = s\<lparr>st_announce := alist_put k sa (st_announce s)\<rparr>"
  using assms Req_back [OF assms(1,4)]
  by (simp add: handleStream_def readLimited_def Let_def HandleRequest_def PutAnnounce_def)

lemma handleStream_query:
  assumes "content_ok E" and "Req_Encode E (Req_Query q) = Some b" and "length b \<le> RequestSizeLimit"
  shows "handleStream E b s = (s, of_option EncodeFailed (Resp_Encode E (Store_Query E q s)))"
  using assms Req_back [OF assms(1,2)]
  by (simp add: handleStream_def readLimited_def Let_def HandleRequest_def)

text \<open>A connection to a tracker: a stream the tracker cancels reads as an error.\<close>

definition tracker_net :: "('s, 'x) content_ops_scheme \<Rightarrow> store \<Rightarrow> bytes \<Rightarrow> bytes option" where
  "tracker_net E s b = (case snd (handleStream E b s) of Inl e \<Rightarrow> None | Inr r \<Rightarrow> Some r)"

lemma Store_Query_ok: "store_ok E s \<Longrightarrow> sa \<in> set (Store_Query E q s) \<Longrightarrow> signed_ok E sa"
  by (auto simp: set_Store_Query store_ok_def)

lemma client_query_tracker:
  assumes "content_ok E" and "store_ok E s" and "Req_Encode E (Req_Query q) = Some b" and "length b \<le> RequestSizeLimit"
  shows "client_send E (tracker_net E s) (Req_Query q) =
    (case Resp_Encode E (Store_Query E q s) of
       None \<Rightarrow> Inl NoConnection
     | Some rb \<Rightarrow> if length rb > RequestSizeLimit then Inl TooLarge else Inr (Store_Query E q s))"
proof (cases "Resp_Encode E (Store_Query E q s)")
  case None
  then show ?thesis
    using assms(3,4) handleStream_query [OF assms(1,3,4)] by (simp add: client_send_def tracker_net_def)
next
  case (Some rb)
  let ?hosts = "Store_Query E q s"
  have ok: "\<forall>sa \<in> set ?hosts. signed_ok E sa" using Store_Query_ok [OF assms(2)] by blast
  have decoded: "unmarshal E (Resp_Decode E) rb = Some ?hosts" if "length rb \<le> RequestSizeLimit"
  proof (rule Resp_back [OF assms(1) Some ok])
    from Some obtain c where c: "encode_all (Signed_Encode E) ?hosts = Some c" "length c \<le> length rb"
      by (auto simp: Resp_Encode_def)
    have "length ?hosts \<le> 96 * length ?hosts" by simp
    also have "\<dots> \<le> RequestSizeLimit" using hosts_length [OF c(1) ok] c(2) that by linarith
    finally show "length ?hosts < 2 ^ 64" by (simp add: RequestSizeLimit_def)
  qed
  with Some assms(3,4) handleStream_query [OF assms(1,3,4)] show ?thesis
    by (auto simp: client_send_def tracker_net_def readLimited_def Let_def)
qed

subsection \<open>Properties\<close>

text \<open>C24: Whatever peers send a tracker and whenever it collects, a query returns exactly the stored
  announcements of that content and kind, ordered by host, and each of them is signed by the host it
  names.\<close>

theorem tracker_answers_signed:
  "set (Store_Query E q (tracker_run E es (NewStore expiry))) =
     snd ` Set.filter (query_selects q) (set (st_announce (tracker_run E es (NewStore expiry)))) \<and>
   list_all (VerifySignedAnnounce E) (Store_Query E q (tracker_run E es (NewStore expiry))) \<and>
   sorted (map (\<lambda>sa. an_Host (sa_Announce sa)) (Store_Query E q (tracker_run E es (NewStore expiry))))"
proof -
  let ?s = "tracker_run E es (NewStore expiry)"
  have ok: "store_ok E ?s" by (rule tracker_run_ok [OF NewStore_ok])
  have "Store_Query E q ?s = sort_key (\<lambda>sa. an_Host (sa_Announce sa)) (map snd (filter (query_selects q) (st_announce ?s)))"
    using query_matches_stored [OF ok] by (simp add: Store_Query_def cong: filter_cong)
  moreover have "VerifySignedAnnounce E (snd e)" if "e \<in> set (st_announce ?s)" for e
    using ok that by (auto simp: store_ok_def)
  ultimately show ?thesis by (auto simp: list_all_iff)
qed

text \<open>An announcement that a client signs and sends is found: after a tracker with any history has
  served it, a query for its content over the wire returns a list with it, as long as the answer fits
  the size the client reads.\<close>

theorem announce_then_query:
  assumes "content_ok E" and "store_ok E s" and "SignAnnounce E sk a = Inr sa" and "key_of sa = Inr k"
    and "Req_Encode E (Req_Announce sa) = Some b" and "length b \<le> RequestSizeLimit"
    and "q_Content q = an_Content a" and "q_Complete q \<longrightarrow> an_Kind a = AnnounceComplete"
    and "Req_Encode E (Req_Query q) = Some qb" and "length qb \<le> RequestSizeLimit"
    and "Resp_Encode E (Store_Query E q (fst (handleStream E b s))) = Some rb" and "length rb \<le> RequestSizeLimit"
  shows "\<exists>hosts. client_send E (tracker_net E (fst (handleStream E b s))) (Req_Query q) = Inr hosts \<and> sa \<in> set hosts"
proof -
  let ?s = "fst (handleStream E b s)"
  note E = content_okD [OF assms(1)]
  from assms(3) obtain c where sa: "sa = \<lparr>sa_Announce = a, sa_Signature = sk_sign E sk c\<rparr>" "Announce_Encode E a = Some c"
    "an_Host a = sk_public E sk" by (auto simp: SignAnnounce_def split: if_splits option.splits)
  have ok: "signed_ok E sa" "VerifySignedAnnounce E sa"
    using sa E(4-7) by (simp_all add: signed_ok_def announce_ok_def VerifySignedAnnounce_def)
  have s': "?s = s\<lparr>st_announce := alist_put k sa (st_announce s)\<rparr>"
    by (rule handleStream_announce [OF assms(1) ok assms(5,6,4)])
  have "store_ok E ?s" using PutAnnounce_ok [OF assms(2) ok(2,1)] assms(4) s' by (simp add: PutAnnounce_def)
  then have "client_send E (tracker_net E ?s) (Req_Query q) = Inr (Store_Query E q ?s)"
    using client_query_tracker [OF assms(1) _ assms(9,10)] assms(11,12) by simp
  moreover have "sa \<in> set (Store_Query E q ?s)"
  proof -
    have "(k, sa) \<in> set (st_announce ?s)" using s' by (simp add: map_of_SomeD)
    moreover have "query_matches E q (k, sa)"
      using assms(4,7,8) ok(2) sa(1) by (auto simp: query_matches_def key_of_def makeStoreKey_def split: if_splits)
    ultimately show ?thesis by (force simp: set_Store_Query)
  qed
  ultimately show ?thesis by blast
qed

text \<open>C26: The client reads answers with the limit for requests: a content that more than 170 hosts
  announce cannot be queried at all, although the tracker serves the query.\<close>

theorem popular_content_unreachable:
  assumes "content_ok E" and "store_ok E s" and "Req_Encode E (Req_Query q) = Some b"
    and "170 < length (Store_Query E q s)"
  shows "is_err (client_send E (tracker_net E s) (Req_Query q))"
proof (cases "length b \<le> RequestSizeLimit")
  case True
  show ?thesis
  proof (cases "Resp_Encode E (Store_Query E q s)")
    case (Some rb)
    then obtain c where c: "encode_all (Signed_Encode E) (Store_Query E q s) = Some c" "length c \<le> length rb"
      by (auto simp: Resp_Encode_def)
    have "96 * length (Store_Query E q s) \<le> length c"
      by (rule hosts_length [OF c(1)]) (use Store_Query_ok [OF assms(2)] in blast)
    with assms(4) c(2) have "length rb > RequestSizeLimit" by (simp add: RequestSizeLimit_def)
    with Some show ?thesis by (simp add: client_query_tracker [OF assms(1-3) True])
  qed (simp add: client_query_tracker [OF assms(1-3) True])
next
  case False
  with assms(3) show ?thesis by (simp add: client_send_def)
qed

text \<open>An older announcement replaces a newer one of the same host, content and kind: whoever has
  seen a signed announcement can send it again, and the tracker keeps that one.\<close>

theorem stale_announce_replaces:
  assumes "content_ok E" and "map_of (st_announce s) k = Some fresh" and "key_of stale = Inr k"
    and "signed_ok E stale" and "VerifySignedAnnounce E stale"
    and "an_Timestamp (sa_Announce stale) < an_Timestamp (sa_Announce fresh)"
    and "Req_Encode E (Req_Announce stale) = Some b" and "length b \<le> RequestSizeLimit"
  shows "map_of (st_announce (fst (handleStream E b s))) k = Some stale"
  using handleStream_announce [OF assms(1,4,5,7,8,3)] by simp

text \<open>Collection keeps exactly the announcements of the last expiry period, and no time wraps.\<close>

theorem gc_keeps_recent:
  assumes "0 < st_expiry s" and "st_expiry s < 2 ^ 63"
  shows "set (st_announce (GC now s)) = {(k, sa) \<in> set (st_announce s).
    unat now \<le> unat (an_Timestamp (sa_Announce sa)) + nat (st_expiry s div 1000)}"
proof -
  let ?age = "st_expiry s div 1000"
  have age: "0 \<le> ?age" "?age < 2 ^ 63" using assms by simp_all
  then have age_word: "unat (of_int ?age :: u64) = nat ?age"
    by (simp add: unsigned_of_int take_bit_int_eq_self nat_take_bit_eq [symmetric] unat_eq_nat_uint uint_word_of_int_eq)
  have "\<not> t < gc_cutoff now (st_expiry s) \<longleftrightarrow> unat now \<le> unat t + nat ?age" for t
  proof (cases "now < of_int ?age")
    case True
    then show ?thesis using age_word by (simp add: gc_cutoff_def word_less_nat_alt)
  next
    case False
    then have "unat (now - of_int ?age) = unat now - nat ?age" using age_word by (simp add: unat_sub not_less)
    with False age_word show ?thesis by (simp add: gc_cutoff_def Let_def word_less_nat_alt not_less) linarith
  qed
  with assms(1) show ?thesis by (auto simp: GC_def)
qed

subsection \<open>Witnesses\<close>

text \<open>A concrete codec and signature scheme: a secret key is a byte, its public key repeats it.\<close>

definition demo_content_ops :: "char content_ops" where
  "demo_content_ops = postcard.extend demo_postcard
     (content_ops.fields (\<lambda>b. [to_byte (of_bool b)])
       (\<lambda>s. case s of [] \<Rightarrow> None | c # r \<Rightarrow> Some (c = CHR 0x01, r))
       (\<lambda>c. if length (ct_Hash c) = 1 \<and> ct_Format c = 0 then Some (ct_Hash c) else None)
       (\<lambda>s. case s of [] \<Rightarrow> None | c # r \<Rightarrow> Some (\<lparr>ct_Hash = [c], ct_Format = 0\<rparr>, r))
       (\<lambda>pk. length pk = 32) (\<lambda>pk m sig. sig = pk @ pk) (replicate 32) (\<lambda>c m. replicate 64 c))"

lemma demo_content_simps [simp]:
  "pc_uint demo_content_ops = append_uvarint" "pc_len demo_content_ops = append_uvarint"
  "pc_bool demo_content_ops b = [to_byte (of_bool b)]"
  "pc_content demo_content_ops c = (if length (ct_Hash c) = 1 \<and> ct_Format c = 0 then Some (ct_Hash c) else None)"
  "pk_valid demo_content_ops pk = (length pk = 32)" "pk_verify demo_content_ops pk m sig = (sig = pk @ pk)"
  "sk_public demo_content_ops k = replicate 32 k" "sk_sign demo_content_ops k m = replicate 64 k"
  by (simp_all add: demo_content_ops_def demo_postcard_def postcard.defs content_ops.defs)

lemma small_bytes [simp]:
  "to_byte 0 = CHR 0x00" "to_byte (Suc 0) = CHR 0x01" "to_byte 2 = CHR 0x02" "to_byte 5 = CHR 0x05"
  by (simp_all add: char_of_def bit_Suc_0_iff)

lemma demo_content_ok: "content_ok demo_content_ops"
proof -
  have "postcard_ok demo_content_ops"
    using demo_postcard_ok unfolding postcard_ok_def demo_content_ops_def demo_postcard_def
    by (simp add: postcard.defs content_ops.defs)
  moreover have "replicate 64 c = replicate 32 c @ replicate 32 c" for c :: char
    by (simp flip: replicate_add)
  ultimately show ?thesis
    by (auto simp: content_ok_def demo_content_ops_def postcard.defs content_ops.defs SignatureSize_def PublicKeySize_def
        length_Suc_conv split: if_splits)
qed

definition demo_announce :: "nat \<Rightarrow> u64 \<Rightarrow> announce" where
  "demo_announce i t = \<lparr>an_Host = replicate 32 (to_byte i), an_Content = \<lparr>ct_Hash = ''c'', ct_Format = 0\<rparr>,
     an_Kind = 1, an_Timestamp = t\<rparr>"

definition demo_signed :: "nat \<Rightarrow> u64 \<Rightarrow> signed_announce" where
  "demo_signed i t = \<lparr>sa_Announce = demo_announce i t, sa_Signature = replicate 64 (to_byte i)\<rparr>"

definition demo_key :: "nat \<Rightarrow> store_key" where
  "demo_key i = \<lparr>sk_hash = ''c'', sk_format = 0, sk_kind = 1, sk_host = replicate 32 (to_byte i)\<rparr>"

definition demo_query :: query where
  "demo_query = \<lparr>q_Content = \<lparr>ct_Hash = ''c'', ct_Format = 0\<rparr>, q_Complete = True, q_Verified = True\<rparr>"

definition demo_store :: "nat \<Rightarrow> store" where
  "demo_store n = \<lparr>st_announce = map (\<lambda>i. (demo_key i, demo_signed i 5)) [0..<n], st_expiry = 1000000\<rparr>"

lemma demo_signed_facts:
  "key_of (demo_signed i t) = Inr (demo_key i)" "signed_ok demo_content_ops (demo_signed i t)"
  "VerifySignedAnnounce demo_content_ops (demo_signed i t)"
  "SignAnnounce demo_content_ops (to_byte i) (demo_announce i t) = Inr (demo_signed i t)"
  by (simp_all add: key_of_def makeStoreKey_def demo_signed_def demo_announce_def demo_key_def signed_ok_def announce_ok_def
      PublicKeySize_def SignatureSize_def VerifySignedAnnounce_def SignAnnounce_def Announce_Encode_def
      flip: replicate_add)

lemma demo_tracker_ok: "n \<le> 256 \<Longrightarrow> store_ok demo_content_ops (demo_store n)"
proof -
  assume "n \<le> 256"
  then have "inj_on demo_key {0..<n}"
    by (auto simp: inj_on_def demo_key_def dest: arg_cong [where f = byte_val])
  then show ?thesis by (auto simp: store_ok_def demo_store_def demo_signed_facts distinct_map comp_def)
qed

lemma demo_encodings:
  "Req_Encode demo_content_ops (Req_Query demo_query) = Some ([CHR 0x01] @ ''c'' @ [CHR 0x01, CHR 0x01])"
  "t < 128 \<Longrightarrow> Req_Encode demo_content_ops (Req_Announce (demo_signed i t)) =
     Some ([CHR 0x00] @ replicate 32 (to_byte i) @ ''c'' @ [CHR 0x01, to_byte (unat t)] @ replicate 64 (to_byte i))"
  by (simp_all add: Req_Encode_def Query_Encode_def demo_query_def Signed_Encode_def Announce_Encode_def demo_signed_def
      demo_announce_def append_uvarint_small word_less_nat_alt)

lemma demo_query_all: "length (Store_Query demo_content_ops demo_query (demo_store n)) = n"
proof -
  have "query_matches demo_content_ops demo_query (demo_key i, demo_signed i 5)" for i
    using demo_signed_facts(3) [of i 5]
    by (simp add: query_matches_def demo_key_def demo_query_def demo_signed_def demo_announce_def AnnounceComplete_def)
  then show ?thesis by (simp add: Store_Query_def demo_store_def filter_map comp_def)
qed

theorem popular_content_unreachable_witness:
  "is_err (client_send demo_content_ops (tracker_net demo_content_ops (demo_store 171)) (Req_Query demo_query))"
  by (rule popular_content_unreachable [OF demo_content_ok demo_tracker_ok demo_encodings(1)]) (simp_all add: demo_query_all)

theorem stale_announce_replaces_witness:
  "map_of (st_announce (fst (handleStream demo_content_ops
     ([CHR 0x00] @ replicate 32 (to_byte 3) @ ''c'' @ [CHR 0x01, CHR 0x02] @ replicate 64 (to_byte 3)) (demo_store 4))))
     (demo_key 3) = Some (demo_signed 3 2)"
proof (rule stale_announce_replaces [OF demo_content_ok, where fresh = "demo_signed 3 5"])
  show "map_of (st_announce (demo_store 4)) (demo_key 3) = Some (demo_signed 3 5)"
    using demo_tracker_ok [of 4] by (intro map_of_is_SomeI) (auto simp: store_ok_def demo_store_def)
  show "an_Timestamp (sa_Announce (demo_signed 3 2)) < an_Timestamp (sa_Announce (demo_signed 3 5))"
    by (simp add: demo_signed_def demo_announce_def)
  show "Req_Encode demo_content_ops (Req_Announce (demo_signed 3 2)) =
    Some ([CHR 0x00] @ replicate 32 (to_byte 3) @ ''c'' @ [CHR 0x01, CHR 0x02] @ replicate 64 (to_byte 3))"
    using demo_encodings(2) [of 2 3] by simp
qed (simp_all add: demo_signed_facts RequestSizeLimit_def)

theorem gc_keeps_recent_witness:
  "set (st_announce (GC 2000 (demo_store 4))) =
     {(k, sa) \<in> set (st_announce (demo_store 4)). 2000 \<le> unat (an_Timestamp (sa_Announce sa)) + 1000}"
  using gc_keeps_recent [of "demo_store 4" 2000] by (simp add: demo_store_def)

end
