(* ===== verification/Content_Command.thy ===== *)
theory Content_Command
  imports Content_Tracker GoText
begin

section \<open>The content discovery command (contentdiscovery/cmd/content-discovery/main.go)\<close>

text \<open>
  The subcommands announce and query after their flags are parsed: the arguments, the tracker they name, the content
  and kind, the request of the client, and what query prints. Parsers of keys, addresses and hashes and the
  constructors of a content are third-party; a tracker is reached through the bytes it answers.
\<close>

subsection \<open>Arguments\<close>

text \<open>
  \<^verbatim>\<open>strings.ToLower\<close>: two characters outside ASCII, the dotted capital I and the Kelvin sign, have an ASCII letter as
  lower case; every other one stays outside ASCII, and is kept here.
\<close>

definition lower :: "char \<Rightarrow> char" where
  "lower b = (if byte_val CHR ''A'' \<le> byte_val b \<and> byte_val b \<le> byte_val CHR ''Z'' then to_byte (byte_val b + 32) else b)"

function ToLower :: "bytes \<Rightarrow> bytes" where
  "ToLower s =
     (if s = [] then []
      else if prefix [CHR 0xC4, CHR 0xB0] s then CHR ''i'' # ToLower (drop 2 s)
      else if prefix [CHR 0xE2, CHR 0x84, CHR 0xAA] s then CHR ''k'' # ToLower (drop 3 s)
      else lower (hd s) # ToLower (tl s))"
  by pat_completeness auto
termination by (relation "measure length") auto

declare ToLower.simps [simp del]

datatype content_cmd_error =
    WrongUsage | TrackerRequired | ParseTrackerID | ParseTrackerIP | ParseSecretKey | ParseHashText | UnknownFormat bytes
  | UnknownKind bytes | BindFailed | ClientFailed content_error

record ('s, 'a) content_cli =
  cc_endpoint :: "bytes \<Rightarrow> bytes option"
  cc_addr :: "bytes \<Rightarrow> 'a option"
  cc_secret :: "bytes \<Rightarrow> 's option"
  cc_hash :: "bytes \<Rightarrow> bytes option"
  cc_raw :: "bytes \<Rightarrow> content"
  cc_seq :: "bytes \<Rightarrow> content"
  cc_id_string :: "bytes \<Rightarrow> bytes"
  cc_hash_string :: "bytes \<Rightarrow> bytes"

definition parseTracker :: "('s, 'a) content_cli \<Rightarrow> bytes \<Rightarrow> bytes \<Rightarrow> content_cmd_error + bytes \<times> 'a" where
  "parseTracker C idText ipText =
     (if idText = [] \<or> ipText = [] then Inl TrackerRequired
      else case cc_endpoint C idText of
        None \<Rightarrow> Inl ParseTrackerID
      | Some i \<Rightarrow> (case cc_addr C ipText of None \<Rightarrow> Inl ParseTrackerIP | Some a \<Rightarrow> Inr (i, a)))"

definition parseContent :: "('s, 'a) content_cli \<Rightarrow> bytes \<Rightarrow> bytes \<Rightarrow> content_cmd_error + content" where
  "parseContent C hashText formatText =
     (case cc_hash C hashText of
        None \<Rightarrow> Inl ParseHashText
      | Some h \<Rightarrow>
        if ToLower formatText = ''raw'' then Inr (cc_raw C h)
        else if ToLower formatText \<in> {''hashseq'', ''seq''} then Inr (cc_seq C h)
        else Inl (UnknownFormat formatText))"

definition parseKind :: "bytes \<Rightarrow> content_cmd_error + u32" where
  "parseKind s =
     (if ToLower s = ''partial'' then Inr AnnouncePartial
      else if ToLower s = ''complete'' then Inr AnnounceComplete
      else Inl (UnknownKind s))"

definition AnnounceKind_String :: "u32 \<Rightarrow> bytes" where
  "AnnounceKind_String k =
     (if k = AnnouncePartial then ''partial''
      else if k = AnnounceComplete then ''complete''
      else ''AnnounceKind('' @ dec_digits (unat k) @ '')'')"

subsection \<open>The subcommands\<close>

text \<open>\<open>net\<close> is the tracker at an address: what it writes back for the bytes of a request.\<close>

definition content_runAnnounce ::
  "('s, 'a) content_cli \<Rightarrow> ('s, 'x) content_ops_scheme \<Rightarrow> (bytes \<times> 'a \<Rightarrow> bytes \<Rightarrow> bytes option) \<Rightarrow> bool \<Rightarrow> u64 \<Rightarrow>
   bytes \<Rightarrow> bytes \<Rightarrow> bytes \<Rightarrow> bytes \<Rightarrow> bytes list \<Rightarrow> content_cmd_error + unit" where
  "content_runAnnounce C E net bind now trackerID trackerIP kind format args =
     (case args of
        [skText, hashText] \<Rightarrow>
          (case parseTracker C trackerID trackerIP of
             Inl e \<Rightarrow> Inl e
           | Inr tracker \<Rightarrow>
             (case cc_secret C skText of
                None \<Rightarrow> Inl ParseSecretKey
              | Some sk \<Rightarrow>
                (case parseContent C hashText format of
                   Inl e \<Rightarrow> Inl e
                 | Inr content \<Rightarrow>
                   (case parseKind kind of
                      Inl e \<Rightarrow> Inl e
                    | Inr k \<Rightarrow>
                      if \<not> bind then Inl BindFailed
                      else (case Client_Announce E (net tracker) sk now content k of
                        Inl e \<Rightarrow> Inl (ClientFailed e) | Inr _ \<Rightarrow> Inr ())))))
      | _ \<Rightarrow> Inl WrongUsage)"

definition host_line :: "('s, 'a) content_cli \<Rightarrow> signed_announce \<Rightarrow> bytes" where
  "host_line C h =
     (let a = sa_Announce h in
      cc_id_string C (an_Host a) @ '' '' @ cc_hash_string C (ct_Hash (an_Content a)) @ '' '' @ AnnounceKind_String (an_Kind a) @
      '' '' @ dec_digits (unat (an_Timestamp a)) @ [nl])"

definition content_runQuery ::
  "('s, 'a) content_cli \<Rightarrow> ('s, 'x) content_ops_scheme \<Rightarrow> (bytes \<times> 'a \<Rightarrow> bytes \<Rightarrow> bytes option) \<Rightarrow> bool \<Rightarrow>
   bytes \<Rightarrow> bytes \<Rightarrow> bytes \<Rightarrow> bool \<Rightarrow> bool \<Rightarrow> bytes list \<Rightarrow> content_cmd_error + bytes list" where
  "content_runQuery C E net bind trackerID trackerIP format complete verified args =
     (case args of
        [hashText] \<Rightarrow>
          (case parseTracker C trackerID trackerIP of
             Inl e \<Rightarrow> Inl e
           | Inr tracker \<Rightarrow>
             (case parseContent C hashText format of
                Inl e \<Rightarrow> Inl e
              | Inr content \<Rightarrow>
                if \<not> bind then Inl BindFailed
                else (case Client_Query E (net tracker) content complete verified of
                  Inl e \<Rightarrow> Inl (ClientFailed e) | Inr hosts \<Rightarrow> Inr (map (host_line C) hosts))))
      | _ \<Rightarrow> Inl WrongUsage)"

text \<open>The tracker after it has served the request of an announcement.\<close>

definition announced_store :: "('s, 'x) content_ops_scheme \<Rightarrow> 's \<Rightarrow> u64 \<Rightarrow> content \<Rightarrow> u32 \<Rightarrow> store \<Rightarrow> store" where
  "announced_store E sk now c kind s =
     (case SignAnnounce E sk \<lparr>an_Host = sk_public E sk, an_Content = c, an_Kind = kind, an_Timestamp = now\<rparr> of
        Inl _ \<Rightarrow> s
      | Inr sa \<Rightarrow> (case Req_Encode E (Req_Announce sa) of None \<Rightarrow> s | Some b \<Rightarrow> fst (handleStream E b s)))"

subsection \<open>The tracker's command (contentdiscovery/cmd/content-tracker/main.go)\<close>

text \<open>
  One store with the expiry of the flag serves one stream after another until the process is interrupted; \<open>listen\<close> is
  the result of parsing the address, \<open>bind\<close> and \<open>router\<close> whether the endpoint and the router were created.
\<close>

datatype content_tracker_error = ParseListen | BindTracker | RouterFailed

definition content_tracker_run ::
  "('s, 'x) content_ops_scheme \<Rightarrow> bool \<Rightarrow> bool \<Rightarrow> bool \<Rightarrow> int \<Rightarrow> bytes list \<Rightarrow> content_tracker_error + store" where
  "content_tracker_run E listen bind router expiry streams =
     (if \<not> listen then Inl ParseListen
      else if \<not> bind then Inl BindTracker
      else if \<not> router then Inl RouterFailed
      else Inr (fold (\<lambda>sent s. fst (handleStream E sent s)) streams (NewStore expiry)))"

subsection \<open>Lemmas\<close>

text \<open>The command never collects: the expiry it is given has no effect on what it stores and answers.\<close>

lemma expiry_without_effect:
  assumes "content_tracker_run E True True True x streams = Inr s" and "content_tracker_run E True True True y streams = Inr s'"
  shows "st_announce s = st_announce s' \<and> tracker_net E s = tracker_net E s'"
proof -
  have step: "fst (handleStream E b (t\<lparr>st_expiry := e\<rparr>)) = (fst (handleStream E b t))\<lparr>st_expiry := e\<rparr>"
    "snd (handleStream E b (t\<lparr>st_expiry := e\<rparr>)) = snd (handleStream E b t)" for b t e
    by (auto simp: handleStream_def HandleRequest_def PutAnnounce_def Store_Query_def split: sum.split option.split request.split)
  have "fold (\<lambda>sent s. fst (handleStream E sent s)) bs (t\<lparr>st_expiry := e\<rparr>) =
      (fold (\<lambda>sent s. fst (handleStream E sent s)) bs t)\<lparr>st_expiry := e\<rparr>" for bs t e
    by (induction bs arbitrary: t) (simp_all add: step)
  from this [of streams y "NewStore x"] assms have "s' = s\<lparr>st_expiry := y\<rparr>"
    by (simp add: content_tracker_run_def NewStore_def)
  then show ?thesis by (simp add: tracker_net_def fun_eq_iff step)
qed

lemma ToLower_ascii:
  "list_all (\<lambda>c. byte_val c < 128) s \<Longrightarrow> ToLower s = map lower s"
proof (induction s)
  case (Cons c s)
  then have "c \<noteq> CHR 0xC4" "c \<noteq> CHR 0xE2" by auto
  with Cons show ?case by (simp add: ToLower.simps [of "c # s"])
qed (simp add: ToLower.simps)

lemma signed_well:
  assumes "content_ok E" and "SignAnnounce E sk a = Inr sa"
  shows "signed_ok E sa \<and> VerifySignedAnnounce E sa \<and> sa_Announce sa = a \<and> an_Host a = sk_public E sk"
proof -
  note E = content_okD [OF assms(1)]
  from assms(2) obtain m where "sa = \<lparr>sa_Announce = a, sa_Signature = sk_sign E sk m\<rparr>" "Announce_Encode E a = Some m"
    "an_Host a = sk_public E sk" by (auto simp: SignAnnounce_def split: if_splits option.splits)
  with E(4-7) show ?thesis by (simp add: signed_ok_def announce_ok_def VerifySignedAnnounce_def)
qed

text \<open>A client that announced with success was heard: the tracker stored its announcement.\<close>

lemma announced:
  assumes "content_ok E" and "Client_Announce E (tracker_net E s) sk now c kind = Inr ()"
  obtains sa k b where "SignAnnounce E sk \<lparr>an_Host = sk_public E sk, an_Content = c, an_Kind = kind, an_Timestamp = now\<rparr> = Inr sa"
    "key_of sa = Inr k" "Req_Encode E (Req_Announce sa) = Some b" "length b \<le> RequestSizeLimit"
    "announced_store E sk now c kind s = fst (handleStream E b s)"
proof -
  from assms(2) obtain sa b r where s: "SignAnnounce E sk \<lparr>an_Host = sk_public E sk, an_Content = c, an_Kind = kind, an_Timestamp = now\<rparr> = Inr sa"
    "Req_Encode E (Req_Announce sa) = Some b" "length b \<le> RequestSizeLimit" "tracker_net E s b = Some r"
    by (auto simp: Client_Announce_def client_send_def split: sum.split_asm option.split_asm if_split_asm)
  have "signed_ok E sa" using signed_well [OF assms(1) s(1)] by blast
  then have "unmarshal E (Req_Decode E) b = Some (Req_Announce sa)" using Req_back [OF assms(1) s(2)] by simp
  with s(3,4) obtain k where "key_of sa = Inr k"
    by (auto simp: tracker_net_def handleStream_def readLimited_def Let_def HandleRequest_def PutAnnounce_def
        split: sum.split_asm prod.split_asm if_split_asm)
  with s that show thesis by (simp add: announced_store_def)
qed

lemma announce_succeeds:
  assumes "content_ok E" and "SignAnnounce E sk \<lparr>an_Host = sk_public E sk, an_Content = c, an_Kind = kind, an_Timestamp = now\<rparr> = Inr sa"
    and "key_of sa = Inr k" and "Req_Encode E (Req_Announce sa) = Some b" and "length b \<le> RequestSizeLimit"
    and "Resp_Encode E [] = Some rb" and "length rb \<le> RequestSizeLimit"
  shows "Client_Announce E (tracker_net E s) sk now c kind = Inr ()"
proof -
  note sa = signed_well [OF assms(1,2)]
  have "unmarshal E (Req_Decode E) b = Some (Req_Announce sa)" using Req_back [OF assms(1,4)] sa by simp
  then have "tracker_net E s b = Some rb"
    using assms(3,5,6) sa by (simp add: tracker_net_def handleStream_def readLimited_def HandleRequest_def PutAnnounce_def)
  moreover have "unmarshal E (Resp_Decode E) rb = Some []" by (rule Resp_back [OF assms(1,6)]) simp_all
  ultimately show ?thesis
    using assms(2,4,5,7) by (simp add: Client_Announce_def client_send_def readLimited_def)
qed

subsection \<open>Properties\<close>


subsection \<open>Witnesses\<close>

text \<open>The demo tracker; a secret key is one byte, and the flags are written with capitals.\<close>

definition demo_cli :: "(char, bytes) content_cli" where
  "demo_cli = \<lparr>cc_endpoint = Some, cc_addr = Some, cc_secret = (\<lambda>t. if t = [] then None else Some (hd t)), cc_hash = Some,
     cc_raw = (\<lambda>h. \<lparr>ct_Hash = h, ct_Format = 0\<rparr>), cc_seq = (\<lambda>h. \<lparr>ct_Hash = h, ct_Format = 1\<rparr>),
     cc_id_string = (\<lambda>i. i), cc_hash_string = (\<lambda>h. h)\<rparr>"

text \<open>The announcement of the demo, the tracker after it, and the answer to the query for it.\<close>

lemma demo_cli_flags:
  "ToLower ''RAW'' = ''raw''" "ToLower ''Complete'' = ''complete''" "dec_digits 5 = ''5''"
  by code_simp+

lemma demo_announced:
  "announced_store demo_content_ops (to_byte 3) 5 \<lparr>ct_Hash = ''c'', ct_Format = 0\<rparr> AnnounceComplete (demo_store 0) =
     \<lparr>st_announce = [(demo_key 3, demo_signed 3 5)], st_expiry = 1000000\<rparr>"
proof -
  let ?b = "[CHR 0x00] @ replicate 32 (to_byte 3) @ ''c'' @ [CHR 0x01, CHR 0x05] @ replicate 64 (to_byte 3)"
  have b: "Req_Encode demo_content_ops (Req_Announce (demo_signed 3 5)) = Some ?b" using demo_encodings(2) [of 5 3] by simp
  have "length ?b \<le> RequestSizeLimit" by (simp add: RequestSizeLimit_def)
  note handleStream_announce [OF demo_content_ok demo_signed_facts(2,3) b this demo_signed_facts(1), of "demo_store 0"]
  with b demo_signed_facts(4) [of 3 5] show ?thesis
    by (simp add: announced_store_def demo_announce_def AnnounceComplete_def demo_store_def)
qed

lemma demo_announce_run:
  "Client_Announce demo_content_ops (tracker_net demo_content_ops (demo_store 0)) (to_byte 3) 5 \<lparr>ct_Hash = ''c'', ct_Format = 0\<rparr>
     AnnounceComplete = Inr ()"
proof -
  note signed = demo_signed_facts(1-3) [of 3 5]
  have sa: "SignAnnounce demo_content_ops (to_byte 3) \<lparr>an_Host = sk_public demo_content_ops (to_byte 3),
      an_Content = \<lparr>ct_Hash = ''c'', ct_Format = 0\<rparr>, an_Kind = AnnounceComplete, an_Timestamp = 5\<rparr> = Inr (demo_signed 3 5)"
    using demo_signed_facts(4) [of 3 5] by (simp add: demo_announce_def AnnounceComplete_def)
  have rb: "Resp_Encode demo_content_ops [] = Some [CHR 0x00, CHR 0x00]" by (simp add: Resp_Encode_def append_uvarint_small)
  show ?thesis
    by (rule announce_succeeds [OF demo_content_ok sa signed(1) demo_encodings(2) _ rb]) (simp_all add: RequestSizeLimit_def)
qed


end
