(* ===== verification/Blob_Http.thy ===== *)
theory Blob_Http
  imports GoText
begin

section \<open>Blob stores over HTTP: requests, readers and stores (xetstore, s3baostore)\<close>

text \<open>
  What the two blob stores share: the part of \<^verbatim>\<open>net/http\<close> they use, with the client as a function
  from requests to responses, the readers of \<^verbatim>\<open>bytes\<close> and \<^verbatim>\<open>io\<close>, the arithmetic of byte ranges,
  and the contract of a store that keeps entries under their hash.
\<close>

subsection \<open>HTTP\<close>

record http_request =
  hq_method :: bytes
  hq_url :: bytes
  hq_auth :: "bytes option"
  hq_range :: "bytes option"

text \<open>
  A response: a length of -1 is unknown, an absent header is empty, and \<open>hr_broken\<close> says that
  reading the body ends with an error instead of the end of the stream.
\<close>

record http_response =
  hr_status :: nat
  hr_length :: int
  hr_accept_ranges :: bytes
  hr_linked_size :: bytes
  hr_content_range :: bytes
  hr_body :: bytes
  hr_broken :: bool

type_synonym http = "http_request \<Rightarrow> http_response option"

text \<open>\<^verbatim>\<open>net/url\<close>: parsing and printing are parameters; a URL keeps the fields the code sets.\<close>

record url =
  ul_scheme :: bytes
  ul_host :: bytes
  ul_path :: bytes
  ul_raw_path :: bytes
  ul_query :: bytes
  ul_fragment :: bytes
  ul_rest :: bytes

record url_ops =
  url_parse :: "bytes \<Rightarrow> url option"
  url_string :: "url \<Rightarrow> bytes"

definition trim_left_slash :: "bytes \<Rightarrow> bytes" where
  "trim_left_slash s = dropWhile (\<lambda>c. c = CHR ''/'') s"

definition trim_right_slash :: "bytes \<Rightarrow> bytes" where
  "trim_right_slash s = rev (dropWhile (\<lambda>c. c = CHR ''/'') (rev s))"

datatype blob_error =
    CtxError | NotFound | EmptyRepo | EmptyPath | ParseEndpoint | NotAbsolute | ParseURL | NewRequest
  | TransportError | BadStatus nat | SizeMismatch nat nat
  | NegativeOffset | BodyError | UnexpectedEOF | EOF

subsection \<open>Readers\<close>

text \<open>A read gives the bytes copied to the buffer and an error, if any.\<close>

type_synonym read_result = "bytes \<times> blob_error option"

text \<open>\<^verbatim>\<open>bytes.Reader.ReadAt\<close> for a buffer of \<open>n\<close> bytes.\<close>

definition bytes_read_at :: "bytes \<Rightarrow> nat \<Rightarrow> int \<Rightarrow> read_result" where
  "bytes_read_at s n off =
     (if off < 0 then ([], Some NegativeOffset)
      else if off \<ge> int (length s) then ([], Some EOF)
      else let b = take n (drop (nat off) s) in (b, if length b < n then Some EOF else None))"

text \<open>\<^verbatim>\<open>io.ReadFull\<close> of \<open>m\<close> bytes and \<^verbatim>\<open>io.ReadAll\<close>, from the body of a response.\<close>

definition read_full :: "http_response \<Rightarrow> nat \<Rightarrow> read_result" where
  "read_full resp m =
     (let b = take m (hr_body resp) in
      (b, if length b = m then None
          else if hr_broken resp then Some BodyError
          else if b = [] then Some EOF
          else Some UnexpectedEOF))"

definition read_all :: "http_response \<Rightarrow> bytes option" where
  "read_all resp = (if hr_broken resp then None else Some (hr_body resp))"

subsection \<open>Byte ranges\<close>

definition range_header :: "nat \<Rightarrow> nat \<Rightarrow> bytes" where
  "range_header a b = ''bytes='' @ dec_digits a @ ''-'' @ dec_digits b"

text \<open>The last byte of a read of \<open>n\<close> bytes at \<open>start\<close>, in 64 bits as the code computes it.\<close>

definition range_end :: "u64 \<Rightarrow> u64 \<Rightarrow> nat \<Rightarrow> u64" where
  "range_end sz start n =
     (let e = start + of_nat n - 1 in if e \<ge> sz then sz - 1 else e)"

lemma range_end_unat:
  assumes "start < sz" and "0 < n" and "n < 2 ^ 63" and "unat start < 2 ^ 63"
  shows "unat (range_end sz start n) = min (unat start + n - 1) (unat sz - 1)"
    and "unat (range_end sz start n - start + 1) = min n (unat sz - unat start)"
proof -
  have n: "unat (of_nat n :: u64) = n" using assms(3) by (simp add: unat_of_nat)
  have "unat (start + of_nat n - 1) = unat start + n - 1"
  proof -
    have sum: "unat (start + of_nat n) = unat start + n"
      using assms(3,4) n unat_add_lem [of start "of_nat n"] by simp
    then have "start + of_nat n \<noteq> 0" using assms(2) by auto
    with sum show ?thesis by (simp add: unat_minus_one)
  qed
  moreover have "unat (sz - 1) = unat sz - 1"
    using assms(1) by (intro unat_minus_one) auto
  ultimately show e: "unat (range_end sz start n) = min (unat start + n - 1) (unat sz - 1)"
    by (auto simp: range_end_def Let_def word_le_nat_alt)
  have lt: "unat start < unat sz" using assms(1) by (simp add: word_less_nat_alt)
  then have "start \<le> range_end sz start n" unfolding word_le_nat_alt using e assms(2) by linarith
  then have d: "unat (range_end sz start n - start) = min (unat start + n - 1) (unat sz - 1) - unat start"
    using e by (simp add: unat_sub)
  then have "unat (range_end sz start n - start) + unat (1 :: u64) < 2 ^ 64" using assms(3) by simp
  then have "unat (range_end sz start n - start + 1) = unat (range_end sz start n - start) + 1"
    using unat_add_lem [of "range_end sz start n - start" 1] by simp
  with d lt assms(2) show "unat (range_end sz start n - start + 1) = min n (unat sz - unat start)"
    by (auto simp: min_def)
qed

text \<open>
  One range request (a request that cannot be built counts as one the transport refuses): the response must be partial content and have all the bytes asked for; the
  read is cut at the end of the object.
\<close>

definition read_range :: "http \<Rightarrow> http_request \<Rightarrow> nat \<Rightarrow> nat \<Rightarrow> read_result" where
  "read_range http req m n =
     (case http req of
        None \<Rightarrow> ([], Some TransportError)
      | Some resp \<Rightarrow>
        if hr_status resp \<noteq> 206 then ([], Some (BadStatus (hr_status resp)))
        else (case read_full resp m of
          (b, Some e) \<Rightarrow> (b, Some e)
        | (b, None) \<Rightarrow> (b, if length b < n then Some EOF else None)))"

text \<open>What HTTP documents of a server that supports ranges of an object.\<close>

definition serves_ranges :: "http \<Rightarrow> bytes \<Rightarrow> bytes option \<Rightarrow> bytes \<Rightarrow> bool" where
  "serves_ranges http u auth obj \<longleftrightarrow>
     (\<forall>a b. a \<le> b \<longrightarrow> b < length obj \<longrightarrow>
       (\<exists>resp. http \<lparr>hq_method = ''GET'', hq_url = u, hq_auth = auth, hq_range = Some (range_header a b)\<rparr> = Some resp \<and>
         hr_status resp = 206 \<and> hr_body resp = take (Suc b - a) (drop a obj)))"

text \<open>The contract of a reader that fetches ranges: reading equals reading the object itself.\<close>

locale range_reader =
  fixes readAt :: "http \<Rightarrow> nat \<Rightarrow> int \<Rightarrow> read_result"
    and u :: bytes and auth :: "bytes option" and sz :: u64
  assumes readAt_negative: "off < 0 \<Longrightarrow> readAt http n off = ([], Some NegativeOffset)"
    and readAt_empty: "0 \<le> off \<Longrightarrow> readAt http 0 off = ([], None)"
    and readAt_past: "0 \<le> off \<Longrightarrow> 0 < n \<Longrightarrow> sz \<le> of_int off \<Longrightarrow> readAt http n off = ([], Some EOF)"
    and readAt_range: "0 \<le> off \<Longrightarrow> 0 < n \<Longrightarrow> of_int off < sz \<Longrightarrow>
      readAt http n off = read_range http
        \<lparr>hq_method = ''GET'', hq_url = u, hq_auth = auth,
         hq_range = Some (range_header (unat (of_int off :: u64)) (unat (range_end sz (of_int off) n)))\<rparr>
        (unat (range_end sz (of_int off) n - of_int off + 1)) n"
begin

lemma readAt_bytes:
  assumes server: "serves_ranges http u auth obj" and sz: "unat sz = length obj"
    and n: "0 < n" "n < 2 ^ 63" and off: "off < 2 ^ 63"
  shows "readAt http n off = bytes_read_at obj n off"
proof -
  let ?start = "of_int off :: u64"
  have start: "unat ?start = nat off" if "0 \<le> off"
    using off that by (simp add: unsigned_of_int take_bit_int_eq_self nat_take_bit_eq [symmetric] unat_eq_nat_uint uint_word_of_int_eq)
  consider "off < 0" | "0 \<le> off" "sz \<le> ?start" | "0 \<le> off" "?start < sz" by fastforce
  then show ?thesis
  proof cases
    case 1
    then show ?thesis by (simp add: readAt_negative bytes_read_at_def)
  next
    case 2
    then have "int (length obj) \<le> off" using start sz by (simp add: word_le_nat_alt)
    with 2 n(1) show ?thesis by (simp add: readAt_past bytes_read_at_def)
  next
    case 3
    let ?e = "range_end sz ?start n"
    note r = range_end_unat [OF 3(2) n]
    have small: "unat ?start < 2 ^ 63" using start [OF 3(1)] off by simp
    have lt: "nat off < length obj" using 3 start sz by (simp add: word_less_nat_alt)
    have "unat ?e = min (nat off + n - 1) (length obj - 1)" using r(1) [OF small] start [OF 3(1)] sz by simp
    with lt n(1) have "nat off \<le> unat ?e" "unat ?e < length obj" "Suc (unat ?e) - nat off = min n (length obj - nat off)"
      by linarith+
    then obtain resp where "http \<lparr>hq_method = ''GET'', hq_url = u, hq_auth = auth,
        hq_range = Some (range_header (nat off) (unat ?e))\<rparr> = Some resp"
      "hr_status resp = 206" "hr_body resp = take (min n (length obj - nat off)) (drop (nat off) obj)"
      using server unfolding serves_ranges_def by metis
    with 3 n(1) r(2) [OF small] start sz lt show ?thesis
      by (auto simp: readAt_range read_range_def read_full_def bytes_read_at_def Let_def min_def)
  qed
qed

end

subsection \<open>A server of one object\<close>

text \<open>A concrete server: it reports the size and range support, and serves every range.\<close>

definition object_response :: "bytes \<Rightarrow> http_response" where
  "object_response obj = \<lparr>hr_status = 200, hr_length = int (length obj), hr_accept_ranges = ''Bytes'', hr_linked_size = [],
     hr_content_range = [], hr_body = obj, hr_broken = False\<rparr>"

definition serve_object :: "bytes \<Rightarrow> http" where
  "serve_object obj req =
     (case hq_range req of
        None \<Rightarrow> Some (object_response obj)
      | Some r \<Rightarrow>
        let a = digits_val (takeWhile is_digit (drop 6 r)); b = digits_val (drop 1 (dropWhile is_digit (drop 6 r))) in
        Some ((object_response obj)\<lparr>hr_status := 206, hr_body := take (Suc b - a) (drop a obj)\<rparr>))"

lemma serve_object_ranges: "serves_ranges (serve_object obj) u auth obj"
proof -
  have "takeWhile is_digit (dec_digits a @ CHR ''-'' # t) = dec_digits a"
    "dropWhile is_digit (dec_digits a @ CHR ''-'' # t) = CHR ''-'' # t" for a t
    using list_all_is_digit_dec_digits [of a] by (simp_all add: takeWhile_append dropWhile_append list_all_iff)
  then show ?thesis by (simp add: serves_ranges_def serve_object_def object_response_def range_header_def)
qed

end
