(* ===== verification/Xet_Store.thy ===== *)
theory Xet_Store
  imports Blob_Http
begin

section \<open>The Xet blob store (xetstore/store.go)\<close>

text \<open>
  A store of complete blobs, inline or read by HTTP ranges from a resolve URL. The BAO encoding is
  third-party code and a parameter: outboard and root hash of some data. The map is an association
  list; a nil store and the default client are not modelled.
\<close>

subsection \<open>Entries\<close>

type_synonym bao = "bytes \<Rightarrow> bytes \<times> bytes"

record data_source =
  ds_inline :: bytes
  ds_url :: bytes
  ds_token :: bytes

record entry =
  en_hash :: bytes
  en_size :: u64
  en_data :: data_source
  en_outboard :: bytes

definition newEntryFromBytes :: "bao \<Rightarrow> bytes \<Rightarrow> entry" where
  "newEntryFromBytes bao data =
     (case bao data of (outboard, root) \<Rightarrow>
       \<lparr>en_hash = root, en_size = of_nat (length data),
        en_data = \<lparr>ds_inline = data, ds_url = [], ds_token = []\<rparr>, en_outboard = outboard\<rparr>)"

definition newEntryFromRemote :: "bao \<Rightarrow> bytes \<Rightarrow> bytes \<Rightarrow> bytes \<Rightarrow> entry" where
  "newEntryFromRemote bao u data token =
     (case bao data of (outboard, root) \<Rightarrow>
       \<lparr>en_hash = root, en_size = of_nat (length data),
        en_data = \<lparr>ds_inline = [], ds_url = u, ds_token = token\<rparr>, en_outboard = outboard\<rparr>)"

record http_reader =
  rd_url :: bytes
  rd_size :: u64
  rd_token :: bytes

datatype blob_reader = ByteReader bytes | HttpReader http_reader

definition auth_header :: "bytes \<Rightarrow> bytes option" where
  "auth_header token = (if token \<noteq> [] then Some (''Bearer '' @ token) else None)"

definition DataReader :: "bool \<Rightarrow> entry \<Rightarrow> blob_error + blob_reader" where
  "DataReader ctx_err e =
     (if ctx_err then Inl CtxError
      else if ds_url (en_data e) = [] then Inr (ByteReader (ds_inline (en_data e)))
      else Inr (HttpReader \<lparr>rd_url = ds_url (en_data e), rd_size = en_size e, rd_token = ds_token (en_data e)\<rparr>))"

definition Outboard :: "bool \<Rightarrow> entry \<Rightarrow> blob_error + bytes" where
  "Outboard ctx_err e = (if ctx_err then Inl CtxError else Inr (en_outboard e))"

definition ReadAt :: "http_reader \<Rightarrow> http \<Rightarrow> nat \<Rightarrow> int \<Rightarrow> read_result" where
  "ReadAt r http n off =
     (if off < 0 then ([], Some NegativeOffset)
      else if n = 0 then ([], None)
      else let start = of_int off in
        if start \<ge> rd_size r then ([], Some EOF)
        else let e = range_end (rd_size r) start n in
          read_range http
            \<lparr>hq_method = ''GET'', hq_url = rd_url r, hq_auth = auth_header (rd_token r),
             hq_range = Some (range_header (unat start) (unat e))\<rparr>
            (unat (e - start + 1)) n)"

definition blob_read :: "blob_reader \<Rightarrow> http \<Rightarrow> nat \<Rightarrow> int \<Rightarrow> read_result" where
  "blob_read r http n off =
     (case r of ByteReader s \<Rightarrow> bytes_read_at s n off | HttpReader h \<Rightarrow> ReadAt h http n off)"

subsection \<open>The store\<close>

record xet_store =
  xs_entries :: "(bytes \<times> entry) list"
  xs_token :: bytes
  xs_endpoint :: bytes

definition defaultEndpoint :: bytes where
  "defaultEndpoint = ''https://huggingface.co''"

definition WithToken :: "bytes \<Rightarrow> xet_store \<Rightarrow> xet_store" where
  "WithToken token s = s\<lparr>xs_token := token\<rparr>"

definition WithEndpoint :: "bytes \<Rightarrow> xet_store \<Rightarrow> xet_store" where
  "WithEndpoint baseURL s = s\<lparr>xs_endpoint := baseURL\<rparr>"

definition New :: "(xet_store \<Rightarrow> xet_store) list \<Rightarrow> xet_store" where
  "New opts =
     (let s = fold (\<lambda>opt s. opt s) opts \<lparr>xs_entries = [], xs_token = [], xs_endpoint = defaultEndpoint\<rparr> in
      if xs_endpoint s = [] then s\<lparr>xs_endpoint := defaultEndpoint\<rparr> else s)"

definition put_entry :: "entry \<Rightarrow> xet_store \<Rightarrow> xet_store" where
  "put_entry e s = s\<lparr>xs_entries := alist_put (en_hash e) e (xs_entries s)\<rparr>"

definition Open :: "bool \<Rightarrow> bytes \<Rightarrow> xet_store \<Rightarrow> blob_error + entry" where
  "Open ctx_err h s =
     (if ctx_err then Inl CtxError else of_option NotFound (map_of (xs_entries s) h))"

definition ImportBytes :: "bao \<Rightarrow> bytes \<Rightarrow> xet_store \<Rightarrow> xet_store \<times> bytes" where
  "ImportBytes bao data s = (let e = newEntryFromBytes bao data in (put_entry e s, en_hash e))"

subsection \<open>Resolve URLs\<close>

record hf_file =
  fl_Repo :: bytes
  fl_Revision :: bytes
  fl_Path :: bytes

fun join_slash :: "bytes list \<Rightarrow> bytes" where
  "join_slash [] = []"
| "join_slash [s] = s"
| "join_slash (s # t # ss) = s @ CHR ''/'' # join_slash (t # ss)"

definition segments :: "hf_file \<Rightarrow> bytes list" where
  "segments f =
     (let rev' = (if fl_Revision f = [] then ''main'' else fl_Revision f);
          parts = [trim_left_slash (trim_right_slash (fl_Repo f)), ''resolve'', rev', trim_left_slash (fl_Path f)] in
      concat (map (\<lambda>part. filter (\<lambda>segment. segment \<noteq> []) (split_on CHR ''/'' part)) parts))"

definition resolveURL :: "'x url_ops_scheme \<Rightarrow> hf_file \<Rightarrow> xet_store \<Rightarrow> blob_error + bytes" where
  "resolveURL U f s =
     (if fl_Repo f = [] then Inl EmptyRepo
      else if fl_Path f = [] then Inl EmptyPath
      else case url_parse U (xs_endpoint s) of
        None \<Rightarrow> Inl ParseEndpoint
      | Some base \<Rightarrow>
        if ul_scheme base = [] \<or> ul_host base = [] then Inl NotAbsolute
        else Inr (url_string U (base\<lparr>ul_path := trim_right_slash (ul_path base) @ CHR ''/'' # join_slash (segments f),
          ul_raw_path := [], ul_query := [], ul_fragment := []\<rparr>)))"

subsection \<open>Probing and importing a file\<close>

text \<open>
  \<^verbatim>\<open>strconv.ParseUint(s, 10, 64)\<close> with the value it returns beside an error: zero for a syntax error,
  the largest number when the digits read so far are out of range.
\<close>

fun parse_digits :: "nat \<Rightarrow> bytes \<Rightarrow> nat \<times> bool" where
  "parse_digits n [] = (n, True)"
| "parse_digits n (c # s) =
     (if \<not> is_digit c then (0, False)
      else if 10 * n + digit_val c \<ge> 2 ^ 64 then (2 ^ 64 - 1, False)
      else parse_digits (10 * n + digit_val c) s)"

definition ParseUint :: "bytes \<Rightarrow> nat \<times> bool" where
  "ParseUint s = (if s = [] then (0, False) else parse_digits 0 s)"

definition responseSize :: "http_response \<Rightarrow> nat \<times> bool" where
  "responseSize resp =
     (if hr_linked_size resp \<noteq> [] then ParseUint (hr_linked_size resp)
      else if hr_length resp \<ge> 0 then (nat (hr_length resp), True)
      else (0, False))"

definition parseContentRangeSize :: "bytes \<Rightarrow> nat \<times> bool" where
  "parseContentRangeSize v =
     (case dropWhile (\<lambda>c. c \<noteq> CHR ''/'') v of
        [] \<Rightarrow> (0, False)
      | _ # after \<Rightarrow>
        if after = ''*'' then (0, False) else ParseUint after)"

text \<open>
  \<^verbatim>\<open>strings.EqualFold\<close> with \<open>bytes\<close>: besides the ASCII letters, the letter s also folds with the
  long s of Unicode.
\<close>

definition lower_ascii :: "char \<Rightarrow> char" where
  "lower_ascii c = (if 65 \<le> byte_val c \<and> byte_val c \<le> 90 then to_byte (byte_val c + 32) else c)"

fun fold_letters :: "bytes \<Rightarrow> bytes" where
  "fold_letters [] = []"
| "fold_letters [c] = [lower_ascii c]"
| "fold_letters (c # d # s) =
     (if c = CHR 0xC5 \<and> d = CHR 0xBF then CHR ''s'' # fold_letters s
      else lower_ascii c # fold_letters (d # s))"

definition authorize :: "xet_store \<Rightarrow> http_request \<Rightarrow> http_request" where
  "authorize s req = (if xs_token s \<noteq> [] then req\<lparr>hq_auth := Some (''Bearer '' @ xs_token s)\<rparr> else req)"

definition probeRangeSize :: "http \<Rightarrow> bytes \<Rightarrow> xet_store \<Rightarrow> nat \<times> bool" where
  "probeRangeSize http u s =
     (case http ((authorize s \<lparr>hq_method = ''GET'', hq_url = u, hq_auth = None, hq_range = None\<rparr>)\<lparr>hq_range := Some ''bytes=0-0''\<rparr>) of
        None \<Rightarrow> (0, False)
      | Some resp \<Rightarrow>
        if hr_status resp \<noteq> 206 then (0, False) else parseContentRangeSize (hr_content_range resp))"

definition probe :: "http \<Rightarrow> bytes \<Rightarrow> xet_store \<Rightarrow> blob_error + nat \<times> bool" where
  "probe http u s =
     (case http (authorize s \<lparr>hq_method = ''HEAD'', hq_url = u, hq_auth = None, hq_range = None\<rparr>) of
        None \<Rightarrow> Inl TransportError
      | Some resp \<Rightarrow>
        if hr_status resp \<noteq> 200 then Inl (BadStatus (hr_status resp))
        else let (sz, ok) = responseSize resp;
                 ranged = (fold_letters (hr_accept_ranges resp) = ''bytes'');
                 (sz, ok) = (if ranged \<and> \<not> ok then probeRangeSize http u s else (sz, ok)) in
          Inr (sz, ranged \<and> ok))"

definition getAll :: "http \<Rightarrow> bytes \<Rightarrow> xet_store \<Rightarrow> blob_error + bytes" where
  "getAll http u s =
     (case http (authorize s \<lparr>hq_method = ''GET'', hq_url = u, hq_auth = None, hq_range = None\<rparr>) of
        None \<Rightarrow> Inl TransportError
      | Some resp \<Rightarrow>
        if hr_status resp \<noteq> 200 then Inl (BadStatus (hr_status resp))
        else of_option BodyError (read_all resp))"

definition ImportFile ::
  "'x url_ops_scheme \<Rightarrow> bao \<Rightarrow> http \<Rightarrow> hf_file \<Rightarrow> xet_store \<Rightarrow> xet_store \<times> (blob_error + bytes)" where
  "ImportFile U bao http f s =
     (case resolveURL U f s of
        Inl e \<Rightarrow> (s, Inl e)
      | Inr u \<Rightarrow>
        (case probe http u s of
           Inl e \<Rightarrow> (s, Inl e)
         | Inr (sz, ranged) \<Rightarrow>
           (case getAll http u s of
              Inl e \<Rightarrow> (s, Inl e)
            | Inr data \<Rightarrow>
              if sz \<noteq> 0 \<and> sz \<noteq> length data then (s, Inl (SizeMismatch (length data) sz))
              else let e = (if ranged then newEntryFromRemote bao u data (xs_token s)
                            else newEntryFromBytes bao data) in
                (put_entry e s, Inr (en_hash e)))))"

subsection \<open>Lemmas\<close>

interpretation xet_reader: range_reader "ReadAt r" "rd_url r" "auth_header (rd_token r)" "rd_size r" for r
  by unfold_locales (auto simp: ReadAt_def Let_def)

interpretation xet_map: keyed_store "\<lambda>h e s. s\<lparr>xs_entries := alist_put h e (xs_entries s)\<rparr>"
    "\<lambda>s h. map_of (xs_entries s) h"
  by unfold_locales simp

lemma Open_put: "Open False h (put_entry e s) = (if h = en_hash e then Inr e else Open False h s)"
  by (simp add: Open_def put_entry_def)

text \<open>An entry describes some data: its name, outboard and size are those of the data, and inline
  bytes are the data.\<close>

definition entry_of :: "bao \<Rightarrow> bytes \<Rightarrow> entry \<Rightarrow> bool" where
  "entry_of bao data e \<longleftrightarrow> bao data = (en_outboard e, en_hash e) \<and> en_size e = of_nat (length data) \<and>
     (ds_url (en_data e) = [] \<longrightarrow> ds_inline (en_data e) = data)"

lemma entry_of_new:
  "entry_of bao data (newEntryFromBytes bao data)"
  "u \<noteq> [] \<Longrightarrow> entry_of bao data (newEntryFromRemote bao u data token)"
  by (simp_all add: entry_of_def newEntryFromBytes_def newEntryFromRemote_def split: prod.split)

lemma new_entry_simps [simp]:
  "en_hash (newEntryFromBytes bao data) = snd (bao data)" "en_hash (newEntryFromRemote bao u data token) = snd (bao data)"
  "en_data (newEntryFromBytes bao data) = \<lparr>ds_inline = data, ds_url = [], ds_token = []\<rparr>"
  "en_data (newEntryFromRemote bao u data token) = \<lparr>ds_inline = [], ds_url = u, ds_token = token\<rparr>"
  "en_size (newEntryFromBytes bao data) = of_nat (length data)"
  "en_size (newEntryFromRemote bao u data token) = of_nat (length data)"
  by (simp_all add: newEntryFromBytes_def newEntryFromRemote_def split: prod.split)

text \<open>Every import either fails and changes nothing or puts one entry of the data it read.\<close>

lemma ImportFile_cases:
  assumes "ImportFile U bao http f s = (s', r)"
  obtains (error) x where "r = Inl x" "s' = s"
  | (imported) u data e where "resolveURL U f s = Inr u" "getAll http u s = Inr data" "s' = put_entry e s" "r = Inr (en_hash e)"
    "e = newEntryFromBytes bao data \<or> e = newEntryFromRemote bao u data (xs_token s)"
proof (cases "resolveURL U f s")
  case (Inl x)
  with assms have "r = Inl x" "s' = s" by (simp_all add: ImportFile_def)
  then show thesis by (rule that(1))
next
  case u: (Inr u)
  show thesis
  proof (cases "probe http u s")
    case (Inl x)
    with assms u have "r = Inl x" "s' = s" by (simp_all add: ImportFile_def)
    then show thesis by (rule that(1))
  next
    case p: (Inr p)
    obtain sz ranged where p': "p = (sz, ranged)" by (cases p)
    show thesis
    proof (cases "getAll http u s")
      case (Inl x)
      with assms u p p' have "r = Inl x" "s' = s" by (simp_all add: ImportFile_def)
      then show thesis by (rule that(1))
    next
      case (Inr data)
      let ?e = "if ranged then newEntryFromRemote bao u data (xs_token s) else newEntryFromBytes bao data"
      show thesis
      proof (cases "sz \<noteq> 0 \<and> sz \<noteq> length data")
        case True
        with Inr assms u p p' have "r = Inl (SizeMismatch (length data) sz)" "s' = s" by (simp_all add: ImportFile_def)
        then show thesis by (rule that(1))
      next
        case False
        with Inr assms u p p' have "s' = put_entry ?e s" "r = Inr (en_hash ?e)"
          by (auto simp: ImportFile_def Let_def)
        with u Inr show thesis by (rule that(2)) simp
      qed
    qed
  qed
qed

lemma import_error_keeps_store: "ImportFile U bao http f s = (s', Inl x) \<Longrightarrow> s' = s"
  by (erule ImportFile_cases) simp_all

datatype xet_op = Import_Bytes bytes | Import_File http hf_file

definition xet_step :: "'x url_ops_scheme \<Rightarrow> bao \<Rightarrow> xet_op \<Rightarrow> xet_store \<Rightarrow> xet_store" where
  "xet_step U bao p s =
     (case p of Import_Bytes data \<Rightarrow> fst (ImportBytes bao data s) | Import_File http f \<Rightarrow> fst (ImportFile U bao http f s))"

definition xet_run :: "'x url_ops_scheme \<Rightarrow> bao \<Rightarrow> xet_op list \<Rightarrow> xet_store \<Rightarrow> xet_store" where
  "xet_run U bao ps s = fold (xet_step U bao) ps s"

definition xet_ok :: "bao \<Rightarrow> xet_store \<Rightarrow> bool" where
  "xet_ok bao s \<longleftrightarrow> (\<forall>h e. Open False h s = Inr e \<longrightarrow> en_hash e = h \<and> (\<exists>data. entry_of bao data e))"

text \<open>What \<^verbatim>\<open>net/url\<close> documents: an absolute URL does not print as the empty string.\<close>

definition url_ok :: "'x url_ops_scheme \<Rightarrow> bool" where
  "url_ok U \<longleftrightarrow> (\<forall>u. ul_scheme u \<noteq> [] \<longrightarrow> url_string U u \<noteq> [])"

lemma resolveURL_not_Nil: "url_ok U \<Longrightarrow> resolveURL U f s = Inr u \<Longrightarrow> u \<noteq> []"
  by (auto simp: resolveURL_def url_ok_def split: if_split_asm option.split_asm)

lemma put_ok: "xet_ok bao s \<Longrightarrow> entry_of bao data e \<Longrightarrow> xet_ok bao (put_entry e s)"
  by (auto simp: xet_ok_def Open_put)

lemma xet_step_ok:
  assumes "url_ok U" and "xet_ok bao s"
  shows "xet_ok bao (xet_step U bao p s)"
proof (cases p)
  case (Import_Bytes data)
  then show ?thesis using put_ok [OF assms(2) entry_of_new(1)] by (simp add: xet_step_def ImportBytes_def Let_def)
next
  case (Import_File http f)
  obtain s' r where i: "ImportFile U bao http f s = (s', r)" by fastforce
  then show ?thesis
  proof (cases rule: ImportFile_cases)
    case (imported u data e)
    then have "entry_of bao data e" using entry_of_new resolveURL_not_Nil [OF assms(1)] by blast
    with put_ok [OF assms(2)] imported(3) i Import_File show ?thesis by (simp add: xet_step_def)
  qed (use assms(2) i Import_File in \<open>simp add: xet_step_def\<close>)
qed

lemma xet_run_ok: "url_ok U \<Longrightarrow> xet_ok bao s \<Longrightarrow> xet_ok bao (xet_run U bao ps s)"
  by (induction ps arbitrary: s) (simp_all add: xet_run_def xet_step_ok)

lemma New_Open: "xs_entries (New (map WithEndpoint es @ map WithToken ts)) = []"
proof -
  have "xs_entries (fold (\<lambda>opt s. opt s) (map WithToken ts) s) = xs_entries s" for s
    by (induction ts arbitrary: s) (simp_all add: WithToken_def)
  moreover have "xs_entries (fold (\<lambda>opt s. opt s) (map WithEndpoint es) s) = xs_entries s" for s
    by (induction es arbitrary: s) (simp_all add: WithEndpoint_def)
  ultimately show ?thesis by (simp add: New_def Let_def)
qed

text \<open>A slash in a revision is not escaped, so two files of different revisions share a URL.\<close>

lemma revision_slash_ambiguous:
  assumes "a \<noteq> []" "b \<noteq> []" "c \<noteq> []" "d \<noteq> []" "CHR ''/'' \<notin> set b" "CHR ''/'' \<notin> set c"
  shows "resolveURL U \<lparr>fl_Repo = a, fl_Revision = b @ CHR ''/'' # c, fl_Path = d\<rparr> s =
    resolveURL U \<lparr>fl_Repo = a, fl_Revision = b, fl_Path = c @ CHR ''/'' # d\<rparr> s"
proof -
  have lead: "trim_left_slash (c @ x) = c @ x" for x
    using assms(3,6) by (cases c) (auto simp: trim_left_slash_def)
  have "filter (\<lambda>g. g \<noteq> []) (split_on CHR ''/'' (trim_left_slash d)) = filter (\<lambda>g. g \<noteq> []) (split_on CHR ''/'' d)"
    by (induction d) (auto simp: trim_left_slash_def split: list.split)
  moreover have "segments \<lparr>fl_Repo = a, fl_Revision = b @ CHR ''/'' # c, fl_Path = d\<rparr> =
    segments \<lparr>fl_Repo = a, fl_Revision = b, fl_Path = c @ CHR ''/'' # d\<rparr>"
    using assms(2,3,5,6) lead [of "CHR ''/'' # d"] calculation by (simp add: segments_def)
  ultimately show ?thesis using assms(1,4) by (simp add: resolveURL_def split: option.split)
qed

subsection \<open>Properties\<close>

text \<open>C29: Reading an imported file gives the bytes of the file: whether the store kept them or kept
  only the URL, every read of a non-empty buffer returns what a read of the data in memory returns,
  with the end of the file where it ends, as long as the server still has that data.\<close>

theorem import_then_read:
  assumes "ImportFile U bao http f s = (s', Inr h)" and "url_ok U"
    and "resolveURL U f s = Inr u" and "getAll http u s = Inr obj" and "length obj < 2 ^ 64"
    and "serves_ranges later u (auth_header (xs_token s)) obj"
    and "0 < n" and "n < 2 ^ 63" and "off < 2 ^ 63"
  shows "h = snd (bao obj) \<and> (\<exists>e r. Open False h s' = Inr e \<and> DataReader False e = Inr r \<and>
    unat (en_size e) = length obj \<and> blob_read r later n off = bytes_read_at obj n off)"
  using assms(1)
proof (cases rule: ImportFile_cases)
  case (imported u' data e)
  with assms(3,4) have [simp]: "u' = u" "data = obj" by simp_all
  have u: "u \<noteq> []" by (rule resolveURL_not_Nil [OF assms(2,3)])
  have sz: "unat (of_nat (length obj) :: u64) = length obj" using assms(5) by (simp add: unat_of_nat)
  from imported(5) show ?thesis
  proof
    assume "e = newEntryFromBytes bao data"
    with imported sz show ?thesis by (simp add: Open_put DataReader_def blob_read_def)
  next
    assume "e = newEntryFromRemote bao u' data (xs_token s)"
    with imported sz u show ?thesis
      using xet_reader.readAt_bytes [of later "\<lparr>rd_url = u, rd_size = of_nat (length obj), rd_token = xs_token s\<rparr>"] assms(6-9)
      by (simp add: Open_put DataReader_def blob_read_def)
  qed
qed simp

text \<open>C30: Whatever is imported, each blob a new store opens is stored under its own hash, and its
  hash, outboard and size are those of one piece of data, which inline bytes are.\<close>

theorem blobs_named_by_content:
  assumes "url_ok U" and "Open False h (xet_run U bao ps (New (map WithEndpoint es @ map WithToken ts))) = Inr e"
  shows "en_hash e = h \<and> (\<exists>data. bao data = (en_outboard e, h) \<and> en_size e = of_nat (length data) \<and>
    (ds_url (en_data e) = [] \<longrightarrow> ds_inline (en_data e) = data))"
proof -
  have "xet_ok bao (New (map WithEndpoint es @ map WithToken ts))"
    by (simp add: xet_ok_def Open_def New_Open)
  from xet_run_ok [OF assms(1) this] assms(2) show ?thesis
    by (auto simp: xet_ok_def entry_of_def)
qed

subsection \<open>Witnesses\<close>

definition demo_url :: url where
  "demo_url = \<lparr>ul_scheme = ''https'', ul_host = ''h'', ul_path = [], ul_raw_path = [], ul_query = [], ul_fragment = [],
     ul_rest = []\<rparr>"

definition demo_urls :: url_ops where
  "demo_urls = \<lparr>url_parse = (\<lambda>s. Some demo_url), url_string = (\<lambda>u. ul_scheme u @ ul_host u @ ul_path u)\<rparr>"

definition demo_bao :: bao where
  "demo_bao data = ([], [to_byte (length data)])"

definition demo_object :: bytes where
  "demo_object = ''blob''"

definition demo_file :: hf_file where
  "demo_file = \<lparr>fl_Repo = ''a/b'', fl_Revision = [], fl_Path = ''c''\<rparr>"

lemma demo_import:
  "resolveURL demo_urls demo_file (New [WithToken ''t'']) = Inr ''httpsh/a/b/resolve/main/c''"
  "getAll (serve_object demo_object) ''httpsh/a/b/resolve/main/c'' (New [WithToken ''t'']) = Inr demo_object"
  "snd (ImportFile demo_urls demo_bao (serve_object demo_object) demo_file (New [WithToken ''t''])) = Inr [CHR 0x04]"
  by code_simp+

lemma demo_urls_ok: "url_ok demo_urls"
  by (simp add: url_ok_def demo_urls_def)

theorem import_then_read_witness:
  "\<exists>e r. Open False [CHR 0x04] (fst (ImportFile demo_urls demo_bao (serve_object demo_object) demo_file (New [WithToken ''t'']))) = Inr e \<and>
     DataReader False e = Inr r \<and> blob_read r (serve_object demo_object) 9 1 = (''lob'', Some EOF)"
proof -
  have "ImportFile demo_urls demo_bao (serve_object demo_object) demo_file (New [WithToken ''t'']) =
    (fst (ImportFile demo_urls demo_bao (serve_object demo_object) demo_file (New [WithToken ''t''])), Inr [CHR 0x04])"
    using demo_import(3) by (metis prod.collapse)
  from import_then_read [OF this demo_urls_ok demo_import(1,2) _ serve_object_ranges, of 9 1] show ?thesis
    by (auto simp: demo_object_def bytes_read_at_def)
qed

theorem blobs_named_by_content_witness:
  "\<exists>e. Open False [CHR 0x02] (xet_run demo_urls demo_bao [Import_Bytes ''hi''] (New (map WithEndpoint [] @ map WithToken [])))
      = Inr e \<and> en_hash e = [CHR 0x02]"
proof -
  have "\<exists>e. Open False [CHR 0x02] (xet_run demo_urls demo_bao [Import_Bytes ''hi''] (New (map WithEndpoint [] @ map WithToken [])))
      = Inr e" by (rule exI [of _ "newEntryFromBytes demo_bao ''hi''"]) code_simp
  with blobs_named_by_content [OF demo_urls_ok] show ?thesis by blast
qed

end
