(* ===== verification/S3_Store.thy ===== *)
theory S3_Store
  imports Blob_Http
begin

section \<open>The S3 blob store (s3baostore/store.go)\<close>

text \<open>
  The store of blobs behind plain URLs: an import reads the object once for its hash and outboard,
  reads go to the server. The BAO encoding is a parameter.
\<close>

subsection \<open>Entries\<close>

record s3_source =
  s3_inline :: bytes
  s3_url :: bytes

record s3_entry =
  s3_hash :: bytes
  s3_size :: u64
  s3_data :: s3_source
  s3_outboard :: bytes

definition s3_newEntryFromBytes :: "(bytes \<Rightarrow> bytes \<times> bytes) \<Rightarrow> bytes \<Rightarrow> s3_entry" where
  "s3_newEntryFromBytes bao data =
     (case bao data of (outboard, root) \<Rightarrow>
       \<lparr>s3_hash = root, s3_size = of_nat (length data), s3_data = \<lparr>s3_inline = data, s3_url = []\<rparr>,
        s3_outboard = outboard\<rparr>)"

definition s3_newEntryFromRemote :: "(bytes \<Rightarrow> bytes \<times> bytes) \<Rightarrow> bytes \<Rightarrow> bytes \<Rightarrow> s3_entry" where
  "s3_newEntryFromRemote bao u data =
     (case bao data of (outboard, root) \<Rightarrow>
       \<lparr>s3_hash = root, s3_size = of_nat (length data), s3_data = \<lparr>s3_inline = [], s3_url = u\<rparr>,
        s3_outboard = outboard\<rparr>)"

record s3_http_reader =
  s3r_url :: bytes
  s3r_size :: u64

datatype s3_reader = S3_Bytes bytes | S3_Http s3_http_reader

definition s3_DataReader :: "bool \<Rightarrow> s3_entry \<Rightarrow> blob_error + s3_reader" where
  "s3_DataReader ctx_err e =
     (if ctx_err then Inl CtxError
      else if s3_url (s3_data e) = [] then Inr (S3_Bytes (s3_inline (s3_data e)))
      else Inr (S3_Http \<lparr>s3r_url = s3_url (s3_data e), s3r_size = s3_size e\<rparr>))"

definition s3_Outboard :: "bool \<Rightarrow> s3_entry \<Rightarrow> blob_error + bytes" where
  "s3_Outboard ctx_err e = (if ctx_err then Inl CtxError else Inr (s3_outboard e))"

definition s3_ReadAt :: "s3_http_reader \<Rightarrow> http \<Rightarrow> nat \<Rightarrow> int \<Rightarrow> read_result" where
  "s3_ReadAt r http n off =
     (if off < 0 then ([], Some NegativeOffset)
      else if n = 0 then ([], None)
      else let start = of_int off in
        if start \<ge> s3r_size r then ([], Some EOF)
        else let e = range_end (s3r_size r) start n in
          read_range http
            \<lparr>hq_method = ''GET'', hq_url = s3r_url r, hq_auth = None,
             hq_range = Some (range_header (unat start) (unat e))\<rparr>
            (unat (e - start + 1)) n)"

definition s3_read :: "s3_reader \<Rightarrow> http \<Rightarrow> nat \<Rightarrow> int \<Rightarrow> read_result" where
  "s3_read r http n off =
     (case r of S3_Bytes s \<Rightarrow> bytes_read_at s n off | S3_Http h \<Rightarrow> s3_ReadAt h http n off)"

subsection \<open>The store\<close>

record s3_store =
  s3_entries :: "(bytes \<times> s3_entry) list"

definition s3_New :: "(s3_store \<Rightarrow> s3_store) list \<Rightarrow> s3_store" where
  "s3_New opts = fold (\<lambda>opt s. opt s) opts \<lparr>s3_entries = []\<rparr>"

definition s3_put :: "s3_entry \<Rightarrow> s3_store \<Rightarrow> s3_store" where
  "s3_put e s = s\<lparr>s3_entries := alist_put (s3_hash e) e (s3_entries s)\<rparr>"

definition s3_Open :: "bool \<Rightarrow> bytes \<Rightarrow> s3_store \<Rightarrow> blob_error + s3_entry" where
  "s3_Open ctx_err h s = (if ctx_err then Inl CtxError else of_option NotFound (map_of (s3_entries s) h))"

definition s3_ImportBytes :: "(bytes \<Rightarrow> bytes \<times> bytes) \<Rightarrow> bytes \<Rightarrow> s3_store \<Rightarrow> s3_store \<times> bytes" where
  "s3_ImportBytes bao data s = (let e = s3_newEntryFromBytes bao data in (s3_put e s, s3_hash e))"

definition ImportURL ::
  "'x url_ops_scheme \<Rightarrow> (bytes \<Rightarrow> bytes \<times> bytes) \<Rightarrow> http \<Rightarrow> bytes \<Rightarrow> s3_store \<Rightarrow> s3_store \<times> (blob_error + bytes)" where
  "ImportURL U bao http u s =
     (case url_parse U u of
        None \<Rightarrow> (s, Inl ParseURL)
      | Some parsed \<Rightarrow>
        (case http \<lparr>hq_method = ''GET'', hq_url = url_string U parsed, hq_auth = None, hq_range = None\<rparr> of
           None \<Rightarrow> (s, Inl TransportError)
         | Some resp \<Rightarrow>
           if hr_status resp \<noteq> 200 then (s, Inl (BadStatus (hr_status resp)))
           else (case read_all resp of
             None \<Rightarrow> (s, Inl BodyError)
           | Some data \<Rightarrow>
             let e = s3_newEntryFromRemote bao (url_string U parsed) data in (s3_put e s, Inr (s3_hash e)))))"

subsection \<open>Lemmas\<close>

interpretation s3_reader: range_reader "s3_ReadAt r" "s3r_url r" None "s3r_size r" for r
  by unfold_locales (auto simp: s3_ReadAt_def Let_def)

interpretation s3_map: keyed_store "\<lambda>h e s. s\<lparr>s3_entries := alist_put h e (s3_entries s)\<rparr>"
    "\<lambda>s h. map_of (s3_entries s) h"
  by unfold_locales simp

lemma s3_Open_put: "s3_Open False h (s3_put e s) = (if h = s3_hash e then Inr e else s3_Open False h s)"
  by (simp add: s3_Open_def s3_put_def)

lemma s3_new_simps [simp]:
  "s3_hash (s3_newEntryFromRemote bao u data) = snd (bao data)"
  "s3_data (s3_newEntryFromRemote bao u data) = \<lparr>s3_inline = [], s3_url = u\<rparr>"
  "s3_size (s3_newEntryFromRemote bao u data) = of_nat (length data)"
  "s3_hash (s3_newEntryFromBytes bao data) = snd (bao data)"
  "s3_data (s3_newEntryFromBytes bao data) = \<lparr>s3_inline = data, s3_url = []\<rparr>"
  "s3_size (s3_newEntryFromBytes bao data) = of_nat (length data)"
  "s3_outboard (s3_newEntryFromRemote bao u data) = fst (bao data)"
  "s3_outboard (s3_newEntryFromBytes bao data) = fst (bao data)"
  by (simp_all add: s3_newEntryFromRemote_def s3_newEntryFromBytes_def split: prod.split)

lemma ImportURL_Inr:
  assumes "ImportURL U bao http u s = (s', Inr h)"
  obtains parsed data where "url_parse U u = Some parsed"
    "\<exists>resp. http \<lparr>hq_method = ''GET'', hq_url = url_string U parsed, hq_auth = None, hq_range = None\<rparr> = Some resp \<and>
       hr_status resp = 200 \<and> hr_body resp = data \<and> \<not> hr_broken resp"
    "s' = s3_put (s3_newEntryFromRemote bao (url_string U parsed) data) s" "h = snd (bao data)"
  using assms
  by (auto simp: ImportURL_def Let_def read_all_def split: option.split_asm if_split_asm)

subsection \<open>Properties\<close>

text \<open>C31: A blob imported by URL is the same blob as its data imported directly: both have the same
  hash, outboard and size, and every read of a non-empty buffer gives the same bytes and the same end
  of file, as long as the server still has the object.\<close>

theorem remote_blob_equals_inline:
  assumes "ImportURL U bao http u s = (s', Inr h)" and "url_parse U u = Some parsed" and "url_string U parsed \<noteq> []"
    and "http \<lparr>hq_method = ''GET'', hq_url = url_string U parsed, hq_auth = None, hq_range = None\<rparr> = Some resp"
    and "length (hr_body resp) < 2 ^ 64" and "serves_ranges later (url_string U parsed) None (hr_body resp)"
    and "0 < n" and "n < 2 ^ 63" and "off < 2 ^ 63"
  shows "\<exists>e1 e2 r1 r2. s3_Open False h s' = Inr e1 \<and>
    s3_Open False (snd (s3_ImportBytes bao (hr_body resp) t)) (fst (s3_ImportBytes bao (hr_body resp) t)) = Inr e2 \<and>
    s3_hash e1 = s3_hash e2 \<and> s3_outboard e1 = s3_outboard e2 \<and> s3_size e1 = s3_size e2 \<and>
    s3_DataReader False e1 = Inr r1 \<and> s3_DataReader False e2 = Inr r2 \<and> s3_read r1 later n off = s3_read r2 later n off"
proof -
  from assms(1,2,4) have s': "s' = s3_put (s3_newEntryFromRemote bao (url_string U parsed) (hr_body resp)) s" "h = snd (bao (hr_body resp))"
    by (auto elim!: ImportURL_Inr)
  have "s3_ReadAt \<lparr>s3r_url = url_string U parsed, s3r_size = of_nat (length (hr_body resp))\<rparr> later n off =
    bytes_read_at (hr_body resp) n off"
    using s3_reader.readAt_bytes [of later "\<lparr>s3r_url = url_string U parsed, s3r_size = of_nat (length (hr_body resp))\<rparr>"]
      assms(5-9) by (simp add: unat_of_nat)
  then show ?thesis
    using assms(3) by (simp add: s' s3_Open_put s3_ImportBytes_def Let_def s3_DataReader_def s3_read_def)
qed

subsection \<open>Witnesses\<close>

definition demo_s3_url :: url where
  "demo_s3_url = \<lparr>ul_scheme = ''https'', ul_host = ''s3'', ul_path = [], ul_raw_path = [], ul_query = [], ul_fragment = [],
     ul_rest = []\<rparr>"

definition demo_s3_urls :: url_ops where
  "demo_s3_urls = \<lparr>url_parse = (\<lambda>s. if s = [] then None else Some demo_s3_url), url_string = ul_scheme\<rparr>"

theorem remote_blob_equals_inline_witness:
  "\<exists>e. s3_Open False [CHR 0x05] (fst (ImportURL demo_s3_urls (\<lambda>d. (rev d, [CHR 0x05])) (serve_object ''object'') ''u''
     (s3_New []))) = Inr e \<and> s3_outboard e = ''tcejbo''"
proof -
  let ?i = "ImportURL demo_s3_urls (\<lambda>d. (rev d, [CHR 0x05])) (serve_object ''object'') ''u'' (s3_New [])"
  have i: "?i = (fst ?i, Inr [CHR 0x05])" by code_simp
  have parsed: "url_parse demo_s3_urls ''u'' = Some demo_s3_url" "url_string demo_s3_urls demo_s3_url = ''https''"
    by code_simp+
  have resp: "serve_object ''object'' \<lparr>hq_method = ''GET'', hq_url = url_string demo_s3_urls demo_s3_url, hq_auth = None, hq_range = None\<rparr> =
    Some (object_response ''object'')" by (simp add: serve_object_def)
  from remote_blob_equals_inline [OF i parsed(1) _ resp _ serve_object_ranges, of 1 0 "s3_New []"] show ?thesis
    by (auto simp: parsed object_response_def s3_ImportBytes_def Let_def s3_Open_put)
qed

end
