(* ===== verification/Pkarr_Naming.thy ===== *)
theory Pkarr_Naming
  imports Blob_Http
begin

section \<open>Content names (pkarrnaming)\<close>

text \<open>
  \<^verbatim>\<open>record.go\<close> and \<^verbatim>\<open>client_relay.go\<close>: the TXT value of a content root and the client that publishes
  and resolves it through a pkarr relay. Signed packets, keys and the printed form of a hash belong
  to third-party packages and are parameters; the relay is a function from requests to responses.
\<close>

subsection \<open>Parameters\<close>

datatype hash_format = Raw | HashSeq | OtherFormat nat

record content_root =
  cr_Hash :: bytes
  cr_Format :: hash_format

record ('s, 'p) pkarr_ops = url_ops +
  hash_string :: "bytes \<Rightarrow> bytes"
  from_txt_strings :: "'s \<Rightarrow> bytes \<Rightarrow> bytes list \<Rightarrow> u32 \<Rightarrow> 'p option"
  relay_payload :: "'p \<Rightarrow> bytes"
  from_relay_payload :: "bytes \<Rightarrow> bytes \<Rightarrow> 'p option"
  txt_records :: "'p \<Rightarrow> bytes \<Rightarrow> bytes list"
  public_key :: "'s \<Rightarrow> bytes"
  z32 :: "bytes \<Rightarrow> bytes"

text \<open>
  What the packages document: a hash prints as hex digits that decode to it, and the packet of a
  secret key is read back from its payload under the public key, with its records.
\<close>

definition pkarr_ok :: "('s, 'p, 'x) pkarr_ops_scheme \<Rightarrow> bool" where
  "pkarr_ok P \<longleftrightarrow>
     (\<forall>h. length h = 32 \<longrightarrow> hash_string P h = hex_encode h) \<and>
     (\<forall>s name vs ttl p. from_txt_strings P s name vs ttl = Some p \<longrightarrow>
       (\<exists>q. from_relay_payload P (public_key P s) (relay_payload P p) = Some q \<and> txt_records P q name = vs))"

subsection \<open>White space\<close>

text \<open>The encodings that \<^verbatim>\<open>unicode.IsSpace\<close> accepts, and \<^verbatim>\<open>strings.TrimSpace\<close>.\<close>

definition spaces :: "bytes list" where
  "spaces =
     [[CHR 0x09], [CHR 0x0A], [CHR 0x0B], [CHR 0x0C], [CHR 0x0D], [CHR 0x20],
      [CHR 0xC2, CHR 0x85], [CHR 0xC2, CHR 0xA0], [CHR 0xE1, CHR 0x9A, CHR 0x80],
      [CHR 0xE2, CHR 0x80, CHR 0xA8], [CHR 0xE2, CHR 0x80, CHR 0xA9], [CHR 0xE2, CHR 0x80, CHR 0xAF],
      [CHR 0xE2, CHR 0x81, CHR 0x9F], [CHR 0xE3, CHR 0x80, CHR 0x80]] @
     map (\<lambda>i. [CHR 0xE2, CHR 0x80, to_byte (128 + i)]) [0..<11]"

function trim_left_space :: "bytes \<Rightarrow> bytes" where
  "trim_left_space s =
     (case find (\<lambda>w. prefix w s) spaces of
        None \<Rightarrow> s
      | Some w \<Rightarrow> if w = [] \<or> s = [] then s else trim_left_space (drop (length w) s))"
  by pat_completeness auto
termination by (relation "measure length") simp_all

function trim_right_space :: "bytes \<Rightarrow> bytes" where
  "trim_right_space s =
     (case find (\<lambda>w. suffix w s) spaces of
        None \<Rightarrow> s
      | Some w \<Rightarrow> if w = [] \<or> s = [] then s else trim_right_space (take (length s - length w) s))"
  by pat_completeness auto
termination by (relation "measure length") simp_all

declare trim_left_space.simps [simp del] trim_right_space.simps [simp del]

definition trim_space :: "bytes \<Rightarrow> bytes" where
  "trim_space s = trim_right_space (trim_left_space s)"

subsection \<open>Records (record.go)\<close>

datatype naming_error =
    HashLength | ParseHash | UnknownFormat bytes | ParseRelayURL | EncodePacket | BuildRequest | HttpError
  | RelayStatus nat | ReadPayload | DecodePacket | MissingRecord

definition RecordString :: "('s, 'p, 'x) pkarr_ops_scheme \<Rightarrow> content_root \<Rightarrow> bytes" where
  "RecordString P r =
     (let s = ''blake3:'' @ hash_string P (cr_Hash r) in if cr_Format r = HashSeq then s @ '':seq'' else s)"

definition ParseRecord :: "bytes \<Rightarrow> naming_error + content_root" where
  "ParseRecord s0 =
     (let s = trim_prefix (trim_space s0) ''blake3:'';
          hexPart = takeWhile (\<lambda>c. c \<noteq> CHR '':'') s;
          suffix' = drop 1 (dropWhile (\<lambda>c. c \<noteq> CHR '':'') s) in
      if length hexPart \<noteq> 64 then Inl HashLength
      else case hex_decode hexPart of
        None \<Rightarrow> Inl ParseHash
      | Some raw \<Rightarrow>
        if suffix' \<in> {[], ''raw''} then Inr \<lparr>cr_Hash = raw, cr_Format = Raw\<rparr>
        else if suffix' \<in> {''seq'', ''hashseq''} then Inr \<lparr>cr_Hash = raw, cr_Format = HashSeq\<rparr>
        else Inl (UnknownFormat suffix'))"

subsection \<open>The relay client (client_relay.go)\<close>

record relay_client =
  rc_relayURL :: url
  rc_ttl :: u32

definition DefaultRelayURL :: bytes where
  "DefaultRelayURL = ''https://dns.iroh.link/pkarr''"

definition DefaultTTL :: u32 where
  "DefaultTTL = 30"

definition contentName :: bytes where
  "contentName = ''_content''"

definition WithTTL :: "u32 \<Rightarrow> relay_client \<Rightarrow> relay_client" where
  "WithTTL ttl r = (if ttl \<noteq> 0 then r\<lparr>rc_ttl := ttl\<rparr> else r)"

definition NewRelayClient ::
  "'x url_ops_scheme \<Rightarrow> bytes \<Rightarrow> (relay_client \<Rightarrow> relay_client) list \<Rightarrow> naming_error + relay_client" where
  "NewRelayClient U relayURL opts =
     (case url_parse U (if relayURL = [] then DefaultRelayURL else relayURL) of
        None \<Rightarrow> Inl ParseRelayURL
      | Some u \<Rightarrow> Inr (fold (\<lambda>opt r. opt r) opts \<lparr>rc_relayURL = u, rc_ttl = DefaultTTL\<rparr>))"

definition keyURL :: "'x url_ops_scheme \<Rightarrow> relay_client \<Rightarrow> bytes \<Rightarrow> bytes" where
  "keyURL U r k =
     url_string U ((rc_relayURL r)\<lparr>ul_path := trim_right_slash (ul_path (rc_relayURL r)) @ CHR ''/'' # k\<rparr>)"

text \<open>
  The relay has a state of type \<open>'r\<close>: \<open>put\<close> changes it and gives the status of the response, \<open>get\<close>
  the status and the body; \<open>None\<close> is an error of the transport, a body of \<open>None\<close> one of reading it.
\<close>

definition Publish ::
  "('s, 'p, 'x) pkarr_ops_scheme \<Rightarrow> (bytes \<Rightarrow> bytes \<Rightarrow> 'r \<Rightarrow> 'r \<times> nat option) \<Rightarrow> 's \<Rightarrow> content_root \<Rightarrow> relay_client \<Rightarrow>
   'r \<Rightarrow> 'r \<times> (naming_error + unit)" where
  "Publish P put sk record' r st =
     (case from_txt_strings P sk contentName [RecordString P record'] (rc_ttl r) of
        None \<Rightarrow> (st, Inl EncodePacket)
      | Some packet \<Rightarrow>
        (case put (keyURL P r (z32 P (public_key P sk))) (relay_payload P packet) st of
           (st', None) \<Rightarrow> (st', Inl HttpError)
         | (st', Some status) \<Rightarrow> (st', if status < 200 \<or> status \<ge> 300 then Inl (RelayStatus status) else Inr ())))"

definition Resolve ::
  "('s, 'p, 'x) pkarr_ops_scheme \<Rightarrow> (bytes \<Rightarrow> 'r \<Rightarrow> (nat \<times> bytes option) option) \<Rightarrow> bytes \<Rightarrow> relay_client \<Rightarrow>
   'r \<Rightarrow> naming_error + content_root" where
  "Resolve P get pk r st =
     (case get (keyURL P r (z32 P pk)) st of
        None \<Rightarrow> Inl HttpError
      | Some (status, body) \<Rightarrow>
        if status < 200 \<or> status \<ge> 300 then Inl (RelayStatus status)
        else case body of
          None \<Rightarrow> Inl ReadPayload
        | Some payload \<Rightarrow>
          (case from_relay_payload P pk payload of
             None \<Rightarrow> Inl DecodePacket
           | Some packet \<Rightarrow>
             (case txt_records P packet contentName of
                [] \<Rightarrow> Inl MissingRecord
              | v # _ \<Rightarrow> ParseRecord v)))"

subsection \<open>Lemmas\<close>

text \<open>A text that no white space starts or ends is not trimmed.\<close>

lemma spaces_ends: "list_all (\<lambda>w. w \<noteq> [] \<and> hd w \<notin> set ''blake3:0123456789abcdefq'' \<and> last w \<notin> set ''blake3:0123456789abcdefq'') spaces"
  by code_simp

lemma trim_space_id:
  assumes "s \<noteq> []" and "hd s \<in> set ''blake3:0123456789abcdefq''" and "last s \<in> set ''blake3:0123456789abcdefq''"
  shows "trim_space s = s"
proof -
  have "\<not> prefix w s" "\<not> suffix w s" if w: "w \<in> set spaces" for w
  proof -
    from w spaces_ends have ne: "w \<noteq> []" and e: "hd w \<noteq> hd s" "last w \<noteq> last s"
      using assms(2,3) unfolding list_all_iff by metis+
    then show "\<not> prefix w s" "\<not> suffix w s" by (auto simp: prefix_def suffix_def)
  qed
  then have "find (\<lambda>w. prefix w s) spaces = None" "find (\<lambda>w. suffix w s) spaces = None"
    by (simp_all add: find_None_iff)
  then show ?thesis by (simp add: trim_space_def trim_left_space.simps [of s] trim_right_space.simps [of s])
qed

lemma ParseRecord_hex:
  assumes "length h = 32" and "t \<in> {[], '':seq''}"
  shows "ParseRecord (''blake3:'' @ hex_encode h @ t) = Inr \<lparr>cr_Hash = h, cr_Format = (if t = [] then Raw else HashSeq)\<rparr>"
proof -
  have ne: "hex_encode h \<noteq> []" using assms(1) by (metis length_0_conv length_hex_encode mult_eq_0_iff zero_neq_numeral)
  have last: "last (hex_encode h) \<in> set ''0123456789abcdef''" using hex_chars [of h] last_in_set [OF ne] by blast
  have "last (''blake3:'' @ hex_encode h @ t) \<in> set ''blake3:0123456789abcdefq''"
  proof (cases "t = []")
    case True
    with last ne show ?thesis by auto
  qed (use assms(2) in simp)
  then have trim: "trim_space (''blake3:'' @ hex_encode h @ t) = ''blake3:'' @ hex_encode h @ t"
    by (intro trim_space_id) simp_all
  have free: "CHR '':'' \<notin> set (hex_encode h)" using hex_chars [of h] by auto
  have parts: "takeWhile (\<lambda>c. c \<noteq> CHR '':'') (hex_encode h @ t) = hex_encode h"
    "dropWhile (\<lambda>c. c \<noteq> CHR '':'') (hex_encode h @ t) = t"
  proof -
    have P: "x \<noteq> CHR '':''" if "x \<in> set (hex_encode h)" for x using that free by metis
    have "takeWhile (\<lambda>c. c \<noteq> CHR '':'') t = []" "dropWhile (\<lambda>c. c \<noteq> CHR '':'') t = t"
      using assms(2) by auto
    then show "takeWhile (\<lambda>c. c \<noteq> CHR '':'') (hex_encode h @ t) = hex_encode h"
      "dropWhile (\<lambda>c. c \<noteq> CHR '':'') (hex_encode h @ t) = t"
      using takeWhile_append2 [of "hex_encode h" "\<lambda>c. c \<noteq> CHR '':''" t]
        dropWhile_append2 [of "hex_encode h" "\<lambda>c. c \<noteq> CHR '':''" t] P by simp_all
  qed
  show ?thesis
    unfolding ParseRecord_def trim trim_prefix_append Let_def parts using assms by auto
qed

lemma record_back:
  assumes "pkarr_ok P" and "length (cr_Hash r) = 32" and "cr_Format r = Raw \<or> cr_Format r = HashSeq"
  shows "ParseRecord (RecordString P r) = Inr r"
proof -
  have "hash_string P (cr_Hash r) = hex_encode (cr_Hash r)" using assms(1,2) by (simp add: pkarr_ok_def)
  with assms(3) ParseRecord_hex [OF assms(2), of "[]"] ParseRecord_hex [OF assms(2), of "'':seq''"]
  show ?thesis by (cases r) (auto simp: RecordString_def Let_def)
qed

text \<open>A relay that returns what it last accepted for a URL.\<close>

definition relay_keeps ::
  "(bytes \<Rightarrow> bytes \<Rightarrow> 'r \<Rightarrow> 'r \<times> nat option) \<Rightarrow> (bytes \<Rightarrow> 'r \<Rightarrow> (nat \<times> bytes option) option) \<Rightarrow> bool" where
  "relay_keeps put get \<longleftrightarrow> (\<forall>u b st st' status. put u b st = (st', Some status) \<longrightarrow> 200 \<le> status \<longrightarrow> status < 300 \<longrightarrow>
     get u st' = Some (200, Some b))"

subsection \<open>Properties\<close>

text \<open>The TXT value of a content root parses back to it.\<close>

theorem record_roundtrip:
  assumes "pkarr_ok P" and "length (cr_Hash r) = 32" and "cr_Format r = Raw \<or> cr_Format r = HashSeq"
  shows "ParseRecord (RecordString P r) = Inr r"
  by (rule record_back [OF assms])

text \<open>What a key publishes, everyone resolves under its public key: a client of the same
  relay, whatever its time to live, gets the published root if the relay keeps what it accepts.\<close>

theorem publish_then_resolve:
  assumes "pkarr_ok P" and "length (cr_Hash r) = 32" and "cr_Format r = Raw \<or> cr_Format r = HashSeq"
    and "NewRelayClient P relayURL (map WithTTL ttls) = Inr c1" and "NewRelayClient P relayURL (map WithTTL ttls') = Inr c2"
    and "relay_keeps put get" and "Publish P put sk r c1 st = (st', Inr ())"
  shows "Resolve P get (public_key P sk) c2 st' = Inr r"
proof -
  have url: "rc_relayURL (fold (\<lambda>opt r. opt r) (map WithTTL ts) c) = rc_relayURL c" for ts c
    by (induction ts arbitrary: c) (simp_all add: WithTTL_def)
  then have "keyURL P c1 = keyURL P c2"
    using assms(4,5) by (auto simp: NewRelayClient_def keyURL_def fun_eq_iff split: option.splits)
  moreover from assms(7) obtain p status where p: "from_txt_strings P sk contentName [RecordString P r] (rc_ttl c1) = Some p"
    "put (keyURL P c1 (z32 P (public_key P sk))) (relay_payload P p) st = (st', Some status)" "200 \<le> status" "status < 300"
    by (auto simp: Publish_def split: option.splits if_splits prod.splits)
  moreover obtain q where "from_relay_payload P (public_key P sk) (relay_payload P p) = Some q"
    "txt_records P q contentName = [RecordString P r]"
    using assms(1) p(1) unfolding pkarr_ok_def by blast
  moreover have "get (keyURL P c1 (z32 P (public_key P sk))) st' = Some (200, Some (relay_payload P p))"
    using assms(6) p(2-4) unfolding relay_keeps_def by blast
  ultimately show ?thesis
    using record_back [OF assms(1-3)] by (simp add: Resolve_def)
qed

subsection \<open>Witnesses\<close>

definition demo_pkarr :: "(bytes, bytes) pkarr_ops" where
  "demo_pkarr = url_ops.extend
     \<lparr>url_parse = (\<lambda>s. Some \<lparr>ul_scheme = ''https'', ul_host = s, ul_path = ''/p/'', ul_raw_path = [], ul_query = [],
        ul_fragment = [], ul_rest = []\<rparr>), url_string = (\<lambda>u. ul_host u @ ul_path u)\<rparr>
     (pkarr_ops.fields hex_encode (\<lambda>s name vs ttl. if name = contentName \<and> length vs = 1 then Some (hd vs) else None)
       (\<lambda>p. p) (\<lambda>pk b. Some b) (\<lambda>p name. [p]) (\<lambda>s. ''pk-'' @ s) (\<lambda>pk. pk))"

lemma demo_pkarr_ok: "pkarr_ok demo_pkarr"
  by (auto simp: pkarr_ok_def demo_pkarr_def url_ops.defs pkarr_ops.defs length_Suc_conv)

definition demo_root :: content_root where
  "demo_root = \<lparr>cr_Hash = replicate 32 CHR ''x'', cr_Format = HashSeq\<rparr>"

theorem record_roundtrip_witness: "ParseRecord (RecordString demo_pkarr demo_root) = Inr demo_root"
  by (rule record_roundtrip [OF demo_pkarr_ok]) (simp_all add: demo_root_def)

definition demo_put :: "bytes \<Rightarrow> bytes \<Rightarrow> (bytes \<times> bytes) list \<Rightarrow> (bytes \<times> bytes) list \<times> nat option" where
  "demo_put u b st = (alist_put u b st, Some 204)"

definition demo_get :: "bytes \<Rightarrow> (bytes \<times> bytes) list \<Rightarrow> (nat \<times> bytes option) option" where
  "demo_get u st = (case map_of st u of None \<Rightarrow> Some (404, Some []) | Some b \<Rightarrow> Some (200, Some b))"

end
