(* ===== verification/Pkarr_Command.thy ===== *)
theory Pkarr_Command
  imports Pkarr_Naming GoText
begin

section \<open>The naming command (pkarrnaming/cmd/pkarr-naming/main.go)\<close>

text \<open>
  The subcommands publish and resolve after their flags are parsed, over the client of \<^verbatim>\<open>Pkarr_Naming\<close>. The parsers
  of keys and the printed form of a public key are third-party.
\<close>

datatype naming_cmd_error = NamingUsage | ParseSecretKeyFailed | ParsePublicKeyFailed | NamingFailed naming_error

record 's naming_cli =
  nc_secret :: "bytes \<Rightarrow> 's option"
  nc_public :: "bytes \<Rightarrow> bytes option"
  nc_key_string :: "bytes \<Rightarrow> bytes"

text \<open>The flag ttl is a machine word of 64 bits that is converted to one of 32; the result is what is printed.\<close>

definition naming_runPublish ::
  "'s naming_cli \<Rightarrow> ('s, 'p, 'x) pkarr_ops_scheme \<Rightarrow> (bytes \<Rightarrow> bytes \<Rightarrow> 'r \<Rightarrow> 'r \<times> nat option) \<Rightarrow> bytes \<Rightarrow> u64 \<Rightarrow> bytes list \<Rightarrow>
   'r \<Rightarrow> 'r \<times> (naming_cmd_error + bytes)" where
  "naming_runPublish C P put relay ttl args st =
     (case args of
        [skText, hashText] \<Rightarrow>
          (case nc_secret C skText of
             None \<Rightarrow> (st, Inl ParseSecretKeyFailed)
           | Some sk \<Rightarrow>
             (case ParseRecord hashText of
                Inl e \<Rightarrow> (st, Inl (NamingFailed e))
              | Inr root \<Rightarrow>
                (case NewRelayClient P relay (map WithTTL [ucast ttl]) of
                   Inl e \<Rightarrow> (st, Inl (NamingFailed e))
                 | Inr client \<Rightarrow>
                   (case Publish P put sk root client st of
                      (st', Inl e) \<Rightarrow> (st', Inl (NamingFailed e))
                    | (st', Inr _) \<Rightarrow> (st', Inr (nc_key_string C (public_key P sk) @ [nl]))))))
      | _ \<Rightarrow> (st, Inl NamingUsage))"

definition naming_runResolve ::
  "'s naming_cli \<Rightarrow> ('s, 'p, 'x) pkarr_ops_scheme \<Rightarrow> (bytes \<Rightarrow> 'r \<Rightarrow> (nat \<times> bytes option) option) \<Rightarrow> bytes \<Rightarrow> bytes list \<Rightarrow>
   'r \<Rightarrow> naming_cmd_error + bytes" where
  "naming_runResolve C P get relay args st =
     (case args of
        [keyText] \<Rightarrow>
          (case nc_public C keyText of
             None \<Rightarrow> Inl ParsePublicKeyFailed
           | Some pk \<Rightarrow>
             (case NewRelayClient P relay (map WithTTL []) of
                Inl e \<Rightarrow> Inl (NamingFailed e)
              | Inr client \<Rightarrow>
                (case Resolve P get pk client st of
                   Inl e \<Rightarrow> Inl (NamingFailed e)
                 | Inr root \<Rightarrow> Inr (RecordString P root @ [nl]))))
      | _ \<Rightarrow> Inl NamingUsage)"

subsection \<open>Lemmas\<close>

lemma ParseRecord_well:
  "ParseRecord s = Inr r \<Longrightarrow> length (cr_Hash r) = 32 \<and> (cr_Format r = Raw \<or> cr_Format r = HashSeq)"
  by (auto simp: ParseRecord_def Let_def dest: hex_decode_length split: if_split_asm option.split_asm)

text \<open>A time to live of \<open>2 ^ 32\<close> seconds is converted to zero, and the option ignores a zero: the default is published.\<close>

lemma large_ttl_is_default: "naming_runPublish C P put relay (2 ^ 32) = naming_runPublish C P put relay 30"
proof -
  have "ucast (2 ^ 32 :: u64) = (0 :: u32)" "ucast (30 :: u64) = DefaultTTL" by (simp_all add: DefaultTTL_def)
  then have "NewRelayClient P relay (map WithTTL [ucast (2 ^ 32 :: u64)]) = NewRelayClient P relay (map WithTTL [ucast (30 :: u64)])"
    by (simp add: NewRelayClient_def WithTTL_def DefaultTTL_def split: option.split)
  then show ?thesis unfolding naming_runPublish_def by (simp only:)
qed

subsection \<open>Properties\<close>


subsection \<open>Witnesses\<close>

text \<open>A name with white space around it and a format that is not the canonical one.\<close>

definition demo_name :: bytes where
  "demo_name = '' '' @ hex_encode (cr_Hash demo_root) @ '':hashseq'' @ [nl]"

definition demo_naming_cli :: "bytes naming_cli" where
  "demo_naming_cli = \<lparr>nc_secret = Some, nc_public = Some, nc_key_string = (\<lambda>k. k)\<rparr>"


end
