(* ===== verification/Relay_Demo.thy ===== *)
theory Relay_Demo
  imports GoText
begin

section \<open>The browser relay echo (wasmrelay/cmd/wasmrelay-demo/main\_js.go)\<close>

text \<open>
  Two endpoints in one page exchange four frames over a relay, and the page reports that the relay passes. The set-up
  of the endpoints is third-party; modelled are the payloads, the frames and the two sides of the exchange, each over
  the bytes it receives.
\<close>

subsection \<open>Frames\<close>

text \<open>
  One side of the stream: the bytes that arrive before it ends, the bytes written, and the outcomes of the next calls of
  \<^verbatim>\<open>Write\<close>, which succeed when none is listed.
\<close>

record duplex =
  dx_in :: bytes
  dx_out :: bytes
  dx_writes :: "bool list"

definition relay_payload_of :: "nat \<Rightarrow> bytes" where
  "relay_payload_of seed = map (\<lambda>i. to_byte (seed + i * 31)) [0..<64 * 1024 + seed mod 17]"

definition duplex_write :: "bytes \<Rightarrow> duplex \<Rightarrow> duplex \<times> bool" where
  "duplex_write b s =
     (case dx_writes s of
        [] \<Rightarrow> (s\<lparr>dx_out := dx_out s @ b\<rparr>, True)
      | ok # ws \<Rightarrow> if ok then (s\<lparr>dx_out := dx_out s @ b, dx_writes := ws\<rparr>, True) else (s\<lparr>dx_writes := ws\<rparr>, False))"

definition relay_writeFrame :: "bytes \<Rightarrow> duplex \<Rightarrow> duplex \<times> bool" where
  "relay_writeFrame p s =
     (case duplex_write (be_bytes 4 (length p mod 2 ^ 32)) s of
        (s', False) \<Rightarrow> (s', False)
      | (s', True) \<Rightarrow> duplex_write p s')"

definition relay_readFrame :: "duplex \<Rightarrow> duplex \<times> bytes option" where
  "relay_readFrame s =
     (case read_be 4 (dx_in s) of
        None \<Rightarrow> (s\<lparr>dx_in := []\<rparr>, None)
      | Some (n, r) \<Rightarrow> if length r < n then (s\<lparr>dx_in := []\<rparr>, None) else (s\<lparr>dx_in := drop n r\<rparr>, Some (take n r)))"

subsection \<open>The two sides\<close>

datatype echo_error = EchoRead nat | EchoMismatch nat | EchoWrite nat | EchoSleep | EchoClose

text \<open>The rounds from \<open>i\<close> on; \<open>sleep\<close> is whether the pause after the second frame ends before the deadline.\<close>

fun serve_rounds :: "bool \<Rightarrow> nat \<Rightarrow> nat \<Rightarrow> duplex \<Rightarrow> duplex \<times> (echo_error + unit)" where
  "serve_rounds sleep i 0 s = (s, Inr ())"
| "serve_rounds sleep i (Suc n) s =
     (case relay_readFrame s of
        (s1, None) \<Rightarrow> (s1, Inl (EchoRead i))
      | (s1, Some got) \<Rightarrow>
        if got \<noteq> relay_payload_of i then (s1, Inl (EchoMismatch i))
        else (case relay_writeFrame (relay_payload_of (100 + i)) s1 of
          (s2, False) \<Rightarrow> (s2, Inl (EchoWrite i))
        | (s2, True) \<Rightarrow> if i = 1 \<and> \<not> sleep then (s2, Inl EchoSleep) else serve_rounds sleep (Suc i) n s2))"

fun exchange_rounds :: "nat \<Rightarrow> nat \<Rightarrow> duplex \<Rightarrow> duplex \<times> (echo_error + unit)" where
  "exchange_rounds i 0 s = (s, Inr ())"
| "exchange_rounds i (Suc n) s =
     (case relay_writeFrame (relay_payload_of i) s of
        (s1, False) \<Rightarrow> (s1, Inl (EchoWrite i))
      | (s1, True) \<Rightarrow>
        (case relay_readFrame s1 of
           (s2, None) \<Rightarrow> (s2, Inl (EchoRead i))
         | (s2, Some got) \<Rightarrow>
           if got \<noteq> relay_payload_of (100 + i) then (s2, Inl (EchoMismatch i)) else exchange_rounds (Suc i) n s2))"

definition close_stream :: "bool \<Rightarrow> duplex \<times> (echo_error + unit) \<Rightarrow> duplex \<times> (echo_error + unit)" where
  "close_stream close r = (fst r, case snd r of Inl e \<Rightarrow> Inl e | Inr _ \<Rightarrow> if close then Inr () else Inl EchoClose)"

definition serveFrames :: "bool \<Rightarrow> bool \<Rightarrow> duplex \<Rightarrow> duplex \<times> (echo_error + unit)" where
  "serveFrames sleep close s = close_stream close (serve_rounds sleep 0 4 s)"

definition exchangeFrames :: "bool \<Rightarrow> duplex \<Rightarrow> duplex \<times> (echo_error + unit)" where
  "exchangeFrames close s = close_stream close (exchange_rounds 0 4 s)"

subsection \<open>Lemmas\<close>

definition relay_frame :: "bytes \<Rightarrow> bytes" where
  "relay_frame p = be_bytes 4 (length p) @ p"

fun relay_frames :: "nat \<Rightarrow> nat \<Rightarrow> bytes" where
  "relay_frames i 0 = []"
| "relay_frames i (Suc n) = relay_frame (relay_payload_of i) @ relay_frames (Suc i) n"

lemma payload_small: "length (relay_payload_of i) < 2 ^ 32"
proof -
  have "i mod 17 < 17" by simp
  then show ?thesis by (simp add: relay_payload_of_def)
qed

lemma writeFrame_open:
  "dx_writes s = [] \<Longrightarrow> length p < 2 ^ 32 \<Longrightarrow> relay_writeFrame p s = (s\<lparr>dx_out := dx_out s @ relay_frame p\<rparr>, True)"
  by (simp add: relay_writeFrame_def duplex_write_def relay_frame_def)

text \<open>A frame is read exactly when its bytes come next.\<close>

lemma be_val_4_eq: "length h = 4 \<Longrightarrow> n < 2 ^ 32 \<Longrightarrow> be_val h = n \<longleftrightarrow> h = be_bytes 4 n"
  using be_val_inj [of h "be_bytes 4 n"] by (auto simp: be_val_be_bytes)

lemma readFrame_some:
  assumes "length p < 2 ^ 32"
  shows "snd (relay_readFrame s) = Some p \<longleftrightarrow> (\<exists>r. dx_in s = relay_frame p @ r \<and> relay_readFrame s = (s\<lparr>dx_in := r\<rparr>, Some p))"
proof
  assume got: "snd (relay_readFrame s) = Some p"
  let ?h = "take 4 (dx_in s)" and ?r = "drop 4 (dx_in s)"
  from got have h: "4 \<le> length (dx_in s)" "be_val ?h \<le> length ?r" "take (be_val ?h) ?r = p"
    "relay_readFrame s = (s\<lparr>dx_in := drop (be_val ?h) ?r\<rparr>, Some p)"
    by (auto simp: relay_readFrame_def read_be_def split: if_split_asm)
  then have n: "be_val ?h = length p" by auto
  then have "?h = be_bytes 4 (length p)" using be_val_4_eq [of ?h "length p"] assms h(1) by simp
  then have "dx_in s = relay_frame p @ drop (length p) ?r"
    using h(3) n by (metis append_assoc append_take_drop_id relay_frame_def)
  with h(4) n show "\<exists>r. dx_in s = relay_frame p @ r \<and> relay_readFrame s = (s\<lparr>dx_in := r\<rparr>, Some p)" by auto
qed auto

lemma readFrame_frame:
  "length p < 2 ^ 32 \<Longrightarrow> dx_in s = relay_frame p @ r \<Longrightarrow> relay_readFrame s = (s\<lparr>dx_in := r\<rparr>, Some p)"
  by (simp add: relay_readFrame_def relay_frame_def read_be_be_bytes)

text \<open>A side whose writes succeed answers the frames it gets, and is content exactly when they are the ones it waits for.\<close>

lemma serve_rounds_exact:
  assumes "dx_writes s = []"
  shows "snd (serve_rounds True i n s) = Inr () \<longleftrightarrow> prefix (relay_frames i n) (dx_in s)"
    and "prefix (relay_frames i n) (dx_in s) \<Longrightarrow> dx_out (fst (serve_rounds True i n s)) = dx_out s @ relay_frames (100 + i) n"
proof -
  have "(snd (serve_rounds True i n s) = Inr () \<longleftrightarrow> prefix (relay_frames i n) (dx_in s)) \<and>
    (prefix (relay_frames i n) (dx_in s) \<longrightarrow> dx_out (fst (serve_rounds True i n s)) = dx_out s @ relay_frames (100 + i) n)"
    using assms
  proof (induction n arbitrary: i s)
    case (Suc n)
    let ?p = "relay_payload_of i"
    show ?case
    proof (cases "\<exists>r. dx_in s = relay_frame ?p @ r")
      case True
      then obtain r where r: "dx_in s = relay_frame ?p @ r" by blast
      note readFrame_frame [OF payload_small r]
      with Suc.IH [of "s\<lparr>dx_in := r, dx_out := dx_out s @ relay_frame (relay_payload_of (100 + i))\<rparr>" "Suc i"] r Suc.prems
      show ?thesis by (simp add: writeFrame_open [OF _ payload_small])
    next
      case False
      then have "snd (relay_readFrame s) \<noteq> Some ?p" using readFrame_some [OF payload_small] by metis
      moreover have "\<not> prefix (relay_frames i (Suc n)) (dx_in s)" using False by (auto simp: prefix_def)
      ultimately show ?thesis by (auto split: prod.split option.split)
    qed
  qed simp
  then show "snd (serve_rounds True i n s) = Inr () \<longleftrightarrow> prefix (relay_frames i n) (dx_in s)"
    "prefix (relay_frames i n) (dx_in s) \<Longrightarrow> dx_out (fst (serve_rounds True i n s)) = dx_out s @ relay_frames (100 + i) n" by blast+
qed

lemma exchange_rounds_exact:
  assumes "dx_writes s = []"
  shows "snd (exchange_rounds i n s) = Inr () \<longleftrightarrow> prefix (relay_frames (100 + i) n) (dx_in s)"
    and "prefix (relay_frames (100 + i) n) (dx_in s) \<Longrightarrow> dx_out (fst (exchange_rounds i n s)) = dx_out s @ relay_frames i n"
proof -
  have "(snd (exchange_rounds i n s) = Inr () \<longleftrightarrow> prefix (relay_frames (100 + i) n) (dx_in s)) \<and>
    (prefix (relay_frames (100 + i) n) (dx_in s) \<longrightarrow> dx_out (fst (exchange_rounds i n s)) = dx_out s @ relay_frames i n)"
    using assms
  proof (induction n arbitrary: i s)
    case (Suc n)
    let ?p = "relay_payload_of (100 + i)" and ?s = "s\<lparr>dx_out := dx_out s @ relay_frame (relay_payload_of i)\<rparr>"
    note wrote = writeFrame_open [OF Suc.prems payload_small [of i]]
    show ?case
    proof (cases "\<exists>r. dx_in s = relay_frame ?p @ r")
      case True
      then obtain r where r: "dx_in ?s = relay_frame ?p @ r" by auto
      note readFrame_frame [OF payload_small r]
      with Suc.IH [of "?s\<lparr>dx_in := r\<rparr>" "Suc i"] r Suc.prems
      show ?thesis by (simp add: wrote)
    next
      case False
      then have "snd (relay_readFrame ?s) \<noteq> Some ?p" using readFrame_some [OF payload_small, of ?s] by auto
      moreover have "\<not> prefix (relay_frames (100 + i) (Suc n)) (dx_in s)" using False by (auto simp: prefix_def)
      ultimately show ?thesis using wrote by (auto split: prod.split option.split)
    qed
  qed simp
  then show "snd (exchange_rounds i n s) = Inr () \<longleftrightarrow> prefix (relay_frames (100 + i) n) (dx_in s)"
    "prefix (relay_frames (100 + i) n) (dx_in s) \<Longrightarrow> dx_out (fst (exchange_rounds i n s)) = dx_out s @ relay_frames i n" by blast+
qed

text \<open>
  The page passes only if every byte came through: a side that ends with success has received all four frames of the
  other one, byte for byte, and the two sides fed with each other's output both end with success.
\<close>

lemma echo_pass_means_intact:
  assumes "dx_writes s = []"
  shows "snd (exchangeFrames True s) = Inr () \<longleftrightarrow> prefix (relay_frames 100 4) (dx_in s)"
    and "snd (serveFrames True True s) = Inr () \<longleftrightarrow> prefix (relay_frames 0 4) (dx_in s)"
  using exchange_rounds_exact(1) [OF assms, of 0 4] serve_rounds_exact(1) [OF assms, of 0 4]
  by (auto simp: exchangeFrames_def serveFrames_def close_stream_def split: sum.split)

lemma echo_both_pass:
  assumes "s = \<lparr>dx_in = relay_frames 0 4, dx_out = [], dx_writes = []\<rparr>" and "c = \<lparr>dx_in = relay_frames 100 4, dx_out = [], dx_writes = []\<rparr>"
  shows "dx_out (fst (serveFrames True True s)) = dx_in c \<and> dx_out (fst (exchangeFrames True c)) = dx_in s"
  using serve_rounds_exact(2) [of s 0 4] exchange_rounds_exact(2) [of c 0 4] assms
  by (simp add: serveFrames_def exchangeFrames_def close_stream_def)

end
